(* ===== verification/Garnet_Prelude.thy ===== *)
theory Garnet_Prelude
  imports Main "HOL-Library.Word" "HOL-Library.Monad_Syntax" "HOL-Library.Multiset"
begin

text \<open>
  What the components share.

  \<^item> The types of the model: simulated time (\<open>tick\<close>, \<open>cycles\<close>), 64-bit masks, and the
    conventions for failure.  An operation that can abort the simulator (a failed
    \<^verbatim>\<open>assert\<close>, a \<^verbatim>\<open>panic\<close>, a \<^verbatim>\<open>fatal\<close>, an access outside a \<^verbatim>\<open>std::vector\<close>) returns
    an \<open>option\<close>; \<open>None\<close> is the abort, and the \<open>do\<close> notation threads it.
  \<^item> \<open>check\<close> is \<^verbatim>\<open>assert\<close>, \<open>at\<close> and \<open>put\<close> are \<^verbatim>\<open>v[i]\<close> as a read and as the target of an
    assignment.
  \<^item> The compiler intrinsics on 64-bit masks that Garnet uses:
    \<^verbatim>\<open>__builtin_ctzll\<close>, \<^verbatim>\<open>__builtin_popcountll\<close>, and the idiom \<^verbatim>\<open>mask &= mask - 1\<close>.
  \<^item> Loops over an index range, with failure (\<open>for_range\<close>), and search loops that return early.
\<close>

unbundle bit_operations_syntax

named_theorems garnet_defs "definitions that the component proofs unfold"
named_theorems garnet_inv "operations keep the invariant of their component"

type_synonym tick = nat
type_synonym cycles = nat
type_synonym mask64 = "64 word"

subsection \<open>Assertions and vector accesses\<close>

definition check :: "bool \<Rightarrow> unit option" where
  "check b = (if b then Some () else None)"

definition at :: "'a list \<Rightarrow> nat \<Rightarrow> 'a option" where
  "at xs i = (if i < length xs then Some (xs ! i) else None)"

definition put :: "'a list \<Rightarrow> nat \<Rightarrow> 'a \<Rightarrow> 'a list option" where
  "put xs i x = (if i < length xs then Some (xs[i := x]) else None)"

lemma check_eq_Some [simp]: "check b = Some u \<longleftrightarrow> b"
  by (simp add: check_def)

lemma check_True [simp]: "check True = Some ()"
  by (simp add: check_def)

lemma check_False [simp]: "check False = None"
  by (simp add: check_def)

lemma at_eq_Some [simp]: "at xs i = Some x \<longleftrightarrow> i < length xs \<and> xs ! i = x"
  by (auto simp: at_def)

lemma at_eq_None [simp]: "at xs i = None \<longleftrightarrow> length xs \<le> i"
  by (auto simp: at_def)

lemma put_eq_Some [simp]: "put xs i x = Some ys \<longleftrightarrow> i < length xs \<and> ys = xs[i := x]"
  by (auto simp: put_def)

lemma put_eq_None [simp]: "put xs i x = None \<longleftrightarrow> length xs \<le> i"
  by (auto simp: put_def)

lemmas option_bind_conv = bind_eq_Some_conv bind_eq_None_conv

subsection \<open>Loops\<close>

text \<open>\<open>for_list f xs s\<close> is a range-based \<^verbatim>\<open>for\<close> whose body may abort.\<close>

fun for_list :: "('a \<Rightarrow> 's \<Rightarrow> 's option) \<Rightarrow> 'a list \<Rightarrow> 's \<Rightarrow> 's option" where
  "for_list f [] s = Some s"
| "for_list f (x # xs) s = Option.bind (f x s) (for_list f xs)"

text \<open>\<open>for_range f n s\<close> is \<^verbatim>\<open>for (int i = 0; i < n; i++)\<close>.\<close>

definition for_range :: "(nat \<Rightarrow> 's \<Rightarrow> 's option) \<Rightarrow> nat \<Rightarrow> 's \<Rightarrow> 's option" where
  "for_range f n s = for_list f [0..<n] s"

lemma for_list_append:
  "for_list f (xs @ ys) s = Option.bind (for_list f xs s) (for_list f ys)"
  by (induction xs arbitrary: s) (auto split: Option.bind_split)

lemma for_list_invariant:
  assumes "for_list f xs s = Some t" and "P s"
    and "\<And>x s t. x \<in> set xs \<Longrightarrow> P s \<Longrightarrow> f x s = Some t \<Longrightarrow> P t"
  shows "P t"
  using assms
proof (induction xs arbitrary: s)
  case Nil
  then show ?case by simp
next
  case (Cons x xs)
  from Cons.prems(1) obtain u where u: "f x s = Some u" and t: "for_list f xs u = Some t"
    by (auto simp: bind_eq_Some_conv)
  have "P u" using Cons.prems(3) [OF _ Cons.prems(2) u] by simp
  then show ?case using Cons.IH [OF t] Cons.prems(3) by (metis list.set_intros(2))
qed

lemma for_list_defined:
  assumes "P s"
    and "\<And>x s. x \<in> set xs \<Longrightarrow> P s \<Longrightarrow> \<exists>t. f x s = Some t \<and> P t"
  shows "\<exists>t. for_list f xs s = Some t \<and> P t"
  using assms
proof (induction xs arbitrary: s)
  case Nil
  then show ?case by simp
next
  case (Cons x xs)
  from Cons.prems obtain u where "f x s = Some u" and "P u"
    by (meson list.set_intros(1))
  with Cons.IH [of u] Cons.prems(2) show ?case by (metis bind.bind_lunit for_list.simps(2) list.set_intros(2))
qed

lemma for_range_invariant:
  assumes "for_range f n s = Some t" and "P 0 s"
    and "\<And>k s t. k < n \<Longrightarrow> P k s \<Longrightarrow> f k s = Some t \<Longrightarrow> P (Suc k) t"
  shows "P n t"
proof -
  have "for_list f [0..<k] s = Some t \<Longrightarrow> k \<le> n \<Longrightarrow> P k t" for k t
  proof (induction k arbitrary: t)
    case 0
    then show ?case using assms(2) by simp
  next
    case (Suc k)
    then obtain u where "for_list f [0..<k] s = Some u" "f k u = Some t"
      by (auto simp: for_list_append bind_eq_Some_conv)
    with Suc show ?case using assms(3) [of k u t] by simp
  qed
  with assms(1) show ?thesis by (simp add: for_range_def)
qed

lemma for_range_defined:
  assumes "P 0 s" "\<And>k s. k < n \<Longrightarrow> P k s \<Longrightarrow> \<exists>t. f k s = Some t \<and> P (Suc k) t"
  shows "\<exists>t. for_range f n s = Some t \<and> P n t"
proof -
  have "k \<le> n \<Longrightarrow> \<exists>t. for_list f [0..<k] s = Some t \<and> P k t" for k
  proof (induction k)
    case (Suc k)
    then obtain t where "for_list f [0..<k] s = Some t" "P k t" by auto
    moreover from this Suc.prems assms(2) [of k t] obtain u where "f k t = Some u" "P (Suc k) u" by auto
    ultimately show ?case by (auto simp: for_list_append)
  qed (simp add: assms(1))
  then show ?thesis by (simp add: for_range_def)
qed

lemma for_list_pure: "for_list (\<lambda>x s. Some (f x s)) xs s = Some (fold f xs s)"
  by (induction xs arbitrary: s) auto

text \<open>\<open>any_opt p xs\<close> is a loop that returns \<^verbatim>\<open>true\<close> at the first element that satisfies a test which may
  abort, \<open>find_opt p xs\<close> the loop that returns that element.\<close>

fun any_opt :: "('a \<Rightarrow> bool option) \<Rightarrow> 'a list \<Rightarrow> bool option" where
  "any_opt p [] = Some False"
| "any_opt p (x # xs) = do { b \<leftarrow> p x; if b then Some True else any_opt p xs }"

fun find_opt :: "('a \<Rightarrow> bool option) \<Rightarrow> 'a list \<Rightarrow> 'a option option" where
  "find_opt p [] = Some None"
| "find_opt p (x # xs) = do { b \<leftarrow> p x; if b then Some (Some x) else find_opt p xs }"

lemma any_opt_pure: "any_opt (\<lambda>x. Some (p x)) xs = Some (\<exists>x\<in>set xs. p x)"
  by (induction xs) auto

lemma any_opt_total:
  "(\<And>x. x \<in> set xs \<Longrightarrow> p x = Some (q x)) \<Longrightarrow> any_opt p xs = Some (\<exists>x\<in>set xs. q x)"
  by (induction xs) auto

lemma any_opt_find: "any_opt p xs = map_option (\<lambda>r. r \<noteq> None) (find_opt p xs)"
  by (induction xs) (auto split: Option.bind_split)

lemma find_opt_Some:
  "find_opt p xs = Some (Some x) \<Longrightarrow> x \<in> set xs \<and> p x = Some True"
  by (induction xs) (auto split: Option.bind_splits if_splits)

lemma any_opt_True: "any_opt p xs = Some True \<Longrightarrow> \<exists>x\<in>set xs. p x = Some True"
  by (induction xs) (auto split: Option.bind_splits if_splits)

subsection \<open>Scanning 64-bit masks\<close>

definition ctz :: "mask64 \<Rightarrow> nat" where \<comment> \<open>\<^verbatim>\<open>__builtin_ctzll\<close>; the intrinsic is undefined at 0\<close>
  "ctz w = length (takeWhile (\<lambda>i. \<not> bit w i) [0..<64])"

definition mask_bits :: "mask64 \<Rightarrow> nat list" where \<comment> \<open>positions of the set bits, ascending\<close>
  "mask_bits w = filter (bit w) [0..<64]"

definition popcount :: "mask64 \<Rightarrow> nat" where \<comment> \<open>\<^verbatim>\<open>__builtin_popcountll\<close>\<close>
  "popcount w = length (mask_bits w)"

lemma bit_mask64_less: "bit (w :: mask64) n \<Longrightarrow> n < 64"
  using bit_imp_le_length [of w n] by simp

lemma set_mask_bits [simp]: "set (mask_bits w) = {i. bit w i}"
  by (auto simp: mask_bits_def dest: bit_mask64_less)

lemma distinct_mask_bits [simp]: "distinct (mask_bits w)"
  by (simp add: mask_bits_def)

lemma sorted_mask_bits: "sorted_wrt (<) (mask_bits w)"
  unfolding mask_bits_def by (rule sorted_wrt_filter) simp

lemma mask64_eq_0_iff: "(w :: mask64) = 0 \<longleftrightarrow> (\<forall>i. \<not> bit w i)"
  by (metis bit_0_eq bit_eq_iff bot_apply bot_bool_def)

lemma takeWhile_upt_least:
  assumes "P n" and "n < m" and "\<forall>k<n. \<not> P k"
  shows "length (takeWhile (\<lambda>i. \<not> P i) [0..<m]) = n"
proof -
  have "[0..<m] = [0..<n] @ n # [Suc n..<m]"
    using assms(2) by (metis less_imp_le_nat upt_add_eq_append upt_conv_Cons le_add_diff_inverse zero_le)
  then show ?thesis
    using assms(1,3) by (simp add: takeWhile_append)
qed

lemma ctz_eqI:
  assumes "bit w n" and "\<And>k. k < n \<Longrightarrow> \<not> bit w k"
  shows "ctz w = n"
  unfolding ctz_def using assms by (intro takeWhile_upt_least) (auto dest: bit_mask64_less)

lemma ctz_least:
  assumes "w \<noteq> 0"
  shows "bit w (ctz w)" and "k < ctz w \<Longrightarrow> \<not> bit w k" and "ctz w < 64"
proof -
  obtain n where n: "bit w n" using assms by (auto simp: mask64_eq_0_iff)
  define m where "m = (LEAST k. bit w k)"
  have m: "bit w m" unfolding m_def using n by (rule LeastI)
  have least: "\<not> bit w k" if "k < m" for k
    using that not_less_Least unfolding m_def by blast
  have eq: "ctz w = m" using m least by (rule ctz_eqI)
  show "bit w (ctz w)" using m eq by simp
  then show "ctz w < 64" by (rule bit_mask64_less)
  show "\<not> bit w k" if "k < ctz w" using least that eq by simp
qed

lemma mask_bits_0 [simp]: "mask_bits 0 = []"
  by (simp add: mask_bits_def)

lemma clear_lowest_bit:
  fixes w :: mask64
  assumes "w \<noteq> 0"
  shows "bit (w AND (w - 1)) n \<longleftrightarrow> bit w n \<and> n \<noteq> ctz w"
proof -
  define k where "k = ctz w"
  define u where "u = unset_bit k w"
  have k: "bit w k" "k < 64" and below: "\<And>j. j < k \<Longrightarrow> \<not> bit w j"
    using ctz_least [OF assms] unfolding k_def by blast+
  have u_bit: "bit u j \<longleftrightarrow> bit w j \<and> j \<noteq> k" for j
    unfolding u_def by (auto simp: bit_unset_bit_iff)
  have exp_bit: "bit (2 ^ k :: mask64) j \<longleftrightarrow> j = k" for j
    using k(2) by (auto simp: bit_exp_iff)
  have w: "w = u + 2 ^ k"
  proof -
    have "u AND 2 ^ k = 0"
      by (rule bit_word_eqI) (auto simp: bit_and_iff u_bit exp_bit)
    then have "u + 2 ^ k = u OR 2 ^ k" by (rule disjunctive_add_eq_or)
    also have "\<dots> = w"
      by (rule bit_word_eqI) (use k in \<open>auto simp: bit_or_iff u_bit exp_bit\<close>)
    finally show ?thesis ..
  qed
  have mask_bit: "bit (mask k :: mask64) j \<longleftrightarrow> j < k" for j
    using k(2) by (auto simp: bit_mask_iff)
  have "w - 1 = u + mask k"
    using w by (simp add: mask_eq_exp_minus_1)
  also have "\<dots> = u OR mask k"
  proof (rule disjunctive_add_eq_or)
    show "u AND mask k = 0"
      by (rule bit_word_eqI) (use below in \<open>auto simp: bit_and_iff u_bit mask_bit\<close>)
  qed
  finally have "bit (w - 1) j \<longleftrightarrow> bit u j \<or> j < k" for j
    by (auto simp: bit_or_iff mask_bit)
  then show ?thesis
    using below by (auto simp: bit_and_iff u_bit k_def [symmetric])
qed

lemma clear_lowest_less:
  fixes w :: mask64
  assumes "w \<noteq> 0"
  shows "unat (w AND (w - 1)) < unat w"
proof -
  have "w AND (w - 1) \<le> w" by (rule word_and_le2)
  moreover have "w AND (w - 1) \<noteq> w"
    using clear_lowest_bit [OF assms, of "ctz w"] ctz_least(1) [OF assms] by metis
  ultimately have "w AND (w - 1) < w" by (simp add: order_less_le)
  then show ?thesis by (simp add: word_less_nat_alt)
qed

text \<open>The list of set bits is the lowest bit, then the bits of \<^verbatim>\<open>mask & (mask - 1)\<close>.\<close>

lemma mask_bits_step:
  fixes w :: mask64
  assumes "w \<noteq> 0"
  shows "mask_bits w = ctz w # mask_bits (w AND (w - 1))"
proof -
  have sorted: "sorted_wrt (<) (ctz w # mask_bits (w AND (w - 1)))"
    using sorted_mask_bits [of "w AND (w - 1)"] ctz_least(2) [OF assms]
    by (auto simp: clear_lowest_bit [OF assms] intro: linorder_neqE_nat)
  have "set (mask_bits w) = set (ctz w # mask_bits (w AND (w - 1)))"
    using ctz_least(1) [OF assms] by (auto simp: clear_lowest_bit [OF assms])
  then show ?thesis
    using sorted sorted_mask_bits [of w]
    by (intro sorted_distinct_set_unique) (auto simp: strict_sorted_iff)
qed

text \<open>\<^verbatim>\<open>1ULL << i\<close>, which the simplifier writes as a power.\<close>

lemma bit_shifted_one [simp]: "i < 64 \<Longrightarrow> bit (2 ^ i :: mask64) n \<longleftrightarrow> n = i"
  by (auto simp: bit_exp_iff)

end
