(* ===== verification/Bit_Field.thy ===== *)
theory Bit_Field
  imports Garnet_Prelude
begin

text \<open>
  The bit operations of \<^verbatim>\<open>base/bitfield.hh\<close> on 64-bit values.  Positions are \<^verbatim>\<open>unsigned\<close>, so that sums and
  differences of them wrap at \<open>2 ^ 32\<close>.
\<close>

subsection \<open>Operations\<close>

definition bf_mask :: "nat \<Rightarrow> mask64" where
  "bf_mask nbits = (if nbits \<ge> 64 then - 1 else push_bit nbits 1 - 1)"

definition bf_bits :: "mask64 \<Rightarrow> nat \<Rightarrow> nat \<Rightarrow> mask64 option" where
  "bf_bits val first lst =
     do { check (first \<ge> lst);
          let nbits = first - lst + 1;
          Some (drop_bit lst val AND bf_mask nbits) }"

definition mbits :: "mask64 \<Rightarrow> nat \<Rightarrow> nat \<Rightarrow> mask64" where
  "mbits val first lst = val AND (bf_mask ((first + 1) mod 2 ^ 32) AND NOT (bf_mask lst))"

definition bf_mask_range :: "nat \<Rightarrow> nat \<Rightarrow> mask64" where
  "bf_mask_range first lst = mbits (- 1) first lst"

definition sext :: "nat \<Rightarrow> mask64 \<Rightarrow> mask64 option" where
  "sext N val =
     do { sign_bit \<leftarrow> bf_bits val (N - 1) (N - 1);
          Some (if sign_bit \<noteq> 0 then val OR NOT (bf_mask N) else val) }"

definition szext :: "nat \<Rightarrow> mask64 \<Rightarrow> mask64 option" where
  "szext N val =
     do { sign_bit \<leftarrow> bf_bits val (N - 1) (N - 1);
          Some (if sign_bit \<noteq> 0 then val OR NOT (bf_mask N) else val AND bf_mask N) }"

definition insertBits :: "mask64 \<Rightarrow> nat \<Rightarrow> nat \<Rightarrow> mask64 \<Rightarrow> mask64 option" where
  "insertBits val first lst bit_val =
     do { check (first \<ge> lst);
          let bmask = bf_mask_range first lst;
          Some ((val AND NOT bmask) OR (push_bit lst bit_val AND bmask)) }"

text \<open>The searches for the first and the last set bit halve the part of the word they look at; \<open>msb_half w\<close> is the
  step that looks at the upper \<open>w\<close> of \<open>2 * w\<close> bits.\<close>

definition msb_half :: "nat \<Rightarrow> nat \<times> mask64 \<Rightarrow> (nat \<times> mask64) option" where
  "msb_half w s =
     (case s of (msb, val) \<Rightarrow>
        do { b \<leftarrow> bf_bits val (2 * w - 1) w;
             Some (if b \<noteq> 0 then (msb + w, drop_bit w val) else (msb, val)) })"

definition findMsbSet :: "mask64 \<Rightarrow> nat option" where
  "findMsbSet val =
     (if val = 0 then Some 0
      else do { (msb, val) \<leftarrow> for_list msb_half [32, 16, 8, 4, 2] (0, val);
                b \<leftarrow> bf_bits val 1 1;
                Some (if b \<noteq> 0 then msb + 1 else msb) })"

definition lsb_half :: "nat \<Rightarrow> nat \<times> mask64 \<Rightarrow> (nat \<times> mask64) option" where
  "lsb_half w s =
     (case s of (lsb, val) \<Rightarrow>
        do { b \<leftarrow> bf_bits val (w - 1) 0;
             Some (if b = 0 then (lsb + w, drop_bit w val) else (lsb, val)) })"

definition findLsbSetFallback :: "mask64 \<Rightarrow> nat option" where
  "findLsbSetFallback val =
     (if val = 0 then Some 64
      else do { (lsb, val) \<leftarrow> for_list lsb_half [32, 16, 8, 4, 2] (0, val);
                b \<leftarrow> bf_bits val 0 0;
                Some (if b = 0 then lsb + 1 else lsb) })"

definition ctz64 :: "mask64 \<Rightarrow> nat" where
  "ctz64 v = (if v \<noteq> 0 then ctz v else 64)"

definition alignToPowerOfTwo :: "mask64 \<Rightarrow> mask64" where
  "alignToPowerOfTwo val = fold (\<lambda>n v. v OR drop_bit n v) [1, 2, 4, 8, 16, 32] (val - 1) + 1"

subsection \<open>Bits\<close>

lemma bit_bf_mask: "bit (bf_mask n) k \<longleftrightarrow> k < 64 \<and> k < n"
  by (auto simp: bf_mask_def bit_minus_1_iff mask_eq_exp_minus_1 [symmetric] bit_mask_iff dest: bit_imp_le_length)

lemma bit_bf_mask_range: "first < 64 \<Longrightarrow> bit (bf_mask_range first lst) k \<longleftrightarrow> lst \<le> k \<and> k \<le> first"
  by (auto simp: bf_mask_range_def mbits_def bit_and_iff bit_not_iff bit_minus_1_iff bit_bf_mask)

lemma bit_insertBits:
  assumes "lst \<le> first" "first < 64"
  shows "\<exists>w. insertBits val first lst b = Some w
    \<and> (\<forall>k<64. bit w k \<longleftrightarrow> (if lst \<le> k \<and> k \<le> first then bit b (k - lst) else bit val k))"
  using assms by (auto simp: insertBits_def Let_def bit_or_iff bit_and_iff bit_not_iff bit_push_bit_iff bit_bf_mask_range)

lemma bf_bits_Some: "lst \<le> first \<Longrightarrow> bf_bits val first lst = Some (drop_bit lst val AND bf_mask (first - lst + 1))"
  by (simp add: bf_bits_def)

lemma bits_zero_iff:
  "drop_bit lst val AND bf_mask n = 0 \<longleftrightarrow> (\<forall>k<64. lst \<le> k \<and> k < lst + n \<longrightarrow> \<not> bit (val :: mask64) k)"
proof -
  have "drop_bit lst val AND bf_mask n = 0 \<longleftrightarrow> (\<forall>j. \<not> (bit val (lst + j) \<and> j < 64 \<and> j < n))"
    by (simp add: mask64_eq_0_iff bit_and_iff bit_drop_bit_eq bit_bf_mask)
  also have "\<dots> \<longleftrightarrow> (\<forall>k<64. lst \<le> k \<and> k < lst + n \<longrightarrow> \<not> bit val k)"
  proof safe
    fix k assume a: "\<forall>j. \<not> (bit val (lst + j) \<and> j < 64 \<and> j < n)" "k < 64" "lst \<le> k" "k < lst + n" "bit val k"
    from a(1) [rule_format, of "k - lst"] a(2-5) show False by auto
  next
    fix j assume a: "\<forall>k<64. lst \<le> k \<and> k < lst + n \<longrightarrow> \<not> bit val k" "bit val (lst + j)" "j < n"
    then show False using bit_mask64_less [OF a(2)] by auto
  qed
  finally show ?thesis .
qed

subsection \<open>The searches find the first and the last set bit\<close>

definition msb_left :: "mask64 \<Rightarrow> nat \<Rightarrow> nat \<times> mask64 \<Rightarrow> bool" where
  "msb_left val w s \<longleftrightarrow> snd s = drop_bit (fst s) val \<and> snd s \<noteq> 0 \<and> (\<forall>k. bit (snd s) k \<longrightarrow> k < w)"

lemma msb_half_step:
  assumes "msb_left val (2 * w) s" "0 < w"
  shows "\<exists>t. msb_half w s = Some t \<and> msb_left val w t"
proof -
  obtain m v where s: "s = (m, v)" by (cases s)
  have v: "v = drop_bit m val" "v \<noteq> 0" "\<forall>k. bit v k \<longrightarrow> k < 2 * w" using assms(1) by (auto simp: msb_left_def s)
  let ?b = "drop_bit w v AND bf_mask (2 * w - 1 - w + 1)"
  have zero: "?b = 0 \<longleftrightarrow> (\<forall>k. bit v k \<longrightarrow> k < w)"
  proof -
    have "w + (2 * w - 1 - w + 1) = 2 * w" using assms(2) by simp
    then show ?thesis unfolding bits_zero_iff using v(3) bit_mask64_less [of v] by (metis not_less)
  qed
  have nz: "drop_bit w v \<noteq> 0" if "?b \<noteq> 0" using that by auto
  have up: "\<forall>k. bit (drop_bit w v) k \<longrightarrow> k < w" using v(3) by (auto simp: bit_drop_bit_eq)
  have "msb_half w s = Some (if ?b \<noteq> 0 then (m + w, drop_bit w v) else (m, v))"
    using assms(2) by (simp add: msb_half_def s bf_bits_Some)
  moreover have "msb_left val w (if ?b \<noteq> 0 then (m + w, drop_bit w v) else (m, v))"
    using zero nz up v(1,2) by (simp add: msb_left_def add.commute)
  ultimately show ?thesis by blast
qed

lemma findMsbSet_last:
  assumes "val \<noteq> 0"
  shows "\<exists>m. findMsbSet val = Some m \<and> bit val m \<and> (\<forall>k>m. \<not> bit val k)"
proof -
  have "msb_left val (2 * 32) (0, val)" using assms by (auto simp: msb_left_def dest: bit_mask64_less)
  from msb_half_step [OF this] obtain s1 where s1: "msb_half 32 (0, val) = Some s1" "msb_left val (2 * 16) s1" by auto
  from msb_half_step [OF s1(2)] obtain s2 where s2: "msb_half 16 s1 = Some s2" "msb_left val (2 * 8) s2" by auto
  from msb_half_step [OF s2(2)] obtain s3 where s3: "msb_half 8 s2 = Some s3" "msb_left val (2 * 4) s3" by auto
  from msb_half_step [OF s3(2)] obtain s4 where s4: "msb_half 4 s3 = Some s4" "msb_left val (2 * 2) s4" by auto
  from msb_half_step [OF s4(2)] obtain s5 where s5: "msb_half 2 s4 = Some s5" "msb_left val (2 * 1) s5" by auto
  from msb_half_step [OF s5(2)] obtain s6 where s6: "msb_half 1 s5 = Some s6" "msb_left val 1 s6" by auto
  have eq: "findMsbSet val = Some (fst s6)"
    using assms s1(1) s2(1) s3(1) s4(1) s5(1) s6(1) [unfolded msb_half_def]
    by (cases s5) (auto simp: findMsbSet_def bf_bits_Some split: if_splits)
  have b: "bit val (fst s6 + k) \<longleftrightarrow> bit (snd s6) k" for k using s6(2) by (simp add: msb_left_def bit_drop_bit_eq add.commute)
  have "bit (snd s6) 0" using s6(2) by (auto simp: msb_left_def mask64_eq_0_iff)
  then have "bit val (fst s6)" using b [of 0] by simp
  moreover have "\<not> bit val k" if "k > fst s6" for k
    using b [of "k - fst s6"] s6(2) that by (auto simp: msb_left_def)
  ultimately show ?thesis using eq by blast
qed

definition lsb_left :: "mask64 \<Rightarrow> nat \<Rightarrow> nat \<times> mask64 \<Rightarrow> bool" where
  "lsb_left val w s \<longleftrightarrow> snd s = drop_bit (fst s) val \<and> (\<forall>k<fst s. \<not> bit val k) \<and> (\<exists>k<w. bit (snd s) k)"

lemma lsb_half_step:
  assumes "lsb_left val (2 * w) s" "0 < w"
  shows "\<exists>t. lsb_half w s = Some t \<and> lsb_left val w t"
proof -
  obtain m v where s: "s = (m, v)" by (cases s)
  have v: "v = drop_bit m val" "\<forall>k<m. \<not> bit val k" and ex: "\<exists>k<2 * w. bit v k"
    using assms(1) by (auto simp: lsb_left_def s)
  let ?b = "drop_bit 0 v AND bf_mask (w - 1 - 0 + 1)"
  have zero: "?b = 0 \<longleftrightarrow> (\<forall>k<w. \<not> bit v k)"
    using assms(2) bit_mask64_less [of v] unfolding bits_zero_iff by auto
  have skip: "\<forall>k<m + w. \<not> bit val k" if "\<forall>k<w. \<not> bit v k"
  proof (intro allI impI)
    fix k assume "k < m + w"
    then show "\<not> bit val k" using that [rule_format, of "k - m"] v by (cases "k < m") (auto simp: bit_drop_bit_eq)
  qed
  have found: "\<exists>k<w. bit (drop_bit w v) k" if "\<forall>k<w. \<not> bit v k"
  proof -
    obtain k where k: "k < 2 * w" "bit v k" using ex by blast
    have "w \<le> k" using that k(2) not_less by blast
    then show ?thesis using k by (intro exI [of _ "k - w"]) (auto simp: bit_drop_bit_eq)
  qed
  have "lsb_half w s = Some (if ?b = 0 then (m + w, drop_bit w v) else (m, v))"
    by (simp add: lsb_half_def s bf_bits_Some)
  moreover have "lsb_left val w (if ?b = 0 then (m + w, drop_bit w v) else (m, v))"
    using zero skip found v by (auto simp: lsb_left_def add.commute)
  ultimately show ?thesis by blast
qed

lemma findLsbSetFallback_ctz: "findLsbSetFallback val = Some (ctz64 val)"
proof (cases "val = 0")
  case True
  then show ?thesis by (simp add: findLsbSetFallback_def ctz64_def)
next
  case False
  then have "lsb_left val (2 * 32) (0, val)" using ctz_least [OF False] by (auto simp: lsb_left_def)
  from lsb_half_step [OF this] obtain s1 where s1: "lsb_half 32 (0, val) = Some s1" "lsb_left val (2 * 16) s1" by auto
  from lsb_half_step [OF s1(2)] obtain s2 where s2: "lsb_half 16 s1 = Some s2" "lsb_left val (2 * 8) s2" by auto
  from lsb_half_step [OF s2(2)] obtain s3 where s3: "lsb_half 8 s2 = Some s3" "lsb_left val (2 * 4) s3" by auto
  from lsb_half_step [OF s3(2)] obtain s4 where s4: "lsb_half 4 s3 = Some s4" "lsb_left val (2 * 2) s4" by auto
  from lsb_half_step [OF s4(2)] obtain s5 where s5: "lsb_half 2 s4 = Some s5" "lsb_left val (2 * 1) s5" by auto
  from lsb_half_step [OF s5(2)] obtain s6 where s6: "lsb_half 1 s5 = Some s6" "lsb_left val 1 s6" by auto
  have "findLsbSetFallback val = Some (fst s6)"
    using False s1(1) s2(1) s3(1) s4(1) s5(1) s6(1) [unfolded lsb_half_def]
    by (cases s5) (auto simp: findLsbSetFallback_def bf_bits_Some split: if_splits)
  moreover have "ctz val = fst s6" using s6(2) by (intro ctz_eqI) (auto simp: lsb_left_def bit_drop_bit_eq)
  ultimately show ?thesis using False by (simp add: ctz64_def)
qed

subsection \<open>Rounding up to a power of two\<close>

lemma or_shift_spreads:
  fixes u v :: mask64
  assumes "\<forall>k. bit v k \<longleftrightarrow> (\<exists>j<N. bit u (k + j))"
  shows "\<forall>k. bit (v OR drop_bit N v) k \<longleftrightarrow> (\<exists>j<2 * N. bit u (k + j))"
proof
  fix k
  have "(\<exists>j<2 * N. bit u (k + j)) \<longleftrightarrow> (\<exists>j<N. bit u (k + j)) \<or> (\<exists>j<N. bit u (N + k + j))"
  proof
    assume "\<exists>j<2 * N. bit u (k + j)"
    then obtain j where j: "j < 2 * N" "bit u (k + j)" by blast
    show "(\<exists>j<N. bit u (k + j)) \<or> (\<exists>j<N. bit u (N + k + j))"
    proof (cases "j < N")
      case False
      then have "j - N < N" "N + k + (j - N) = k + j" using j(1) by auto
      then show ?thesis using j(2) by metis
    qed (use j in blast)
  next
    assume "(\<exists>j<N. bit u (k + j)) \<or> (\<exists>j<N. bit u (N + k + j))"
    then show "\<exists>j<2 * N. bit u (k + j)"
    proof
      assume "\<exists>j<N. bit u (N + k + j)"
      then obtain j where "j < N" "bit u (N + k + j)" by blast
      then show ?thesis by (intro exI [of _ "N + j"]) (auto simp: ac_simps)
    qed (metis less_le_trans mult_2 le_add1)
  qed
  then show "bit (v OR drop_bit N v) k \<longleftrightarrow> (\<exists>j<2 * N. bit u (k + j))"
    using assms by (simp add: bit_or_iff bit_drop_bit_eq)
qed

lemma alignToPowerOfTwo_power:
  assumes "1 < val"
  shows "\<exists>m. alignToPowerOfTwo val = push_bit (Suc m) 1 \<and> bit (val - 1) m \<and> (\<forall>k>m. \<not> bit (val - 1) k)"
proof -
  let ?u = "val - 1"
  have "?u \<noteq> 0" using assms by auto
  from findMsbSet_last [OF this] obtain m where m: "bit ?u m" "\<forall>k>m. \<not> bit ?u k" by blast
  define f where "f n v = v OR drop_bit n v" for n and v :: mask64
  let ?v = "f 32 (f 16 (f 8 (f 4 (f 2 (f 1 ?u)))))"
  note spread = or_shift_spreads [folded f_def]
  have "\<forall>k. bit ?u k \<longleftrightarrow> (\<exists>j<1. bit ?u (k + j))" by simp
  from spread [OF this] have "\<forall>k. bit (f 1 ?u) k \<longleftrightarrow> (\<exists>j<2. bit ?u (k + j))" by (simp only: mult_1_right simp_thms)
  from spread [OF this] have "\<forall>k. bit (f 2 (f 1 ?u)) k \<longleftrightarrow> (\<exists>j<4. bit ?u (k + j))" by (simp only: numeral_times_numeral mult_num_simps simp_thms)
  from spread [OF this] have "\<forall>k. bit (f 4 (f 2 (f 1 ?u))) k \<longleftrightarrow> (\<exists>j<8. bit ?u (k + j))" by (simp only: numeral_times_numeral mult_num_simps simp_thms)
  from spread [OF this] have "\<forall>k. bit (f 8 (f 4 (f 2 (f 1 ?u)))) k \<longleftrightarrow> (\<exists>j<16. bit ?u (k + j))" by (simp only: numeral_times_numeral mult_num_simps simp_thms)
  from spread [OF this] have "\<forall>k. bit (f 16 (f 8 (f 4 (f 2 (f 1 ?u))))) k \<longleftrightarrow> (\<exists>j<32. bit ?u (k + j))" by (simp only: numeral_times_numeral mult_num_simps simp_thms)
  from spread [OF this] have v: "\<forall>k. bit ?v k \<longleftrightarrow> (\<exists>j<64. bit ?u (k + j))" by (simp only: numeral_times_numeral mult_num_simps simp_thms)
  have "bit ?v k \<longleftrightarrow> k \<le> m" for k
  proof
    assume "bit ?v k"
    then obtain j where "bit ?u (k + j)" using v by blast
    then show "k \<le> m" using m(2) [rule_format, of "k + j"] by (cases "k \<le> m") auto
  next
    assume "k \<le> m"
    then have "bit ?u (k + (m - k))" "m - k < 64" using m(1) bit_mask64_less [OF m(1)] by auto
    then show "bit ?v k" using v by blast
  qed
  then have "?v = bf_mask (Suc m)"
    using bit_mask64_less [OF m(1)] by (intro bit_word_eqI) (auto simp: bit_bf_mask less_Suc_eq_le)
  then have "alignToPowerOfTwo val = bf_mask (Suc m) + 1" by (simp only: alignToPowerOfTwo_def f_def fold.simps o_apply id_apply)
  also have "\<dots> = push_bit (Suc m) 1"
  proof (cases "m = 63")
    case True
    then show ?thesis by (simp add: bf_mask_def)
  qed (use bit_mask64_less [OF m(1)] in \<open>auto simp: bf_mask_def\<close>)
  finally show ?thesis using m by blast
qed

end
