(* ===== verification/Addr_Range.thy ===== *)
theory Addr_Range
  imports Bit_Field
begin

text \<open>
  Address ranges (\<^verbatim>\<open>base/addr_range.hh\<close>): half-open intervals of 64-bit addresses, possibly interleaved.  An
  interleaved range holds the addresses of its interval whose bits, combined by exclusive or under each of the masks,
  spell \<^verbatim>\<open>intlvMatch\<close>.

  Addresses wrap at \<open>2 ^ 64\<close>, the interleaving value has 8 bits, the selector of \<^verbatim>\<open>contains\<close> and the combined mask of
  \<^verbatim>\<open>granularity\<close> are C++ \<^verbatim>\<open>int\<close>s of 32 bits.  Where the program panics, or shifts a word by its width or more, the model
  has \<open>None\<close>.
\<close>

subsection \<open>Ranges\<close>

type_synonym Addr = mask64

record AddrRange =
  ar_start :: Addr
  ar_end :: Addr
  masks :: "mask64 list"
  intlvMatch :: "8 word"

definition AddrRange_empty :: AddrRange where
  "AddrRange_empty = \<lparr>ar_start = 1, ar_end = 0, masks = [], intlvMatch = 0\<rparr>"

definition AddrRange_plain :: "Addr \<Rightarrow> Addr \<Rightarrow> AddrRange" where
  "AddrRange_plain start end = \<lparr>ar_start = start, ar_end = end, masks = [], intlvMatch = 0\<rparr>"

definition AddrRange_masks :: "Addr \<Rightarrow> Addr \<Rightarrow> mask64 list \<Rightarrow> 8 word \<Rightarrow> AddrRange option" where
  "AddrRange_masks start end ms intlv_match =
     do { check (length ms < 64);
          check (\<not> (ms \<noteq> [] \<and> unat intlv_match \<ge> 2 ^ length ms));
          Some \<lparr>ar_start = start, ar_end = end, masks = ms, intlvMatch = intlv_match\<rparr> }"

text \<open>The constructor that computes the masks from the positions of the highest interleaving bit and of the
  highest bit it is combined with.\<close>

definition xor_bits_ok :: "nat \<Rightarrow> nat \<Rightarrow> nat \<Rightarrow> bool" where
  "xor_bits_ok intlv_high_bit xor_high_bit intlv_bits \<longleftrightarrow>
     (if intlv_bits \<noteq> 0 \<and> xor_high_bit \<noteq> 0 then
        (if xor_high_bit = intlv_high_bit then False
         else if xor_high_bit > intlv_high_bit then \<not> xor_high_bit - intlv_high_bit < intlv_bits
         else \<not> intlv_high_bit - xor_high_bit < intlv_bits)
      else True)"

definition shifted_one :: "8 word \<Rightarrow> mask64 option" where
  "shifted_one b = do { check (unat b < 64); Some (push_bit (unat b) 1) }"

definition intlv_mask :: "8 word \<Rightarrow> 8 word \<Rightarrow> nat \<Rightarrow> mask64 option" where
  "intlv_mask intlv_high_bit xor_high_bit i =
     do { m \<leftarrow> shifted_one (intlv_high_bit - of_nat i);
          if xor_high_bit \<noteq> 0
          then do { m2 \<leftarrow> shifted_one (xor_high_bit - of_nat i); Some (m OR m2) }
          else Some m }"

definition AddrRange_intlv :: "Addr \<Rightarrow> Addr \<Rightarrow> 8 word \<Rightarrow> 8 word \<Rightarrow> 8 word \<Rightarrow> 8 word \<Rightarrow> AddrRange option" where
  "AddrRange_intlv start end intlv_high_bit xor_high_bit intlv_bits intlv_match =
     do { check (unat intlv_bits < 64);
          check (\<not> (intlv_bits \<noteq> 0 \<and> unat intlv_match \<ge> 2 ^ unat intlv_bits));
          check (xor_bits_ok (unat intlv_high_bit) (unat xor_high_bit) (unat intlv_bits));
          ms \<leftarrow> for_range (\<lambda>i ms. do { m \<leftarrow> intlv_mask intlv_high_bit xor_high_bit i;
                                        put ms (unat intlv_bits - i - 1) m })
            (unat intlv_bits) (replicate (unat intlv_bits) 0);
          Some \<lparr>ar_start = start, ar_end = end, masks = ms, intlvMatch = intlv_match\<rparr> }"

definition interleaved :: "AddrRange \<Rightarrow> bool" where
  "interleaved r \<longleftrightarrow> length (masks r) > 0"

definition ar_size :: "AddrRange \<Rightarrow> Addr" where
  "ar_size r = drop_bit (length (masks r)) (ar_end r - ar_start r)"

definition ar_valid :: "AddrRange \<Rightarrow> bool" where
  "ar_valid r \<longleftrightarrow> ar_start r \<le> ar_end r"

definition stripes :: "AddrRange \<Rightarrow> 32 word" where
  "stripes r = ucast (push_bit (length (masks r)) (1 :: mask64))"

text \<open>\<^verbatim>\<open>combined_mask\<close> is an \<^verbatim>\<open>int\<close>: the upper halves of the masks are lost, and the argument of \<^verbatim>\<open>ctz64\<close> is
  sign-extended.\<close>

definition granularity :: "AddrRange \<Rightarrow> mask64 option" where
  "granularity r =
     (if interleaved r then
        do { let combined_mask = fold (\<lambda>m c. ucast (scast c OR m)) (masks r) (0 :: 32 word);
             let lowest_bit = ctz64 (scast combined_mask);
             check (lowest_bit < 64);
             Some (push_bit lowest_bit 1) }
      else Some (ar_size r))"

definition mergesWith :: "AddrRange \<Rightarrow> AddrRange \<Rightarrow> bool" where
  "mergesWith r this \<longleftrightarrow> ar_start r = ar_start this \<and> ar_end r = ar_end this \<and> masks r = masks this"

text \<open>The constructor that merges a list of ranges.\<close>

definition merge_step :: "AddrRange \<Rightarrow> AddrRange \<Rightarrow> 8 word \<Rightarrow> 8 word option" where
  "merge_step this it match =
     do { check (mergesWith it this);
          check (intlvMatch it = match);
          Some (match + 1) }"

definition AddrRange_merge :: "AddrRange list \<Rightarrow> AddrRange option" where
  "AddrRange_merge ranges =
     do { let this = (case ranges of [] \<Rightarrow> AddrRange_empty | r # rs \<Rightarrow> r);
          if length ranges > 1 then
            do { check (length (masks this) < 64);
                 check (length ranges = 2 ^ length (masks this));
                 _ \<leftarrow> for_list (merge_step this) ranges 0;
                 Some (this\<lparr>masks := [], intlvMatch := 0\<rparr>) }
          else Some this }"

subsection \<open>Membership\<close>

definition parity :: "mask64 \<Rightarrow> nat" where
  "parity w = popcount w mod 2"

definition intlv_sel :: "mask64 list \<Rightarrow> Addr \<Rightarrow> 32 word" where
  "intlv_sel ms a = fold (\<lambda>i sel. sel OR push_bit i (of_nat (parity (a AND ms ! i)))) [0..<length ms] 0"

definition in_interval :: "AddrRange \<Rightarrow> Addr \<Rightarrow> bool" where
  "in_interval r a \<longleftrightarrow> a \<ge> ar_start r \<and> a < ar_end r"

definition ar_contains :: "AddrRange \<Rightarrow> Addr \<Rightarrow> bool" where
  "ar_contains r a = (if in_interval r a then intlv_sel (masks r) a = ucast (intlvMatch r) else False)"

definition intersects :: "AddrRange \<Rightarrow> AddrRange \<Rightarrow> bool option" where
  "intersects this r =
     (if ar_start this \<ge> ar_end r \<or> ar_end this \<le> ar_start r then Some False
      else if \<not> interleaved this \<and> \<not> interleaved r then Some True
      else if ar_size r = 1 then Some (ar_contains this (ar_start r))
      else if mergesWith r this then Some (intlvMatch this = intlvMatch r)
      else None)"

definition isSubset :: "AddrRange \<Rightarrow> AddrRange \<Rightarrow> bool option" where
  "isSubset this r =
     do { check (\<not> interleaved this);
          if interleaved r then
            (if ar_contains r (ar_start this) then
               do { g \<leftarrow> granularity r;
                    if ar_size this \<le> g then
                      Some (if ar_start this = ar_end this - 1 then True else ar_contains r (ar_end this - 1))
                    else Some False }
             else Some False)
          else if ar_end this \<le> ar_start this then Some (ar_start this \<ge> ar_start r \<and> ar_end r = 0)
          else if ar_end r \<le> ar_start r then Some (ar_start this \<ge> ar_start r)
          else Some (ar_start this \<ge> ar_start r \<and> ar_end this \<le> ar_end r) }"

subsection \<open>Removing and adding the interleaving bits\<close>

definition masks_lsb :: "AddrRange \<Rightarrow> nat list" where
  "masks_lsb r = sort (map ctz64 (masks r))"

definition remove_bit :: "nat \<Rightarrow> nat \<Rightarrow> Addr \<Rightarrow> Addr option" where
  "remove_bit i intlv_bit a =
     (if intlv_bit > 0
      then insertBits (drop_bit 1 a) (nat ((int intlv_bit - int i - 1) mod 2 ^ 32)) 0 a
      else Some (drop_bit 1 a))"

definition removeIntlvBits :: "AddrRange \<Rightarrow> Addr \<Rightarrow> Addr option" where
  "removeIntlvBits r a =
     (if \<not> interleaved r then Some a
      else for_range (\<lambda>i a. remove_bit i (masks_lsb r ! i) a) (length (masks r)) a)"

definition add_bit :: "nat \<Rightarrow> Addr \<Rightarrow> Addr option" where
  "add_bit intlv_bit a =
     (if intlv_bit > 0 then insertBits (push_bit 1 a) (intlv_bit - 1) 0 a else Some (push_bit 1 a))"

text \<open>The bit that makes the selector match; \<^verbatim>\<open>1 << lsb\<close> is an \<^verbatim>\<open>int\<close>.\<close>

definition select_bit :: "AddrRange \<Rightarrow> nat \<Rightarrow> Addr \<Rightarrow> Addr option" where
  "select_bit r i a =
     do { let lsb = ctz64 (masks r ! i);
          intlv_bit \<leftarrow> bf_bits (ucast (intlvMatch r)) i i;
          check (lsb < 32);
          let masked = a AND masks r ! i AND NOT (scast (push_bit lsb (1 :: 32 word)));
          insertBits a lsb lsb (intlv_bit XOR of_nat (popcount masked)) }"

definition addIntlvBits :: "AddrRange \<Rightarrow> Addr \<Rightarrow> Addr option" where
  "addIntlvBits r a =
     (if \<not> interleaved r then Some a
      else do { a1 \<leftarrow> for_list add_bit (masks_lsb r) a;
                for_range (select_bit r) (length (masks r)) a1 })"

definition getOffset :: "AddrRange \<Rightarrow> Addr \<Rightarrow> Addr option" where
  "getOffset r a =
     (if \<not> in_interval r a then Some (- 1)
      else if interleaved r then
        do { x \<leftarrow> removeIntlvBits r a; y \<leftarrow> removeIntlvBits r (ar_start r); Some (x - y) }
      else Some (a - ar_start r))"

subsection \<open>Excluding ranges\<close>

definition ar_less :: "AddrRange \<Rightarrow> AddrRange \<Rightarrow> bool" where
  "ar_less this r =
     (if ar_start this \<noteq> ar_start r then ar_start this < ar_start r
      else if interleaved this \<and> interleaved r then intlvMatch this < intlvMatch r
      else interleaved this)"

text \<open>\<^verbatim>\<open>std::list::sort\<close> is stable.\<close>

fun insert_range :: "AddrRange \<Rightarrow> AddrRange list \<Rightarrow> AddrRange list" where
  "insert_range r [] = [r]"
| "insert_range r (q # qs) = (if ar_less q r then q # insert_range r qs else r # q # qs)"

definition sort_ranges :: "AddrRange list \<Rightarrow> AddrRange list" where
  "sort_ranges rs = foldr insert_range rs []"

text \<open>The loop over the sorted ranges to exclude; the result \<open>None\<close> in the second place says that the function has
  returned.\<close>

fun exclude_loop :: "AddrRange \<Rightarrow> AddrRange list \<Rightarrow> Addr \<Rightarrow> AddrRange list \<Rightarrow> (AddrRange list \<times> Addr option) option" where
  "exclude_loop this [] next_start ranges = Some (ranges, Some next_start)"
| "exclude_loop this (e # es) next_start ranges =
     do { check (\<not> interleaved e);
          b \<leftarrow> intersects this e;
          if \<not> b then exclude_loop this es next_start ranges
          else if ar_start e \<le> next_start then
            (if ar_end e < ar_end this
             then exclude_loop this es (if next_start < ar_end e then ar_end e else next_start) ranges
             else Some (ranges, None))
          else
            do { let ranges1 = ranges @ [AddrRange_plain next_start (ar_start e)];
                 if ar_end e < ar_end this then exclude_loop this es (ar_end e) ranges1
                 else Some (ranges1, None) } }"

definition ar_exclude :: "AddrRange list \<Rightarrow> AddrRange \<Rightarrow> AddrRange list option" where
  "ar_exclude exclude_ranges this =
     do { check (\<not> interleaved this);
          (ranges, next_start) \<leftarrow> exclude_loop this (sort_ranges exclude_ranges) (ar_start this) [];
          Some (case next_start of
                  None \<Rightarrow> ranges
                | Some n \<Rightarrow> if n < ar_end this then ranges @ [AddrRange_plain n (ar_end this)] else ranges) }"

definition exclude_all :: "AddrRange list \<Rightarrow> AddrRange list \<Rightarrow> AddrRange list option" where
  "exclude_all base to_exclude =
     for_list (\<lambda>range ret. do { rs \<leftarrow> ar_exclude (sort_ranges to_exclude) range; Some (ret @ rs) }) base []"

definition ar_and :: "AddrRange \<Rightarrow> AddrRange \<Rightarrow> AddrRange option" where
  "ar_and this r =
     do { check (\<not> (interleaved this \<or> interleaved r));
          let start = max (ar_start this) (ar_start r);
          let end = min (ar_end this) (ar_end r);
          Some (if end \<le> start then AddrRange_plain 0 0 else AddrRange_plain start end) }"

definition RangeIn :: "Addr \<Rightarrow> Addr \<Rightarrow> AddrRange" where
  "RangeIn start end = AddrRange_plain start (end + 1)"

definition RangeSize :: "Addr \<Rightarrow> Addr \<Rightarrow> AddrRange" where
  "RangeSize start sz = AddrRange_plain start (start + sz)"

subsection \<open>Excluding is set difference\<close>

definition plain :: "AddrRange \<Rightarrow> bool" where
  "plain r \<longleftrightarrow> masks r = [] \<and> intlvMatch r = 0"

definition interval :: "AddrRange \<Rightarrow> Addr set" where
  "interval r = {ar_start r ..< ar_end r}"

lemma plain_contains: "plain r \<Longrightarrow> ar_contains r a \<longleftrightarrow> a \<in> interval r"
  by (auto simp: plain_def ar_contains_def in_interval_def interval_def intlv_sel_def)

lemma plain_AddrRange_plain [simp]: "plain (AddrRange_plain s e)"
  by (simp add: plain_def AddrRange_plain_def)

lemma plain_intersects:
  "plain r \<Longrightarrow> plain q \<Longrightarrow> intersects r q = Some (\<not> (ar_start r \<ge> ar_end q \<or> ar_end r \<le> ar_start q))"
  by (auto simp: intersects_def plain_def interleaved_def)

lemma mset_insert_range [simp]: "mset (insert_range r qs) = add_mset r (mset qs)"
  by (induction qs) auto

lemma mset_sort_ranges [simp]: "mset (sort_ranges rs) = mset rs"
  by (induction rs) (auto simp: sort_ranges_def)

lemma set_sort_ranges [simp]: "set (sort_ranges rs) = set rs"
  by (metis mset_sort_ranges set_mset_mset)

definition by_start :: "AddrRange list \<Rightarrow> bool" where
  "by_start rs \<longleftrightarrow> sorted_wrt (\<lambda>a b. ar_start a \<le> ar_start b) rs"

lemma ar_less_start: "plain r \<Longrightarrow> ar_less q r \<Longrightarrow> ar_start q \<le> ar_start r"
  "\<not> ar_less q r \<Longrightarrow> ar_start r \<le> ar_start q"
  by (auto simp: ar_less_def split: if_splits)

lemma set_insert_range [simp]: "set (insert_range r qs) = insert r (set qs)"
  by (induction qs) auto

lemma insert_range_sorted: "by_start qs \<Longrightarrow> plain r \<Longrightarrow> by_start (insert_range r qs)"
proof (induction qs)
  case (Cons q qs)
  show ?case
  proof (cases "ar_less q r")
    case True
    then show ?thesis using Cons ar_less_start(1) [OF Cons.prems(2) True] by (auto simp: by_start_def)
  next
    case False
    then show ?thesis using Cons.prems(1) ar_less_start(2) [OF False] by (auto simp: by_start_def intro: order_trans)
  qed
qed (simp add: by_start_def)

lemma sort_ranges_sorted: "list_all plain rs \<Longrightarrow> by_start (sort_ranges rs)"
  unfolding sort_ranges_def by (induction rs) (auto simp: insert_range_sorted, simp add: by_start_def)

definition spans :: "AddrRange list \<Rightarrow> Addr set" where
  "spans rs = \<Union> (interval ` set rs)"

lemma spans_simps [simp]: "spans [] = {}" "spans (r # rs) = interval r \<union> spans rs" "spans (rs @ qs) = spans rs \<union> spans qs"
  by (auto simp: spans_def)

lemma exclude_loop_spans:
  assumes "plain this" "list_all (\<lambda>e. plain e \<and> ar_valid e) es" "by_start es" "ar_start this \<le> n" "list_all plain rs"
  shows "\<exists>rs' m. exclude_loop this es n rs = Some (rs', m) \<and> list_all plain rs'
    \<and> spans rs' \<union> (case m of None \<Rightarrow> {} | Some k \<Rightarrow> {k ..< ar_end this}) = spans rs \<union> ({n ..< ar_end this} - spans es)"
  using assms(2-)
proof (induction es arbitrary: n rs)
  case Nil
  then show ?case by simp
next
  case (Cons e es)
  have e: "plain e" "ar_start e \<le> ar_end e" and es: "list_all (\<lambda>e. plain e \<and> ar_valid e) es" "by_start es"
    and later: "\<forall>x\<in>set es. ar_start e \<le> ar_start x"
    using Cons.prems by (auto simp: by_start_def ar_valid_def)
  have ni: "\<not> interleaved e" using e(1) by (simp add: plain_def interleaved_def)
  note loop = plain_intersects [OF assms(1) e(1)] ni
  consider "ar_start this \<ge> ar_end e \<or> ar_end this \<le> ar_start e"
    | "\<not> (ar_start this \<ge> ar_end e \<or> ar_end this \<le> ar_start e)" "ar_start e \<le> n"
    | "\<not> (ar_start this \<ge> ar_end e \<or> ar_end this \<le> ar_start e)" "\<not> ar_start e \<le> n" by blast
  then show ?case
  proof cases
    case 1
    then have "{n ..< ar_end this} - spans (e # es) = {n ..< ar_end this} - spans es"
      using Cons.prems(3) by (auto simp: interval_def)
    then show ?thesis using Cons.IH [OF es Cons.prems(3,4)] 1 loop by simp
  next
    case 2
    show ?thesis
    proof (cases "ar_end e < ar_end this")
      case True
      let ?n = "if n < ar_end e then ar_end e else n"
      have "ar_start this \<le> ?n" using Cons.prems(3) by auto
      have "{n ..< ar_end this} - spans (e # es) = {?n ..< ar_end this} - spans es"
        using 2 by (auto simp: interval_def)
      with Cons.IH [OF es \<open>ar_start this \<le> ?n\<close> Cons.prems(4)] show ?thesis using 2 loop True by simp
    next
      case False
      then have "{n ..< ar_end this} - spans (e # es) = {}" using 2 by (auto simp: interval_def)
      then have "spans rs = spans rs \<union> ({n ..< ar_end this} - spans (e # es))" by blast
      then show ?thesis using 2 loop False Cons.prems(4) by (simp del: spans_simps(2))
    qed
  next
    case 3
    let ?p = "AddrRange_plain n (ar_start e)"
    have p: "interval ?p = {n ..< ar_start e}" by (simp add: interval_def AddrRange_plain_def)
    have apart: "{n ..< ar_start e} \<inter> spans es = {}"
      using later by (fastforce simp: spans_def interval_def)
    have split: "{n ..< ar_end this} - spans (e # es) = {n ..< ar_start e} \<union> ({ar_end e ..< ar_end this} - spans es)"
      using 3 e(2) apart by (auto simp: interval_def)
    show ?thesis
    proof (cases "ar_end e < ar_end this")
      case True
      have "ar_start this \<le> ar_end e" "list_all plain (rs @ [?p])" using 3 Cons.prems(4) by auto
      from Cons.IH [OF es this] show ?thesis using 3 loop True unfolding split by (simp add: p Un_assoc)
    next
      case False
      then have "{ar_end e ..< ar_end this} = {}" by simp
      then have "spans (rs @ [?p]) = spans rs \<union> ({n ..< ar_end this} - spans (e # es))" unfolding split by (simp add: p)
      then show ?thesis using 3 loop False Cons.prems(4) by simp
    qed
  qed
qed

text \<open>C35. Excluding address ranges computes the set difference: for contiguous ranges, \<^verbatim>\<open>exclude\<close> returns contiguous
  ranges that together hold exactly the addresses of this range that none of the excluded ranges holds, in whatever order
  the excluded ranges are given and however they overlap.\<close>
theorem exclude_is_difference:
  assumes "plain this" "list_all (\<lambda>e. plain e \<and> ar_valid e) es"
  shows "\<exists>rs. ar_exclude es this = Some rs \<and> list_all plain rs
    \<and> (\<forall>a. (\<exists>r\<in>set rs. ar_contains r a) \<longleftrightarrow> ar_contains this a \<and> \<not> (\<exists>e\<in>set es. ar_contains e a))"
proof -
  have "list_all plain es" using assms(2) by (simp add: list_all_iff)
  then have s: "by_start (sort_ranges es)" by (rule sort_ranges_sorted)
  have v: "list_all (\<lambda>e. plain e \<and> ar_valid e) (sort_ranges es)" using assms(2) by (simp add: list_all_iff)
  from exclude_loop_spans [OF assms(1) v s, of "ar_start this" "[]"] obtain rs m where
    l: "exclude_loop this (sort_ranges es) (ar_start this) [] = Some (rs, m)" "list_all plain rs"
      "spans rs \<union> (case m of None \<Rightarrow> {} | Some k \<Rightarrow> {k ..< ar_end this}) = interval this - spans (sort_ranges es)"
    by (auto simp: interval_def)
  let ?rs = "case m of None \<Rightarrow> rs | Some n \<Rightarrow> if n < ar_end this then rs @ [AddrRange_plain n (ar_end this)] else rs"
  have "spans ?rs = spans rs \<union> (case m of None \<Rightarrow> {} | Some k \<Rightarrow> {k ..< ar_end this})"
    by (auto simp: interval_def AddrRange_plain_def split: option.splits)
  then have sp: "spans ?rs = interval this - spans es" using l(3) by (simp add: spans_def)
  have pl: "list_all plain ?rs" using l(2) by (simp split: option.splits)
  have "ar_exclude es this = Some ?rs"
    using assms(1) l(1) by (simp add: ar_exclude_def plain_def interleaved_def)
  moreover have "(\<exists>r\<in>set ?rs. ar_contains r a) \<longleftrightarrow> a \<in> spans ?rs" for a
    using pl by (auto simp: spans_def list_all_iff plain_contains)
  moreover have "(\<exists>e\<in>set es. ar_contains e a) \<longleftrightarrow> a \<in> spans es" for a
    using assms(2) by (auto simp: spans_def list_all_iff plain_contains)
  ultimately show ?thesis using pl sp plain_contains [OF assms(1)] by auto
qed

theorem exclude_is_difference_witness:
  "\<exists>rs. ar_exclude [AddrRange_plain 40 60, AddrRange_plain 10 20, AddrRange_plain 50 55] (AddrRange_plain 0 100) = Some rs
     \<and> (\<exists>r\<in>set rs. ar_contains r 25) \<and> \<not> (\<exists>r\<in>set rs. ar_contains r 52)"
proof -
  let ?es = "[AddrRange_plain 40 60, AddrRange_plain 10 20, AddrRange_plain 50 55]" and ?t = "AddrRange_plain 0 100"
  have "plain ?t" "list_all (\<lambda>e. plain e \<and> ar_valid e) ?es" by (simp_all add: ar_valid_def AddrRange_plain_def plain_def)
  from exclude_is_difference [OF this] show ?thesis
    by (elim ex_forward conjE) (simp add: plain_contains interval_def, simp add: AddrRange_plain_def)
qed

subsection \<open>Interleaved ranges\<close>

lemma bit_sel_loop:
  "bit (fold (\<lambda>i sel. sel OR push_bit i (of_nat (f i mod 2))) [0..<n] (0 :: 32 word)) k \<longleftrightarrow> k < n \<and> k < 32 \<and> odd (f k)"
proof (induction n)
  case (Suc n)
  have "bit (push_bit n (of_nat (f n mod 2)) :: 32 word) k \<longleftrightarrow> k = n \<and> k < 32 \<and> odd (f n)"
    by (cases "odd (f n)") (auto simp: bit_push_bit_iff bit_1_iff bit_exp_iff odd_iff_mod_2_eq_one)
  with Suc show ?case by (auto simp: bit_or_iff less_Suc_eq)
qed simp

lemma bit_intlv_sel: "bit (intlv_sel ms a) k \<longleftrightarrow> k < length ms \<and> k < 32 \<and> odd (popcount (a AND ms ! k))"
  unfolding intlv_sel_def parity_def by (rule bit_sel_loop)

lemma intlv_sel_match:
  assumes "length ms \<le> 8"
  shows "intlv_sel ms a = ucast m \<longleftrightarrow> m = (ucast (intlv_sel ms a) :: 8 word)"
proof
  show "m = ucast (intlv_sel ms a)" if "intlv_sel ms a = ucast m"
    unfolding that by (rule bit_word_eqI) (simp add: bit_ucast_iff)
  show "intlv_sel ms a = ucast m" if "m = (ucast (intlv_sel ms a) :: 8 word)"
    unfolding that using assms by (intro bit_word_eqI) (auto simp: bit_ucast_iff bit_intlv_sel)
qed

lemma intlv_match_less:
  assumes "length ms \<le> 8"
  shows "unat (ucast (intlv_sel ms a) :: 8 word) < 2 ^ length ms"
proof -
  have "take_bit (length ms) (ucast (intlv_sel ms a) :: 8 word) = ucast (intlv_sel ms a)"
    using assms by (intro bit_word_eqI) (auto simp: bit_take_bit_iff bit_ucast_iff bit_intlv_sel)
  then show ?thesis by (metis unsigned_take_bit_eq take_bit_nat_less_exp)
qed

lemma merge_step_Some: "merge_step this r m = Some m' \<longleftrightarrow> mergesWith r this \<and> intlvMatch r = m \<and> m' = m + 1"
  by (auto simp: merge_step_def bind_eq_Some_conv)

lemma merge_loop:
  assumes "for_list (merge_step this) rs m = Some m'"
  shows "list_all (\<lambda>r. mergesWith r this) rs" "map intlvMatch rs = map (\<lambda>i. m + of_nat i) [0..<length rs]"
  using assms
proof (induction rs arbitrary: m)
  case (Cons r rs)
  { case 1 then show ?case using Cons.IH(1) by (auto simp: merge_step_Some bind_eq_Some_conv) }
  { case 2
    then have r: "intlvMatch r = m" "for_list (merge_step this) rs (m + 1) = Some m'"
      by (auto simp: merge_step_Some bind_eq_Some_conv)
    have "map (\<lambda>i. m + of_nat i) [0..<Suc (length rs)] = m # map (\<lambda>i. m + 1 + of_nat i) [0..<length rs]"
      by (simp add: upt_conv_Cons map_Suc_upt [symmetric] del: upt_Suc)
    then show ?case using r Cons.IH(2) [OF r(2)] by simp }
qed simp_all


definition ex_pair :: "AddrRange list" where
  "ex_pair = [\<lparr>ar_start = 0, ar_end = 4096, masks = [64], intlvMatch = 0\<rparr>, \<lparr>ar_start = 0, ar_end = 4096, masks = [64], intlvMatch = 1\<rparr>]"


subsection \<open>Removing the interleaving bits is undone by adding them\<close>

definition below :: "nat list \<Rightarrow> nat \<Rightarrow> nat" where
  "below ps n = length (filter (\<lambda>p. p < n) ps)"

lemma below_snoc [simp]: "below (ps @ [p]) n = below ps n + (if p < n then 1 else 0)"
  by (simp add: below_def)

lemma below_all: "\<forall>p\<in>set ps. p < n \<Longrightarrow> below ps n = length ps"
  by (simp add: below_def)

lemma below_gap:
  assumes "sorted_wrt (<) (ps @ [p])" "n \<notin> set ps" "n < p"
  shows "n - below ps n < p - length ps" "below ps n \<le> n"
proof -
  have d: "distinct ps" "\<forall>x\<in>set ps. x < p" using assms(1) by (auto simp: sorted_wrt_append strict_sorted_iff)
  let ?lo = "filter (\<lambda>x. x < n) ps" and ?hi = "filter (\<lambda>x. \<not> x < n) ps"
  have "set ?hi \<subseteq> {Suc n ..< p}"
  proof
    fix x assume "x \<in> set ?hi"
    then have "x \<in> set ps" "n \<le> x" by auto
    moreover from this have "x \<noteq> n" "x < p" using assms(2) d(2) by auto
    ultimately show "x \<in> {Suc n ..< p}" by auto
  qed
  then have "length ?hi \<le> p - Suc n" using d(1) by (metis card_atLeastLessThan card_mono distinct_card distinct_filter finite_atLeastLessThan)
  moreover have "set ?lo \<subseteq> {..<n}" by auto
  then have lo: "length ?lo \<le> n" using d(1) by (metis card_lessThan card_mono distinct_card distinct_filter finite_lessThan)
  moreover have "length ?lo + length ?hi = length ps" by (rule sum_length_filter_compl)
  ultimately show "n - below ps n < p - length ps" "below ps n \<le> n" using assms(3) by (auto simp: below_def)
qed

lemma bit_remove_bit:
  assumes "i \<le> p" "p < 64"
  shows "\<exists>w. remove_bit i p a = Some w \<and> (\<forall>k. bit w k \<longleftrightarrow> (if k < p - i then bit a k else bit a (Suc k)))"
proof (cases "p = i")
  case True
  have "bf_mask_range (nat ((- 1) mod 2 ^ 32)) 0 = 0"
    by (simp add: bf_mask_range_def mbits_def bf_mask_def)
  then show ?thesis using True
    by (auto simp: remove_bit_def insertBits_def bit_drop_bit_eq)
next
  case False
  have "(int p - int i - 1) mod 2 ^ 32 = int p - int i - 1" using assms False by (intro mod_pos_pos_trivial) auto
  then have f: "nat ((int p - int i - 1) mod 2 ^ 32) = p - i - 1" using assms by simp
  have le: "0 \<le> p - i - 1" "p - i - 1 < 64" using assms by auto
  from bit_insertBits [OF le, of "drop_bit 1 a" a] obtain w where
    w: "insertBits (drop_bit 1 a) (p - i - 1) 0 a = Some w"
      "\<forall>k<64. bit w k \<longleftrightarrow> (if 0 \<le> k \<and> k \<le> p - i - 1 then bit a (k - 0) else bit (drop_bit 1 a) k)" by blast
  have "bit w k \<longleftrightarrow> (if k < p - i then bit a k else bit a (Suc k))" for k
  proof (cases "k < 64")
    case True
    then show ?thesis using w(2) False assms by (auto simp: bit_drop_bit_eq)
  next
    case False
    then have "\<not> bit w k" "\<not> bit a (Suc k)" using bit_mask64_less [of w k] bit_mask64_less [of a "Suc k"] by auto
    then show ?thesis using False assms by auto
  qed
  moreover have "remove_bit i p a = insertBits (drop_bit 1 a) (p - i - 1) 0 a"
    unfolding remove_bit_def f using False assms(1) by simp
  ultimately show ?thesis using w(1) by (intro exI [of _ w]) simp
qed

lemma bit_push_one: "bit (push_bit 1 (a :: mask64)) k \<longleftrightarrow> k < 64 \<and> 0 < k \<and> bit a (k - 1)"
  unfolding bit_push_bit_iff by auto

lemma bit_add_bit:
  assumes "p < 64"
  shows "\<exists>w. add_bit p a = Some w \<and> (\<forall>k<64. bit w k \<longleftrightarrow> (if k < p then bit a k else 0 < k \<and> bit a (k - 1)))"
proof (cases "p = 0")
  case True
  then have "add_bit p a = Some (push_bit 1 a)" unfolding add_bit_def by simp
  moreover have "\<forall>k<64. bit (push_bit 1 a) k \<longleftrightarrow> (if k < p then bit a k else 0 < k \<and> bit a (k - 1))"
    unfolding bit_push_one using True by simp
  ultimately show ?thesis by (intro exI [of _ "push_bit 1 a"] conjI)
next
  case False
  have le: "0 \<le> p - 1" "p - 1 < 64" using assms by auto
  from bit_insertBits [OF le, of "push_bit 1 a" a] obtain w where
    w: "insertBits (push_bit 1 a) (p - 1) 0 a = Some w"
      "\<forall>k<64. bit w k \<longleftrightarrow> (if 0 \<le> k \<and> k \<le> p - 1 then bit a (k - 0) else bit (push_bit 1 a) k)" by blast
  have "bit w k \<longleftrightarrow> (if k < p then bit a k else 0 < k \<and> bit a (k - 1))" if "k < 64" for k
    using w(2) [rule_format, OF that] False that unfolding bit_push_one by (cases "k < p") auto
  moreover have "add_bit p a = Some w" unfolding add_bit_def using False w(1) by simp
  ultimately show ?thesis by blast
qed

lemma remove_loop:
  assumes "sorted_wrt (<) ps" "\<forall>p\<in>set ps. p < 64" "m \<le> length ps"
  shows "\<exists>b. for_list (\<lambda>i a. remove_bit i (ps ! i) a) [0..<m] a = Some b
    \<and> (\<forall>n<64. n \<notin> set (take m ps) \<longrightarrow> (bit b (n - below (take m ps) n) \<longleftrightarrow> bit a n))"
  using assms(3)
proof (induction m)
  case 0
  then show ?case by (simp add: below_def)
next
  case (Suc m)
  let ?qs = "take m ps" and ?p = "ps ! m"
  from Suc obtain b where b: "for_list (\<lambda>i a. remove_bit i (ps ! i) a) [0..<m] a = Some b"
    "\<forall>n<64. n \<notin> set ?qs \<longrightarrow> (bit b (n - below ?qs n) \<longleftrightarrow> bit a n)" by auto
  have t: "take (Suc m) ps = ?qs @ [?p]" using Suc.prems by (simp add: take_Suc_conv_app_nth)
  have so: "sorted_wrt (<) (?qs @ [?p])" using sorted_wrt_take [OF assms(1), of "Suc m"] by (simp add: t)
  have len: "length ?qs = m" using Suc.prems by simp
  have lt: "\<forall>q\<in>set ?qs. q < ?p" using so by (simp add: sorted_wrt_append)
  have "card (set ?qs) \<le> card {..<?p}" using lt by (intro card_mono) auto
  then have mp: "m \<le> ?p" using so len by (simp add: sorted_wrt_append strict_sorted_iff distinct_card)
  have "?p < 64" using assms(2) Suc.prems by simp
  from bit_remove_bit [OF mp this, of b] obtain w where
    w: "remove_bit m ?p b = Some w" "\<forall>k. bit w k \<longleftrightarrow> (if k < ?p - m then bit b k else bit b (Suc k))" by blast
  have "bit w (n - below (?qs @ [?p]) n) \<longleftrightarrow> bit a n" if n: "n < 64" "n \<notin> set (?qs @ [?p])" for n
  proof (cases "n < ?p")
    case True
    then have "n - below ?qs n < ?p - m" using below_gap(1) [OF so, of n] n(2) len by simp
    then show ?thesis using w(2) b(2) n True by simp
  next
    case False
    then have gt: "?p < n" using n(2) by simp
    then have "\<forall>q\<in>set ?qs. q < n" using lt by (meson less_trans)
    then have be: "below ?qs n = m" using below_all [of ?qs n] len by simp
    have "Suc (n - Suc m) = n - m" "\<not> n - Suc m < ?p - m" using gt mp by auto
    then show ?thesis using w(2) b(2) [rule_format, of n] n gt be by simp
  qed
  then show ?case using b(1) w(1) by (simp add: t for_list_append)
qed

lemma add_loop:
  assumes "sorted_wrt (<) ps" "\<forall>p\<in>set ps. p < 64"
  shows "\<exists>c. for_list add_bit ps b = Some c \<and> (\<forall>n<64. n \<notin> set ps \<longrightarrow> (bit c n \<longleftrightarrow> bit b (n - below ps n)))"
  using assms
proof (induction ps rule: rev_induct)
  case Nil
  then show ?case by (simp add: below_def)
next
  case (snoc p ps)
  then obtain c where c: "for_list add_bit ps b = Some c" "\<forall>n<64. n \<notin> set ps \<longrightarrow> (bit c n \<longleftrightarrow> bit b (n - below ps n))"
    by (auto simp: sorted_wrt_append)
  have lt: "\<forall>q\<in>set ps. q < p" using snoc.prems(1) by (simp add: sorted_wrt_append)
  have "p < 64" using snoc.prems(2) by simp
  from bit_add_bit [OF this, of c] obtain w where
    w: "add_bit p c = Some w" "\<forall>k<64. bit w k \<longleftrightarrow> (if k < p then bit c k else 0 < k \<and> bit c (k - 1))" by blast
  have "bit w n \<longleftrightarrow> bit b (n - below (ps @ [p]) n)" if n: "n < 64" "n \<notin> set (ps @ [p])" for n
  proof (cases "n < p")
    case True
    then show ?thesis using w(2) c(2) n by simp
  next
    case False
    then have gt: "p < n" using n(2) by simp
    then have le: "\<forall>q\<in>set ps. q < n - 1" using lt by fastforce
    then have "\<forall>q\<in>set ps. q < n" by fastforce
    then have "n - 1 \<notin> set ps" "below ps (n - 1) = length ps" "below ps n = length ps"
      using le below_all [of ps] by auto
    then show ?thesis using w(2) c(2) [rule_format, of "n - 1"] n gt by simp
  qed
  then show ?case using c(1) w(1) by (simp add: for_list_append)
qed

text \<open>Masks with which the bits can be added back: the lowest bits of the masks are in the lower half of the word,
  where \<^verbatim>\<open>1 << lsb\<close> is right, and no mask has the lowest bit of another.\<close>

definition intlv_ok :: "AddrRange \<Rightarrow> bool" where
  "intlv_ok r \<longleftrightarrow> length (masks r) \<le> 8 \<and> (\<forall>i<length (masks r). masks r ! i \<noteq> 0 \<and> ctz64 (masks r ! i) < 31
     \<and> (\<forall>j<length (masks r). j \<noteq> i \<longrightarrow> \<not> bit (masks r ! i) (ctz64 (masks r ! j))))"

lemma popcount_card: "popcount w = card {i. bit w i}"
  by (metis distinct_card distinct_mask_bits popcount_def set_mask_bits)

lemma popcount_without:
  "popcount w = popcount (w AND NOT (push_bit p 1)) + (if bit w p then 1 else 0)"
proof (cases "bit w p")
  case True
  have "p < 64" using True by (rule bit_mask64_less)
  then have "{i. bit (w AND NOT (push_bit p 1)) i} = {i. bit w i} - {p}"
    by (auto simp: bit_and_iff bit_not_iff bit_push_bit_iff bit_1_iff dest: bit_mask64_less)
  moreover have "finite {i. bit w i}" by (metis finite_set set_mask_bits)
  ultimately show ?thesis using True by (simp add: popcount_card card_Suc_Diff1 [symmetric] del: card_Diff_insert)
next
  case False
  have "w AND NOT (push_bit p 1) = w"
    by (rule bit_word_eqI) (use False in \<open>auto simp: bit_and_iff bit_not_iff bit_push_bit_iff bit_1_iff bit_exp_iff\<close>)
  then show ?thesis using False by simp
qed

lemma scast_shifted_one: "l < 31 \<Longrightarrow> (scast (2 ^ l :: 32 word) :: mask64) = 2 ^ l"
  by (rule bit_word_eqI) (auto simp: bit_signed_iff bit_push_bit_iff bit_1_iff bit_exp_iff)

lemma bit_select_bit:
  assumes ok: "intlv_ok r" "m < length (masks r)" and sel: "intlv_sel (masks r) a = ucast (intlvMatch r)"
    and c: "\<forall>n<64. n \<notin> (\<lambda>j. ctz64 (masks r ! j)) ` {m..<length (masks r)} \<longrightarrow> (bit c n \<longleftrightarrow> bit a n)"
  shows "\<exists>w. select_bit r m c = Some w
    \<and> (\<forall>n<64. n \<notin> (\<lambda>j. ctz64 (masks r ! j)) ` {Suc m..<length (masks r)} \<longrightarrow> (bit w n \<longleftrightarrow> bit a n))"
proof -
  let ?k = "masks r ! m" and ?l = "ctz64 (masks r ! m)"
  have k: "?k \<noteq> 0" "?l < 31" and other: "\<And>j. j < length (masks r) \<Longrightarrow> j \<noteq> m \<Longrightarrow> \<not> bit ?k (ctz64 (masks r ! j))"
    using ok by (auto simp: intlv_ok_def)
  have bl: "bit ?k ?l" using ctz_least(1) [OF k(1)] k(1) by (simp add: ctz64_def)
  let ?masked = "c AND ?k AND NOT (push_bit ?l 1)"
  have "?masked = (a AND ?k) AND NOT (push_bit ?l 1)"
  proof (rule bit_word_eqI)
    fix n assume "n < LENGTH(64)"
    then have n: "n < 64" by simp
    have "bit c n \<longleftrightarrow> bit a n" if "bit ?k n" "n \<noteq> ?l"
    proof -
      have "n \<notin> (\<lambda>j. ctz64 (masks r ! j)) ` {m..<length (masks r)}" using that other by fastforce
      then show ?thesis using c n by blast
    qed
    then show "bit ?masked n \<longleftrightarrow> bit ((a AND ?k) AND NOT (push_bit ?l 1)) n"
      using n k(2) by (auto simp: bit_and_iff bit_not_iff bit_push_bit_iff bit_1_iff bit_exp_iff)
  qed
  moreover have "popcount (a AND ?k) = popcount ((a AND ?k) AND NOT (push_bit ?l 1)) + (if bit a ?l then 1 else 0)"
    using popcount_without [of "a AND ?k" ?l] bl by (simp add: bit_and_iff)
  ultimately have odd: "odd (popcount (a AND ?k)) \<longleftrightarrow> (odd (popcount ?masked) \<noteq> bit a ?l)" by auto
  have "bit (intlvMatch r) m \<longleftrightarrow> odd (popcount (a AND ?k))"
  proof -
    have "bit (ucast (intlvMatch r) :: 32 word) m \<longleftrightarrow> bit (intlv_sel (masks r) a) m" using sel by simp
    then show ?thesis using ok by (simp add: bit_ucast_iff bit_intlv_sel intlv_ok_def)
  qed
  with odd have val: "(bit (intlvMatch r) m \<noteq> odd (popcount ?masked)) \<longleftrightarrow> bit a ?l" by blast
  let ?b = "(drop_bit m (ucast (intlvMatch r)) AND bf_mask 1) XOR of_nat (popcount ?masked)"
  have le: "?l \<le> ?l" "?l < 64" using k(2) by auto
  from bit_insertBits [OF le, of c ?b] obtain w where
    w: "insertBits c ?l ?l ?b = Some w" "\<forall>n<64. bit w n \<longleftrightarrow> (if ?l \<le> n \<and> n \<le> ?l then bit ?b (n - ?l) else bit c n)" by blast
  have mlt: "m < 64" using ok by (simp add: intlv_ok_def)
  have b0: "bit ?b 0 \<longleftrightarrow> bit a ?l"
    using val mlt by (simp add: bit_xor_iff bit_and_iff bit_drop_bit_eq bit_ucast_iff bit_bf_mask) (simp add: bit_0)
  have "select_bit r m c = Some w"
    using k(2) w(1) by (simp add: select_bit_def Let_def bf_bits_Some scast_shifted_one and.assoc)
  moreover have "bit w n \<longleftrightarrow> bit a n"
    if n: "n < 64" "n \<notin> (\<lambda>j. ctz64 (masks r ! j)) ` {Suc m..<length (masks r)}" for n
  proof (cases "n = ?l")
    case True
    then show ?thesis using w(2) b0 n(1) by simp
  next
    case False
    have "{m..<length (masks r)} = insert m {Suc m..<length (masks r)}" using ok(2) by auto
    then show ?thesis using w(2) c n False by auto
  qed
  ultimately show ?thesis by blast
qed

lemma select_loop:
  assumes "intlv_ok r" "intlv_sel (masks r) a = ucast (intlvMatch r)"
    and "\<forall>n<64. n \<notin> (\<lambda>j. ctz64 (masks r ! j)) ` {0..<length (masks r)} \<longrightarrow> (bit c n \<longleftrightarrow> bit a n)"
  shows "for_range (select_bit r) (length (masks r)) c = Some a"
proof -
  have "m \<le> length (masks r) \<Longrightarrow> \<exists>w. for_list (select_bit r) [0..<m] c = Some w
    \<and> (\<forall>n<64. n \<notin> (\<lambda>j. ctz64 (masks r ! j)) ` {m..<length (masks r)} \<longrightarrow> (bit w n \<longleftrightarrow> bit a n))" for m
  proof (induction m)
    case 0
    then show ?case using assms(3) by simp
  next
    case (Suc m)
    then obtain w where "for_list (select_bit r) [0..<m] c = Some w"
      "\<forall>n<64. n \<notin> (\<lambda>j. ctz64 (masks r ! j)) ` {m..<length (masks r)} \<longrightarrow> (bit w n \<longleftrightarrow> bit a n)" by auto
    with bit_select_bit [OF assms(1) _ assms(2), of m w] Suc.prems show ?case by (auto simp: for_list_append)
  qed
  from this [of "length (masks r)"] obtain w where w: "for_list (select_bit r) [0..<length (masks r)] c = Some w"
    "\<forall>n<64. bit w n \<longleftrightarrow> bit a n" by auto
  have "w = a" by (rule bit_word_eqI) (use w(2) in simp)
  then show ?thesis using w(1) by (simp add: for_range_def)
qed

lemma masks_lsb_facts:
  assumes "intlv_ok r"
  shows "sorted_wrt (<) (masks_lsb r)" "\<forall>p\<in>set (masks_lsb r). p < 64" "length (masks_lsb r) = length (masks r)"
    "set (masks_lsb r) = (\<lambda>j. ctz64 (masks r ! j)) ` {0..<length (masks r)}"
proof -
  show set_eq: "set (masks_lsb r) = (\<lambda>j. ctz64 (masks r ! j)) ` {0..<length (masks r)}"
  proof -
    have "set (masks r) = (\<lambda>j. masks r ! j) ` {0..<length (masks r)}" by (auto simp: set_conv_nth)
    then show ?thesis unfolding masks_lsb_def by (simp add: image_image)
  qed
  show "\<forall>p\<in>set (masks_lsb r). p < 64" using assms by (auto simp: set_eq intlv_ok_def)
  show "length (masks_lsb r) = length (masks r)" by (simp add: masks_lsb_def)
  have "inj_on (\<lambda>j. ctz64 (masks r ! j)) {0..<length (masks r)}"
  proof (rule inj_onI)
    fix i j assume ij: "i \<in> {0..<length (masks r)}" "j \<in> {0..<length (masks r)}" "ctz64 (masks r ! i) = ctz64 (masks r ! j)"
    then have "bit (masks r ! i) (ctz64 (masks r ! j))"
      using ctz_least(1) [of "masks r ! i"] assms by (auto simp: intlv_ok_def ctz64_def split: if_splits)
    then show "i = j" using assms ij by (auto simp: intlv_ok_def)
  qed
  then have "distinct (map ctz64 (masks r))" by (auto simp: distinct_conv_nth inj_on_def)
  then show "sorted_wrt (<) (masks_lsb r)" by (simp add: masks_lsb_def strict_sorted_iff)
qed

text \<open>C36. Removing the interleaving bits loses nothing: for an address of an interleaved range, possibly with bits
  combined by exclusive or, \<^verbatim>\<open>addIntlvBits\<close> gives back the address from which \<^verbatim>\<open>removeIntlvBits\<close> took the bits.\<close>
theorem addIntlvBits_removeIntlvBits:
  assumes "intlv_ok r" "ar_contains r a"
  shows "\<exists>b. removeIntlvBits r a = Some b \<and> addIntlvBits r b = Some a"
proof (cases "interleaved r")
  case False
  then show ?thesis by (simp add: removeIntlvBits_def addIntlvBits_def)
next
  case True
  let ?ps = "masks_lsb r"
  note ps = masks_lsb_facts [OF assms(1)]
  have sel: "intlv_sel (masks r) a = ucast (intlvMatch r)" using assms(2) by (simp add: ar_contains_def split: if_splits)
  from remove_loop [OF ps(1,2), of "length ?ps" a] obtain b where
    b: "for_range (\<lambda>i a. remove_bit i (?ps ! i) a) (length (masks r)) a = Some b"
      "\<forall>n<64. n \<notin> set ?ps \<longrightarrow> (bit b (n - below ?ps n) \<longleftrightarrow> bit a n)" by (auto simp: for_range_def ps(3))
  from add_loop [OF ps(1,2), of b] obtain c where
    c: "for_list add_bit ?ps b = Some c" "\<forall>n<64. n \<notin> set ?ps \<longrightarrow> (bit c n \<longleftrightarrow> bit b (n - below ?ps n))" by blast
  have "\<forall>n<64. n \<notin> (\<lambda>j. ctz64 (masks r ! j)) ` {0..<length (masks r)} \<longrightarrow> (bit c n \<longleftrightarrow> bit a n)"
    using b(2) c(2) by (simp add: ps(4))
  from select_loop [OF assms(1) sel this] show ?thesis
    using True b(1) c(1) by (simp add: removeIntlvBits_def addIntlvBits_def)
qed

definition ex_xor_range :: AddrRange where
  "ex_xor_range = \<lparr>ar_start = 0, ar_end = 65536, masks = [2 ^ 6 OR 2 ^ 12, 2 ^ 7 OR 2 ^ 13], intlvMatch = 2\<rparr>"

theorem addIntlvBits_removeIntlvBits_witness:
  "\<exists>b. removeIntlvBits ex_xor_range 0x10C5 = Some b \<and> addIntlvBits ex_xor_range b = Some 0x10C5"
proof -
  have c: "ctz 4160 = 6" "ctz 8320 = 7" by code_simp+
  have "intlv_ok ex_xor_range"
    by (auto simp: intlv_ok_def ex_xor_range_def less_Suc_eq ctz64_def c)
  moreover have "ar_contains ex_xor_range 0x10C5" by code_simp
  ultimately show ?thesis by (rule addIntlvBits_removeIntlvBits)
qed

end
