(* ===== verification/Net_Dest.thy ===== *)
theory Net_Dest
  imports Garnet_Prelude
begin

text \<open>
  Destination sets (\<^verbatim>\<open>mem/ruby/common/Set.hh\<close>, \<^verbatim>\<open>NetDest.{hh,cc}\<close>, \<^verbatim>\<open>MachineID.hh\<close>): a \<^verbatim>\<open>Set\<close> is a
  bit set of the controllers of one machine type, a \<^verbatim>\<open>NetDest\<close> is one \<^verbatim>\<open>Set\<close> per machine type.
  Both implement the same algebra of finite sets, the interface \<open>dest_algebra\<close>, which the network
  interface and the routing table use.

  \<^verbatim>\<open>NUMBER_BITS_PER_SET\<close> is a build option; the build of this repository (\<^verbatim>\<open>Garnet_standalone\<close>) has its
  default, 64.  A machine type is its index among the types of the protocol, as
  \<^verbatim>\<open>MachineType_base_level\<close> numbers them, and the ruby system is the list \<^verbatim>\<open>m_num_controllers\<close> of the
  number of controllers of every type.
\<close>

subsection \<open>Machine types\<close>

type_synonym MachineType = nat
type_synonym NodeID = nat
type_synonym num_controllers = "nat list"

record MachineID =
  mach_type :: MachineType
  mach_num :: NodeID

definition MachineType_base_count :: "num_controllers \<Rightarrow> MachineType \<Rightarrow> nat option" where
  "MachineType_base_count nc m = at nc m"

definition MachineType_base_number :: "num_controllers \<Rightarrow> MachineType \<Rightarrow> nat option" where
  "MachineType_base_number nc m = (if m \<le> length nc then Some (sum_list (take m nc)) else None)"

subsection \<open>Set\<close>

record RSet =
  m_nSize :: nat
  sbits :: mask64

definition Set_new :: "nat \<Rightarrow> RSet option" where
  "Set_new sz = (if sz > 64 then None else Some \<lparr>m_nSize = sz, sbits = 0\<rparr>)"

definition Set_setSize :: "nat \<Rightarrow> RSet \<Rightarrow> RSet option" where
  "Set_setSize sz s = (if sz > 64 then None else Some \<lparr>m_nSize = sz, sbits = 0\<rparr>)"

definition Set_add :: "NodeID \<Rightarrow> RSet \<Rightarrow> RSet option" where
  "Set_add index s =
     do { check (index < 64); Some (s\<lparr>sbits := sbits s OR push_bit index 1\<rparr>) }"

definition Set_addSet :: "RSet \<Rightarrow> RSet \<Rightarrow> RSet option" where
  "Set_addSet s obj =
     do { check (m_nSize s = m_nSize obj); Some (s\<lparr>sbits := sbits s OR sbits obj\<rparr>) }"

definition Set_remove :: "NodeID \<Rightarrow> RSet \<Rightarrow> RSet option" where
  "Set_remove index s =
     do { check (index < 64); Some (s\<lparr>sbits := sbits s AND NOT (push_bit index 1)\<rparr>) }"

definition Set_removeSet :: "RSet \<Rightarrow> RSet \<Rightarrow> RSet option" where
  "Set_removeSet s obj =
     do { check (m_nSize s = m_nSize obj); Some (s\<lparr>sbits := sbits s AND NOT (sbits obj)\<rparr>) }"

definition Set_clear :: "RSet \<Rightarrow> RSet" where
  "Set_clear s = s\<lparr>sbits := 0\<rparr>"

definition Set_broadcast :: "RSet \<Rightarrow> RSet" where
  "Set_broadcast s =
     s\<lparr>sbits := fold (\<lambda>j b. b AND NOT (push_bit j 1)) [m_nSize s..<64] (NOT 0)\<rparr>"

definition Set_count :: "RSet \<Rightarrow> nat" where
  "Set_count s = popcount (sbits s)"

definition Set_isEqual :: "RSet \<Rightarrow> RSet \<Rightarrow> bool option" where
  "Set_isEqual s obj = do { check (m_nSize s = m_nSize obj); Some (sbits s = sbits obj) }"

definition Set_OR :: "RSet \<Rightarrow> RSet \<Rightarrow> RSet option" where
  "Set_OR s obj =
     do { check (m_nSize s = m_nSize obj); r \<leftarrow> Set_new (m_nSize s);
          Some (r\<lparr>sbits := sbits s OR sbits obj\<rparr>) }"

definition Set_AND :: "RSet \<Rightarrow> RSet \<Rightarrow> RSet option" where
  "Set_AND s obj =
     do { check (m_nSize s = m_nSize obj); r \<leftarrow> Set_new (m_nSize s);
          Some (r\<lparr>sbits := sbits s AND sbits obj\<rparr>) }"

definition Set_intersectionIsEmpty :: "RSet \<Rightarrow> RSet \<Rightarrow> bool" where
  "Set_intersectionIsEmpty s obj = ((sbits s AND sbits obj) = 0)"

definition Set_isSuperset :: "RSet \<Rightarrow> RSet \<Rightarrow> bool option" where
  "Set_isSuperset s test =
     do { check (m_nSize s = m_nSize test); Some ((sbits s OR sbits test) = sbits s) }"

definition Set_isSubset :: "RSet \<Rightarrow> RSet \<Rightarrow> bool option" where
  "Set_isSubset s test = Set_isSuperset test s"

definition Set_isElement :: "NodeID \<Rightarrow> RSet \<Rightarrow> bool option" where
  "Set_isElement element s = do { check (element < 64); Some (bit (sbits s) element) }"

definition Set_isBroadcast :: "RSet \<Rightarrow> bool" where
  "Set_isBroadcast s = (popcount (sbits s) = m_nSize s)"

definition Set_isEmpty :: "RSet \<Rightarrow> bool" where
  "Set_isEmpty s = (sbits s = 0)"

definition Set_smallestElement :: "RSet \<Rightarrow> NodeID option" where
  "Set_smallestElement s = List.find (bit (sbits s)) [0..<m_nSize s]"

subsection \<open>NetDest\<close>

record NetDest =
  m_bits :: "RSet list"
  m_ruby_system :: "num_controllers option"

fun map_opt :: "('a \<Rightarrow> 'b option) \<Rightarrow> 'a list \<Rightarrow> 'b list option" where
  "map_opt f [] = Some []"
| "map_opt f (x # xs) = do { y \<leftarrow> f x; ys \<leftarrow> map_opt f xs; Some (y # ys) }"

fun map2_opt :: "('a \<Rightarrow> 'b \<Rightarrow> 'c option) \<Rightarrow> 'a list \<Rightarrow> 'b list \<Rightarrow> 'c list option" where
  "map2_opt f (x # xs) (y # ys) = do { z \<leftarrow> f x y; zs \<leftarrow> map2_opt f xs ys; Some (z # zs) }"
| "map2_opt f xs ys = Some []"

definition NetDest_resize :: "NetDest \<Rightarrow> NetDest option" where
  "NetDest_resize nd =
     (case m_ruby_system nd of
        None \<Rightarrow> None
      | Some nc \<Rightarrow>
          do { bs \<leftarrow> map_opt (\<lambda>count. Set_setSize count \<lparr>m_nSize = 0, sbits = 0\<rparr>) nc;
               Some (nd\<lparr>m_bits := bs\<rparr>) })"

definition NetDest_new :: "num_controllers \<Rightarrow> NetDest option" where
  "NetDest_new nc = NetDest_resize \<lparr>m_bits = [], m_ruby_system = Some nc\<rparr>"

definition vecIndex :: "MachineID \<Rightarrow> NetDest \<Rightarrow> nat option" where
  "vecIndex m nd = do { check (mach_type m < length (m_bits nd)); Some (mach_type m) }"

definition NetDest_add :: "MachineID \<Rightarrow> NetDest \<Rightarrow> NetDest option" where
  "NetDest_add newElement nd =
     do { check (0 < length (m_bits nd));
          i \<leftarrow> vecIndex newElement nd;
          check (mach_num newElement < m_nSize (m_bits nd ! i));
          s \<leftarrow> Set_add (mach_num newElement) (m_bits nd ! i);
          Some (nd\<lparr>m_bits := (m_bits nd)[i := s]\<rparr>) }"

definition NetDest_addNetDest :: "NetDest \<Rightarrow> NetDest \<Rightarrow> NetDest option" where
  "NetDest_addNetDest nd netDest =
     do { check (0 < length (m_bits nd));
          check (length (m_bits nd) = length (m_bits netDest));
          bs \<leftarrow> map2_opt Set_addSet (m_bits nd) (m_bits netDest);
          Some (nd\<lparr>m_bits := bs\<rparr>) }"

definition NetDest_setNetDest :: "MachineType \<Rightarrow> RSet \<Rightarrow> NetDest \<Rightarrow> NetDest option" where
  "NetDest_setNetDest machine s nd =
     do { check (m_ruby_system nd \<noteq> None);
          bs \<leftarrow> put (m_bits nd) machine s;
          Some (nd\<lparr>m_bits := bs\<rparr>) }"

definition NetDest_remove :: "MachineID \<Rightarrow> NetDest \<Rightarrow> NetDest option" where
  "NetDest_remove oldElement nd =
     do { check (0 < length (m_bits nd));
          i \<leftarrow> vecIndex oldElement nd;
          s \<leftarrow> Set_remove (mach_num oldElement) (m_bits nd ! i);
          Some (nd\<lparr>m_bits := (m_bits nd)[i := s]\<rparr>) }"

definition NetDest_removeNetDest :: "NetDest \<Rightarrow> NetDest \<Rightarrow> NetDest option" where
  "NetDest_removeNetDest nd netDest =
     do { check (0 < length (m_bits nd));
          check (length (m_bits nd) = length (m_bits netDest));
          bs \<leftarrow> map2_opt Set_removeSet (m_bits nd) (m_bits netDest);
          Some (nd\<lparr>m_bits := bs\<rparr>) }"

definition NetDest_clear :: "NetDest \<Rightarrow> NetDest option" where
  "NetDest_clear nd =
     do { check (0 < length (m_bits nd)); Some (nd\<lparr>m_bits := map Set_clear (m_bits nd)\<rparr>) }"

definition NetDest_broadcast_type :: "MachineType \<Rightarrow> NetDest \<Rightarrow> NetDest option" where
  "NetDest_broadcast_type machineType nd =
     do { nc \<leftarrow> m_ruby_system nd;
          n \<leftarrow> MachineType_base_count nc machineType;
          for_range (\<lambda>i. NetDest_add \<lparr>mach_type = machineType, mach_num = i\<rparr>) n nd }"

definition NetDest_broadcast :: "num_controllers \<Rightarrow> NetDest \<Rightarrow> NetDest option" where
  "NetDest_broadcast nc nd = for_range NetDest_broadcast_type (length nc) nd"

definition NetDest_getAllDest :: "NetDest \<Rightarrow> NodeID list option" where
  "NetDest_getAllDest nd =
     do { nc \<leftarrow> m_ruby_system nd;
          check (0 < length (m_bits nd));
          dss \<leftarrow> map_opt
            (\<lambda>i. do { base \<leftarrow> MachineType_base_number nc i;
                      Some (map (\<lambda>j. base + j)
                        (filter (bit (sbits (m_bits nd ! i))) [0..<m_nSize (m_bits nd ! i)])) })
            [0..<length (m_bits nd)];
          Some (concat dss) }"

definition NetDest_count :: "NetDest \<Rightarrow> nat option" where
  "NetDest_count nd =
     do { check (0 < length (m_bits nd)); Some (sum_list (map Set_count (m_bits nd))) }"

definition NetDest_elementAt :: "MachineID \<Rightarrow> NetDest \<Rightarrow> bool option" where
  "NetDest_elementAt index nd =
     do { check (0 < length (m_bits nd));
          i \<leftarrow> vecIndex index nd;
          Some (bit (sbits (m_bits nd ! i)) (mach_num index)) }"

text \<open>The two nested loops of \<^verbatim>\<open>smallestElement\<close>, in the order in which they visit the pairs.\<close>

definition dest_pairs :: "NetDest \<Rightarrow> (nat \<times> nat) list" where
  "dest_pairs nd =
     concat (map (\<lambda>i. map (\<lambda>j. (i, j))
       (filter (bit (sbits (m_bits nd ! i))) [0..<m_nSize (m_bits nd ! i)]))
         [0..<length (m_bits nd)])"

definition NetDest_smallestElement :: "NetDest \<Rightarrow> MachineID option" where
  "NetDest_smallestElement nd =
     do { check (0 < length (m_bits nd));
          n \<leftarrow> NetDest_count nd;
          check (0 < n);
          (case dest_pairs nd of
             [] \<Rightarrow> None
           | (i, j) # _ \<Rightarrow> Some \<lparr>mach_type = i, mach_num = j\<rparr>) }"

definition NetDest_smallestElement_type :: "MachineType \<Rightarrow> NetDest \<Rightarrow> MachineID option" where
  "NetDest_smallestElement_type machine nd =
     do { check (0 < length (m_bits nd));
          check (m_ruby_system nd \<noteq> None);
          s \<leftarrow> at (m_bits nd) machine;
          j \<leftarrow> Set_smallestElement s;
          Some \<lparr>mach_type = machine, mach_num = j\<rparr> }"

definition NetDest_isBroadcast :: "NetDest \<Rightarrow> bool option" where
  "NetDest_isBroadcast nd =
     do { check (0 < length (m_bits nd)); Some (list_all Set_isBroadcast (m_bits nd)) }"

definition NetDest_isEmpty :: "NetDest \<Rightarrow> bool option" where
  "NetDest_isEmpty nd =
     do { check (0 < length (m_bits nd)); Some (list_all Set_isEmpty (m_bits nd)) }"

definition NetDest_OR :: "NetDest \<Rightarrow> NetDest \<Rightarrow> NetDest option" where
  "NetDest_OR nd other =
     do { check (0 < length (m_bits nd));
          check (length (m_bits nd) = length (m_bits other));
          nc \<leftarrow> m_ruby_system nd;
          result \<leftarrow> NetDest_new nc;
          check (length (m_bits nd) \<le> length (m_bits result));
          bs \<leftarrow> map2_opt Set_OR (m_bits nd) (m_bits other);
          Some (result\<lparr>m_bits := bs @ drop (length bs) (m_bits result)\<rparr>) }"

definition NetDest_AND :: "NetDest \<Rightarrow> NetDest \<Rightarrow> NetDest option" where
  "NetDest_AND nd other =
     do { check (0 < length (m_bits nd));
          check (length (m_bits nd) = length (m_bits other));
          nc \<leftarrow> m_ruby_system nd;
          result \<leftarrow> NetDest_new nc;
          check (length (m_bits nd) \<le> length (m_bits result));
          bs \<leftarrow> map2_opt Set_AND (m_bits nd) (m_bits other);
          Some (result\<lparr>m_bits := bs @ drop (length bs) (m_bits result)\<rparr>) }"

definition NetDest_intersectionIsNotEmpty :: "NetDest \<Rightarrow> NetDest \<Rightarrow> bool option" where
  "NetDest_intersectionIsNotEmpty nd other =
     do { check (0 < length (m_bits nd));
          check (length (m_bits nd) = length (m_bits other));
          Some (list_ex (\<lambda>(a, b). \<not> Set_intersectionIsEmpty a b) (zip (m_bits nd) (m_bits other))) }"

text \<open>A loop that returns \<open>False\<close> at the first component that fails the test.\<close>

fun all2_opt :: "('a \<Rightarrow> 'b \<Rightarrow> bool option) \<Rightarrow> 'a list \<Rightarrow> 'b list \<Rightarrow> bool option" where
  "all2_opt f (x # xs) (y # ys) = do { b \<leftarrow> f x y; if b then all2_opt f xs ys else Some False }"
| "all2_opt f xs ys = Some True"

definition NetDest_isSuperset :: "NetDest \<Rightarrow> NetDest \<Rightarrow> bool option" where
  "NetDest_isSuperset nd test =
     do { check (0 < length (m_bits nd));
          check (length (m_bits nd) = length (m_bits test));
          all2_opt Set_isSuperset (m_bits nd) (m_bits test) }"

definition NetDest_isElement :: "MachineID \<Rightarrow> NetDest \<Rightarrow> bool option" where
  "NetDest_isElement element nd =
     do { check (0 < length (m_bits nd));
          i \<leftarrow> vecIndex element nd;
          Set_isElement (mach_num element) (m_bits nd ! i) }"

definition NetDest_isEqual :: "NetDest \<Rightarrow> NetDest \<Rightarrow> bool option" where
  "NetDest_isEqual nd n =
     do { check (0 < length (m_bits nd));
          check (length (m_bits nd) = length (m_bits n));
          all2_opt Set_isEqual (m_bits nd) (m_bits n) }"

subsection \<open>The algebra of destination sets\<close>

text \<open>
  What the clients rely on: on two values of the same shape the operations never abort, keep the
  shape, and compute union, difference, disjointness and inclusion of the sets they stand for.
\<close>

locale dest_algebra =
  fixes wf :: "'sh \<Rightarrow> 'd \<Rightarrow> bool"
    and els :: "'d \<Rightarrow> 'e set"
    and addAll :: "'d \<Rightarrow> 'd \<Rightarrow> 'd option"
    and removeAll :: "'d \<Rightarrow> 'd \<Rightarrow> 'd option"
    and meets :: "'d \<Rightarrow> 'd \<Rightarrow> bool option"
    and covers :: "'d \<Rightarrow> 'd \<Rightarrow> bool option"
  assumes addAll: "wf sh a \<Longrightarrow> wf sh b \<Longrightarrow>
      \<exists>c. addAll a b = Some c \<and> wf sh c \<and> els c = els a \<union> els b"
    and removeAll: "wf sh a \<Longrightarrow> wf sh b \<Longrightarrow>
      \<exists>c. removeAll a b = Some c \<and> wf sh c \<and> els c = els a - els b"
    and meets: "wf sh a \<Longrightarrow> wf sh b \<Longrightarrow> meets a b = Some (els a \<inter> els b \<noteq> {})"
    and covers: "wf sh a \<Longrightarrow> wf sh b \<Longrightarrow> covers a b = Some (els b \<subseteq> els a)"
begin

lemma split_parts:
  assumes "wf sh a" "wf sh b"
  obtains r where "removeAll a b = Some r" "wf sh r" "meets r b = Some False"
    "els r \<union> (els a \<inter> els b) = els a"
proof -
  obtain r where r: "removeAll a b = Some r" "wf sh r" "els r = els a - els b"
    using removeAll [OF assms] by blast
  then have "meets r b = Some False"
    using meets [OF r(2) assms(2)] by auto
  with r that show thesis by blast
qed

lemma add_then_remove:
  assumes "wf sh a" "wf sh b" "meets a b = Some False"
  shows "\<exists>c d. addAll a b = Some c \<and> removeAll c b = Some d \<and> els d = els a"
proof -
  obtain c where c: "addAll a b = Some c" "wf sh c" "els c = els a \<union> els b"
    using addAll [OF assms(1,2)] by blast
  obtain d where d: "removeAll c b = Some d" "els d = els c - els b"
    using removeAll [OF c(2) assms(2)] by blast
  have "els a \<inter> els b = {}"
    using meets [OF assms(1,2)] assms(3) by simp
  then show ?thesis
    using c d by blast
qed

lemma add_covers:
  assumes "wf sh a" "wf sh b"
  shows "\<exists>c. addAll a b = Some c \<and> covers c a = Some True \<and> covers c b = Some True"
  using addAll [OF assms] covers assms by (metis Un_upper1 Un_upper2)

end

definition set_els :: "RSet \<Rightarrow> nat set" where
  "set_els s = {j. bit (sbits s) j}"

definition set_wf :: "nat \<Rightarrow> RSet \<Rightarrow> bool" where
  "set_wf n s = (m_nSize s = n \<and> n \<le> 64 \<and> (\<forall>j\<in>{n..<64}. \<not> bit (sbits s) j))"

lemma set_wf_bound: "set_wf n s \<Longrightarrow> bit (sbits s) j \<Longrightarrow> j < n"
  using bit_mask64_less [of "sbits s" j] by (fastforce simp: set_wf_def)

lemma set_els_finite [simp]: "finite (set_els s)"
  using bit_mask64_less [of "sbits s"] by (auto simp: set_els_def intro: finite_subset [of _ "{..<64}"])

lemma set_els_bits_eq: "set_els a = set_els b \<longleftrightarrow> sbits a = sbits b"
  by (auto simp: set_els_def bit_eq_iff dest: bit_mask64_less)

lemma set_els_empty: "set_els s = {} \<longleftrightarrow> sbits s = 0"
  by (auto simp: set_els_def mask64_eq_0_iff)

lemmas set_op_defs = Set_addSet_def Set_removeSet_def Set_intersectionIsEmpty_def Set_isSuperset_def

lemma Set_covers_iff: "(sbits a OR sbits b) = sbits a \<longleftrightarrow> set_els b \<subseteq> set_els a"
  by (auto simp: set_els_def bit_eq_iff bit_or_iff dest: bit_mask64_less)

lemma Set_meets_iff: "Set_intersectionIsEmpty a b \<longleftrightarrow> set_els a \<inter> set_els b = {}"
  by (auto simp: Set_intersectionIsEmpty_def set_els_def mask64_eq_0_iff bit_and_iff)

lemma Set_addSet_ok:
  assumes "set_wf n a" "set_wf n b"
  shows "\<exists>c. Set_addSet a b = Some c \<and> set_wf n c \<and> set_els c = set_els a \<union> set_els b"
  using assms by (auto simp: Set_addSet_def set_wf_def set_els_def bit_or_iff check_def)

lemma Set_removeSet_ok:
  assumes "set_wf n a" "set_wf n b"
  shows "\<exists>c. Set_removeSet a b = Some c \<and> set_wf n c \<and> set_els c = set_els a - set_els b"
  using assms bit_mask64_less [of "sbits a"]
  by (auto simp: Set_removeSet_def set_wf_def set_els_def bit_and_iff bit_not_iff check_def)

interpretation one_type: dest_algebra set_wf set_els Set_addSet Set_removeSet
  "\<lambda>a b. Some (\<not> Set_intersectionIsEmpty a b)" Set_isSuperset
proof unfold_locales
  fix sh a b
  assume wf: "set_wf sh a" "set_wf sh b"
  show "\<exists>c. Set_addSet a b = Some c \<and> set_wf sh c \<and> set_els c = set_els a \<union> set_els b"
    using wf by (rule Set_addSet_ok)
  show "\<exists>c. Set_removeSet a b = Some c \<and> set_wf sh c \<and> set_els c = set_els a - set_els b"
    using wf by (rule Set_removeSet_ok)
  show "Some (\<not> Set_intersectionIsEmpty a b) = Some (set_els a \<inter> set_els b \<noteq> {})"
    by (simp add: Set_meets_iff)
  show "Set_isSuperset a b = Some (set_els b \<subseteq> set_els a)"
    using wf by (simp add: Set_isSuperset_def Set_covers_iff set_wf_def check_def)
qed

subsection \<open>NetDest as a set of machines\<close>

definition dest_els :: "NetDest \<Rightarrow> (nat \<times> nat) set" where
  "dest_els nd = {(i, j). i < length (m_bits nd) \<and> j \<in> set_els (m_bits nd ! i)}"

definition dest_wf :: "num_controllers \<Rightarrow> NetDest \<Rightarrow> bool" where
  "dest_wf nc nd =
     (nc \<noteq> [] \<and> m_ruby_system nd = Some nc \<and> list_all2 set_wf nc (m_bits nd))"

lemma dest_wf_length: "dest_wf nc nd \<Longrightarrow> length (m_bits nd) = length nc \<and> 0 < length nc"
  by (auto simp: dest_wf_def dest: list_all2_lengthD)

lemma dest_wf_nth: "dest_wf nc nd \<Longrightarrow> i < length nc \<Longrightarrow> set_wf (nc ! i) (m_bits nd ! i)"
  by (auto simp: dest_wf_def list_all2_conv_all_nth)

lemma map2_opt_ok:
  assumes "list_all2 ok ns xs" "list_all2 ok ns ys"
    and "\<And>n x y. ok n x \<Longrightarrow> ok n y \<Longrightarrow> \<exists>z. f x y = Some z \<and> ok n z \<and> rel x y z"
  shows "\<exists>zs. map2_opt f xs ys = Some zs \<and> list_all2 ok ns zs
           \<and> (\<forall>i<length ns. rel (xs ! i) (ys ! i) (zs ! i))"
  using assms(1,2)
proof (induction ns arbitrary: xs ys)
  case Nil
  then show ?case by simp
next
  case (Cons n ns)
  then obtain x xs' y ys' where *: "xs = x # xs'" "ys = y # ys'" "ok n x" "ok n y"
      "list_all2 ok ns xs'" "list_all2 ok ns ys'"
    by (auto simp: list_all2_Cons1)
  from Cons.IH [OF *(5,6)] assms(3) [OF *(3,4)] * show ?case
    by (fastforce simp: less_Suc_eq_0_disj nth_Cons')
qed

lemma all2_opt_ok:
  assumes "length xs = length ys" "\<And>i. i < length xs \<Longrightarrow> f (xs ! i) (ys ! i) = Some (p i)"
  shows "all2_opt f xs ys = Some (\<forall>i<length xs. p i)"
  using assms
proof (induction f xs ys arbitrary: p rule: all2_opt.induct)
  case (1 f x xs y ys)
  have "f x y = Some (p 0)" using 1(3) [of 0] by simp
  moreover have "p 0 \<Longrightarrow> all2_opt f xs ys = Some (\<forall>i<length xs. p (Suc i))"
    using 1(1) [of "p 0" "\<lambda>i. p (Suc i)"] 1(2) 1(3) [of "Suc _"] \<open>f x y = Some (p 0)\<close> by simp
  ultimately show ?case
    by (auto simp: All_less_Suc2)
qed auto

lemma NetDest_addNetDest_ok:
  assumes "dest_wf nc a" "dest_wf nc b"
  shows "\<exists>c. NetDest_addNetDest a b = Some c \<and> dest_wf nc c \<and> dest_els c = dest_els a \<union> dest_els b"
proof -
  obtain bs where "map2_opt Set_addSet (m_bits a) (m_bits b) = Some bs" "list_all2 set_wf nc bs"
      "\<forall>i<length nc. set_els (bs ! i) = set_els (m_bits a ! i) \<union> set_els (m_bits b ! i)"
    using map2_opt_ok [of set_wf nc "m_bits a" "m_bits b" Set_addSet
        "\<lambda>x y z. set_els z = set_els x \<union> set_els y"] assms Set_addSet_ok
    unfolding dest_wf_def by blast
  then show ?thesis
    using assms dest_wf_length [OF assms(1)] dest_wf_length [OF assms(2)]
    by (auto simp: NetDest_addNetDest_def dest_wf_def dest_els_def check_def
        dest: list_all2_lengthD)
qed

lemma NetDest_removeNetDest_ok:
  assumes "dest_wf nc a" "dest_wf nc b"
  shows "\<exists>c. NetDest_removeNetDest a b = Some c \<and> dest_wf nc c \<and> dest_els c = dest_els a - dest_els b"
proof -
  obtain bs where "map2_opt Set_removeSet (m_bits a) (m_bits b) = Some bs" "list_all2 set_wf nc bs"
      "\<forall>i<length nc. set_els (bs ! i) = set_els (m_bits a ! i) - set_els (m_bits b ! i)"
    using map2_opt_ok [of set_wf nc "m_bits a" "m_bits b" Set_removeSet
        "\<lambda>x y z. set_els z = set_els x - set_els y"] assms Set_removeSet_ok
    unfolding dest_wf_def by blast
  then show ?thesis
    using assms dest_wf_length [OF assms(1)] dest_wf_length [OF assms(2)]
    by (auto simp: NetDest_removeNetDest_def dest_wf_def dest_els_def check_def
        dest: list_all2_lengthD)
qed

lemma NetDest_meets:
  assumes "dest_wf nc a" "dest_wf nc b"
  shows "NetDest_intersectionIsNotEmpty a b = Some (dest_els a \<inter> dest_els b \<noteq> {})"
  using dest_wf_length [OF assms(1)] dest_wf_length [OF assms(2)]
  by (fastforce simp: NetDest_intersectionIsNotEmpty_def check_def list_ex_iff set_zip
      Set_meets_iff dest_els_def)

lemma NetDest_covers:
  assumes "dest_wf nc a" "dest_wf nc b"
  shows "NetDest_isSuperset a b = Some (dest_els b \<subseteq> dest_els a)"
proof -
  have "all2_opt Set_isSuperset (m_bits a) (m_bits b) =
      Some (\<forall>i<length (m_bits a). set_els (m_bits b ! i) \<subseteq> set_els (m_bits a ! i))"
    using assms dest_wf_length [OF assms(1)] dest_wf_length [OF assms(2)]
    by (intro all2_opt_ok one_type.covers) (auto dest: dest_wf_nth)
  then show ?thesis
    using dest_wf_length [OF assms(1)] dest_wf_length [OF assms(2)]
    by (auto simp: NetDest_isSuperset_def check_def dest_els_def)
qed

interpretation net_dest: dest_algebra dest_wf dest_els NetDest_addNetDest NetDest_removeNetDest
  NetDest_intersectionIsNotEmpty NetDest_isSuperset
  by unfold_locales
    (rule NetDest_addNetDest_ok NetDest_removeNetDest_ok NetDest_meets NetDest_covers; assumption)+

lemma map_opt_Some: "map_opt (\<lambda>x. Some (f x)) xs = Some (map f xs)"
  by (induction xs) auto

lemma map_opt_cong: "(\<And>x. x \<in> set xs \<Longrightarrow> f x = g x) \<Longrightarrow> map_opt f xs = map_opt g xs"
  by (induction xs) (auto split: Option.bind_split)

lemma NetDest_new_ok:
  assumes "nc \<noteq> []" "\<forall>n\<in>set nc. n \<le> 64"
  shows "\<exists>nd. NetDest_new nc = Some nd \<and> dest_wf nc nd \<and> dest_els nd = {}"
proof -
  have "map_opt (\<lambda>count. Set_setSize count \<lparr>m_nSize = 0, sbits = 0\<rparr>) nc
      = Some (map (\<lambda>n. \<lparr>m_nSize = n, sbits = 0\<rparr>) nc)"
    using assms(2) by (subst map_opt_Some [symmetric]) (auto intro!: map_opt_cong simp: Set_setSize_def)
  moreover have "list_all2 set_wf nc (map (\<lambda>n. \<lparr>m_nSize = n, sbits = 0\<rparr>) nc)"
    using assms(2) by (auto simp: list_all2_conv_all_nth set_wf_def)
  ultimately show ?thesis
    using assms(1)
    by (simp add: NetDest_new_def NetDest_resize_def dest_wf_def dest_els_def set_els_def)
qed

subsection \<open>Single machines\<close>

lemma dest_wf_update:
  assumes "dest_wf nc nd" "i < length nc" "set_wf (nc ! i) s"
  shows "dest_wf nc (nd\<lparr>m_bits := (m_bits nd)[i := s]\<rparr>)"
  using assms dest_wf_length [OF assms(1)]
  by (auto simp: dest_wf_def list_all2_conv_all_nth nth_list_update)

lemma dest_els_update:
  assumes "i < length (m_bits nd)"
  shows "dest_els (nd\<lparr>m_bits := (m_bits nd)[i := s]\<rparr>)
    = {(k, j) \<in> dest_els nd. k \<noteq> i} \<union> {i} \<times> set_els s"
  using assms by (auto simp: dest_els_def nth_list_update split: if_splits)

lemma NetDest_add_ok:
  assumes wf: "dest_wf nc nd" and i: "i < length nc" and j: "j < nc ! i"
  shows "\<exists>c. NetDest_add \<lparr>mach_type = i, mach_num = j\<rparr> nd = Some c \<and> dest_wf nc c
    \<and> dest_els c = insert (i, j) (dest_els nd)"
proof -
  let ?s = "(m_bits nd ! i)\<lparr>sbits := sbits (m_bits nd ! i) OR push_bit j 1\<rparr>"
  have s: "set_wf (nc ! i) (m_bits nd ! i)" and len: "i < length (m_bits nd)"
    using dest_wf_nth [OF wf i] dest_wf_length [OF wf] i by auto
  then have "set_wf (nc ! i) ?s" "set_els ?s = insert j (set_els (m_bits nd ! i))"
    using j by (auto simp: set_wf_def set_els_def bit_or_iff)
  moreover have "j < 64" "m_nSize (m_bits nd ! i) = nc ! i"
    using s j by (auto simp: set_wf_def)
  ultimately show ?thesis
    using wf i j len dest_wf_update [OF wf i] dest_els_update [OF len, of ?s]
    by (auto simp: NetDest_add_def vecIndex_def Set_add_def check_def dest_els_def)
qed

lemma NetDest_remove_ok:
  assumes wf: "dest_wf nc nd" and i: "i < length nc" and j: "j < 64"
  shows "\<exists>c. NetDest_remove \<lparr>mach_type = i, mach_num = j\<rparr> nd = Some c \<and> dest_wf nc c
    \<and> dest_els c = dest_els nd - {(i, j)}"
proof -
  let ?s = "(m_bits nd ! i)\<lparr>sbits := sbits (m_bits nd ! i) AND NOT (push_bit j 1)\<rparr>"
  have s: "set_wf (nc ! i) (m_bits nd ! i)" and len: "i < length (m_bits nd)"
    using dest_wf_nth [OF wf i] dest_wf_length [OF wf] i by auto
  then have "set_wf (nc ! i) ?s" "set_els ?s = set_els (m_bits nd ! i) - {j}"
    using j bit_mask64_less [of "sbits (m_bits nd ! i)"]
    by (auto simp: set_wf_def set_els_def bit_and_iff bit_not_iff)
  then show ?thesis
    using wf i j len dest_wf_update [OF wf i] dest_els_update [OF len, of ?s]
    by (auto simp: NetDest_remove_def vecIndex_def Set_remove_def check_def dest_els_def)
qed

lemma NetDest_isElement_ok:
  assumes "dest_wf nc nd" "mach_type m < length nc" "mach_num m < 64"
  shows "NetDest_isElement m nd = Some ((mach_type m, mach_num m) \<in> dest_els nd)"
  using assms dest_wf_length [OF assms(1)]
  by (auto simp: NetDest_isElement_def vecIndex_def Set_isElement_def check_def dest_els_def set_els_def)

lemma NetDest_broadcast_type_ok:
  assumes "dest_wf nc nd" "i < length nc"
  shows "\<exists>c. NetDest_broadcast_type i nd = Some c \<and> dest_wf nc c
    \<and> dest_els c = dest_els nd \<union> {i} \<times> {..<nc ! i}"
proof -
  have "\<exists>c. for_range (\<lambda>j. NetDest_add \<lparr>mach_type = i, mach_num = j\<rparr>) k nd = Some c \<and> dest_wf nc c
    \<and> dest_els c = dest_els nd \<union> {i} \<times> {..<k}" if "k \<le> nc ! i" for k
    using that
  proof (induction k)
    case 0
    then show ?case using assms by (simp add: for_range_def)
  next
    case (Suc k)
    then obtain c where "for_range (\<lambda>j. NetDest_add \<lparr>mach_type = i, mach_num = j\<rparr>) k nd = Some c"
        "dest_wf nc c" "dest_els c = dest_els nd \<union> {i} \<times> {..<k}"
      by auto
    with NetDest_add_ok [of nc c i k] assms(2) Suc.prems show ?case
      by (auto simp: for_range_def for_list_append lessThan_Suc)
  qed
  from this [of "nc ! i"] assms show ?thesis
    by (simp add: NetDest_broadcast_type_def MachineType_base_count_def dest_wf_def at_def)
qed

subsection \<open>Enumerating the destinations\<close>

definition machine_base :: "num_controllers \<Rightarrow> nat \<Rightarrow> nat" where
  "machine_base nc i = sum_list (take i nc)"

lemma machine_base_Suc: "i < length nc \<Longrightarrow> machine_base nc (Suc i) = machine_base nc i + nc ! i"
  by (simp add: machine_base_def take_Suc_conv_app_nth)

definition type_dests :: "num_controllers \<Rightarrow> NetDest \<Rightarrow> nat \<Rightarrow> nat list" where
  "type_dests nc nd i = map (\<lambda>j. machine_base nc i + j)
     (filter (bit (sbits (m_bits nd ! i))) [0..<m_nSize (m_bits nd ! i)])"

lemma getAllDest_eq:
  assumes "dest_wf nc nd"
  shows "NetDest_getAllDest nd = Some (concat (map (type_dests nc nd) [0..<length nc]))"
proof -
  have "map_opt (\<lambda>i. do { base \<leftarrow> MachineType_base_number nc i;
            Some (map (\<lambda>j. base + j)
              (filter (bit (sbits (m_bits nd ! i))) [0..<m_nSize (m_bits nd ! i)])) })
            [0..<length nc] = Some (map (type_dests nc nd) [0..<length nc])"
    by (subst map_opt_Some [symmetric])
      (auto intro!: map_opt_cong simp: MachineType_base_number_def machine_base_def type_dests_def)
  then show ?thesis
    using assms dest_wf_length [OF assms]
    by (auto simp: NetDest_getAllDest_def check_def dest_wf_def)
qed

lemma set_type_dests:
  assumes "dest_wf nc nd" "i < length nc"
  shows "set (type_dests nc nd i) = (\<lambda>j. machine_base nc i + j) ` set_els (m_bits nd ! i)"
    and "x \<in> set (type_dests nc nd i) \<Longrightarrow> machine_base nc i \<le> x \<and> x < machine_base nc (Suc i)"
    and "sorted_wrt (<) (type_dests nc nd i)"
    and "length (type_dests nc nd i) = Set_count (m_bits nd ! i)"
proof -
  let ?s = "m_bits nd ! i"
  have wf: "set_wf (nc ! i) ?s" using dest_wf_nth [OF assms] .
  have sz: "m_nSize ?s = nc ! i" "nc ! i \<le> 64" using wf by (auto simp: set_wf_def)
  show "set (type_dests nc nd i) = (\<lambda>j. machine_base nc i + j) ` set_els ?s"
    using set_wf_bound [OF wf] sz by (auto simp: type_dests_def set_els_def)
  show "machine_base nc i \<le> x \<and> x < machine_base nc (Suc i)" if "x \<in> set (type_dests nc nd i)"
    using that sz machine_base_Suc [OF assms(2)] by (auto simp: type_dests_def)
  show "sorted_wrt (<) (type_dests nc nd i)"
    by (simp add: type_dests_def sorted_wrt_map sorted_wrt_filter)
  have "filter (bit (sbits ?s)) [nc ! i..<64] = []"
    using wf by (auto simp: set_wf_def filter_empty_conv)
  then have "filter (bit (sbits ?s)) [0..<64] = filter (bit (sbits ?s)) [0..<nc ! i]"
    using sz upt_add_eq_append [of 0 "nc ! i" "64 - nc ! i"] by simp
  then show "length (type_dests nc nd i) = Set_count ?s"
    using sz by (simp add: type_dests_def Set_count_def popcount_def mask_bits_def)
qed

lemma concat_dests:
  assumes "dest_wf nc nd" "k \<le> length nc"
  shows "sorted_wrt (<) (concat (map (type_dests nc nd) [0..<k]))
    \<and> (\<forall>x\<in>set (concat (map (type_dests nc nd) [0..<k])). x < machine_base nc k)"
  using assms(2)
proof (induction k)
  case 0
  then show ?case by simp
next
  case (Suc k)
  then have "k < length nc" by simp
  note blk = set_type_dests [OF assms(1) this]
  from Suc blk(2,3) machine_base_Suc [OF \<open>k < length nc\<close>] show ?case
    by (auto simp: sorted_wrt_append) (fastforce dest: blk(2))+
qed

text \<open>The global number of a machine.\<close>

definition node_id :: "num_controllers \<Rightarrow> nat \<times> nat \<Rightarrow> nat" where
  "node_id nc e = machine_base nc (fst e) + snd e"

definition valid_machine :: "num_controllers \<Rightarrow> nat \<times> nat \<Rightarrow> bool" where
  "valid_machine nc e \<longleftrightarrow> fst e < length nc \<and> snd e < nc ! fst e"

lemma machine_base_mono: "i \<le> k \<Longrightarrow> machine_base nc i \<le> machine_base nc k"
  by (auto simp: machine_base_def le_iff_add take_add)

lemma node_id_bounds:
  assumes "valid_machine nc e"
  shows "machine_base nc (fst e) \<le> node_id nc e" "node_id nc e < machine_base nc (Suc (fst e))"
  using assms machine_base_Suc [of "fst e" nc] by (auto simp: valid_machine_def node_id_def)

lemma node_id_inj:
  assumes "valid_machine nc e" "valid_machine nc e'" "node_id nc e = node_id nc e'"
  shows "e = e'"
proof -
  have "\<not> fst a < fst b" if "valid_machine nc a" "valid_machine nc b" "node_id nc a = node_id nc b" for a b
    using node_id_bounds [OF that(1)] node_id_bounds [OF that(2)] that(3) machine_base_mono [of "Suc (fst a)" "fst b" nc]
    by auto
  then have "fst e = fst e'" using assms by (metis linorder_neqE_nat)
  then show ?thesis using assms(3) by (simp add: node_id_def prod_eq_iff)
qed

lemma dest_els_valid: "dest_wf nc nd \<Longrightarrow> e \<in> dest_els nd \<Longrightarrow> valid_machine nc e"
  using dest_wf_length [of nc nd] dest_wf_nth [of nc nd "fst e"]
  by (auto simp: dest_els_def valid_machine_def set_els_def set_wf_bound)

lemma dest_wf_sizes: "dest_wf nc nd \<Longrightarrow> nc \<noteq> [] \<and> (\<forall>n\<in>set nc. n \<le> 64)"
  by (auto simp: dest_wf_def list_all2_conv_all_nth set_wf_def in_set_conv_nth)

lemma getAllDest_facts:
  assumes "dest_wf nc nd"
  shows "\<exists>ds. NetDest_getAllDest nd = Some ds \<and> sorted_wrt (<) ds
    \<and> set ds = (\<lambda>(i, j). machine_base nc i + j) ` dest_els nd
    \<and> NetDest_count nd = Some (length ds)"
proof -
  have len: "length (m_bits nd) = length nc" "nc \<noteq> []" using dest_wf_length [OF assms] by auto
  note blk = set_type_dests [OF assms]
  have "(\<Union>i<length nc. set (type_dests nc nd i)) = (\<lambda>(i, j). machine_base nc i + j) ` dest_els nd"
    using blk(1) len by (force simp: dest_els_def)
  moreover have "map Set_count (m_bits nd) = map (\<lambda>i. length (type_dests nc nd i)) [0..<length nc]"
    using blk(4) len by (intro nth_equalityI) auto
  ultimately show ?thesis
    using getAllDest_eq [OF assms] concat_dests [OF assms, of "length nc"] len
    by (auto simp: NetDest_count_def check_def length_concat o_def atLeast0LessThan)
qed

subsection \<open>Properties\<close>

text \<open>C19. Union, difference, overlap and inclusion of destination sets: on destination sets of one
  system the operations \<^verbatim>\<open>addNetDest\<close>, \<^verbatim>\<open>removeNetDest\<close>, \<^verbatim>\<open>intersectionIsNotEmpty\<close> and \<^verbatim>\<open>isSuperset\<close>
  never abort and compute what they name on the sets of (machine type, number) pairs.\<close>
theorem NetDest_set_algebra:
  assumes "dest_wf nc a" "dest_wf nc b"
  shows "(\<exists>c. NetDest_addNetDest a b = Some c \<and> dest_wf nc c \<and> dest_els c = dest_els a \<union> dest_els b)
    \<and> (\<exists>c. NetDest_removeNetDest a b = Some c \<and> dest_wf nc c \<and> dest_els c = dest_els a - dest_els b)
    \<and> NetDest_intersectionIsNotEmpty a b = Some (dest_els a \<inter> dest_els b \<noteq> {})
    \<and> NetDest_isSuperset a b = Some (dest_els b \<subseteq> dest_els a)"
  using net_dest.addAll [OF assms] net_dest.removeAll [OF assms] net_dest.meets [OF assms]
    net_dest.covers [OF assms] by blast

definition ex_dest :: "mask64 \<Rightarrow> mask64 \<Rightarrow> NetDest" where
  "ex_dest x y = \<lparr>m_bits = [\<lparr>m_nSize = 2, sbits = x\<rparr>, \<lparr>m_nSize = 3, sbits = y\<rparr>],
     m_ruby_system = Some [2, 3]\<rparr>"

lemma bit_above: "unat (w :: mask64) < 2 ^ k \<Longrightarrow> k \<le> j \<Longrightarrow> \<not> bit w j"
proof -
  assume "unat w < 2 ^ k" "k \<le> j"
  then have "unat w < 2 ^ j"
    by (meson less_le_trans one_le_numeral power_increasing)
  then have "unat (drop_bit j w) = 0"
    unfolding unat_drop_bit_eq by (simp add: drop_bit_eq_div)
  then show "\<not> bit w j"
    by (simp add: bit_iff_odd_drop_bit unat_0_iff)
qed

lemma ex_dest_wf: "unat x < 4 \<Longrightarrow> unat y < 8 \<Longrightarrow> dest_wf [2, 3] (ex_dest x y)"
  using bit_above [of x 2] bit_above [of y 3] by (auto simp: dest_wf_def ex_dest_def set_wf_def)

theorem NetDest_set_algebra_witness:
  "dest_wf [2, 3] (ex_dest 1 5) \<and> dest_wf [2, 3] (ex_dest 2 4)
    \<and> NetDest_intersectionIsNotEmpty (ex_dest 1 5) (ex_dest 2 4) = Some True"
  using NetDest_set_algebra [of "[2, 3]" "ex_dest 1 5" "ex_dest 2 4"]
    ex_dest_wf [of 1 5] ex_dest_wf [of 2 4]
  by (simp add: NetDest_intersectionIsNotEmpty_def ex_dest_def check_def Set_intersectionIsEmpty_def)

text \<open>C20. \<^verbatim>\<open>getAllDest\<close> enumerates a destination set: the global node numbers of exactly its machines,
  in strictly increasing order (so each once), and as many as \<^verbatim>\<open>count\<close> says.\<close>
theorem getAllDest_enumerates:
  assumes "dest_wf nc nd"
  shows "\<exists>ds. NetDest_getAllDest nd = Some ds \<and> sorted_wrt (<) ds
    \<and> set ds = (\<lambda>(i, j). machine_base nc i + j) ` dest_els nd
    \<and> NetDest_count nd = Some (length ds)"
  by (rule getAllDest_facts [OF assms])

theorem getAllDest_enumerates_witness:
  "dest_wf [2, 3] (ex_dest 2 5) \<and> (\<exists>ds. NetDest_getAllDest (ex_dest 2 5) = Some ds \<and> sorted_wrt (<) ds)"
  using getAllDest_enumerates [of "[2, 3]" "ex_dest 2 5"] ex_dest_wf [of 2 5] by auto

text \<open>Adding, removing and testing one machine: \<^verbatim>\<open>add\<close> and then \<^verbatim>\<open>isElement\<close> is true and \<^verbatim>\<open>remove\<close>
  afterwards gives back the set without that machine; a number that no controller of the type has
  is refused by the assertion of \<^verbatim>\<open>add\<close>.\<close>
lemma NetDest_add_isElement_remove:
  assumes "dest_wf nc nd" "i < length nc"
  shows "(if j < nc ! i
     then \<exists>c d. NetDest_add \<lparr>mach_type = i, mach_num = j\<rparr> nd = Some c
        \<and> NetDest_isElement \<lparr>mach_type = i, mach_num = j\<rparr> c = Some True
        \<and> NetDest_remove \<lparr>mach_type = i, mach_num = j\<rparr> c = Some d
        \<and> dest_wf nc d \<and> dest_els d = dest_els nd - {(i, j)}
     else NetDest_add \<lparr>mach_type = i, mach_num = j\<rparr> nd = None)"
proof (cases "j < nc ! i")
  case True
  then obtain c where c: "NetDest_add \<lparr>mach_type = i, mach_num = j\<rparr> nd = Some c" "dest_wf nc c"
      "dest_els c = insert (i, j) (dest_els nd)"
    using NetDest_add_ok [OF assms(1,2)] by blast
  have le: "nc ! i \<le> 64" using dest_wf_nth [OF assms] by (simp add: set_wf_def)
  then obtain d where "NetDest_remove \<lparr>mach_type = i, mach_num = j\<rparr> c = Some d" "dest_wf nc d"
      "dest_els d = dest_els c - {(i, j)}"
    using NetDest_remove_ok [OF c(2) assms(2), of j] True by auto
  with c le show ?thesis
    using True NetDest_isElement_ok [OF c(2), of "\<lparr>mach_type = i, mach_num = j\<rparr>"] assms(2) by auto
next
  case False
  then show ?thesis
    using dest_wf_nth [OF assms(1,2)] by (auto simp: NetDest_add_def check_def set_wf_def vecIndex_def
        split: Option.bind_split)
qed

end
