(* ===== verification/Ruby_Message.thy ===== *)
theory Ruby_Message
  imports Net_Dest "HOL-Library.Product_Lexorder"
begin

text \<open>
  Ruby messages (\<^verbatim>\<open>mem/ruby/slicc_interface/Message.hh\<close>): the base class \<^verbatim>\<open>Message\<close>, the size classes
  of \<^verbatim>\<open>RubySlicc_Exports.sm\<close>, and the order \<^verbatim>\<open>operator>\<close> by which the message buffers are heaps.  The
  destination and the size are virtual in the base class and fields of the generated message
  classes; \<open>msg_payload\<close> stands for the remaining fields of the generated class, which the network
  carries and never reads.
\<close>

datatype MessageSizeType =
    Control | Data | Request_Control | Reissue_Control | Response_Data | ResponseL2hit_Data
  | ResponseLocal_Data | Response_Control | Writeback_Data | Writeback_Control | Broadcast_Control
  | Multicast_Control | Forwarded_Control | Invalidate_Control | Unblock_Control
  | Persistent_Control | Completion_Control

record Message =
  msg_time :: tick
  m_LastEnqueueTime :: tick
  m_DelayedTicks :: tick
  m_msg_counter :: nat
  incoming_link :: nat
  msg_vnet :: nat
  Destination :: NetDest
  MessageSize :: MessageSizeType
  msg_payload :: nat

definition Message_new :: "tick \<Rightarrow> NetDest \<Rightarrow> MessageSizeType \<Rightarrow> nat \<Rightarrow> Message" where
  "Message_new curTime dest sz payload =
     \<lparr>msg_time = curTime, m_LastEnqueueTime = curTime, m_DelayedTicks = 0, m_msg_counter = 0,
      incoming_link = 0, msg_vnet = 0, Destination = dest, MessageSize = sz,
      msg_payload = payload\<rparr>"

definition updateDelayedTicks :: "tick \<Rightarrow> Message \<Rightarrow> Message option" where
  "updateDelayedTicks curTime m =
     do { check (m_LastEnqueueTime m \<le> curTime);
          Some (m\<lparr>m_DelayedTicks := m_DelayedTicks m + (curTime - m_LastEnqueueTime m)\<rparr>) }"

definition setLastEnqueueTime :: "tick \<Rightarrow> Message \<Rightarrow> Message" where
  "setLastEnqueueTime t m = m\<lparr>m_LastEnqueueTime := t\<rparr>"

definition setMsgCounter :: "nat \<Rightarrow> Message \<Rightarrow> Message" where
  "setMsgCounter c m = m\<lparr>m_msg_counter := c\<rparr>"

definition setIncomingLink :: "nat \<Rightarrow> Message \<Rightarrow> Message" where
  "setIncomingLink l m = m\<lparr>incoming_link := l\<rparr>"

definition setVnet :: "nat \<Rightarrow> Message \<Rightarrow> Message" where
  "setVnet v m = m\<lparr>msg_vnet := v\<rparr>"

definition msg_greater :: "Message \<Rightarrow> Message \<Rightarrow> bool" where
  "msg_greater l r =
     (if m_LastEnqueueTime l = m_LastEnqueueTime r then m_msg_counter l > m_msg_counter r
      else m_LastEnqueueTime l > m_LastEnqueueTime r)"

text \<open>\<^verbatim>\<open>Network::MessageSizeType_to_int\<close>: the data size includes the control header.\<close>

definition MessageSizeType_to_int :: "nat \<Rightarrow> nat \<Rightarrow> MessageSizeType \<Rightarrow> nat" where
  "MessageSizeType_to_int m_control_msg_size m_data_msg_size size_type =
     (case size_type of
        Data \<Rightarrow> m_data_msg_size
      | Response_Data \<Rightarrow> m_data_msg_size
      | ResponseLocal_Data \<Rightarrow> m_data_msg_size
      | ResponseL2hit_Data \<Rightarrow> m_data_msg_size
      | Writeback_Data \<Rightarrow> m_data_msg_size
      | _ \<Rightarrow> m_control_msg_size)"

definition msg_key :: "Message \<Rightarrow> tick \<times> nat" where
  "msg_key m = (m_LastEnqueueTime m, m_msg_counter m)"

lemma msg_greater_key: "msg_greater l r \<longleftrightarrow> msg_key l > msg_key r"
  by (auto simp: msg_greater_def msg_key_def less_prod_def)

end
