(* ===== verification/Clocked_Object.thy ===== *)
theory Clocked_Object
  imports Garnet_Prelude
begin

text \<open>
  The clock of a simulated object (\<^verbatim>\<open>sim/clocked_object.hh\<close>).  \<^verbatim>\<open>Clocked\<close> caches the next
  clock edge and its cycle number and brings both up to date lazily; \<open>clock_edge\<close> is the closed
  form that the other components use, and \<open>clockEdge_closed\<close> shows that the cache returns it.
\<close>

record Clocked =
  clk_tick :: tick
  clk_cycle :: cycles
  clk_period :: tick

definition divCeil :: "nat \<Rightarrow> nat \<Rightarrow> nat" where
  "divCeil a b = (a + b - 1) div b"

definition Clocked_new :: "tick \<Rightarrow> Clocked" where
  "Clocked_new period = \<lparr>clk_tick = 0, clk_cycle = 0, clk_period = period\<rparr>"

definition Clocked_update :: "tick \<Rightarrow> Clocked \<Rightarrow> Clocked" where
  "Clocked_update curTick c =
     (if curTick \<le> clk_tick c then c
      else
        (let c1 = c\<lparr>clk_tick := clk_tick c + clk_period c, clk_cycle := clk_cycle c + 1\<rparr>
         in if curTick \<le> clk_tick c1 then c1
            else
              (let elapsedCycles = divCeil (curTick - clk_tick c1) (clk_period c1)
               in c1\<lparr>clk_cycle := clk_cycle c1 + elapsedCycles,
                     clk_tick := clk_tick c1 + elapsedCycles * clk_period c1\<rparr>)))"

definition clockEdge :: "tick \<Rightarrow> cycles \<Rightarrow> Clocked \<Rightarrow> tick \<times> Clocked" where
  "clockEdge curTick cycles c =
     (let c' = Clocked_update curTick c in (clk_tick c' + clk_period c' * cycles, c'))"

definition curCycle :: "tick \<Rightarrow> Clocked \<Rightarrow> cycles \<times> Clocked" where
  "curCycle curTick c = (let c' = Clocked_update curTick c in (clk_cycle c', c'))"

definition nextCycle :: "tick \<Rightarrow> Clocked \<Rightarrow> tick \<times> Clocked" where
  "nextCycle curTick c = clockEdge curTick 1 c"

definition resetClock :: "tick \<Rightarrow> Clocked \<Rightarrow> Clocked" where
  "resetClock curTick c =
     (let elapsedCycles = divCeil curTick (clk_period c)
      in c\<lparr>clk_cycle := elapsedCycles, clk_tick := elapsedCycles * clk_period c\<rparr>)"

definition ticksToCycles :: "tick \<Rightarrow> tick \<Rightarrow> cycles" where
  "ticksToCycles period t = divCeil t period"

definition cyclesToTicks :: "tick \<Rightarrow> cycles \<Rightarrow> tick" where
  "cyclesToTicks period c = period * c"

text \<open>The closed form of \<^verbatim>\<open>clockEdge(cycles)\<close> at \<^verbatim>\<open>curTick\<close>.\<close>

definition clock_edge :: "tick \<Rightarrow> tick \<Rightarrow> cycles \<Rightarrow> tick" where
  "clock_edge period curTick cycles = divCeil curTick period * period + period * cycles"

subsection \<open>Rounding up\<close>

lemma divCeil_ge: "0 < b \<Longrightarrow> a \<le> divCeil a b * b"
  unfolding divCeil_def
  using div_mult_mod_eq [of "a + b - 1" b] mod_less_divisor [of b "a + b - 1"] by linarith

lemma divCeil_less: "0 < b \<Longrightarrow> divCeil a b * b < a + b"
proof -
  assume "0 < b"
  have "divCeil a b * b \<le> a + b - 1" by (simp add: divCeil_def)
  also have "\<dots> < a + b" using \<open>0 < b\<close> by simp
  finally show ?thesis .
qed

lemma divCeil_unique:
  assumes "0 < b" and "a \<le> n * b" and "n * b < a + b"
  shows "divCeil a b = n"
proof -
  have "n * b \<le> a + b - 1" "a + b - 1 < Suc n * b"
    using assms by auto
  then show ?thesis unfolding divCeil_def by (intro div_nat_eqI) (auto simp: mult.commute)
qed

lemma divCeil_mult [simp]: "0 < b \<Longrightarrow> divCeil (n * b) b = n"
  by (rule divCeil_unique) auto

lemma divCeil_mono: "a \<le> b \<Longrightarrow> divCeil a p \<le> divCeil b p"
  unfolding divCeil_def by (intro div_le_mono) simp

subsection \<open>The cached clock agrees with the closed form\<close>

text \<open>
  The cache is well formed when it sits on an edge; it is \<^emph>\<open>current\<close> for \<open>curTick\<close> when
  it is not ahead of the edge that \<open>curTick\<close> asks for, which holds as long as simulated time
  does not run backwards.
\<close>

definition Clocked_wf :: "Clocked \<Rightarrow> bool" where
  "Clocked_wf c \<longleftrightarrow> 0 < clk_period c \<and> clk_tick c = clk_cycle c * clk_period c"

definition Clocked_current :: "tick \<Rightarrow> Clocked \<Rightarrow> bool" where
  "Clocked_current curTick c \<longleftrightarrow> clk_cycle c \<le> divCeil curTick (clk_period c)"

lemma Clocked_new_wf: "0 < p \<Longrightarrow> Clocked_wf (Clocked_new p) \<and> Clocked_current t (Clocked_new p)"
  by (simp add: Clocked_wf_def Clocked_new_def Clocked_current_def)

lemma Clocked_update_closed:
  assumes "Clocked_wf c" and "Clocked_current curTick c"
  shows "Clocked_update curTick c =
    c\<lparr>clk_tick := divCeil curTick (clk_period c) * clk_period c,
      clk_cycle := divCeil curTick (clk_period c)\<rparr>"
proof -
  define p where "p = clk_period c"
  define n where "n = clk_cycle c"
  have p: "0 < p" and t: "clk_tick c = n * p" and n: "n \<le> divCeil curTick p"
    using assms by (auto simp: Clocked_wf_def Clocked_current_def p_def n_def)
  have bounds: "curTick \<le> divCeil curTick p * p" "divCeil curTick p * p < curTick + p"
    using p by (auto intro: divCeil_ge divCeil_less)
  consider (none) "curTick \<le> n * p" | (one) "n * p < curTick" "curTick \<le> (n + 1) * p"
    | (many) "(n + 1) * p < curTick" by linarith
  then show ?thesis
  proof cases
    case none
    have "n * p < curTick + p" using n p bounds(2)
      by (meson le_less_trans mult_le_mono1)
    with none p have "divCeil curTick p = n" by (intro divCeil_unique)
    then show ?thesis
      using none t by (simp add: Clocked_update_def p_def [symmetric] n_def [symmetric])
  next
    case one
    then have "divCeil curTick p = n + 1"
      using p by (intro divCeil_unique) auto
    then show ?thesis
      using one t by (simp add: Clocked_update_def Let_def p_def [symmetric] n_def [symmetric]
          algebra_simps)
  next
    case many
    define e where "e = divCeil (curTick - (n + 1) * p) p"
    have "curTick - (n + 1) * p \<le> e * p" "e * p < curTick - (n + 1) * p + p"
      using p unfolding e_def by (auto intro: divCeil_ge divCeil_less)
    then have "curTick \<le> (n + 1 + e) * p" "(n + 1 + e) * p < curTick + p"
      using many by (auto simp: algebra_simps)
    then have "divCeil curTick p = n + 1 + e"
      using p by (intro divCeil_unique)
    moreover have "\<not> curTick \<le> n * p" using many by (simp add: algebra_simps)
    ultimately show ?thesis
      using many t unfolding e_def
      by (simp add: Clocked_update_def Let_def p_def [symmetric] n_def [symmetric] algebra_simps)
  qed
qed

lemma Clocked_update_wf [garnet_inv]:
  assumes "Clocked_wf c" and "Clocked_current curTick c" and "curTick \<le> later"
  shows "Clocked_wf (Clocked_update curTick c) \<and> Clocked_current later (Clocked_update curTick c)"
  using assms divCeil_mono [OF assms(3)]
  by (simp add: Clocked_update_closed Clocked_wf_def Clocked_current_def)

lemma clockEdge_closed:
  assumes "Clocked_wf c" and "Clocked_current curTick c"
  shows "fst (clockEdge curTick cycles c) = clock_edge (clk_period c) curTick cycles"
  using assms by (simp add: clockEdge_def clock_edge_def Clocked_update_closed Let_def)

lemma clock_edge_0_aligned: "0 < p \<Longrightarrow> clock_edge p (n * p) k = (n + k) * p"
  by (simp add: clock_edge_def algebra_simps)

lemma clock_edge_0_eq_iff: "0 < p \<Longrightarrow> clock_edge p t 0 = t \<longleftrightarrow> p dvd t"
  by (metis add.right_neutral clock_edge_def divCeil_mult dvd_def dvd_triv_right mult.commute
      mult_0_right)

subsection \<open>Properties\<close>

text \<open>C18. The lazily updated clock is exact: as long as time does not run backwards, \<^verbatim>\<open>clockEdge(n)\<close> is
  the first multiple of the period at or after the current tick, plus \<open>n\<close> periods, \<^verbatim>\<open>curCycle\<close> is
  the number of that edge, and the cache stays valid for every later tick.\<close>
theorem clockEdge_exact:
  assumes "Clocked_wf c" "Clocked_current curTick c" "curTick \<le> later"
  shows "\<exists>edge. clk_period c dvd edge \<and> curTick \<le> edge \<and> edge < curTick + clk_period c
    \<and> fst (clockEdge curTick n c) = edge + n * clk_period c
    \<and> fst (curCycle curTick c) * clk_period c = edge
    \<and> Clocked_wf (snd (clockEdge curTick n c)) \<and> Clocked_current later (snd (clockEdge curTick n c))"
proof -
  have p: "0 < clk_period c" using assms(1) by (simp add: Clocked_wf_def)
  show ?thesis
    using p divCeil_ge [OF p, of curTick] divCeil_less [OF p, of curTick] Clocked_update_wf [OF assms]
    by (intro exI [of _ "divCeil curTick (clk_period c) * clk_period c"])
      (auto simp: clockEdge_def curCycle_def Let_def Clocked_update_closed [OF assms(1,2)])
qed

theorem clockEdge_exact_witness:
  "\<exists>edge. 500 dvd edge \<and> 1201 \<le> edge \<and> edge < 1201 + 500
     \<and> fst (clockEdge 1201 2 (Clocked_new 500)) = edge + 2 * 500"
  using clockEdge_exact [of "Clocked_new 500" 1201 1300 2] Clocked_new_wf [of 500 1201]
  by (auto simp: Clocked_new_def)

end
