(* ===== verification/Flits.thy ===== *)
theory Flits
  imports Ruby_Message Clocked_Object
begin

text \<open>
  The data that moves through Garnet: the enumerations of \<^verbatim>\<open>garnet/CommonTypes.hh\<close>, flits and credits
  (\<^verbatim>\<open>flit.{hh,cc}\<close>, \<^verbatim>\<open>Credit.{hh,cc}\<close>), the queue \<^verbatim>\<open>flitBuffer\<close>, the input \<^verbatim>\<open>VirtualChannel\<close> and the
  credit counter \<^verbatim>\<open>OutVcState\<close> that an output port keeps for every virtual channel downstream.

  A \<^verbatim>\<open>Credit\<close> is a flit of type \<open>CREDIT\<close> with one more member; the model has that member in the one
  record.  Enumerators drop the final underscore, and the flit stages have the prefix \<open>stage_\<close>.  Members that a constructor leaves uninitialised are \<open>option\<close>s.  A flit object is owned by
  the one queue it is in, so that flits are values.
\<close>

datatype flit_type = HEAD | BODY | TAIL | HEAD_TAIL | CREDIT
datatype VC_state_type = IDLE | VC_AB | ACTIVE
datatype VNET_type = CTRL_VNET | DATA_VNET | NULL_VNET
datatype flit_stage = stage_I | stage_VA | stage_SA | stage_ST | stage_LT
datatype link_type = EXT_IN | EXT_OUT | INT
datatype RoutingAlgorithm = TABLE | XY | CUSTOM

record RouteInfo =
  rt_vnet :: nat
  rt_net_dest :: NetDest
  src_ni :: nat
  src_router :: nat
  dest_ni :: nat
  dest_router :: nat
  hops_traversed :: int

definition RouteInfo_new :: RouteInfo where
  "RouteInfo_new = \<lparr>rt_vnet = 0, rt_net_dest = \<lparr>m_bits = [], m_ruby_system = None\<rparr>, src_ni = 0,
     src_router = 0, dest_ni = 0, dest_router = 0, hops_traversed = 0\<rparr>"

definition INFINITE :: nat where
  "INFINITE = 10000"

subsection \<open>Flits and credits\<close>

record flit =
  m_width :: nat
  msgSize :: nat
  m_packet_id :: nat
  m_id :: nat
  m_vnet :: nat
  m_vc :: nat
  m_route :: RouteInfo
  m_size :: nat
  m_enqueue_time :: tick
  m_dequeue_time :: tick
  m_time :: tick
  m_type :: flit_type
  m_msg_ptr :: "Message option"
  m_outport :: "nat option"
  src_delay :: "tick option"
  m_stage :: "flit_stage \<times> tick"
  m_is_free_signal :: bool

definition flit_new ::
  "nat \<Rightarrow> nat \<Rightarrow> nat \<Rightarrow> nat \<Rightarrow> RouteInfo \<Rightarrow> nat \<Rightarrow> Message option \<Rightarrow> nat \<Rightarrow> nat \<Rightarrow> tick \<Rightarrow> flit"
where
  "flit_new packet_id fid vc vnet route sz msg_ptr MsgSize bWidth curTime =
     \<lparr>m_width = bWidth, msgSize = MsgSize, m_packet_id = packet_id, m_id = fid, m_vnet = vnet,
      m_vc = vc, m_route = route, m_size = sz, m_enqueue_time = curTime, m_dequeue_time = curTime,
      m_time = curTime,
      m_type = (if sz = 1 then HEAD_TAIL
                else if fid = 0 then HEAD
                else if int fid = int sz - 1 then TAIL
                else BODY),
      m_msg_ptr = msg_ptr, m_outport = None, src_delay = None, m_stage = (stage_I, curTime),
      m_is_free_signal = False\<rparr>"

definition Credit_new :: "nat \<Rightarrow> bool \<Rightarrow> tick \<Rightarrow> flit" where
  "Credit_new vc is_free_signal curTime =
     (flit_new 0 0 vc 0 RouteInfo_new 0 None 0 0 curTime)
       \<lparr>m_is_free_signal := is_free_signal, m_type := CREDIT\<rparr>"

definition increment_hops :: "flit \<Rightarrow> flit" where
  "increment_hops f = f\<lparr>m_route := (m_route f)\<lparr>hops_traversed := hops_traversed (m_route f) + 1\<rparr>\<rparr>"

definition is_stage :: "flit_stage \<Rightarrow> tick \<Rightarrow> flit \<Rightarrow> bool" where
  "is_stage stage time f = (stage = fst (m_stage f) \<and> time \<ge> snd (m_stage f))"

definition advance_stage :: "flit_stage \<Rightarrow> tick \<Rightarrow> flit \<Rightarrow> flit" where
  "advance_stage t_stage newTime f = f\<lparr>m_stage := (t_stage, newTime)\<rparr>"

definition flit_greater :: "flit \<Rightarrow> flit \<Rightarrow> bool" where
  "flit_greater n1 n2 =
     (if m_time n1 = m_time n2 then m_id n1 > m_id n2 else m_time n1 > m_time n2)"

text \<open>
  \<^verbatim>\<open>serialize\<close> and \<^verbatim>\<open>deserialize\<close> are virtual; a credit overrides both.  The sizes are computed by
  \<^verbatim>\<open>divCeil\<close> on \<^verbatim>\<open>float\<close>s and truncated; below \<open>2 ^ 24\<close> that is the integer \<open>divCeil\<close>.
\<close>

definition serialize :: "nat \<Rightarrow> nat \<Rightarrow> nat \<Rightarrow> flit \<Rightarrow> flit option" where
  "serialize ser_id parts bWidth f =
     (if m_type f = CREDIT then
        Some (Credit_new (m_vc f) (ser_id + 1 = parts \<and> m_is_free_signal f) (m_time f))
      else do {
        check (m_width f > bWidth \<and> bWidth > 0);
        let ratio = divCeil (m_width f) bWidth;
        let new_id = m_id f * ratio + ser_id;
        let new_size = divCeil (msgSize f) bWidth;
        check (new_id < new_size);
        Some ((flit_new (m_packet_id f) new_id (m_vc f) (m_vnet f) (m_route f) new_size
                 (m_msg_ptr f) (msgSize f) bWidth (m_time f))
              \<lparr>m_enqueue_time := m_enqueue_time f, src_delay := src_delay f\<rparr>) })"

definition deserialize :: "nat \<Rightarrow> nat \<Rightarrow> nat \<Rightarrow> flit \<Rightarrow> flit option" where
  "deserialize des_id num_flits bWidth f =
     (if m_type f = CREDIT then Some (Credit_new (m_vc f) (m_is_free_signal f) (m_time f))
      else do {
        check (m_width f > 0 \<and> bWidth > 0);
        let ratio = divCeil bWidth (m_width f);
        let new_id = divCeil (m_id f + 1) ratio - 1;
        let new_size = divCeil (msgSize f) bWidth;
        check (new_id < new_size);
        Some ((flit_new (m_packet_id f) new_id (m_vc f) (m_vnet f) (m_route f) new_size
                 (m_msg_ptr f) (msgSize f) bWidth (m_time f))
              \<lparr>m_enqueue_time := m_enqueue_time f, src_delay := src_delay f\<rparr>) })"

subsection \<open>flitBuffer\<close>

record flitBuffer =
  m_buffer :: "flit list"
  max_size :: nat

definition flitBuffer_new :: flitBuffer where
  "flitBuffer_new = \<lparr>m_buffer = [], max_size = INFINITE\<rparr>"

definition flitBuffer_sized :: "nat \<Rightarrow> flitBuffer" where
  "flitBuffer_sized maximum_size = \<lparr>m_buffer = [], max_size = maximum_size\<rparr>"

definition fb_isEmpty :: "flitBuffer \<Rightarrow> bool" where
  "fb_isEmpty b = (length (m_buffer b) = 0)"

definition fb_peekTopFlit :: "flitBuffer \<Rightarrow> flit option" where
  "fb_peekTopFlit b = (case m_buffer b of [] \<Rightarrow> None | f # _ \<Rightarrow> Some f)"

definition fb_getTopFlit :: "flitBuffer \<Rightarrow> (flit \<times> flitBuffer) option" where
  "fb_getTopFlit b = (case m_buffer b of [] \<Rightarrow> None | f # fs \<Rightarrow> Some (f, b\<lparr>m_buffer := fs\<rparr>))"

definition fb_insert :: "flit \<Rightarrow> flitBuffer \<Rightarrow> flitBuffer" where
  "fb_insert flt b = b\<lparr>m_buffer := m_buffer b @ [flt]\<rparr>"

definition fb_isReady :: "tick \<Rightarrow> flitBuffer \<Rightarrow> bool" where
  "fb_isReady curTime b =
     (if length (m_buffer b) \<noteq> 0
      then (case fb_peekTopFlit b of Some t_flit \<Rightarrow> m_time t_flit \<le> curTime | None \<Rightarrow> False)
      else False)"

definition fb_isFull :: "flitBuffer \<Rightarrow> bool" where
  "fb_isFull b = (length (m_buffer b) \<ge> max_size b)"

definition fb_setMaxSize :: "nat \<Rightarrow> flitBuffer \<Rightarrow> flitBuffer" where
  "fb_setMaxSize maximum b = b\<lparr>max_size := maximum\<rparr>"

text \<open>\<^verbatim>\<open>functionalRead\<close> and \<^verbatim>\<open>functionalWrite\<close> visit every flit; the access to the message is virtual and
  implemented by the generated message classes, here the arguments \<open>rd\<close> and \<open>wr\<close>.\<close>

definition flit_functionalRead :: "(Message \<Rightarrow> bool) \<Rightarrow> flit \<Rightarrow> bool option" where
  "flit_functionalRead rd f = map_option rd (m_msg_ptr f)"

definition flit_functionalWrite :: "(Message \<Rightarrow> Message \<times> bool) \<Rightarrow> flit \<Rightarrow> (flit \<times> bool) option" where
  "flit_functionalWrite wr f =
     do { m \<leftarrow> m_msg_ptr f; Some (f\<lparr>m_msg_ptr := Some (fst (wr m))\<rparr>, snd (wr m)) }"

definition fb_functionalRead :: "(Message \<Rightarrow> bool) \<Rightarrow> flitBuffer \<Rightarrow> bool option" where
  "fb_functionalRead rd b =
     for_list (\<lambda>f read. do { r \<leftarrow> flit_functionalRead rd f; Some (if r then True else read) })
       (m_buffer b) False"

definition fb_functionalWrite :: "(Message \<Rightarrow> Message \<times> bool) \<Rightarrow> flitBuffer \<Rightarrow> (flitBuffer \<times> nat) option" where
  "fb_functionalWrite wr b =
     do { fs \<leftarrow> map_opt (flit_functionalWrite wr) (m_buffer b);
          Some (b\<lparr>m_buffer := map fst fs\<rparr>, length (filter snd fs)) }"

subsection \<open>VirtualChannel\<close>

record VirtualChannel =
  inputBuffer :: flitBuffer
  m_vc_state :: "VC_state_type \<times> tick"
  m_output_port :: int
  vc_enqueue_time :: tick
  m_output_vc :: int

definition VirtualChannel_new :: VirtualChannel where
  "VirtualChannel_new = \<lparr>inputBuffer = flitBuffer_new, m_vc_state = (IDLE, 0), m_output_port = -1,
     vc_enqueue_time = INFINITE, m_output_vc = -1\<rparr>"

definition vc_set_idle :: "tick \<Rightarrow> VirtualChannel \<Rightarrow> VirtualChannel" where
  "vc_set_idle curTime v =
     v\<lparr>m_vc_state := (IDLE, curTime), vc_enqueue_time := INFINITE, m_output_port := -1,
       m_output_vc := -1\<rparr>"

definition vc_set_active :: "tick \<Rightarrow> VirtualChannel \<Rightarrow> VirtualChannel" where
  "vc_set_active curTime v = v\<lparr>m_vc_state := (ACTIVE, curTime), vc_enqueue_time := curTime\<rparr>"

definition vc_set_outvc :: "int \<Rightarrow> VirtualChannel \<Rightarrow> VirtualChannel" where
  "vc_set_outvc outvc v = v\<lparr>m_output_vc := outvc\<rparr>"

definition vc_set_outport :: "int \<Rightarrow> VirtualChannel \<Rightarrow> VirtualChannel" where
  "vc_set_outport outport v = v\<lparr>m_output_port := outport\<rparr>"

definition vc_isReady :: "tick \<Rightarrow> VirtualChannel \<Rightarrow> bool" where
  "vc_isReady curTime v = fb_isReady curTime (inputBuffer v)"

definition vc_insertFlit :: "flit \<Rightarrow> VirtualChannel \<Rightarrow> VirtualChannel" where
  "vc_insertFlit t_flit v = v\<lparr>inputBuffer := fb_insert t_flit (inputBuffer v)\<rparr>"

definition vc_peekTopFlit :: "VirtualChannel \<Rightarrow> flit option" where
  "vc_peekTopFlit v = fb_peekTopFlit (inputBuffer v)"

definition vc_getTopFlit :: "VirtualChannel \<Rightarrow> (flit \<times> VirtualChannel) option" where
  "vc_getTopFlit v =
     do { (f, b) \<leftarrow> fb_getTopFlit (inputBuffer v); Some (f, v\<lparr>inputBuffer := b\<rparr>) }"

definition vc_need_stage :: "flit_stage \<Rightarrow> tick \<Rightarrow> VirtualChannel \<Rightarrow> bool option" where
  "vc_need_stage stage time v =
     (if fb_isReady time (inputBuffer v) then
        do { check (fst (m_vc_state v) = ACTIVE \<and> snd (m_vc_state v) \<le> time);
             t_flit \<leftarrow> fb_peekTopFlit (inputBuffer v);
             Some (is_stage stage time t_flit) }
      else Some False)"

subsection \<open>OutVcState\<close>

record OutVcState =
  ovc_id :: nat
  ovc_time :: tick
  ovc_state :: VC_state_type
  m_credit_count :: int
  m_max_credit_count :: int

definition OutVcState_new :: "VNET_type list \<Rightarrow> nat \<Rightarrow> nat \<Rightarrow> nat \<Rightarrow> nat \<Rightarrow> OutVcState option" where
  "OutVcState_new vnet_types buffers_per_data_vc buffers_per_ctrl_vc vid consumerVcs =
     do { check (consumerVcs \<noteq> 0);
          ty \<leftarrow> at vnet_types (vid div consumerVcs);
          let n = (if ty = DATA_VNET then int buffers_per_data_vc else int buffers_per_ctrl_vc);
          check (n \<ge> 1);
          Some \<lparr>ovc_id = vid, ovc_time = 0, ovc_state = IDLE, m_credit_count = n,
                m_max_credit_count = n\<rparr> }"

definition ovc_has_credit :: "OutVcState \<Rightarrow> bool" where
  "ovc_has_credit v = (m_credit_count v > 0)"

definition ovc_increment_credit :: "OutVcState \<Rightarrow> OutVcState option" where
  "ovc_increment_credit v =
     do { let v' = v\<lparr>m_credit_count := m_credit_count v + 1\<rparr>;
          check (m_credit_count v' \<le> m_max_credit_count v'); Some v' }"

definition ovc_decrement_credit :: "OutVcState \<Rightarrow> OutVcState option" where
  "ovc_decrement_credit v =
     do { let v' = v\<lparr>m_credit_count := m_credit_count v - 1\<rparr>;
          check (m_credit_count v' \<ge> 0); Some v' }"

definition ovc_isInState :: "VC_state_type \<Rightarrow> tick \<Rightarrow> OutVcState \<Rightarrow> bool" where
  "ovc_isInState state request_time v = (ovc_state v = state \<and> request_time \<ge> ovc_time v)"

definition ovc_setState :: "VC_state_type \<Rightarrow> tick \<Rightarrow> OutVcState \<Rightarrow> OutVcState" where
  "ovc_setState state time v = v\<lparr>ovc_state := state, ovc_time := time\<rparr>"

subsection \<open>The interface of a FIFO queue\<close>

locale fifo_queue =
  fixes contents :: "'q \<Rightarrow> 'a list"
    and enq :: "'a \<Rightarrow> 'q \<Rightarrow> 'q"
    and deq :: "'q \<Rightarrow> ('a \<times> 'q) option"
    and peek :: "'q \<Rightarrow> 'a option"
  assumes contents_enq: "contents (enq x q) = contents q @ [x]"
    and deq_None: "deq q = None \<longleftrightarrow> contents q = []"
    and deq_Some: "deq q = Some (x, q') \<Longrightarrow> contents q = x # contents q'"
    and peek_eq: "peek q = map_option fst (deq q)"
begin

fun drain :: "nat \<Rightarrow> 'q \<Rightarrow> ('a list \<times> 'q) option" where
  "drain 0 q = Some ([], q)"
| "drain (Suc n) q = do { (x, q1) \<leftarrow> deq q; (xs, q2) \<leftarrow> drain n q1; Some (x # xs, q2) }"

lemma contents_enq_all: "contents (fold enq xs q) = contents q @ xs"
  by (induction xs arbitrary: q) (auto simp: contents_enq)

lemma drain_contents:
  "n \<le> length (contents q) \<Longrightarrow>
     \<exists>q'. drain n q = Some (take n (contents q), q') \<and> contents q' = drop n (contents q)"
proof (induction n arbitrary: q)
  case 0
  then show ?case by simp
next
  case (Suc n)
  then have "contents q \<noteq> []" by auto
  then obtain x q1 where q1: "deq q = Some (x, q1)" using deq_None [of q] by auto
  then have c: "contents q = x # contents q1" by (rule deq_Some)
  with Suc.prems have "n \<le> length (contents q1)" by simp
  from Suc.IH [OF this] show ?case using q1 c by auto
qed

lemma fifo_order:
  assumes "contents q = []"
  shows "\<exists>q'. drain (length xs) (fold enq xs q) = Some (xs, q') \<and> contents q' = []"
  using drain_contents [of "length xs" "fold enq xs q"] contents_enq_all [of xs q] assms by simp

lemma peek_hd: "contents q \<noteq> [] \<Longrightarrow> peek q = Some (hd (contents q))"
  using deq_None [of q] deq_Some [of q] by (fastforce simp: peek_eq)

end

interpretation flit_fifo: fifo_queue m_buffer fb_insert fb_getTopFlit fb_peekTopFlit
  by unfold_locales
    (auto simp: fb_insert_def fb_getTopFlit_def fb_peekTopFlit_def split: list.splits)

lemma fb_insert_contents [simp]: "m_buffer (fb_insert f b) = m_buffer b @ [f]"
  by (rule flit_fifo.contents_enq)

lemma fb_isReady_iff:
  "fb_isReady t b \<longleftrightarrow> (\<exists>f fs. m_buffer b = f # fs \<and> m_time f \<le> t)"
  by (cases "m_buffer b") (auto simp: fb_isReady_def fb_peekTopFlit_def)

lemma vc_need_stage_Some:
  "vc_need_stage st t v = Some True \<Longrightarrow>
     \<exists>f fs. m_buffer (inputBuffer v) = f # fs \<and> m_time f \<le> t \<and> is_stage st t f
       \<and> fst (m_vc_state v) = ACTIVE"
  by (auto simp: vc_need_stage_def fb_isReady_iff fb_peekTopFlit_def split: if_splits Option.bind_splits)

subsection \<open>Credits of one virtual channel\<close>

definition ovc_wf :: "OutVcState \<Rightarrow> bool" where
  "ovc_wf v \<longleftrightarrow> 0 \<le> m_credit_count v \<and> m_credit_count v \<le> m_max_credit_count v
     \<and> 1 \<le> m_max_credit_count v"

lemma OutVcState_new_wf: "OutVcState_new ts d c i n = Some v \<Longrightarrow> ovc_wf v"
  by (auto simp: OutVcState_new_def ovc_wf_def Let_def bind_eq_Some_conv)

lemma ovc_increment_iff:
  "ovc_wf v \<Longrightarrow> ovc_increment_credit v =
     (if m_credit_count v < m_max_credit_count v
      then Some (v\<lparr>m_credit_count := m_credit_count v + 1\<rparr>) else None)"
  by (auto simp: ovc_increment_credit_def check_def)

lemma ovc_decrement_iff:
  "ovc_wf v \<Longrightarrow> ovc_decrement_credit v =
     (if ovc_has_credit v then Some (v\<lparr>m_credit_count := m_credit_count v - 1\<rparr>) else None)"
  by (auto simp: ovc_decrement_credit_def ovc_has_credit_def check_def)

lemma ovc_credit_wf [garnet_inv]:
  "ovc_wf v \<Longrightarrow> ovc_increment_credit v = Some w \<Longrightarrow> ovc_wf w"
  "ovc_wf v \<Longrightarrow> ovc_decrement_credit v = Some w \<Longrightarrow> ovc_wf w"
  "ovc_wf v \<Longrightarrow> ovc_wf (ovc_setState st t v)"
  by (auto simp: ovc_wf_def ovc_increment_credit_def ovc_decrement_credit_def ovc_setState_def Let_def bind_eq_Some_conv)

subsection \<open>Properties\<close>

text \<open>C9. The flits of a packet are delimited: among the flits \<open>0 .. n - 1\<close> that the constructor builds
  for a packet of \<open>n\<close> flits, exactly the first is a head (\<open>HEAD\<close> or \<open>HEAD_TAIL\<close>) and exactly the last
  is a tail, and the two coincide only in a packet of one flit.\<close>
theorem packet_flit_types:
  assumes "i < n"
  shows "(m_type (flit_new p i vc vnet r n msg ms w t) \<in> {HEAD, HEAD_TAIL} \<longleftrightarrow> i = 0)
    \<and> (m_type (flit_new p i vc vnet r n msg ms w t) \<in> {TAIL, HEAD_TAIL} \<longleftrightarrow> i = n - 1)
    \<and> (m_type (flit_new p i vc vnet r n msg ms w t) = HEAD_TAIL \<longleftrightarrow> n = 1)"
  using assms by (auto simp: flit_new_def)

theorem packet_flit_types_witness:
  "m_type (flit_new 7 2 0 1 RouteInfo_new 3 None 40 16 0) \<in> {TAIL, HEAD_TAIL}"
  using packet_flit_types [of 2 3 7 0 1 RouteInfo_new None 40 16 0] by auto

lemma divCeil_split: "0 < r \<Longrightarrow> s < r \<Longrightarrow> divCeil (i * r + s + 1) r = i + 1"
  by (rule divCeil_unique) (auto simp: algebra_simps)



text \<open>The credit counter of an output virtual channel stays between zero and the depth of the
  downstream buffer: taking a credit aborts exactly when there is none, returning one aborts
  exactly when all are there, and the two undo each other.\<close>
lemma OutVcState_credits:
  assumes "ovc_wf v"
  shows "(ovc_decrement_credit v = None \<longleftrightarrow> \<not> ovc_has_credit v)
    \<and> (ovc_increment_credit v = None \<longleftrightarrow> m_credit_count v = m_max_credit_count v)
    \<and> (\<forall>w. ovc_decrement_credit v = Some w \<longrightarrow> ovc_wf w \<and> ovc_increment_credit w = Some v)
    \<and> (\<forall>w. ovc_increment_credit v = Some w \<longrightarrow> ovc_wf w \<and> ovc_decrement_credit w = Some v)"
  using assms ovc_credit_wf(1,2) [OF assms]
  by (auto simp: ovc_increment_iff ovc_decrement_iff ovc_has_credit_def ovc_wf_def split: if_splits)

text \<open>A \<^verbatim>\<open>flitBuffer\<close> is first in, first out: the flits inserted into an empty buffer come out of
  \<^verbatim>\<open>getTopFlit\<close> in the same order and leave it empty, and a buffer is ready at a time exactly when its
  oldest flit is due.\<close>
lemma flitBuffer_fifo:
  assumes "fb_isEmpty b"
  shows "(\<exists>b'. flit_fifo.drain (length fs) (fold fb_insert fs b) = Some (fs, b') \<and> fb_isEmpty b')
    \<and> (fb_isReady t (fold fb_insert fs b) \<longleftrightarrow> fs \<noteq> [] \<and> m_time (hd fs) \<le> t)"
  using flit_fifo.fifo_order [of b fs] flit_fifo.contents_enq_all [of fs b] assms
  by (cases fs) (auto simp: fb_isEmpty_def fb_isReady_iff)

end
