(* ===== verification/Routing_Unit.thy ===== *)
theory Routing_Unit
  imports Flits
begin

text \<open>
  Route computation (\<^verbatim>\<open>garnet/RoutingUnit.{hh,cc}\<close>) and the configuration that the components read
  through their \<^verbatim>\<open>GarnetNetwork\<close> pointer.

  The value of \<^verbatim>\<open>rand()\<close> is an argument of the lookup.  \<^verbatim>\<open>std::map::operator[]\<close> inserts the value 0 for a
  missing key; \<open>outportComputeXY\<close> returns the map it leaves behind.  The mesh of
  \<^verbatim>\<open>configs/topologies/Mesh_XY.py\<close> enters as the function \<open>mesh_neighbour\<close>.
\<close>

subsection \<open>Configuration of the network\<close>

record GarnetConfig =
  m_num_rows :: int
  m_num_cols :: int
  m_ni_flit_size :: nat
  m_buffers_per_ctrl_vc :: nat
  m_buffers_per_data_vc :: nat
  m_routing_algorithm :: int
  m_enable_fault_model :: bool
  m_virtual_networks :: nat
  m_vnet_type :: "VNET_type list"
  m_ordered :: "bool list"
  m_control_msg_size :: nat
  m_data_msg_size :: nat

text \<open>The types of the virtual networks, from the names the protocol gave them.\<close>

definition vnet_types_of :: "string list \<Rightarrow> VNET_type list" where
  "vnet_types_of m_vnet_type_names =
     map (\<lambda>nm. if nm = ''response'' then DATA_VNET else CTRL_VNET) m_vnet_type_names"

definition get_vnet_type :: "GarnetConfig \<Rightarrow> nat \<Rightarrow> VNET_type option" where
  "get_vnet_type cfg vnet = at (m_vnet_type cfg) vnet"

definition isVNetOrdered :: "GarnetConfig \<Rightarrow> nat \<Rightarrow> bool option" where
  "isVNetOrdered cfg vnet = at (m_ordered cfg) vnet"

subsection \<open>RoutingUnit\<close>

type_synonym PortDirection = string

record RoutingUnit =
  m_routing_table :: "NetDest list list"
  m_weight_table :: "int list"
  m_inports_dirn2idx :: "PortDirection \<rightharpoonup> nat"
  m_inports_idx2dirn :: "nat \<rightharpoonup> PortDirection"
  m_outports_idx2dirn :: "nat \<rightharpoonup> PortDirection"
  m_outports_dirn2idx :: "PortDirection \<rightharpoonup> nat"

definition RoutingUnit_new :: RoutingUnit where
  "RoutingUnit_new = \<lparr>m_routing_table = [], m_weight_table = [], m_inports_dirn2idx = Map.empty,
     m_inports_idx2dirn = Map.empty, m_outports_idx2dirn = Map.empty,
     m_outports_dirn2idx = Map.empty\<rparr>"

definition addRoute :: "NetDest list \<Rightarrow> RoutingUnit \<Rightarrow> RoutingUnit" where
  "addRoute routing_table_entry u =
     (let n = length routing_table_entry;
          t = m_routing_table u @ replicate (n - length (m_routing_table u)) []
      in u\<lparr>m_routing_table :=
            map (\<lambda>v. if v < n then t ! v @ [routing_table_entry ! v] else t ! v) [0..<length t]\<rparr>)"

definition addWeight :: "int \<Rightarrow> RoutingUnit \<Rightarrow> RoutingUnit" where
  "addWeight link_weight u = u\<lparr>m_weight_table := m_weight_table u @ [link_weight]\<rparr>"

definition supportsVnet :: "nat \<Rightarrow> nat list \<Rightarrow> bool" where
  "supportsVnet vnet sVnets =
     (if length sVnets = 0 then True else if vnet \<in> set sVnets then True else False)"

definition addInDirection :: "PortDirection \<Rightarrow> nat \<Rightarrow> RoutingUnit \<Rightarrow> RoutingUnit" where
  "addInDirection inport_dirn inport_idx u =
     u\<lparr>m_inports_dirn2idx := (m_inports_dirn2idx u)(inport_dirn \<mapsto> inport_idx),
       m_inports_idx2dirn := (m_inports_idx2dirn u)(inport_idx \<mapsto> inport_dirn)\<rparr>"

definition addOutDirection :: "PortDirection \<Rightarrow> nat \<Rightarrow> RoutingUnit \<Rightarrow> RoutingUnit" where
  "addOutDirection outport_dirn outport_idx u =
     u\<lparr>m_outports_dirn2idx := (m_outports_dirn2idx u)(outport_dirn \<mapsto> outport_idx),
       m_outports_idx2dirn := (m_outports_idx2dirn u)(outport_idx \<mapsto> outport_dirn)\<rparr>"

text \<open>The two loops of \<^verbatim>\<open>lookupRoutingTable\<close>.\<close>

definition min_weight_loop :: "NetDest list \<Rightarrow> int list \<Rightarrow> NetDest \<Rightarrow> int option" where
  "min_weight_loop tbl weights msg_destination =
     for_range (\<lambda>link min_weight. do {
         e \<leftarrow> at tbl link;
         b \<leftarrow> NetDest_intersectionIsNotEmpty msg_destination e;
         if b then do { w \<leftarrow> at weights link; Some (if w \<le> min_weight then w else min_weight) }
         else Some min_weight })
       (length tbl) (int INFINITE)"

definition candidates_loop :: "NetDest list \<Rightarrow> int list \<Rightarrow> NetDest \<Rightarrow> int \<Rightarrow> nat list option" where
  "candidates_loop tbl weights msg_destination min_weight =
     for_range (\<lambda>link output_link_candidates. do {
         e \<leftarrow> at tbl link;
         b \<leftarrow> NetDest_intersectionIsNotEmpty msg_destination e;
         if b then do {
           w \<leftarrow> at weights link;
           Some (if w = min_weight then output_link_candidates @ [link] else output_link_candidates) }
         else Some output_link_candidates })
       (length tbl) []"

definition lookupRoutingTable ::
  "GarnetConfig \<Rightarrow> nat \<Rightarrow> nat \<Rightarrow> NetDest \<Rightarrow> RoutingUnit \<Rightarrow> nat option"
where
  "lookupRoutingTable cfg rand vnet msg_destination u = do {
     tbl \<leftarrow> at (m_routing_table u) vnet;
     min_weight \<leftarrow> min_weight_loop tbl (m_weight_table u) msg_destination;
     output_link_candidates \<leftarrow> candidates_loop tbl (m_weight_table u) msg_destination min_weight;
     check (length output_link_candidates \<noteq> 0);
     ordered \<leftarrow> isVNetOrdered cfg vnet;
     at output_link_candidates
       (if ordered then 0 else rand mod length output_link_candidates) }"

text \<open>The choice of the direction in \<^verbatim>\<open>outportComputeXY\<close>, with its assertions on the input port.\<close>

definition xy_direction :: "int \<Rightarrow> int \<Rightarrow> int \<Rightarrow> int \<Rightarrow> PortDirection \<Rightarrow> PortDirection option" where
  "xy_direction num_rows num_cols my_id dest_id inport_dirn = do {
     check (num_rows > 0 \<and> num_cols > 0);
     let my_x = my_id mod num_cols; let my_y = my_id div num_cols;
     let dest_x = dest_id mod num_cols; let dest_y = dest_id div num_cols;
     let x_hops = \<bar>dest_x - my_x\<bar>; let y_hops = \<bar>dest_y - my_y\<bar>;
     let x_dirn = (dest_x \<ge> my_x); let y_dirn = (dest_y \<ge> my_y);
     check (\<not> (x_hops = 0 \<and> y_hops = 0));
     if x_hops > 0 then
       (if x_dirn then
          do { check (inport_dirn = ''Local'' \<or> inport_dirn = ''West''); Some ''East'' }
        else
          do { check (inport_dirn = ''Local'' \<or> inport_dirn = ''East''); Some ''West'' })
     else if y_hops > 0 then
       (if y_dirn then do { check (inport_dirn \<noteq> ''North''); Some ''North'' }
        else do { check (inport_dirn \<noteq> ''South''); Some ''South'' })
     else None }"

definition outportComputeXY ::
  "GarnetConfig \<Rightarrow> nat \<Rightarrow> RouteInfo \<Rightarrow> PortDirection \<Rightarrow> RoutingUnit \<Rightarrow> (nat \<times> RoutingUnit) option"
where
  "outportComputeXY cfg my_id route inport_dirn u = do {
     outport_dirn \<leftarrow> xy_direction (m_num_rows cfg) (m_num_cols cfg) (int my_id)
       (int (dest_router route)) inport_dirn;
     Some (case m_outports_dirn2idx u outport_dirn of
             Some idx \<Rightarrow> (idx, u)
           | None \<Rightarrow> (0, u\<lparr>m_outports_dirn2idx := (m_outports_dirn2idx u)(outport_dirn \<mapsto> 0)\<rparr>)) }"

definition outportComputeCustom :: "RouteInfo \<Rightarrow> nat \<Rightarrow> PortDirection \<Rightarrow> nat option" where
  "outportComputeCustom route inport inport_dirn = None"

definition outportCompute ::
  "GarnetConfig \<Rightarrow> nat \<Rightarrow> nat \<Rightarrow> RouteInfo \<Rightarrow> nat \<Rightarrow> PortDirection \<Rightarrow> RoutingUnit
     \<Rightarrow> (nat \<times> RoutingUnit) option"
where
  "outportCompute cfg rand router_id route inport inport_dirn u =
     (let by_table = do { p \<leftarrow> lookupRoutingTable cfg rand (rt_vnet route) (rt_net_dest route) u;
                          Some (p, u) }
      in if dest_router route = router_id then by_table
         else if m_routing_algorithm cfg = 0 then by_table
         else if m_routing_algorithm cfg = 1 then outportComputeXY cfg router_id route inport_dirn u
         else if m_routing_algorithm cfg = 2 then
           do { p \<leftarrow> outportComputeCustom route inport inport_dirn; Some (p, u) }
         else by_table)"

subsection \<open>Table lookup\<close>

text \<open>The links of a table whose entry meets the destination, with the weight limit of the code.\<close>

definition link_candidates :: "NetDest list \<Rightarrow> NetDest \<Rightarrow> nat list" where
  "link_candidates tbl dest =
     filter (\<lambda>link. dest_els dest \<inter> dest_els (tbl ! link) \<noteq> {}) [0..<length tbl]"

definition min_weight :: "int list \<Rightarrow> nat list \<Rightarrow> int" where
  "min_weight weights ls = fold (\<lambda>l m. min (weights ! l) m) ls (int INFINITE)"

lemma min_weight_le: "l \<in> set ls \<Longrightarrow> min_weight weights ls \<le> weights ! l"
  and min_weight_cases: "min_weight weights ls = int INFINITE
    \<or> (\<exists>l\<in>set ls. min_weight weights ls = weights ! l)"
  and min_weight_bound: "min_weight weights ls \<le> int INFINITE"
proof -
  have *: "(\<forall>l\<in>set ls. fold (\<lambda>l m. min (weights ! l) m) ls a \<le> weights ! l)
      \<and> fold (\<lambda>l m. min (weights ! l) m) ls a \<le> a
      \<and> (fold (\<lambda>l m. min (weights ! l) m) ls a = a
         \<or> (\<exists>l\<in>set ls. fold (\<lambda>l m. min (weights ! l) m) ls a = weights ! l))" for a
  proof (induction ls arbitrary: a)
    case Nil
    then show ?case by simp
  next
    case (Cons l ls)
    from Cons.IH [of "min (weights ! l) a"] show ?case
      by (auto simp: min_def split: if_splits)
  qed
  show "l \<in> set ls \<Longrightarrow> min_weight weights ls \<le> weights ! l"
    and "min_weight weights ls = int INFINITE \<or> (\<exists>l\<in>set ls. min_weight weights ls = weights ! l)"
    and "min_weight weights ls \<le> int INFINITE"
    using * [of "int INFINITE"] unfolding min_weight_def by blast+
qed

lemma for_list_filter:
  assumes "\<And>x s. x \<in> set xs \<Longrightarrow> f x s = (if P x then Some (g x s) else Some s)"
  shows "for_list f xs s = Some (fold g (filter P xs) s)"
  using assms by (induction xs arbitrary: s) auto

lemma table_loops:
  assumes wf: "dest_wf nc dest" "\<forall>e\<in>set tbl. dest_wf nc e" and len: "length tbl \<le> length weights"
  shows "min_weight_loop tbl weights dest = Some (min_weight weights (link_candidates tbl dest))"
    and "candidates_loop tbl weights dest mw
      = Some (filter (\<lambda>l. weights ! l = mw) (link_candidates tbl dest))"
proof -
  have meets: "NetDest_intersectionIsNotEmpty dest (tbl ! l)
      = Some (dest_els dest \<inter> dest_els (tbl ! l) \<noteq> {})" if "l < length tbl" for l
    using net_dest.meets [OF wf(1)] wf(2) that by auto
  show "min_weight_loop tbl weights dest = Some (min_weight weights (link_candidates tbl dest))"
    unfolding min_weight_loop_def for_range_def min_weight_def link_candidates_def
    using len meets by (intro for_list_filter) (auto simp: at_def min_def)
  have "candidates_loop tbl weights dest mw
      = Some (fold (\<lambda>l cs. if weights ! l = mw then cs @ [l] else cs) (link_candidates tbl dest) [])"
    unfolding candidates_loop_def for_range_def link_candidates_def
    using len meets by (intro for_list_filter) (auto simp: at_def)
  moreover have "fold (\<lambda>l cs. if weights ! l = mw then cs @ [l] else cs) ls cs
      = cs @ filter (\<lambda>l. weights ! l = mw) ls" for ls cs
    by (induction ls arbitrary: cs) auto
  ultimately show "candidates_loop tbl weights dest mw
      = Some (filter (\<lambda>l. weights ! l = mw) (link_candidates tbl dest))"
    by simp
qed

lemma lookup_eq:
  assumes "dest_wf nc dest" "at (m_routing_table u) vnet = Some tbl" "\<forall>e\<in>set tbl. dest_wf nc e"
    and "length tbl \<le> length (m_weight_table u)" "isVNetOrdered cfg vnet = Some ordered"
  defines "ls \<equiv> link_candidates tbl dest"
  defines "best \<equiv> filter (\<lambda>l. m_weight_table u ! l = min_weight (m_weight_table u) ls) ls"
  shows "lookupRoutingTable cfg rand vnet dest u =
    (if best = [] then None else Some (best ! (if ordered then 0 else rand mod length best)))"
proof -
  have pick: "do { check (length b \<noteq> 0); o' \<leftarrow> Some ordered; at b (if o' then 0 else rand mod length b) }
      = (if b = [] then None else Some (b ! (if ordered then 0 else rand mod length b)))" for b :: "nat list"
    by (cases "b = []") (auto simp: at_def)
  have "lookupRoutingTable cfg rand vnet dest u =
      do { check (length best \<noteq> 0); o' \<leftarrow> Some ordered; at best (if o' then 0 else rand mod length best) }"
    unfolding lookupRoutingTable_def assms(2,5) best_def ls_def
    by (simp only: bind.bind_lunit table_loops [OF assms(1,3,4)])
  then show ?thesis unfolding pick .
qed

subsection \<open>XY routing in a mesh\<close>

definition mesh_neighbour :: "int \<Rightarrow> int \<Rightarrow> int \<Rightarrow> PortDirection \<Rightarrow> int option" where
  "mesh_neighbour num_rows num_columns r d =
     (let col = r mod num_columns; row = r div num_columns
      in if d = ''East'' \<and> col + 1 < num_columns then Some ((col + 1) + row * num_columns)
         else if d = ''West'' \<and> 0 \<le> col - 1 then Some ((col - 1) + row * num_columns)
         else if d = ''North'' \<and> row + 1 < num_rows then Some (col + (row + 1) * num_columns)
         else if d = ''South'' \<and> 0 \<le> row - 1 then Some (col + (row - 1) * num_columns)
         else None)"

definition mesh_inport :: "PortDirection \<Rightarrow> PortDirection" where
  "mesh_inport d =
     (if d = ''East'' then ''West'' else if d = ''West'' then ''East''
      else if d = ''North'' then ''South'' else ''North'')"

text \<open>\<open>n\<close> hops under XY routing towards \<open>dest\<close>; \<open>None\<close> when an assertion fails or the link is missing.\<close>

fun xy_walk :: "int \<Rightarrow> int \<Rightarrow> int \<Rightarrow> nat \<Rightarrow> int \<Rightarrow> PortDirection \<Rightarrow> int option" where
  "xy_walk rows cols dest 0 r inp = Some r"
| "xy_walk rows cols dest (Suc n) r inp = do {
     d \<leftarrow> xy_direction rows cols r dest inp;
     r' \<leftarrow> mesh_neighbour rows cols r d;
     xy_walk rows cols dest n r' (mesh_inport d) }"

lemma xy_direction_Some:
  "xy_direction rows cols r dest inp = Some d \<longleftrightarrow>
     0 < rows \<and> 0 < cols \<and>
     (r mod cols < dest mod cols \<and> inp \<in> {''Local'', ''West''} \<and> d = ''East''
      \<or> dest mod cols < r mod cols \<and> inp \<in> {''Local'', ''East''} \<and> d = ''West''
      \<or> r mod cols = dest mod cols \<and> r div cols < dest div cols \<and> inp \<noteq> ''North'' \<and> d = ''North''
      \<or> r mod cols = dest mod cols \<and> dest div cols < r div cols \<and> inp \<noteq> ''South'' \<and> d = ''South'')"
  by (auto simp: xy_direction_def Let_def bind_eq_Some_conv)

lemma mesh_coord:
  fixes cols :: int
  assumes "0 < cols" "0 \<le> x" "x < cols"
  shows "(x + y * cols) mod cols = x" "(x + y * cols) div cols = y"
  using assms by auto

lemma mesh_neighbour_coord:
  assumes cols: "0 < cols" and r': "mesh_neighbour rows cols r d = Some r'"
  shows "d = ''East'' \<Longrightarrow> r' mod cols = r mod cols + 1 \<and> r' div cols = r div cols"
    and "d = ''West'' \<Longrightarrow> r' mod cols = r mod cols - 1 \<and> r' div cols = r div cols \<and> 1 \<le> r mod cols"
    and "d = ''North'' \<Longrightarrow> r' mod cols = r mod cols \<and> r' div cols = r div cols + 1"
    and "d = ''South'' \<Longrightarrow> r' mod cols = r mod cols \<and> r' div cols = r div cols - 1"
proof -
  define x y where "x = r mod cols" and "y = r div cols"
  have b: "0 \<le> x" "x < cols" using cols by (auto simp: x_def)
  note nb = r' [unfolded mesh_neighbour_def Let_def, folded x_def y_def]
  show "r' mod cols = r mod cols + 1 \<and> r' div cols = r div cols" if "d = ''East''"
    using nb that b mesh_coord [OF cols, of "x + 1" y] unfolding x_def [symmetric] y_def [symmetric]
    by (auto split: if_splits)
  show "r' mod cols = r mod cols - 1 \<and> r' div cols = r div cols \<and> 1 \<le> r mod cols" if "d = ''West''"
    using nb that b mesh_coord [OF cols, of "x - 1" y] unfolding x_def [symmetric] y_def [symmetric]
    by (auto split: if_splits)
  show "r' mod cols = r mod cols \<and> r' div cols = r div cols + 1" if "d = ''North''"
    using nb that b mesh_coord [OF cols, of x "y + 1"] unfolding x_def [symmetric] y_def [symmetric]
    by (auto split: if_splits)
  show "r' mod cols = r mod cols \<and> r' div cols = r div cols - 1" if "d = ''South''"
    using nb that b mesh_coord [OF cols, of x "y - 1"] unfolding x_def [symmetric] y_def [symmetric]
    by (auto split: if_splits)
qed

definition xy_hops :: "int \<Rightarrow> int \<Rightarrow> int \<Rightarrow> nat" where
  "xy_hops cols r dest =
     nat \<bar>dest mod cols - r mod cols\<bar> + nat \<bar>dest div cols - r div cols\<bar>"

definition xy_inport_ok :: "int \<Rightarrow> int \<Rightarrow> int \<Rightarrow> PortDirection \<Rightarrow> bool" where
  "xy_inport_ok cols r dest inp \<longleftrightarrow>
     (r mod cols < dest mod cols \<longrightarrow> inp \<in> {''Local'', ''West''}) \<and>
     (dest mod cols < r mod cols \<longrightarrow> inp \<in> {''Local'', ''East''}) \<and>
     (r mod cols = dest mod cols \<and> r div cols < dest div cols \<longrightarrow> inp \<noteq> ''North'') \<and>
     (r mod cols = dest mod cols \<and> dest div cols < r div cols \<longrightarrow> inp \<noteq> ''South'')"

lemma xy_step:
  assumes "0 < rows" "0 < cols" "0 \<le> r div cols" "r div cols < rows" "0 \<le> dest div cols"
    "dest div cols < rows" "xy_hops cols r dest = Suc n" "xy_inport_ok cols r dest inp"
  shows "\<exists>d r'. xy_direction rows cols r dest inp = Some d \<and> mesh_neighbour rows cols r d = Some r'
    \<and> xy_hops cols r' dest = n \<and> xy_inport_ok cols r' dest (mesh_inport d)
    \<and> 0 \<le> r' div cols \<and> r' div cols < rows"
proof -
  let ?x = "r mod cols" and ?y = "r div cols" and ?dx = "dest mod cols" and ?dy = "dest div cols"
  have bx: "0 \<le> ?x" "?x < cols" "0 \<le> ?dx" "?dx < cols" using assms(2) by auto
  have ne: "?x \<noteq> ?dx \<or> ?y \<noteq> ?dy" using assms(7) by (auto simp: xy_hops_def)
  then consider (E) "?x < ?dx" | (W) "?dx < ?x" | (N) "?x = ?dx" "?y < ?dy"
    | (S) "?x = ?dx" "?dy < ?y" by linarith
  then show ?thesis
  proof cases
    case E
    then have dir: "xy_direction rows cols r dest inp = Some ''East''"
      using assms(1,2,8) by (simp add: xy_direction_Some xy_inport_ok_def)
    moreover obtain r' where r': "mesh_neighbour rows cols r ''East'' = Some r'"
      using E bx assms(3-6) by (simp add: mesh_neighbour_def)
    ultimately show ?thesis
      using E mesh_neighbour_coord(1) [OF assms(2) r' refl] bx assms(3-7)
      by (intro exI [of _ "''East''"] exI [of _ r'] conjI) (auto simp: xy_hops_def xy_inport_ok_def mesh_inport_def)
  next
    case W
    then have dir: "xy_direction rows cols r dest inp = Some ''West''"
      using assms(1,2,8) by (simp add: xy_direction_Some xy_inport_ok_def)
    moreover obtain r' where r': "mesh_neighbour rows cols r ''West'' = Some r'"
      using W bx assms(3-6) by (simp add: mesh_neighbour_def)
    ultimately show ?thesis
      using W mesh_neighbour_coord(2) [OF assms(2) r' refl] bx assms(3-7)
      by (intro exI [of _ "''West''"] exI [of _ r'] conjI) (auto simp: xy_hops_def xy_inport_ok_def mesh_inport_def)
  next
    case N
    then have dir: "xy_direction rows cols r dest inp = Some ''North''"
      using assms(1,2,8) by (simp add: xy_direction_Some xy_inport_ok_def)
    moreover obtain r' where r': "mesh_neighbour rows cols r ''North'' = Some r'"
      using N bx assms(3-6) by (simp add: mesh_neighbour_def)
    ultimately show ?thesis
      using N mesh_neighbour_coord(3) [OF assms(2) r' refl] bx assms(3-7)
      by (intro exI [of _ "''North''"] exI [of _ r'] conjI) (auto simp: xy_hops_def xy_inport_ok_def mesh_inport_def)
  next
    case S
    then have dir: "xy_direction rows cols r dest inp = Some ''South''"
      using assms(1,2,8) by (simp add: xy_direction_Some xy_inport_ok_def)
    moreover obtain r' where r': "mesh_neighbour rows cols r ''South'' = Some r'"
      using S bx assms(3-6) by (simp add: mesh_neighbour_def)
    ultimately show ?thesis
      using S mesh_neighbour_coord(4) [OF assms(2) r' refl] bx assms(3-7)
      by (intro exI [of _ "''South''"] exI [of _ r'] conjI) (auto simp: xy_hops_def xy_inport_ok_def mesh_inport_def)
  qed
qed

lemma xy_walk_arrives:
  assumes "0 < rows" "0 < cols" "0 \<le> r div cols" "r div cols < rows" "0 \<le> dest div cols"
    "dest div cols < rows" "xy_hops cols r dest = n" "xy_inport_ok cols r dest inp"
  shows "xy_walk rows cols dest n r inp = Some dest"
  using assms
proof (induction n arbitrary: r inp)
  case 0
  then have "r mod cols = dest mod cols" "r div cols = dest div cols"
    by (auto simp: xy_hops_def)
  then have "r = dest" by (metis div_mult_mod_eq)
  then show ?case by simp
next
  case (Suc n)
  from xy_step [OF Suc.prems] obtain d r' where
      "xy_direction rows cols r dest inp = Some d" "mesh_neighbour rows cols r d = Some r'"
      "xy_hops cols r' dest = n" "xy_inport_ok cols r' dest (mesh_inport d)"
      "0 \<le> r' div cols" "r' div cols < rows" by blast
  with Suc.IH [of r' "mesh_inport d"] Suc.prems show ?case by simp
qed

text \<open>The channel dependencies of XY routing: a packet to \<open>dest\<close> that holds the channel out of \<open>r1\<close> in
  direction \<open>d1\<close> asks at the next router for the channel in direction \<open>d2\<close>.\<close>

definition xy_depends :: "int \<Rightarrow> int \<Rightarrow> int \<times> PortDirection \<Rightarrow> int \<times> PortDirection \<Rightarrow> bool" where
  "xy_depends rows cols c1 c2 \<longleftrightarrow>
     (\<exists>dest inp. 0 \<le> fst c1 div cols \<and> fst c1 div cols < rows
        \<and> 0 \<le> fst c2 div cols \<and> fst c2 div cols < rows
        \<and> xy_direction rows cols (fst c1) dest inp = Some (snd c1)
        \<and> mesh_neighbour rows cols (fst c1) (snd c1) = Some (fst c2)
        \<and> xy_direction rows cols (fst c2) dest (mesh_inport (snd c1)) = Some (snd c2))"

definition xy_rank :: "int \<Rightarrow> int \<Rightarrow> int \<times> PortDirection \<Rightarrow> nat" where
  "xy_rank rows cols c =
     (let x = fst c mod cols; y = fst c div cols; d = snd c
      in nat (if d = ''East'' then rows + cols - x else if d = ''West'' then rows + x
              else if d = ''North'' then rows - y else y))"

lemma xy_depends_rank:
  assumes "xy_depends rows cols c1 c2"
  shows "xy_rank rows cols c2 < xy_rank rows cols c1"
proof -
  obtain r1 d1 r2 d2 where c: "c1 = (r1, d1)" "c2 = (r2, d2)" by (metis surj_pair)
  from assms obtain dest inp where
      dep: "0 \<le> r1 div cols" "r1 div cols < rows" "0 \<le> r2 div cols" "r2 div cols < rows"
        "xy_direction rows cols r1 dest inp = Some d1" "mesh_neighbour rows cols r1 d1 = Some r2"
        "xy_direction rows cols r2 dest (mesh_inport d1) = Some d2"
    unfolding xy_depends_def c by auto
  have cols: "0 < cols" using dep(5) by (simp add: xy_direction_Some)
  note n = mesh_neighbour_coord [OF cols dep(6)]
  have b: "0 \<le> r1 mod cols" "r1 mod cols < cols" "0 \<le> r2 mod cols" "r2 mod cols < cols"
    using cols by auto
  from dep(5) consider "d1 = ''East''" "r1 mod cols < dest mod cols"
    | "d1 = ''West''" "dest mod cols < r1 mod cols"
    | "d1 = ''North''" "r1 mod cols = dest mod cols" "r1 div cols < dest div cols"
    | "d1 = ''South''" "r1 mod cols = dest mod cols" "dest div cols < r1 div cols"
    unfolding xy_direction_Some by blast
  then show ?thesis
  proof cases
    case 1
    then show ?thesis using dep(1-4) dep(7) [unfolded xy_direction_Some] n(1) b
      by (auto simp: c xy_rank_def)
  next
    case 2
    then show ?thesis using dep(1-4) dep(7) [unfolded xy_direction_Some] n(2) b
      by (auto simp: c xy_rank_def)
  next
    case 3
    then show ?thesis using dep(1-4) dep(7) [unfolded xy_direction_Some] n(3) b
      by (auto simp: c xy_rank_def)
  next
    case 4
    then show ?thesis using dep(1-4) dep(7) [unfolded xy_direction_Some] n(4) b
      by (auto simp: c xy_rank_def)
  qed
qed

subsection \<open>Properties\<close>

text \<open>C8. Table routing takes a minimal route: the port that \<^verbatim>\<open>lookupRoutingTable\<close> returns is a link whose
  table entry contains a destination of the message, no such link has a smaller weight, and the
  lookup is fatal exactly when no link within the weight limit leads to a destination.  On an
  ordered virtual network the port does not depend on \<^verbatim>\<open>rand()\<close>.\<close>
theorem lookupRoutingTable_min_weight:
  assumes "dest_wf nc dest" "at (m_routing_table u) vnet = Some tbl" "\<forall>e\<in>set tbl. dest_wf nc e"
    and "length tbl \<le> length (m_weight_table u)" "isVNetOrdered cfg vnet = Some ordered"
  shows "(case lookupRoutingTable cfg rand vnet dest u of
       Some l \<Rightarrow> l < length tbl \<and> dest_els dest \<inter> dest_els (tbl ! l) \<noteq> {}
         \<and> m_weight_table u ! l \<le> int INFINITE
         \<and> (\<forall>k<length tbl. dest_els dest \<inter> dest_els (tbl ! k) \<noteq> {}
              \<longrightarrow> m_weight_table u ! l \<le> m_weight_table u ! k)
     | None \<Rightarrow> \<forall>k<length tbl. dest_els dest \<inter> dest_els (tbl ! k) \<noteq> {}
              \<longrightarrow> m_weight_table u ! k > int INFINITE)
    \<and> (ordered \<longrightarrow> lookupRoutingTable cfg rand vnet dest u = lookupRoutingTable cfg 0 vnet dest u)"
proof -
  let ?w = "m_weight_table u"
  define ls where "ls = link_candidates tbl dest"
  define best where "best = filter (\<lambda>l. ?w ! l = min_weight ?w ls) ls"
  have eq: "lookupRoutingTable cfg rd vnet dest u =
      (if best = [] then None else Some (best ! (if ordered then 0 else rd mod length best)))" for rd
    using lookup_eq [OF assms] unfolding best_def ls_def .
  have ls: "k \<in> set ls \<longleftrightarrow> k < length tbl \<and> dest_els dest \<inter> dest_els (tbl ! k) \<noteq> {}" for k
    by (auto simp: ls_def link_candidates_def)
  show ?thesis
  proof (cases "best = []")
    case True
    have "?w ! k > int INFINITE" if "k \<in> set ls" for k
      using True that min_weight_le [OF that, of ?w] min_weight_cases [of ?w ls]
        min_weight_bound [of ?w ls] by (force simp: best_def filter_empty_conv)
    with True eq ls show ?thesis by simp
  next
    case False
    define l where "l = best ! (if ordered then 0 else rand mod length best)"
    have "l \<in> set best" using False by (auto simp: l_def)
    then have "l \<in> set ls" "?w ! l = min_weight ?w ls" by (auto simp: best_def)
    with False eq ls min_weight_le [of _ ls ?w] min_weight_bound [of ?w ls] show ?thesis
      by (simp add: l_def)
  qed
qed

definition ex_config :: GarnetConfig where
  "ex_config = \<lparr>m_num_rows = 2, m_num_cols = 2, m_ni_flit_size = 16, m_buffers_per_ctrl_vc = 1,
     m_buffers_per_data_vc = 4, m_routing_algorithm = 0, m_enable_fault_model = False,
     m_virtual_networks = 1, m_vnet_type = [CTRL_VNET], m_ordered = [True], m_control_msg_size = 8,
     m_data_msg_size = 72\<rparr>"

definition ex_routing :: RoutingUnit where
  "ex_routing = RoutingUnit_new\<lparr>m_routing_table := [[ex_dest 1 0]], m_weight_table := [1]\<rparr>"

theorem lookupRoutingTable_min_weight_witness:
  "lookupRoutingTable ex_config 5 0 (ex_dest 1 0) ex_routing \<noteq> None"
proof
  assume none: "lookupRoutingTable ex_config 5 0 (ex_dest 1 0) ex_routing = None"
  have "(0, 0) \<in> dest_els (ex_dest 1 0)" by (simp add: dest_els_def ex_dest_def set_els_def)
  moreover have "at (m_routing_table ex_routing) 0 = Some [ex_dest 1 0]"
      "m_weight_table ex_routing = [1]" "isVNetOrdered ex_config 0 = Some True"
    by (simp_all add: ex_routing_def ex_config_def isVNetOrdered_def)
  then have "dest_els (ex_dest 1 0) = {}"
    using lookupRoutingTable_min_weight [of "[2, 3]" "ex_dest 1 0" ex_routing 0 "[ex_dest 1 0]"
        ex_config True 5] ex_dest_wf [of 1 0] none
    by (simp add: INFINITE_def del: at_eq_Some)
  ultimately show False by simp
qed

text \<open>C5. XY routing delivers: from any router of the mesh, with the packet injected at the local
  port, the hops that \<^verbatim>\<open>outportComputeXY\<close> chooses reach the destination router in exactly the
  Manhattan distance, every hop follows a link of the mesh, and no assertion on the way fails.\<close>
theorem xy_routing_delivers:
  assumes "0 < rows" "0 < cols" "src < rows * cols" "dest < rows * cols"
  shows "xy_walk (int rows) (int cols) (int dest) (xy_hops (int cols) (int src) (int dest)) (int src) ''Local''
    = Some (int dest)"
proof (rule xy_walk_arrives)
  show "int src div int cols < int rows" "int dest div int cols < int rows"
      "0 \<le> int src div int cols" "0 \<le> int dest div int cols"
    using assms by (simp_all add: zdiv_int [symmetric] less_mult_imp_div_less)
qed (use assms in \<open>auto simp: xy_inport_ok_def\<close>)

theorem xy_routing_delivers_witness:
  "xy_walk 4 4 13 (xy_hops 4 2 13) 2 ''Local'' = Some 13"
  using xy_routing_delivers [of 4 4 2 13] by simp

text \<open>C6. XY routing is free of routing deadlock: the dependencies between the channels of the mesh, which
  channel a packet may hold while it waits for which other, have no cycle.\<close>
theorem xy_routing_acyclic:
  "acyclic {(c1, c2). xy_depends rows cols c1 c2}"
proof -
  have "{(c1, c2). xy_depends rows cols c1 c2} \<subseteq> (measure (xy_rank rows cols))\<inverse>"
    using xy_depends_rank by auto
  moreover have "acyclic ((measure (xy_rank rows cols))\<inverse>)"
    using wf_acyclic [OF wf_measure] by simp
  ultimately show ?thesis by (rule acyclic_subset [rotated])
qed

end
