(* ===== verification/Net_Topology.thy ===== *)
theory Net_Topology
  imports Routing_Unit
begin

text \<open>
  The topology of a Ruby network (\<^verbatim>\<open>network/Topology.{hh,cc}\<close>, \<^verbatim>\<open>BasicLink.{hh,cc}\<close>): the links that the configuration
  describes, the all-pairs shortest paths over them, one topology per virtual network, and the routing tables that the
  shortest paths give.

  The controllers are the nodes \<open>0 ..< m_nodes\<close> as sources and \<open>m_nodes ..< 2 * m_nodes\<close> as destinations; the routers
  follow.  A \<^verbatim>\<open>Matrix\<close> is a three-dimensional vector whose dimensions never change after it is built, and whose
  indices in this file are loop counters or checked; it is a function of the three indices.  \<^verbatim>\<open>std::map\<close> is a
  list sorted by key.  The loop that repeats the relaxation until nothing changes does not end on negative
  cycles, so it is an \<open>option\<close>-valued function.  The calls that \<^verbatim>\<open>createLinks\<close> makes to the network are the list
  of \<open>net_call\<close>s it returns.
\<close>

definition INFINITE_LATENCY :: int where
  "INFINITE_LATENCY = 10000"

type_synonym SwitchID = nat

type_synonym matrix = "nat \<Rightarrow> nat \<Rightarrow> nat \<Rightarrow> int"

definition upd3 :: "matrix \<Rightarrow> nat \<Rightarrow> nat \<Rightarrow> nat \<Rightarrow> int \<Rightarrow> matrix" where
  "upd3 M a b c x = M(a := (M a)(b := (M a b)(c := x)))"

lemma upd3_apply: "upd3 M a b c x a' b' c' = (if a' = a \<and> b' = b \<and> c' = c then x else M a' b' c')"
  by (auto simp: upd3_def)

subsection \<open>Links\<close>

datatype link_ref = ExtL nat | IntL nat

record BasicLink =
  bl_ref :: link_ref
  bl_latency :: int
  bl_weight :: int
  bl_mVnets :: "nat list"

record BasicExtLink = BasicLink +
  ext_node :: MachineID
  int_node :: nat

record BasicIntLink = BasicLink +
  src_node :: nat
  dst_node :: nat
  src_outport :: PortDirection
  dst_inport :: PortDirection

record LinkEntry =
  le_link :: BasicLink
  src_outport_dirn :: PortDirection
  dst_inport_dirn :: PortDirection

type_synonym LinkMap = "((SwitchID \<times> SwitchID) \<times> LinkEntry list) list"

record Topology =
  t_nodes :: nat
  m_number_of_switches :: nat
  m_vnets :: nat
  m_ext_link_vector :: "BasicExtLink list"
  m_int_link_vector :: "BasicIntLink list"
  m_link_map :: LinkMap
  t_ruby_system :: num_controllers

definition key_less :: "SwitchID \<times> SwitchID \<Rightarrow> SwitchID \<times> SwitchID \<Rightarrow> bool" where
  "key_less a b \<longleftrightarrow> fst a < fst b \<or> fst a = fst b \<and> snd a < snd b"

fun link_map_add :: "SwitchID \<times> SwitchID \<Rightarrow> LinkEntry \<Rightarrow> LinkMap \<Rightarrow> LinkMap" where
  "link_map_add k e [] = [(k, [e])]"
| "link_map_add k e ((k', es) # rest) =
     (if k = k' then (k', es @ [e]) # rest
      else if key_less k k' then (k, [e]) # (k', es) # rest
      else (k', es) # link_map_add k e rest)"

definition addLink ::
  "SwitchID \<Rightarrow> SwitchID \<Rightarrow> BasicLink \<Rightarrow> PortDirection \<Rightarrow> PortDirection \<Rightarrow> Topology \<Rightarrow> Topology option"
where
  "addLink src dest link src_dirn dst_dirn t =
     do { check (src \<le> m_number_of_switches t + t_nodes t + t_nodes t);
          check (dest \<le> m_number_of_switches t + t_nodes t + t_nodes t);
          Some (t\<lparr>m_link_map := link_map_add (src, dest)
            \<lparr>le_link = link, src_outport_dirn = src_dirn, dst_inport_dirn = dst_dirn\<rparr> (m_link_map t)\<rparr>) }"

text \<open>The default direction is the empty string.\<close>

definition add_ext_link :: "BasicExtLink \<Rightarrow> Topology \<Rightarrow> Topology option" where
  "add_ext_link ext_link t =
     do { base \<leftarrow> MachineType_base_number (t_ruby_system t) (mach_type (ext_node ext_link));
          let ext_idx1 = base + mach_num (ext_node ext_link);
          let ext_idx2 = ext_idx1 + t_nodes t;
          let int_idx = int_node ext_link + 2 * t_nodes t;
          t1 \<leftarrow> addLink ext_idx1 int_idx (BasicLink.truncate ext_link) '''' '''' t;
          addLink int_idx ext_idx2 (BasicLink.truncate ext_link) '''' '''' t1 }"

definition add_int_link :: "BasicIntLink \<Rightarrow> Topology \<Rightarrow> Topology option" where
  "add_int_link int_link t =
     addLink (src_node int_link + 2 * t_nodes t) (dst_node int_link + 2 * t_nodes t) (BasicLink.truncate int_link)
       (src_outport int_link) (dst_inport int_link)
       (t\<lparr>m_int_link_vector := m_int_link_vector t @ [int_link]\<rparr>)"

definition Topology_new ::
  "nat \<Rightarrow> nat \<Rightarrow> BasicExtLink list \<Rightarrow> BasicIntLink list \<Rightarrow> num_controllers \<Rightarrow> Topology option"
where
  "Topology_new num_routers num_vnets ext_links int_links nc =
     do { nodes \<leftarrow> MachineType_base_number nc (length nc);
          check (nodes > 1);
          t1 \<leftarrow> for_list add_ext_link ext_links
             \<lparr>t_nodes = nodes, m_number_of_switches = num_routers, m_vnets = num_vnets, m_ext_link_vector = ext_links,
              m_int_link_vector = int_links, m_link_map = [], t_ruby_system = nc\<rparr>;
          for_list add_int_link int_links t1 }"

subsection \<open>Shortest paths\<close>

record paths =
  p_dist :: matrix
  p_lat :: matrix
  p_inter :: matrix

text \<open>One step of the loop over the intermediate switches \<open>k\<close>; the state is the minimum, the intermediate
  switch that gave it, and the numbers of switches on the paths.\<close>

definition relax_via :: "matrix \<Rightarrow> nat \<Rightarrow> nat \<Rightarrow> nat \<Rightarrow> nat \<Rightarrow> int \<times> nat option \<times> matrix \<Rightarrow> int \<times> nat option \<times> matrix" where
  "relax_via dist v i j k st =
     (case st of (minimum, via, hops) \<Rightarrow>
        let m = min minimum (dist v i k + dist v k j)
        in if minimum \<noteq> m then (m, Some k, upd3 hops i j v (hops i k v + hops k j v + 1)) else (m, via, hops))"

definition relax_pair :: "nat \<Rightarrow> nat \<Rightarrow> nat \<times> nat \<Rightarrow> bool \<times> paths \<Rightarrow> (bool \<times> paths) option" where
  "relax_pair nodes v ij st =
     (let (i, j) = ij; (change, ps) = st;
          (minimum, via, hops) = fold (relax_via (p_dist ps) v i j) [0..<nodes] (p_dist ps v i j, None, p_inter ps);
          ps1 = ps\<lparr>p_inter := hops\<rparr>
      in if p_dist ps1 v i j \<noteq> minimum
         then do { k \<leftarrow> via;
                   check (k < nodes);
                   Some (True, ps1\<lparr>p_dist := upd3 (p_dist ps1) v i j minimum,
                                   p_lat := upd3 (p_lat ps1) i j v (p_lat ps1 i k v + p_lat ps1 k j v)\<rparr>) }
         else Some (change, ps1))"

definition all_pairs :: "nat \<Rightarrow> (nat \<times> nat) list" where
  "all_pairs nodes = List.product [0..<nodes] [0..<nodes]"

definition relax_pass :: "nat \<Rightarrow> nat \<Rightarrow> paths \<Rightarrow> (bool \<times> paths) option" where
  "relax_pass nodes v ps = for_list (relax_pair nodes v) (all_pairs nodes) (False, ps)"

text \<open>The loop \<^verbatim>\<open>while (change)\<close>.\<close>

partial_function (option) settle :: "nat \<Rightarrow> nat \<Rightarrow> paths \<Rightarrow> paths option" where
  "settle nodes v ps =
     do { (change, ps1) \<leftarrow> relax_pass nodes v ps;
          if change then settle nodes v ps1 else Some ps1 }"

definition extend_shortest_path :: "nat \<Rightarrow> nat \<Rightarrow> paths \<Rightarrow> paths option" where
  "extend_shortest_path vnets nodes ps = for_range (settle nodes) vnets ps"

definition shortest_path :: "nat \<Rightarrow> nat \<Rightarrow> matrix \<Rightarrow> matrix \<Rightarrow> matrix \<Rightarrow> paths option" where
  "shortest_path vnets nodes weights latencies inter_switches =
     extend_shortest_path vnets nodes \<lparr>p_dist = weights, p_lat = latencies, p_inter = inter_switches\<rparr>"

definition link_is_shortest_path_to_node :: "SwitchID \<Rightarrow> SwitchID \<Rightarrow> SwitchID \<Rightarrow> matrix \<Rightarrow> matrix \<Rightarrow> nat \<Rightarrow> bool" where
  "link_is_shortest_path_to_node src next final weights dist vnet =
     (weights vnet src next + dist vnet next final = dist vnet src final)"

definition machines :: "num_controllers \<Rightarrow> (nat \<times> nat) list" where
  "machines nc = concat (map (\<lambda>m. map (\<lambda>i. (m, i)) [0..<nc ! m]) [0..<length nc])"

definition shortest_path_to_node ::
  "num_controllers \<Rightarrow> SwitchID \<Rightarrow> SwitchID \<Rightarrow> matrix \<Rightarrow> matrix \<Rightarrow> nat \<Rightarrow> NetDest option"
where
  "shortest_path_to_node nc src next weights dist vnet =
     do { result \<leftarrow> NetDest_new nc;
          max_machines \<leftarrow> MachineType_base_number nc (length nc);
          (d, nd) \<leftarrow> for_list (\<lambda>(m, i) (d, nd).
              do { nd1 \<leftarrow> (if link_is_shortest_path_to_node src next (d + max_machines) weights dist vnet
                          then NetDest_add \<lparr>mach_type = m, mach_num = i\<rparr> nd else Some nd);
                   Some (d + 1, nd1) }) (machines nc) (0, result);
          Some nd }"

subsection \<open>Creating the links\<close>

datatype net_call =
    MakeExtInLink nat SwitchID BasicLink "NetDest list"
  | MakeExtOutLink SwitchID nat BasicLink "NetDest list"
  | MakeInternalLink SwitchID SwitchID BasicLink "NetDest list" PortDirection PortDirection

definition max_switch_id :: "LinkMap \<Rightarrow> SwitchID" where
  "max_switch_id lm = fold (\<lambda>((s, d), _) m. max (max m s) d) lm 0"

text \<open>Enter one link into the matrices, for all virtual networks or those it supports.\<close>

definition enter_vnet ::
  "nat \<Rightarrow> nat \<Rightarrow> nat \<Rightarrow> BasicLink \<Rightarrow> nat \<Rightarrow> bool list \<times> matrix \<times> matrix \<Rightarrow> (bool list \<times> matrix \<times> matrix) option"
where
  "enter_vnet vnets src dst link vnet st =
     (case st of (vnet_done, weights, lat) \<Rightarrow>
        do { check (\<not> vnet \<ge> vnets);
             done \<leftarrow> at vnet_done vnet;
             check (\<not> done);
             Some (vnet_done[vnet := True], upd3 weights vnet src dst (bl_weight link),
                   upd3 lat src dst vnet (bl_latency link)) })"

definition enter_group ::
  "nat \<Rightarrow> (SwitchID \<times> SwitchID) \<times> LinkEntry list \<Rightarrow> matrix \<times> matrix \<Rightarrow> (matrix \<times> matrix) option"
where
  "enter_group vnets link_group st =
     (case (link_group, st) of (((src, dst), link_entries), (weights, lat)) \<Rightarrow>
        do { (_, w, l) \<leftarrow> for_list (\<lambda>e. for_list (enter_vnet vnets src dst (le_link e))
                 (if bl_mVnets (le_link e) = [] then [0..<vnets] else bl_mVnets (le_link e)))
               link_entries (replicate vnets False, weights, lat);
             Some (w, l) })"

definition identity_weights :: matrix where
  "identity_weights v i j = (if i = j then 0 else INFINITE_LATENCY)"

definition topology_weights :: "Topology \<Rightarrow> (matrix \<times> matrix) option" where
  "topology_weights t = for_list (enter_group (m_vnets t)) (m_link_map t) (identity_weights, \<lambda>i j v. -1)"

definition link_route :: "num_controllers \<Rightarrow> nat \<Rightarrow> BasicLink \<Rightarrow> NetDest list \<Rightarrow> NetDest list option" where
  "link_route nc vnets link entry =
     (if bl_mVnets link = [] then Some entry
      else do { empty \<leftarrow> NetDest_new nc;
                for_list (\<lambda>vnet route. do { r \<leftarrow> at entry vnet; put route vnet r }) (bl_mVnets link)
                  (replicate vnets empty) })"

definition makeLink :: "Topology \<Rightarrow> SwitchID \<Rightarrow> SwitchID \<Rightarrow> NetDest list \<Rightarrow> net_call list option" where
  "makeLink t src dest entry =
     do { let n = t_nodes t;
          check (src \<ge> 2 * n \<or> dest \<ge> 2 * n);
          let links = (case map_of (m_link_map t) (src, dest) of None \<Rightarrow> [] | Some ls \<Rightarrow> ls);
          check (src < n \<or> dest \<ge> n);
          check (src < n \<or> dest < 2 * n \<or> src \<ge> 2 * n);
          map_opt (\<lambda>e.
            do { route \<leftarrow> link_route (t_ruby_system t) (m_vnets t) (le_link e) entry;
                 Some (if src < n then MakeExtInLink src (dest - 2 * n) (le_link e) route
                       else if dest < 2 * n then MakeExtOutLink (src - 2 * n) (dest - n) (le_link e) route
                       else MakeInternalLink (src - 2 * n) (dest - 2 * n) (le_link e) route
                              (src_outport_dirn e) (dst_inport_dirn e)) }) links }"

definition real_link :: "matrix \<Rightarrow> nat \<Rightarrow> SwitchID \<Rightarrow> SwitchID \<Rightarrow> bool" where
  "real_link weights v i j \<longleftrightarrow> weights v i j > 0 \<and> weights v i j \<noteq> INFINITE_LATENCY"

definition routing_map ::
  "num_controllers \<Rightarrow> nat \<Rightarrow> matrix \<Rightarrow> matrix \<Rightarrow> SwitchID \<Rightarrow> SwitchID \<Rightarrow> NetDest list option"
where
  "routing_map nc vnets weights dist i j =
     do { empty \<leftarrow> NetDest_new nc;
          map_opt (\<lambda>v. if real_link weights v i j then shortest_path_to_node nc i j weights dist v else Some empty)
            [0..<vnets] }"

definition pair_links :: "Topology \<Rightarrow> matrix \<Rightarrow> matrix \<Rightarrow> SwitchID \<times> SwitchID \<Rightarrow> net_call list option" where
  "pair_links t weights dist ij =
     (let (i, j) = ij
      in do { routingMap \<leftarrow> routing_map (t_ruby_system t) (m_vnets t) weights dist i j;
              if list_ex (\<lambda>v. real_link weights v i j) [0..<m_vnets t] then makeLink t i j routingMap else Some [] })"

definition createLinks :: "Topology \<Rightarrow> net_call list option" where
  "createLinks t =
     do { let num_switches = max_switch_id (m_link_map t) + 1;
          check (0 < m_vnets t);
          (weights, lat) \<leftarrow> topology_weights t;
          ps \<leftarrow> shortest_path (m_vnets t) num_switches weights lat (\<lambda>i j v. 0);
          calls \<leftarrow> map_opt (pair_links t weights (p_dist ps)) (all_pairs num_switches);
          Some (concat calls) }"

subsection \<open>Walks\<close>

text \<open>The code counts a missing link as a link of weight \<^verbatim>\<open>INFINITE_LATENCY\<close>, so every pair of switches is
  connected; a walk is a non-empty list of switches.\<close>

fun walk_weight :: "matrix \<Rightarrow> nat \<Rightarrow> nat list \<Rightarrow> int" where
  "walk_weight w v (x # y # p) = w v x y + walk_weight w v (y # p)"
| "walk_weight w v p = 0"

definition is_walk :: "nat \<Rightarrow> nat \<Rightarrow> nat \<Rightarrow> nat list \<Rightarrow> bool" where
  "is_walk n i j p \<longleftrightarrow> p \<noteq> [] \<and> hd p = i \<and> last p = j \<and> (\<forall>x\<in>set p. x < n)"

lemma walk_weight_append:
  "p \<noteq> [] \<Longrightarrow> q \<noteq> [] \<Longrightarrow> last p = hd q \<Longrightarrow> walk_weight w v (p @ tl q) = walk_weight w v p + walk_weight w v q"
  by (induction w v p rule: walk_weight.induct) (auto simp: neq_Nil_conv)

lemma is_walk_append:
  "is_walk n i k p \<Longrightarrow> is_walk n k j q \<Longrightarrow> is_walk n i j (p @ tl q)"
  by (cases q) (auto simp: is_walk_def)

lemma walk_weight_nonneg:
  "(\<And>x y. x < n \<Longrightarrow> y < n \<Longrightarrow> 0 \<le> w v x y) \<Longrightarrow> \<forall>x\<in>set p. x < n \<Longrightarrow> 0 \<le> walk_weight w v p"
  by (induction w v p rule: walk_weight.induct) auto

subsection \<open>One relaxation\<close>

lemma fold_relax:
  assumes "fold (relax_via D v i j) ks (m0, via0, h0) = (m, via, h)"
  shows "m \<le> m0" "\<forall>k\<in>set ks. m \<le> D v i k + D v k j"
    "m = m0 \<and> via = via0 \<or> (\<exists>k\<in>set ks. via = Some k \<and> m = D v i k + D v k j \<and> m < m0)"
proof -
  have "m \<le> m0 \<and> (\<forall>k\<in>set ks. m \<le> D v i k + D v k j)
    \<and> (m = m0 \<and> via = via0 \<or> (\<exists>k\<in>set ks. via = Some k \<and> m = D v i k + D v k j \<and> m < m0))"
    using assms
  proof (induction ks arbitrary: m0 via0 h0)
    case (Cons k ks)
    obtain m1 via1 h1 where s: "relax_via D v i j k (m0, via0, h0) = (m1, via1, h1)" by (metis prod_cases3)
    then have m1: "m1 = min m0 (D v i k + D v k j)" "m1 = m0 \<and> via1 = via0 \<or> m1 < m0 \<and> via1 = Some k"
      by (auto simp: relax_via_def Let_def split: if_splits)
    from Cons.IH [of m1 via1 h1] Cons.prems s have
      "m \<le> m1" "\<forall>k\<in>set ks. m \<le> D v i k + D v k j"
      "m = m1 \<and> via = via1 \<or> (\<exists>k\<in>set ks. via = Some k \<and> m = D v i k + D v k j \<and> m < m1)" by auto
    then show ?case using m1 by auto
  qed simp
  then show "m \<le> m0" "\<forall>k\<in>set ks. m \<le> D v i k + D v k j"
    "m = m0 \<and> via = via0 \<or> (\<exists>k\<in>set ks. via = Some k \<and> m = D v i k + D v k j \<and> m < m0)" by auto
qed

text \<open>A relaxation of one pair either finds nothing shorter or replaces the distance by that of a shorter detour.\<close>

lemma relax_pair_total:
  obtains (same) c' ps' where "relax_pair n v (i, j) (c, ps) = Some (c', ps')" "c' = c" "p_dist ps' = p_dist ps"
      "\<forall>k<n. p_dist ps v i j \<le> p_dist ps v i k + p_dist ps v k j"
  | (shorter) ps' k where "relax_pair n v (i, j) (c, ps) = Some (True, ps')" "k < n"
      "p_dist ps' = upd3 (p_dist ps) v i j (p_dist ps v i k + p_dist ps v k j)"
      "p_dist ps v i k + p_dist ps v k j < p_dist ps v i j"
proof -
  obtain m via h where f: "fold (relax_via (p_dist ps) v i j) [0..<n] (p_dist ps v i j, None, p_inter ps) = (m, via, h)"
    by (metis prod_cases3)
  note r = fold_relax [OF f]
  show thesis
  proof (cases "p_dist ps v i j = m")
    case True
    then show thesis using f r(2) by (intro same [of c "ps\<lparr>p_inter := h\<rparr>"]) (auto simp: relax_pair_def Let_def)
  next
    case False
    then obtain k where "k < n" "via = Some k" "m = p_dist ps v i k + p_dist ps v k j" "m < p_dist ps v i j"
      using r(3) by auto
    then show thesis using f False
      by (intro shorter [of "ps\<lparr>p_inter := h, p_dist := upd3 (p_dist ps) v i j m,
          p_lat := upd3 (p_lat ps) i j v (p_lat ps i k v + p_lat ps k j v)\<rparr>" k]) (auto simp: relax_pair_def Let_def)
  qed
qed

subsection \<open>The invariant of the relaxation\<close>

definition dist_inv :: "nat \<Rightarrow> matrix \<Rightarrow> nat \<Rightarrow> (nat \<Rightarrow> nat \<Rightarrow> int) \<Rightarrow> bool" where
  "dist_inv n w v d \<longleftrightarrow> (\<forall>i<n. \<forall>j<n. 0 \<le> d i j \<and> d i j \<le> w v i j \<and> (\<exists>p. is_walk n i j p \<and> walk_weight w v p = d i j))"

definition closed :: "nat \<Rightarrow> (nat \<Rightarrow> nat \<Rightarrow> int) \<Rightarrow> bool" where
  "closed n d \<longleftrightarrow> (\<forall>i<n. \<forall>j<n. \<forall>k<n. d i j \<le> d i k + d k j)"

definition total_dist :: "nat \<Rightarrow> (nat \<Rightarrow> nat \<Rightarrow> int) \<Rightarrow> int" where
  "total_dist n d = (\<Sum>i<n. \<Sum>j<n. d i j)"

lemma total_dist_upd:
  assumes "i < n" "j < n"
  shows "total_dist n (d(i := (d i)(j := x))) = total_dist n d - d i j + x"
proof -
  have inner: "(\<Sum>b<n. ((d i)(j := x)) b) = (\<Sum>b<n. d i b) - d i j + x"
    using assms(2) by (simp add: sum.remove [of "{..<n}" j])
  have "total_dist n (d(i := (d i)(j := x))) = (\<Sum>b<n. ((d i)(j := x)) b) + (\<Sum>a\<in>{..<n} - {i}. \<Sum>b<n. d a b)"
    using assms(1) by (simp add: total_dist_def sum.remove [of "{..<n}" i])
  moreover have "total_dist n d = (\<Sum>b<n. d i b) + (\<Sum>a\<in>{..<n} - {i}. \<Sum>b<n. d a b)"
    using assms(1) by (simp add: total_dist_def sum.remove [of "{..<n}" i])
  ultimately show ?thesis using inner by simp
qed

lemma total_dist_nonneg: "dist_inv n w v d \<Longrightarrow> 0 \<le> total_dist n d"
  by (auto simp: total_dist_def dist_inv_def intro!: sum_nonneg)

lemma dist_inv_shorter:
  assumes "dist_inv n w v d" "i < n" "j < n" "k < n" "d i k + d k j < d i j"
  shows "dist_inv n w v (d(i := (d i)(j := d i k + d k j)))"
proof -
  obtain p where p: "is_walk n i k p" "walk_weight w v p = d i k" using assms(1,2,4) unfolding dist_inv_def by blast
  obtain q where q: "is_walk n k j q" "walk_weight w v q = d k j" using assms(1,3,4) unfolding dist_inv_def by blast
  have "walk_weight w v (p @ tl q) = d i k + d k j"
    using walk_weight_append [of p q w v] p q by (auto simp: is_walk_def)
  then have "\<exists>r. is_walk n i j r \<and> walk_weight w v r = d i k + d k j" using is_walk_append [OF p(1) q(1)] by blast
  moreover have "0 \<le> d i k + d k j" "d i k + d k j \<le> w v i j"
    using assms by (auto simp: dist_inv_def intro!: add_nonneg_nonneg) (metis less_le_trans order_less_imp_le)
  ultimately show ?thesis using assms(1) by (auto simp: dist_inv_def)
qed

lemma upd3_row: "upd3 D v i j x v = (D v)(i := (D v i)(j := x))" "v' \<noteq> v \<Longrightarrow> upd3 D v i j x v' = D v'"
  by (simp_all add: upd3_def)

text \<open>A pass reports a change exactly when it lowered the total; without a change the distances are closed under detours.\<close>

lemma relax_pairs:
  assumes "dist_inv n w v (p_dist ps v)" "\<forall>(i, j)\<in>set xs. i < n \<and> j < n"
  shows "\<exists>c' ps'. for_list (relax_pair n v) xs (c, ps) = Some (c', ps') \<and> dist_inv n w v (p_dist ps' v)
    \<and> (\<forall>u. u \<noteq> v \<longrightarrow> p_dist ps' u = p_dist ps u) \<and> total_dist n (p_dist ps' v) \<le> total_dist n (p_dist ps v)
    \<and> (if c' then c \<or> total_dist n (p_dist ps' v) < total_dist n (p_dist ps v)
       else \<not> c \<and> p_dist ps' = p_dist ps \<and> (\<forall>(i, j)\<in>set xs. \<forall>k<n. p_dist ps v i j \<le> p_dist ps v i k + p_dist ps v k j))"
  using assms
proof (induction xs arbitrary: c ps)
  case (Cons x xs)
  obtain i j where x: "x = (i, j)" "i < n" "j < n" using Cons.prems(2) by (cases x) auto
  show ?case
  proof (cases rule: relax_pair_total [of n v i j c ps])
    case (same c1 ps1)
    from Cons.IH [of ps1 c] Cons.prems obtain c' ps' where
      r: "for_list (relax_pair n v) xs (c, ps1) = Some (c', ps')" "dist_inv n w v (p_dist ps' v)"
        "\<forall>u. u \<noteq> v \<longrightarrow> p_dist ps' u = p_dist ps u" "total_dist n (p_dist ps' v) \<le> total_dist n (p_dist ps v)"
        "if c' then c \<or> total_dist n (p_dist ps' v) < total_dist n (p_dist ps v)
         else \<not> c \<and> p_dist ps' = p_dist ps \<and> (\<forall>(i, j)\<in>set xs. \<forall>k<n. p_dist ps v i j \<le> p_dist ps v i k + p_dist ps v k j)"
      unfolding same(3) by auto
    then show ?thesis using same x by (intro exI [of _ c'] exI [of _ ps']) (auto split: if_splits)
  next
    case (shorter ps1 k)
    let ?y = "p_dist ps v i k + p_dist ps v k j"
    have d1: "p_dist ps1 v = (p_dist ps v)(i := (p_dist ps v i)(j := ?y))" by (simp add: shorter(3) upd3_row)
    have inv1: "dist_inv n w v (p_dist ps1 v)"
      unfolding d1 using Cons.prems(1) x(2,3) shorter(2,4) by (rule dist_inv_shorter)
    have t1: "total_dist n (p_dist ps1 v) < total_dist n (p_dist ps v)"
      unfolding d1 using total_dist_upd [OF x(2,3)] shorter(4) by simp
    from Cons.IH [OF inv1, of True] Cons.prems(2) obtain c' ps' where
      r: "for_list (relax_pair n v) xs (True, ps1) = Some (c', ps')" "dist_inv n w v (p_dist ps' v)"
        "\<forall>u. u \<noteq> v \<longrightarrow> p_dist ps' u = p_dist ps1 u" "total_dist n (p_dist ps' v) \<le> total_dist n (p_dist ps1 v)" "c'"
      by (auto split: if_splits)
    have "\<forall>u. u \<noteq> v \<longrightarrow> p_dist ps' u = p_dist ps u" using r(3) by (simp add: shorter(3) upd3_row)
    then show ?thesis using r t1 shorter(1) x(1) by (intro exI [of _ c'] exI [of _ ps']) auto
  qed
qed auto


lemma relax_pass_total:
  assumes "dist_inv n w v (p_dist ps v)"
  shows "\<exists>c ps'. relax_pass n v ps = Some (c, ps') \<and> dist_inv n w v (p_dist ps' v)
    \<and> (\<forall>u. u \<noteq> v \<longrightarrow> p_dist ps' u = p_dist ps u)
    \<and> (if c then total_dist n (p_dist ps' v) < total_dist n (p_dist ps v) else closed n (p_dist ps' v))"
proof -
  have "\<forall>(i, j)\<in>set (all_pairs n). i < n \<and> j < n" by (auto simp: all_pairs_def)
  from relax_pairs [OF assms this, of False] obtain c ps' where
    r: "for_list (relax_pair n v) (all_pairs n) (False, ps) = Some (c, ps')" "dist_inv n w v (p_dist ps' v)"
      "\<forall>u. u \<noteq> v \<longrightarrow> p_dist ps' u = p_dist ps u"
      "if c then False \<or> total_dist n (p_dist ps' v) < total_dist n (p_dist ps v)
       else \<not> False \<and> p_dist ps' = p_dist ps \<and> (\<forall>(i, j)\<in>set (all_pairs n). \<forall>k<n. p_dist ps v i j \<le> p_dist ps v i k + p_dist ps v k j)"
    by blast
  have "closed n (p_dist ps' v)" if "\<not> c" using r(4) that by (auto simp: closed_def all_pairs_def)
  then show ?thesis using r by (intro exI [of _ c] exI [of _ ps']) (auto simp: relax_pass_def)
qed

lemma settle_total:
  assumes "dist_inv n w v (p_dist ps v)"
  shows "\<exists>ps'. settle n v ps = Some ps' \<and> dist_inv n w v (p_dist ps' v) \<and> closed n (p_dist ps' v)
    \<and> (\<forall>u. u \<noteq> v \<longrightarrow> p_dist ps' u = p_dist ps u)"
  using assms
proof (induction "nat (total_dist n (p_dist ps v))" arbitrary: ps rule: less_induct)
  case less
  from relax_pass_total [OF less.prems] obtain c ps1 where
    r: "relax_pass n v ps = Some (c, ps1)" "dist_inv n w v (p_dist ps1 v)" "\<forall>u. u \<noteq> v \<longrightarrow> p_dist ps1 u = p_dist ps u"
      "if c then total_dist n (p_dist ps1 v) < total_dist n (p_dist ps v) else closed n (p_dist ps1 v)" by blast
  show ?case
  proof (cases c)
    case True
    then have "nat (total_dist n (p_dist ps1 v)) < nat (total_dist n (p_dist ps v))"
      using r(4) total_dist_nonneg [OF r(2)] by simp
    from less.hyps [OF this r(2)] obtain ps' where "settle n v ps1 = Some ps'" "dist_inv n w v (p_dist ps' v)"
      "closed n (p_dist ps' v)" "\<forall>u. u \<noteq> v \<longrightarrow> p_dist ps' u = p_dist ps1 u" by blast
    then show ?thesis using r(1,3) True by (subst settle.simps) auto
  next
    case False
    then show ?thesis using r by (subst settle.simps) auto
  qed
qed

lemma extend_total:
  assumes "\<forall>v<vnets. dist_inv n w v (p_dist ps v)"
  shows "\<exists>ps'. extend_shortest_path vnets n ps = Some ps'
    \<and> (\<forall>v<vnets. dist_inv n w v (p_dist ps' v) \<and> closed n (p_dist ps' v)) \<and> (\<forall>v\<ge>vnets. p_dist ps' v = p_dist ps v)"
  using assms
proof (induction vnets)
  case 0
  then show ?case by (auto simp: extend_shortest_path_def for_range_def)
next
  case (Suc m)
  then obtain ps1 where p1: "extend_shortest_path m n ps = Some ps1"
    "\<forall>v<m. dist_inv n w v (p_dist ps1 v) \<and> closed n (p_dist ps1 v)" "\<forall>v\<ge>m. p_dist ps1 v = p_dist ps v" by auto
  then have "dist_inv n w m (p_dist ps1 m)" using Suc.prems by simp
  from settle_total [OF this] obtain ps2 where p2: "settle n m ps1 = Some ps2" "dist_inv n w m (p_dist ps2 m)"
    "closed n (p_dist ps2 m)" "\<forall>u. u \<noteq> m \<longrightarrow> p_dist ps2 u = p_dist ps1 u" by blast
  have "extend_shortest_path (Suc m) n ps = Some ps2"
    using p1(1) p2(1) by (simp add: extend_shortest_path_def for_range_def for_list_append)
  then show ?case using p1 p2 by (auto simp: less_Suc_eq)
qed

definition weights_ok :: "nat \<Rightarrow> nat \<Rightarrow> matrix \<Rightarrow> bool" where
  "weights_ok vnets n w \<longleftrightarrow> (\<forall>v<vnets. \<forall>i<n. \<forall>j<n. 0 \<le> w v i j \<and> (i = j \<longrightarrow> w v i j = 0))"

lemma dist_inv_start:
  assumes "weights_ok vnets n w" "v < vnets"
  shows "dist_inv n w v (w v)"
proof -
  have "\<exists>p. is_walk n i j p \<and> walk_weight w v p = w v i j" if "i < n" "j < n" for i j
    using that by (intro exI [of _ "[i, j]"]) (simp add: is_walk_def)
  then show ?thesis using assms by (auto simp: dist_inv_def weights_ok_def)
qed

lemma closed_walk:
  assumes "closed n d" "\<forall>i<n. \<forall>j<n. d i j \<le> w v i j" "\<forall>i<n. d i i \<le> 0" "p \<noteq> []" "\<forall>x\<in>set p. x < n"
  shows "d (hd p) (last p) \<le> walk_weight w v p"
  using assms(4,5)
proof (induction p rule: induct_list012)
  case (3 x y p)
  then have "d y (last (y # p)) \<le> walk_weight w v (y # p)" "x < n" "y < n" by auto
  moreover have "last (y # p) < n" using 3(3,4) by (metis last_in_set list.distinct(1) list.set_intros(2))
  ultimately have "d x (last (y # p)) \<le> d x y + d y (last (y # p))" "d x y \<le> w v x y"
    using assms(1,2) by (auto simp: closed_def)
  then show ?case using \<open>d y (last (y # p)) \<le> walk_weight w v (y # p)\<close> by simp
qed (use assms(3) in auto)

text \<open>The distances that \<^verbatim>\<open>shortest_path\<close> returns.\<close>

definition least_walks :: "nat \<Rightarrow> matrix \<Rightarrow> nat \<Rightarrow> (nat \<Rightarrow> nat \<Rightarrow> int) \<Rightarrow> bool" where
  "least_walks n w v d \<longleftrightarrow> (\<forall>i<n. \<forall>j<n. (\<exists>p. is_walk n i j p \<and> walk_weight w v p = d i j)
     \<and> (\<forall>p. is_walk n i j p \<longrightarrow> d i j \<le> walk_weight w v p))"

lemma least_walksD: "least_walks n w v d \<Longrightarrow> i < n \<Longrightarrow> j < n \<Longrightarrow> is_walk n i j p \<Longrightarrow> d i j \<le> walk_weight w v p"
  by (auto simp: least_walks_def)

lemma shortest_path_facts:
  assumes "weights_ok vnets n w"
  shows "\<exists>ps. shortest_path vnets n w l h = Some ps \<and> (\<forall>v<vnets. least_walks n w v (p_dist ps v)
    \<and> dist_inv n w v (p_dist ps v) \<and> closed n (p_dist ps v))"
proof -
  from extend_total [of vnets n w "\<lparr>p_dist = w, p_lat = l, p_inter = h\<rparr>"] dist_inv_start [OF assms] obtain ps where
    ps: "shortest_path vnets n w l h = Some ps" "\<forall>v<vnets. dist_inv n w v (p_dist ps v) \<and> closed n (p_dist ps v)"
    by (auto simp: shortest_path_def)
  have "least_walks n w v (p_dist ps v)" if "v < vnets" for v
  proof -
    from ps(2) that have inv: "dist_inv n w v (p_dist ps v)" "closed n (p_dist ps v)" by auto
    have le: "\<forall>i<n. \<forall>j<n. p_dist ps v i j \<le> w v i j" using inv(1) by (auto simp: dist_inv_def)
    have "\<forall>i<n. p_dist ps v i i \<le> 0" using le assms that by (fastforce simp: weights_ok_def)
    then have "p_dist ps v i j \<le> walk_weight w v p" if "is_walk n i j p" for i j p
      using closed_walk [where d = "p_dist ps v" and w = w and v = v, OF inv(2) le] that by (auto simp: is_walk_def)
    then show ?thesis using inv(1) unfolding least_walks_def dist_inv_def by blast
  qed
  then show ?thesis using ps by blast
qed


subsection \<open>Routing tables\<close>

definition machines_upto :: "num_controllers \<Rightarrow> nat \<Rightarrow> (nat \<times> nat) list" where
  "machines_upto nc k = concat (map (\<lambda>m. map (\<lambda>i. (m, i)) [0..<nc ! m]) [0..<k])"

lemma machines_numbered:
  assumes "k \<le> length nc"
  shows "map (node_id nc) (machines_upto nc k) = [0..<machine_base nc k]"
  using assms
proof (induction k)
  case 0
  then show ?case by (simp add: machines_upto_def machine_base_def)
next
  case (Suc k)
  have "map (node_id nc) (map (\<lambda>i. (k, i)) [0..<nc ! k]) = [machine_base nc k..<machine_base nc (Suc k)]"
    using machine_base_Suc [of k nc] Suc.prems
    by (simp add: node_id_def comp_def map_add_upt [symmetric] add.commute)
  then have "map (node_id nc) (machines_upto nc (Suc k)) = [0..<machine_base nc k] @ [machine_base nc k..<machine_base nc (Suc k)]"
    using Suc by (simp add: machines_upto_def)
  also have "\<dots> = [0..<machine_base nc (Suc k)]"
    using upt_add_eq_append [of 0 "machine_base nc k" "nc ! k"] machine_base_Suc [of k nc] Suc.prems by simp
  finally show ?case .
qed

lemma set_machines: "set (machines nc) = {e. valid_machine nc e}"
  by (auto simp: machines_def valid_machine_def)

lemma add_machines:
  assumes "map (node_id nc) xs = [d..<d + length xs]" "\<forall>e\<in>set xs. valid_machine nc e" "dest_wf nc nd"
  shows "\<exists>nd'. for_list (\<lambda>(m, i) (d, nd). do { nd1 \<leftarrow> (if P d then NetDest_add \<lparr>mach_type = m, mach_num = i\<rparr> nd else Some nd);
       Some (d + 1, nd1) }) xs (d, nd) = Some (d + length xs, nd') \<and> dest_wf nc nd'
    \<and> dest_els nd' = dest_els nd \<union> {e \<in> set xs. P (node_id nc e)}"
  using assms
proof (induction xs arbitrary: d nd)
  case (Cons x xs)
  obtain m i where x: "x = (m, i)" "m < length nc" "i < nc ! m" using Cons.prems(2) by (cases x) (auto simp: valid_machine_def)
  have "[d..<d + length (x # xs)] = d # [Suc d..<Suc d + length xs]" by (simp add: upt_conv_Cons del: upt_Suc)
  then have num: "node_id nc x = d" "map (node_id nc) xs = [Suc d..<Suc d + length xs]" using Cons.prems(1) by auto
  have "\<exists>nd1. (if P d then NetDest_add \<lparr>mach_type = m, mach_num = i\<rparr> nd else Some nd) = Some nd1 \<and> dest_wf nc nd1
      \<and> dest_els nd1 = dest_els nd \<union> {e \<in> {x}. P (node_id nc e)}"
    using NetDest_add_ok [OF Cons.prems(3) x(2,3)] Cons.prems(3) num(1) x(1) by auto
  then obtain nd1 where nd1: "(if P d then NetDest_add \<lparr>mach_type = m, mach_num = i\<rparr> nd else Some nd) = Some nd1"
    "dest_wf nc nd1" "dest_els nd1 = dest_els nd \<union> {e \<in> {x}. P (node_id nc e)}" by blast
  from Cons.IH [OF num(2) _ nd1(2)] Cons.prems(2) nd1 x(1) show ?case by (auto simp: bind_eq_Some_conv)
qed simp

lemma shortest_path_to_node_facts:
  assumes "nc \<noteq> []" "\<forall>n\<in>set nc. n \<le> 64"
  shows "\<exists>nd. shortest_path_to_node nc i j w D v = Some nd \<and> dest_wf nc nd
    \<and> dest_els nd = {e. valid_machine nc e \<and> link_is_shortest_path_to_node i j (node_id nc e + machine_base nc (length nc)) w D v}"
proof -
  obtain nd0 where nd0: "NetDest_new nc = Some nd0" "dest_wf nc nd0" "dest_els nd0 = {}" using NetDest_new_ok [OF assms] by blast
  have m: "machines nc = machines_upto nc (length nc)" by (simp add: machines_def machines_upto_def)
  have "map (node_id nc) (machines nc) = [0..<0 + length (machines nc)]"
    using machines_numbered [of "length nc" nc] by (metis m add_0 length_map length_upt minus_nat.diff_0 order_refl)
  from add_machines [OF this _ nd0(2), of "\<lambda>d. link_is_shortest_path_to_node i j (d + machine_base nc (length nc)) w D v"] nd0(1,3)
  show ?thesis
    by (auto simp: shortest_path_to_node_def MachineType_base_number_def machine_base_def set_machines)
qed

text \<open>\<open>hop\<close>: the routing table of switch \<open>i\<close> offers the link to \<open>j\<close> for machine \<open>e\<close>.\<close>

definition hop :: "num_controllers \<Rightarrow> nat \<Rightarrow> matrix \<Rightarrow> matrix \<Rightarrow> nat \<Rightarrow> nat \<times> nat \<Rightarrow> nat \<Rightarrow> nat \<Rightarrow> bool" where
  "hop nc n w D v e i j \<longleftrightarrow> j < n \<and> real_link w v i j
     \<and> (\<exists>nd. shortest_path_to_node nc i j w D v = Some nd \<and> e \<in> dest_els nd)"

lemma hop_decreases:
  assumes "hop nc n w D v e i j" "nc \<noteq> []" "\<forall>n\<in>set nc. n \<le> 64"
  shows "D v j (node_id nc e + machine_base nc (length nc)) < D v i (node_id nc e + machine_base nc (length nc))"
  using shortest_path_to_node_facts [OF assms(2,3), of i j w D v] assms(1)
  by (auto simp: hop_def link_is_shortest_path_to_node_def real_link_def)

lemma first_step:
  assumes "is_walk n i f p" "i \<noteq> f" "w v i i = 0"
  shows "\<exists>j q. j \<noteq> i \<and> is_walk n j f q \<and> walk_weight w v p = w v i j + walk_weight w v q"
  using assms(1)
proof (induction p)
  case (Cons x p)
  then have x: "x = i" "p \<noteq> []" using assms(2) by (auto simp: is_walk_def split: if_splits)
  then obtain y q where p: "p = y # q" by (cases p) auto
  show ?case
  proof (cases "y = i")
    case True
    then have "is_walk n i f p" using Cons.prems x p by (auto simp: is_walk_def)
    from Cons.IH [OF this] show ?thesis using x p True assms(3) by simp
  next
    case False
    moreover have "is_walk n y f p" using Cons.prems x p by (auto simp: is_walk_def)
    ultimately show ?thesis using x p by auto
  qed
qed (simp add: is_walk_def)

lemma hop_exists:
  assumes D: "least_walks n w v (D v)" "dist_inv n w v (D v)" "closed n (D v)"
    and w: "\<forall>a<n. \<forall>b<n. a \<noteq> b \<longrightarrow> 0 < w v a b" "w v i i = 0"
    and nc: "nc \<noteq> []" "\<forall>n\<in>set nc. n \<le> 64" and e: "valid_machine nc e"
    and f: "f = node_id nc e + machine_base nc (length nc)" "f < n" "i < n" "i \<noteq> f" "D v i f < INFINITE_LATENCY"
  shows "\<exists>j. hop nc n w D v e i j"
proof -
  from D(1) f(2,3) obtain p where p: "is_walk n i f p" "walk_weight w v p = D v i f" unfolding least_walks_def by blast
  from first_step [where w = w and v = v, OF p(1) f(4) w(2)] p(2) obtain j q where
    j: "j \<noteq> i" "is_walk n j f q" "D v i f = w v i j + walk_weight w v q" by auto
  have jn: "j < n" using j(2) by (auto simp: is_walk_def dest: hd_in_set)
  have "D v j f \<le> walk_weight w v q" using D(1) j(2) jn f(2) unfolding least_walks_def by blast
  moreover have "D v i f \<le> D v i j + D v j f" using D(3) f(2,3) jn by (simp add: closed_def)
  moreover have "D v i j \<le> w v i j" "0 \<le> D v j f" using D(2) jn f(2,3) by (auto simp: dist_inv_def)
  ultimately have eq: "w v i j + D v j f = D v i f" using j(3) by linarith
  have "real_link w v i j" using w(1) j(1) jn f(3,5) eq \<open>0 \<le> D v j f\<close> by (auto simp: real_link_def)
  then show ?thesis
    using shortest_path_to_node_facts [OF nc, of i j w D v] eq e jn f(1)
    by (intro exI [of _ j]) (auto simp: hop_def link_is_shortest_path_to_node_def)
qed


lemma hop_chain:
  assumes "hop nc n w D v e i j"
    "nc \<noteq> []" "\<forall>n\<in>set nc. n \<le> 64" "D v i (node_id nc e + machine_base nc (length nc)) < INFINITE_LATENCY"
  shows "j < n \<and> D v j (node_id nc e + machine_base nc (length nc)) < INFINITE_LATENCY"
  using hop_decreases [OF assms(1-3)] assms(1,4) by (auto simp: hop_def)

subsection \<open>The weights of the configured links\<close>

text \<open>Links that the algorithm can use: between different switches and of positive weight.\<close>

definition links_positive :: "Topology \<Rightarrow> bool" where
  "links_positive t \<longleftrightarrow> (\<forall>(k, es)\<in>set (m_link_map t). fst k \<noteq> snd k \<and> (\<forall>e\<in>set es. 0 < bl_weight (le_link e)))"

definition weights_pos :: "matrix \<Rightarrow> bool" where
  "weights_pos w \<longleftrightarrow> (\<forall>v i j. if i = j then w v i j = 0 else 0 < w v i j)"

lemma enter_group_pos:
  assumes "enter_group vnets (k, es) (w, l) = Some (w', l')" "weights_pos w" "fst k \<noteq> snd k"
    "\<forall>e\<in>set es. 0 < bl_weight (le_link e)"
  shows "weights_pos w'"
proof -
  let ?P = "\<lambda>(d :: bool list, w, l :: matrix). weights_pos w"
  have vnet: "?P st'" if "enter_vnet vnets (fst k) (snd k) x v st = Some st'" "?P st" "0 < bl_weight x" for x v st st'
    using that assms(3) by (auto simp: enter_vnet_def weights_pos_def upd3_apply bind_eq_Some_conv split: prod.splits)
  have entry: "?P st'" if "for_list (enter_vnet vnets (fst k) (snd k) x) vs st = Some st'" "?P st" "0 < bl_weight x" for x vs st st'
    using for_list_invariant [where P = ?P, OF that(1,2)] vnet that(3) by blast
  from assms(1) obtain d where "for_list (\<lambda>e. for_list (enter_vnet vnets (fst k) (snd k) (le_link e))
      (if bl_mVnets (le_link e) = [] then [0..<vnets] else bl_mVnets (le_link e))) es (replicate vnets False, w, l) = Some (d, w', l')"
    by (cases k) (auto simp: enter_group_def bind_eq_Some_conv)
  from for_list_invariant [where P = ?P, OF this] entry assms(2,4) show ?thesis by fastforce
qed

lemma topology_weights_pos:
  assumes "topology_weights t = Some (w, l)" "links_positive t"
  shows "weights_pos w"
proof -
  let ?P = "\<lambda>(w, l :: matrix). weights_pos w"
  have "?P (identity_weights, \<lambda>i j v. -1)" by (simp add: weights_pos_def identity_weights_def INFINITE_LATENCY_def)
  from for_list_invariant [where P = ?P, OF assms(1) [unfolded topology_weights_def] this] enter_group_pos assms(2)
  show ?thesis by (fastforce simp: links_positive_def)
qed

lemma weights_pos_ok: "weights_pos w \<Longrightarrow> weights_ok vnets n w"
  by (auto simp: weights_pos_def weights_ok_def) (metis less_imp_le order_refl)

subsection \<open>Properties\<close>

text \<open>C33. For non-negative link weights the loop that relaxes the distances until nothing changes terminates on every
  virtual network, and its assertions hold; the distances it leaves are exact: each is the weight of some walk
  between the two switches, and no walk weighs less.\<close>
theorem shortest_path_correct:
  assumes "weights_ok vnets n w"
  shows "\<exists>ps. shortest_path vnets n w latencies inter_switches = Some ps
    \<and> (\<forall>v<vnets. \<forall>i<n. \<forall>j<n. (\<exists>p. is_walk n i j p \<and> walk_weight w v p = p_dist ps v i j)
         \<and> (\<forall>p. is_walk n i j p \<longrightarrow> p_dist ps v i j \<le> walk_weight w v p))"
  using shortest_path_facts [OF assms, of latencies inter_switches] unfolding least_walks_def by blast

theorem shortest_path_correct_witness:
  "\<exists>ps. shortest_path 2 4 identity_weights (\<lambda>i j v. -1) (\<lambda>i j v. 0) = Some ps \<and> p_dist ps 1 2 2 \<le> 0"
proof -
  have "weights_ok 2 4 identity_weights" by (simp add: weights_ok_def identity_weights_def INFINITE_LATENCY_def)
  from shortest_path_correct [OF this, of "\<lambda>i j v. -1" "\<lambda>i j v. 0"] obtain ps where
    ps: "shortest_path 2 4 identity_weights (\<lambda>i j v. -1) (\<lambda>i j v. 0) = Some ps"
      "\<forall>p. is_walk 4 2 2 p \<longrightarrow> p_dist ps 1 2 2 \<le> walk_weight identity_weights 1 p" by fastforce
  from ps(2) [rule_format, of "[2]"] ps(1) show ?thesis by (simp add: is_walk_def)
qed

text \<open>C34. Table routing delivers: take the tables that \<^verbatim>\<open>createLinks\<close> computes from the shortest paths over links of
  positive weight, and a machine that the switch \<open>i\<close> can reach.  Whatever offered links are taken, every switch on the way
  that is not the machine's own output offers one more link, and after at most as many hops as the distance the output
  is reached, so packets neither get stuck nor run in circles.\<close>
theorem routing_table_delivers:
  assumes "topology_weights t = Some (w, latencies)" "links_positive t"
    and "shortest_path (m_vnets t) n w latencies inter_switches = Some ps" "v < m_vnets t"
    and "nc \<noteq> []" "\<forall>k\<in>set nc. k \<le> 64" "valid_machine nc e"
    and "f = node_id nc e + machine_base nc (length nc)" "f < n" "i < n" "p_dist ps v i f < INFINITE_LATENCY"
    and "(hop nc n w (p_dist ps) v e ^^ m) i j"
  shows "(j = f \<or> (\<exists>k. hop nc n w (p_dist ps) v e j k)) \<and> int m \<le> p_dist ps v i f"
proof -
  have pos: "weights_pos w" using assms(1,2) by (rule topology_weights_pos)
  have D: "least_walks n w v (p_dist ps v)" "dist_inv n w v (p_dist ps v)" "closed n (p_dist ps v)"
    using shortest_path_facts [OF weights_pos_ok [OF pos], of "m_vnets t" n latencies inter_switches] assms(3,4) by auto
  have step: "(hop nc n w (p_dist ps) v e ^^ m) i j \<Longrightarrow>
      j < n \<and> p_dist ps v j f < INFINITE_LATENCY \<and> int m + p_dist ps v j f \<le> p_dist ps v i f" for m j
  proof (induction m arbitrary: j)
    case 0
    then show ?case using assms(10,11) by simp
  next
    case (Suc m)
    then obtain k where k: "(hop nc n w (p_dist ps) v e ^^ m) i k" "hop nc n w (p_dist ps) v e k j" by auto
    from Suc.IH [OF k(1)] hop_chain [OF k(2) assms(5,6)] hop_decreases [OF k(2) assms(5,6)] show ?case
      by (auto simp: assms(8))
  qed
  from step [OF assms(12)] have j: "j < n" "p_dist ps v j f < INFINITE_LATENCY" "int m + p_dist ps v j f \<le> p_dist ps v i f" by auto
  have "\<forall>a<n. \<forall>b<n. a \<noteq> b \<longrightarrow> 0 < w v a b" "w v j j = 0" using pos by (simp_all add: weights_pos_def)
  from hop_exists [where D = "p_dist ps" and w = w and v = v, OF D this assms(5-9) j(1)] j(2) have "j = f \<or> (\<exists>k. hop nc n w (p_dist ps) v e j k)" by blast
  moreover have "0 \<le> p_dist ps v j f" using D(2) j(1) assms(9) by (simp add: dist_inv_def)
  ultimately show ?thesis using j(3) by auto
qed

definition ex_topology :: Topology where
  "ex_topology = \<lparr>t_nodes = 2, m_number_of_switches = 1, m_vnets = 1, m_ext_link_vector = [], m_int_link_vector = [],
     m_link_map = map (\<lambda>k. (k, [\<lparr>le_link = \<lparr>bl_ref = ExtL 0, bl_latency = 1, bl_weight = 1, bl_mVnets = []\<rparr>,
         src_outport_dirn = [], dst_inport_dirn = []\<rparr>])) [(0, 4), (1, 4), (4, 2), (4, 3)], t_ruby_system = [2]\<rparr>"

lemma ex_topology_weights:
  "\<exists>w l. topology_weights ex_topology = Some (w, l) \<and> w 0 0 4 = 1 \<and> w 0 4 3 = 1"
  by (simp add: topology_weights_def ex_topology_def enter_group_def enter_vnet_def at_def upd3_apply)

theorem routing_table_delivers_witness:
  "\<exists>w l ps. topology_weights ex_topology = Some (w, l) \<and> shortest_path 1 5 w l (\<lambda>i j v. 0) = Some ps
     \<and> (\<exists>k. hop [2] 5 w (p_dist ps) 0 (0, 1) 0 k)"
proof -
  obtain w l where w: "topology_weights ex_topology = Some (w, l)" "w 0 0 4 = 1" "w 0 4 3 = 1" using ex_topology_weights by blast
  have lp: "links_positive ex_topology" by (simp add: links_positive_def ex_topology_def)
  have v: "m_vnets ex_topology = 1" by (simp add: ex_topology_def)
  from shortest_path_facts [OF weights_pos_ok [OF topology_weights_pos [OF w(1) lp]], of 1 5 l "\<lambda>i j v. 0"] obtain ps where
    ps: "shortest_path 1 5 w l (\<lambda>i j v. 0) = Some ps" "least_walks 5 w 0 (p_dist ps 0)" by auto
  have "is_walk 5 0 3 [0, 4, 3]" by (simp add: is_walk_def)
  then have "p_dist ps 0 0 3 \<le> walk_weight w 0 [0, 4, 3]" by (rule least_walksD [OF ps(2), rotated 2]) simp_all
  then have fin: "p_dist ps 0 0 3 < INFINITE_LATENCY" using w(2,3) by (simp add: INFINITE_LATENCY_def)
  have f: "(3 :: nat) = node_id [2] (0, 1) + machine_base [2] (length [2])" by (simp add: node_id_def machine_base_def)
  have e: "valid_machine [2] (0, 1)" by (simp add: valid_machine_def)
  have start: "(hop [2] 5 w (p_dist ps) 0 (0, 1) ^^ 0) 0 0" by simp
  from routing_table_delivers [OF w(1) lp, unfolded v, OF ps(1) _ _ _ e f _ _ fin start] ps(1) w(1) show ?thesis by auto
qed

end
