(* ===== verification/Ruby_Consumer.thy ===== *)
theory Ruby_Consumer
  imports Clocked_Object
begin

text \<open>
  \<^verbatim>\<open>mem/ruby/common/Consumer.{hh,cc}\<close>: the base class of everything that can be woken up.  A
  consumer keeps its pending wakeup ticks in a small sorted vector and owns one event; the event
  is scheduled for the earliest pending tick, except for ticks entered with \<^verbatim>\<open>recordEvent\<close>, which
  Garnet serves from its own per-cycle ring.

  The sorted vector is an implementation of a set of ticks: the interface is the locale
  \<open>tick_set\<close>, whose client lemmas (inserting a batch of ticks does not depend on the order of
  the batch) are what the parallel router section relies on.
\<close>

subsection \<open>The interface: a canonical set of ticks\<close>

locale tick_set =
  fixes ins :: "'v \<Rightarrow> tick \<Rightarrow> 'v"
    and has :: "'v \<Rightarrow> tick \<Rightarrow> bool"
    and del :: "'v \<Rightarrow> tick \<Rightarrow> 'v"
    and elems :: "'v \<Rightarrow> tick set"
    and invar :: "'v \<Rightarrow> bool"
  assumes elems_ins: "invar v \<Longrightarrow> elems (ins v t) = insert t (elems v)"
    and elems_del: "invar v \<Longrightarrow> elems (del v t) = elems v - {t}"
    and has_iff: "invar v \<Longrightarrow> has v t \<longleftrightarrow> t \<in> elems v"
    and invar_ins: "invar v \<Longrightarrow> invar (ins v t)"
    and invar_del: "invar v \<Longrightarrow> invar (del v t)"
    and canonical: "invar u \<Longrightarrow> invar v \<Longrightarrow> elems u = elems v \<Longrightarrow> u = v"
begin

definition ins_all :: "tick list \<Rightarrow> 'v \<Rightarrow> 'v" where
  "ins_all ts v = fold (\<lambda>t v. ins v t) ts v"

lemma invar_ins_all: "invar v \<Longrightarrow> invar (ins_all ts v)"
  unfolding ins_all_def by (induction ts arbitrary: v) (auto simp: invar_ins)

lemma elems_ins_all: "invar v \<Longrightarrow> elems (ins_all ts v) = elems v \<union> set ts"
  unfolding ins_all_def by (induction ts arbitrary: v) (auto simp: invar_ins elems_ins)

lemma ins_all_order: "invar v \<Longrightarrow> set ts = set us \<Longrightarrow> ins_all ts v = ins_all us v"
  by (rule canonical) (simp_all add: invar_ins_all elems_ins_all)

lemma ins_commute: "invar v \<Longrightarrow> ins (ins v s) t = ins (ins v t) s"
  by (rule canonical) (auto simp: invar_ins elems_ins)

lemma ins_has: "invar v \<Longrightarrow> has v t \<Longrightarrow> ins v t = v"
  by (rule canonical) (auto simp: invar_ins elems_ins has_iff)

lemma del_not_has: "invar v \<Longrightarrow> \<not> has v t \<Longrightarrow> del v t = v"
  by (rule canonical) (auto simp: invar_del elems_del has_iff)

lemma del_ins: "invar v \<Longrightarrow> \<not> has v t \<Longrightarrow> del (ins v t) t = v"
  by (rule canonical) (auto simp: invar_ins invar_del elems_ins elems_del has_iff)

end

subsection \<open>The sorted vector\<close>

text \<open>\<^verbatim>\<open>std::lower_bound\<close>: on a sorted vector, the first position whose element is not below
  \<open>t\<close>, the length when there is none.\<close>

definition lower_bound :: "tick list \<Rightarrow> tick \<Rightarrow> nat" where
  "lower_bound v t = length (takeWhile (\<lambda>x. x < t) v)"

definition insertSorted :: "tick list \<Rightarrow> tick \<Rightarrow> bool \<times> tick list" where
  "insertSorted v t =
     (let it = lower_bound v t
      in if it < length v \<and> v ! it = t then (False, v)
         else (True, take it v @ t # drop it v))"

definition containsSorted :: "tick list \<Rightarrow> tick \<Rightarrow> bool" where
  "containsSorted v t = (let it = lower_bound v t in it < length v \<and> v ! it = t)"

definition eraseSorted :: "tick list \<Rightarrow> tick \<Rightarrow> tick list" where
  "eraseSorted v t =
     (let it = lower_bound v t
      in if it < length v \<and> v ! it = t then take it v @ drop (Suc it) v else v)"

abbreviation strictly_sorted :: "tick list \<Rightarrow> bool" where
  "strictly_sorted v \<equiv> sorted_wrt (<) v"

text \<open>One element decides where \<open>lower_bound\<close> stops, so the three operations recurse.\<close>

lemma lower_bound_simps [simp]:
  "lower_bound [] t = 0"
  "lower_bound (x # v) t = (if x < t then Suc (lower_bound v t) else 0)"
  by (auto simp: lower_bound_def)

lemma containsSorted_simps [simp]:
  "containsSorted [] t = False"
  "containsSorted (x # v) t = (if x < t then containsSorted v t else x = t)"
  by (auto simp: containsSorted_def Let_def)

lemma eraseSorted_simps [simp]:
  "eraseSorted [] t = []"
  "eraseSorted (x # v) t = (if x < t then x # eraseSorted v t else if x = t then v else x # v)"
  by (auto simp: eraseSorted_def Let_def)

lemma insertSorted_simps [simp]:
  "snd (insertSorted [] t) = [t]"
  "snd (insertSorted (x # v) t) =
     (if x < t then x # snd (insertSorted v t) else if x = t then x # v else t # x # v)"
  by (auto simp: insertSorted_def Let_def)

lemma fst_insertSorted: "fst (insertSorted v t) \<longleftrightarrow> \<not> containsSorted v t"
  by (auto simp: insertSorted_def containsSorted_def Let_def)

lemma containsSorted_iff: "strictly_sorted v \<Longrightarrow> containsSorted v t \<longleftrightarrow> t \<in> set v"
  by (induction v) auto

lemma set_insertSorted: "set (snd (insertSorted v t)) = insert t (set v)"
  by (induction v) auto

lemma set_eraseSorted: "strictly_sorted v \<Longrightarrow> set (eraseSorted v t) = set v - {t}"
  by (induction v) auto

lemma sorted_insertSorted: "strictly_sorted v \<Longrightarrow> strictly_sorted (snd (insertSorted v t))"
  by (induction v) (auto simp: set_insertSorted)

lemma sorted_eraseSorted: "strictly_sorted v \<Longrightarrow> strictly_sorted (eraseSorted v t)"
  by (induction v) (auto simp: set_eraseSorted)

lemma strictly_sorted_unique:
  "strictly_sorted u \<Longrightarrow> strictly_sorted v \<Longrightarrow> set u = set v \<Longrightarrow> u = v"
  by (intro sorted_distinct_set_unique) (auto simp: strict_sorted_iff)

interpretation ticks: tick_set "\<lambda>v t. snd (insertSorted v t)" containsSorted eraseSorted set
  "sorted_wrt (<)"
  by unfold_locales
    (auto simp: set_insertSorted set_eraseSorted containsSorted_iff sorted_insertSorted
      sorted_eraseSorted intro: strictly_sorted_unique)

subsection \<open>Consumer\<close>

text \<open>
  The state of a \<^verbatim>\<open>Consumer\<close>: the pending ticks, the tick its event is scheduled for (\<open>None\<close>
  when the event is not in the queue), and the clock period of the \<^verbatim>\<open>ClockedObject\<close> it belongs
  to.  The mutex is not part of the state: \<^verbatim>\<open>MaybeLock\<close> only excludes concurrent calls on the same
  consumer.
\<close>

record Consumer =
  m_wakeup_ticks :: "tick list"
  m_wakeup_event :: "tick option"
  em_period :: tick

definition Consumer_new :: "tick \<Rightarrow> Consumer" where
  "Consumer_new period = \<lparr>m_wakeup_ticks = [], m_wakeup_event = None, em_period = period\<rparr>"

definition alreadyScheduled :: "tick \<Rightarrow> Consumer \<Rightarrow> bool" where
  "alreadyScheduled time c = containsSorted (m_wakeup_ticks c) time"

definition scheduleNextWakeup :: "tick \<Rightarrow> Consumer \<Rightarrow> Consumer" where
  "scheduleNextWakeup curTick c =
     (let now = clock_edge (em_period c) curTick 0;
          v = m_wakeup_ticks c;
          it = lower_bound v now
      in if it < length v then
           (let when = v ! it
            in case m_wakeup_event c of
                 Some w \<Rightarrow> if when < w then c\<lparr>m_wakeup_event := Some when\<rparr> else c
               | None \<Rightarrow> c\<lparr>m_wakeup_event := Some when\<rparr>)
         else c)"

definition recordEvent :: "tick \<Rightarrow> cycles \<Rightarrow> Consumer \<Rightarrow> Consumer" where
  "recordEvent curTick timeDelta c =
     c\<lparr>m_wakeup_ticks :=
        snd (insertSorted (m_wakeup_ticks c) (clock_edge (em_period c) curTick timeDelta))\<rparr>"

definition recordEventAbsolute :: "tick \<Rightarrow> Consumer \<Rightarrow> Consumer" where
  "recordEventAbsolute evt_time c =
     c\<lparr>m_wakeup_ticks :=
        snd (insertSorted (m_wakeup_ticks c) (divCeil evt_time (em_period c) * em_period c))\<rparr>"

definition scheduleEvent :: "tick \<Rightarrow> cycles \<Rightarrow> Consumer \<Rightarrow> Consumer" where
  "scheduleEvent curTick timeDelta c =
     scheduleNextWakeup curTick
       (c\<lparr>m_wakeup_ticks :=
           snd (insertSorted (m_wakeup_ticks c) (clock_edge (em_period c) curTick timeDelta))\<rparr>)"

definition scheduleEventAbsolute :: "tick \<Rightarrow> tick \<Rightarrow> Consumer \<Rightarrow> Consumer" where
  "scheduleEventAbsolute curTick evt_time c =
     scheduleNextWakeup curTick
       (c\<lparr>m_wakeup_ticks :=
           snd (insertSorted (m_wakeup_ticks c) (divCeil evt_time (em_period c) * em_period c))\<rparr>)"

definition descheduleTick :: "tick \<Rightarrow> Consumer \<Rightarrow> Consumer" where
  "descheduleTick tick c = c\<lparr>m_wakeup_ticks := eraseSorted (m_wakeup_ticks c) tick\<rparr>"

definition tryConsumeTick :: "tick \<Rightarrow> Consumer \<Rightarrow> bool \<times> Consumer" where
  "tryConsumeTick tick c =
     (let v = m_wakeup_ticks c
      in if v = [] then (False, c)
         else if hd v = tick then (True, c\<lparr>m_wakeup_ticks := tl v\<rparr>)
         else
           (let it = lower_bound v tick
            in if it < length v \<and> v ! it = tick
               then (True, c\<lparr>m_wakeup_ticks := take it v @ drop (Suc it) v\<rparr>)
               else (False, c)))"

text \<open>
  \<^verbatim>\<open>processCurrentEvent\<close> runs when the consumer's event fires; the event queue has removed the
  event before the call, so it is no longer scheduled.  \<open>wakeup\<close> is the virtual method: it may
  change the consumer's own pending ticks and the rest of the state \<open>s\<close>, and may abort.
\<close>

definition processCurrentEvent ::
  "tick \<Rightarrow> (Consumer \<Rightarrow> 's \<Rightarrow> (Consumer \<times> 's) option) \<Rightarrow> Consumer \<Rightarrow> 's \<Rightarrow> (Consumer \<times> 's) option"
where
  "processCurrentEvent curTick wakeup c0 s =
     (let c = c0\<lparr>m_wakeup_event := None\<rparr>;
          current_tick = clock_edge (em_period c) curTick 0;
          v = m_wakeup_ticks c;
          it = lower_bound v current_tick;
          (was_pending, c1) =
            (if v \<noteq> [] \<and> hd v = current_tick then (True, c\<lparr>m_wakeup_ticks := tl v\<rparr>)
             else if it < length v \<and> v ! it = current_tick
               then (True, c\<lparr>m_wakeup_ticks := take it v @ drop (Suc it) v\<rparr>)
             else (False, c))
      in do {
        (c2, s2) \<leftarrow> (if was_pending then wakeup c1 s else Some (c1, s));
        Some (scheduleNextWakeup curTick c2, s2)
      })"

subsection \<open>What the operations do to the set of pending ticks\<close>

definition pending :: "Consumer \<Rightarrow> tick set" where
  "pending c = set (m_wakeup_ticks c)"

definition Consumer_wf :: "Consumer \<Rightarrow> bool" where
  "Consumer_wf c \<longleftrightarrow> 0 < em_period c \<and> strictly_sorted (m_wakeup_ticks c)
     \<and> (\<forall>t \<in> pending c. em_period c dvd t)"

text \<open>\<open>covered now c\<close>: no pending tick from \<open>now\<close> on passes before the event fires.\<close>

definition covered :: "tick \<Rightarrow> Consumer \<Rightarrow> bool" where
  "covered now c \<longleftrightarrow> (\<forall>t \<in> pending c. now \<le> t \<longrightarrow> (\<exists>w. m_wakeup_event c = Some w \<and> w \<le> t))"

lemma Consumer_new_wf: "0 < p \<Longrightarrow> Consumer_wf (Consumer_new p) \<and> covered now (Consumer_new p)"
  by (simp add: Consumer_wf_def Consumer_new_def pending_def covered_def)

lemma clock_edge_dvd [simp]: "p dvd clock_edge p t k"
  by (simp add: clock_edge_def)

lemma Consumer_wf_insert:
  assumes "Consumer_wf c" and "em_period c dvd t"
  shows "Consumer_wf (c\<lparr>m_wakeup_ticks := snd (insertSorted (m_wakeup_ticks c) t)\<rparr>)"
  using assms by (auto simp: Consumer_wf_def pending_def set_insertSorted sorted_insertSorted)

lemma scheduleNextWakeup_ticks [simp]:
  "m_wakeup_ticks (scheduleNextWakeup now c) = m_wakeup_ticks c"
  "em_period (scheduleNextWakeup now c) = em_period c"
  "pending (scheduleNextWakeup now c) = pending c"
  by (auto simp: scheduleNextWakeup_def Let_def pending_def split: option.split)

lemma scheduleNextWakeup_wf [garnet_inv]: "Consumer_wf c \<Longrightarrow> Consumer_wf (scheduleNextWakeup now c)"
  by (simp add: Consumer_wf_def)

lemma tryConsumeTick_eq: "tryConsumeTick t c = (alreadyScheduled t c, descheduleTick t c)"
proof (cases "m_wakeup_ticks c")
  case Nil
  then show ?thesis
    by (simp add: tryConsumeTick_def alreadyScheduled_def descheduleTick_def)
next
  case (Cons x v)
  then show ?thesis
    by (auto simp: tryConsumeTick_def alreadyScheduled_def descheduleTick_def containsSorted_def
        eraseSorted_def Let_def)
qed

lemma alreadyScheduled_iff: "Consumer_wf c \<Longrightarrow> alreadyScheduled t c \<longleftrightarrow> t \<in> pending c"
  by (simp add: alreadyScheduled_def pending_def Consumer_wf_def containsSorted_iff)

lemma descheduleTick_facts:
  assumes "Consumer_wf c"
  shows "pending (descheduleTick t c) = pending c - {t}"
    and "Consumer_wf (descheduleTick t c)"
    and "m_wakeup_event (descheduleTick t c) = m_wakeup_event c"
    and "em_period (descheduleTick t c) = em_period c"
  using assms
  by (auto simp: descheduleTick_def pending_def Consumer_wf_def set_eraseSorted sorted_eraseSorted)

lemma pending_record:
  "pending (recordEvent now d c) = insert (clock_edge (em_period c) now d) (pending c)"
  "pending (recordEventAbsolute t c) = insert (divCeil t (em_period c) * em_period c) (pending c)"
  "pending (scheduleEvent now d c) = insert (clock_edge (em_period c) now d) (pending c)"
  "pending (scheduleEventAbsolute now t c) =
     insert (divCeil t (em_period c) * em_period c) (pending c)"
  by (simp_all add: recordEvent_def recordEventAbsolute_def scheduleEvent_def
      scheduleEventAbsolute_def, simp_all add: pending_def set_insertSorted)

lemma Consumer_ops_wf [garnet_inv]:
  assumes "Consumer_wf c"
  shows "Consumer_wf (recordEvent now d c)" and "Consumer_wf (recordEventAbsolute t c)"
    and "Consumer_wf (scheduleEvent now d c)" and "Consumer_wf (scheduleEventAbsolute now t c)"
  using assms
  by (simp_all add: recordEvent_def recordEventAbsolute_def scheduleEvent_def
      scheduleEventAbsolute_def Consumer_wf_insert scheduleNextWakeup_wf)

text \<open>\<open>lower_bound\<close> on a sorted vector finds the least element from \<open>now\<close> on.\<close>

lemma lower_bound_least:
  assumes "strictly_sorted v" and "t \<in> set v" and "now \<le> t"
  shows "lower_bound v now < length v \<and> now \<le> v ! lower_bound v now \<and> v ! lower_bound v now \<le> t"
  using assms
proof (induction v)
  case Nil
  then show ?case by simp
next
  case (Cons x v)
  then show ?case by (cases "x < now") auto
qed

lemma scheduleNextWakeup_covered:
  assumes "Consumer_wf c"
  shows "covered (clock_edge (em_period c) now 0) (scheduleNextWakeup now c)"
  unfolding covered_def
proof (intro ballI impI)
  define e where "e = clock_edge (em_period c) now 0"
  define v where "v = m_wakeup_ticks c"
  fix t
  assume t: "t \<in> pending (scheduleNextWakeup now c)" and le: "clock_edge (em_period c) now 0 \<le> t"
  have "lower_bound v e < length v \<and> e \<le> v ! lower_bound v e \<and> v ! lower_bound v e \<le> t"
  proof (rule lower_bound_least)
    show "strictly_sorted v" using assms by (simp add: Consumer_wf_def v_def)
    show "t \<in> set v" using t by (simp add: v_def pending_def)
    show "e \<le> t" using le by (simp add: e_def)
  qed
  then show "\<exists>w. m_wakeup_event (scheduleNextWakeup now c) = Some w \<and> w \<le> t"
    by (auto simp: scheduleNextWakeup_def Let_def e_def v_def split: option.split)
qed

lemma processCurrentEvent_eq:
  "processCurrentEvent now wakeup c s =
     (let c0 = c\<lparr>m_wakeup_event := None\<rparr>; t = clock_edge (em_period c) now 0
      in Option.bind
           (if alreadyScheduled t c then wakeup (descheduleTick t c0) s
            else Some (c0, s))
           (\<lambda>(c2, s2). Some (scheduleNextWakeup now c2, s2)))"
proof -
  have "alreadyScheduled t c0 = alreadyScheduled t c" if "c0 = c\<lparr>m_wakeup_event := None\<rparr>" for c0 t
    using that by (simp add: alreadyScheduled_def)
  then show ?thesis
    by (cases "m_wakeup_ticks c")
      (auto simp: processCurrentEvent_def Let_def alreadyScheduled_def descheduleTick_def
        containsSorted_def eraseSorted_def)
qed

subsection \<open>Batches of schedule requests\<close>

text \<open>The event after \<^verbatim>\<open>scheduleNextWakeup\<close> depends on the set of due ticks only.\<close>

definition earliest :: "tick option \<Rightarrow> tick set \<Rightarrow> tick option" where
  "earliest ev D = (if D = {} then ev else Some (case ev of None \<Rightarrow> Min D | Some w \<Rightarrow> min w (Min D)))"

definition due :: "tick \<Rightarrow> tick set \<Rightarrow> tick set" where
  "due now S = {t \<in> S. now \<le> t}"

lemma lower_bound_due:
  assumes "strictly_sorted v"
  shows "if due now (set v) = {} then length v \<le> lower_bound v now
    else lower_bound v now < length v \<and> v ! lower_bound v now = Min (due now (set v))"
proof (cases "due now (set v) = {}")
  case True
  have "v ! lower_bound v now \<in> set v \<and> now \<le> v ! lower_bound v now" if "lower_bound v now < length v"
    using that nth_length_takeWhile [of "\<lambda>x. x < now" v] by (auto simp: lower_bound_def not_less)
  with True show ?thesis by (fastforce simp: due_def)
next
  case False
  then obtain t where t: "t \<in> set v" "now \<le> t" by (auto simp: due_def)
  have in_due: "v ! lower_bound v now \<in> due now (set v)"
    using lower_bound_least [OF assms t] by (auto simp: due_def)
  moreover have "v ! lower_bound v now \<le> s" if "s \<in> due now (set v)" for s
    using that lower_bound_least [OF assms, of s now] by (auto simp: due_def)
  moreover have "finite (due now (set v))" by (simp add: due_def)
  ultimately have "Min (due now (set v)) = v ! lower_bound v now" by (intro Min_eqI) auto
  then show ?thesis using False lower_bound_least [OF assms t] by simp
qed

lemma scheduleNextWakeup_eq:
  assumes "Consumer_wf c"
  shows "scheduleNextWakeup now c =
    c\<lparr>m_wakeup_event := earliest (m_wakeup_event c) (due (clock_edge (em_period c) now 0) (pending c))\<rparr>"
proof -
  have "strictly_sorted (m_wakeup_ticks c)" using assms by (simp add: Consumer_wf_def)
  from lower_bound_due [OF this, of "clock_edge (em_period c) now 0"] show ?thesis
    by (cases c) (auto simp: scheduleNextWakeup_def Let_def earliest_def pending_def min_def
        split: option.split if_splits)
qed

lemma earliest_earliest:
  assumes "finite D'" "D \<subseteq> D'"
  shows "earliest (earliest ev D) D' = earliest ev D'"
proof (cases "D = {}")
  case False
  then have "Min D' \<le> Min D" using assms by (intro Min_antimono) auto
  then show ?thesis using False assms by (auto simp: earliest_def split: option.split)
qed (simp add: earliest_def)

definition align :: "tick \<Rightarrow> tick \<Rightarrow> tick" where
  "align p t = divCeil t p * p"

lemma scheduleAbsolute_batch:
  assumes "Consumer_wf c" "ts \<noteq> []"
  shows "fold (scheduleEventAbsolute now) ts c =
    c\<lparr>m_wakeup_ticks := ticks.ins_all (map (align (em_period c)) ts) (m_wakeup_ticks c),
      m_wakeup_event := earliest (m_wakeup_event c)
        (due (clock_edge (em_period c) now 0) (pending c \<union> align (em_period c) ` set ts))\<rparr>"
  using assms
proof (induction ts arbitrary: c)
  case Nil
  then show ?case by simp
next
  case (Cons t ts)
  let ?p = "em_period c" and ?now = "clock_edge (em_period c) now 0"
  let ?c = "scheduleEventAbsolute now t c"
  have wf: "Consumer_wf ?c" using Cons.prems(1) by (rule Consumer_ops_wf)
  have c: "?c = c\<lparr>m_wakeup_ticks := snd (insertSorted (m_wakeup_ticks c) (align ?p t)),
      m_wakeup_event := earliest (m_wakeup_event c) (due ?now (insert (align ?p t) (pending c)))\<rparr>"
  proof -
    have "Consumer_wf (c\<lparr>m_wakeup_ticks := snd (insertSorted (m_wakeup_ticks c) (align ?p t))\<rparr>)"
      using Consumer_wf_insert [OF Cons.prems(1), of "align ?p t"] by (simp add: align_def)
    from scheduleNextWakeup_eq [OF this, of now] show ?thesis
      by (simp add: scheduleEventAbsolute_def align_def pending_def set_insertSorted)
  qed
  show ?case
  proof (cases "ts = []")
    case True
    then show ?thesis by (simp add: c ticks.ins_all_def)
  next
    case False
    have sub: "due ?now (insert (align ?p t) (pending c))
        \<subseteq> due ?now (insert (align ?p t) (pending c) \<union> align ?p ` set ts)"
      by (auto simp: due_def)
    have "finite (due ?now (insert (align ?p t) (pending c) \<union> align ?p ` set ts))"
      by (simp add: due_def pending_def)
    note ev = earliest_earliest [OF this sub, of "m_wakeup_event c"]
    have pend: "pending ?c = insert (align ?p t) (pending c)"
      by (simp add: c pending_def set_insertSorted)
    show ?thesis
      using Cons.IH [OF wf False] ev pend
      by (simp add: c ticks.ins_all_def insert_commute Un_commute)
  qed
qed

lemma scheduleAbsolute_order:
  assumes "Consumer_wf c" "set ts = set us"
  shows "fold (scheduleEventAbsolute now) ts c = fold (scheduleEventAbsolute now) us c"
proof (cases "ts = []")
  case True
  then show ?thesis using assms by simp
next
  case False
  then have us: "us \<noteq> []" using assms(2) by auto
  have "ticks.ins_all (map (align (em_period c)) ts) (m_wakeup_ticks c)
      = ticks.ins_all (map (align (em_period c)) us) (m_wakeup_ticks c)"
    using assms by (intro ticks.ins_all_order) (auto simp: Consumer_wf_def)
  then show ?thesis
    using scheduleAbsolute_batch [OF assms(1) False] scheduleAbsolute_batch [OF assms(1) us] assms(2) by simp
qed

subsection \<open>Properties\<close>

text \<open>\<^verbatim>\<open>tryConsumeTick\<close> is an atomic test-and-clear on the pending ticks: it succeeds exactly when
  the tick is pending, removes that tick and no other, leaves the scheduled event alone, and a
  second attempt at the same tick fails, so that a tick is consumed at most once.\<close>
lemma tryConsumeTick_once:
  assumes "Consumer_wf c" "tryConsumeTick t c = (b, c')"
  shows "(b \<longleftrightarrow> t \<in> pending c) \<and> pending c' = pending c - {t} \<and> Consumer_wf c'
    \<and> m_wakeup_event c' = m_wakeup_event c \<and> tryConsumeTick t c' = (False, c')"
proof -
  have c': "c' = descheduleTick t c" "b = alreadyScheduled t c"
    using assms(2) by (auto simp: tryConsumeTick_eq)
  note facts = descheduleTick_facts [OF assms(1), of t, folded c'(1)]
  have "\<not> alreadyScheduled t c'" using facts(1,2) by (simp add: alreadyScheduled_iff)
  moreover from this have "descheduleTick t c' = c'"
    using facts(2) ticks.del_not_has [of "m_wakeup_ticks c'" t]
    by (simp add: descheduleTick_def alreadyScheduled_def Consumer_wf_def)
  ultimately show ?thesis
    using facts c'(2) assms(1) by (simp add: tryConsumeTick_eq alreadyScheduled_iff)
qed

text \<open>C14. No scheduled wakeup is missed: after \<^verbatim>\<open>scheduleEvent\<close> or \<^verbatim>\<open>scheduleEventAbsolute\<close> the event of
  the consumer is scheduled no later than the requested edge, and no later than any other pending
  edge from now on; nothing else is added to the pending ticks.\<close>
theorem scheduleEvent_not_missed:
  assumes "Consumer_wf c"
  shows "covered (clock_edge (em_period c) now 0) (scheduleEvent now d c)
    \<and> pending (scheduleEvent now d c) = insert (clock_edge (em_period c) now d) (pending c)
    \<and> covered (clock_edge (em_period c) now 0) (scheduleEventAbsolute now t c)
    \<and> pending (scheduleEventAbsolute now t c)
        = insert (divCeil t (em_period c) * em_period c) (pending c)"
proof -
  have "covered (clock_edge (em_period c) now 0) (scheduleEvent now d c)"
    using scheduleNextWakeup_covered [OF Consumer_wf_insert [OF assms]] clock_edge_dvd
    by (fastforce simp: scheduleEvent_def)
  moreover have "covered (clock_edge (em_period c) now 0) (scheduleEventAbsolute now t c)"
    using scheduleNextWakeup_covered [OF Consumer_wf_insert [OF assms, of "divCeil t (em_period c) * em_period c"], of now]
    by (simp add: scheduleEventAbsolute_def)
  ultimately show ?thesis by (simp add: pending_record)
qed

theorem scheduleEvent_not_missed_witness:
  "covered 1000 (scheduleEvent 700 3 (Consumer_new 500))"
  using scheduleEvent_not_missed [of "Consumer_new 500" 700 3 0] Consumer_new_wf [of 500 0]
  by (simp add: Consumer_new_def clock_edge_def divCeil_def)

text \<open>C13. The event of a consumer and the per-cycle ring never serve the same tick twice: if the ring
  has consumed the tick with \<^verbatim>\<open>tryConsumeTick\<close>, the event that fires at that tick does not call
  \<^verbatim>\<open>wakeup\<close> and changes nothing but the event itself; if the ring has not, the event calls \<^verbatim>\<open>wakeup\<close>
  exactly when the tick is pending.\<close>
theorem processCurrentEvent_serves_once:
  assumes "Consumer_wf c" and e_def: "e = clock_edge (em_period c) now 0"
  shows "processCurrentEvent now wakeup (snd (tryConsumeTick e c)) s
      = Some (scheduleNextWakeup now ((descheduleTick e c)\<lparr>m_wakeup_event := None\<rparr>), s)
    \<and> (e \<in> pending c \<longrightarrow> processCurrentEvent now wakeup c s
      = map_option (\<lambda>(c2, s2). (scheduleNextWakeup now c2, s2))
          (wakeup ((descheduleTick e c)\<lparr>m_wakeup_event := None\<rparr>) s))
    \<and> (e \<notin> pending c \<longrightarrow> processCurrentEvent now wakeup c s
      = Some (scheduleNextWakeup now (c\<lparr>m_wakeup_event := None\<rparr>), s))"
proof -
  note d = descheduleTick_facts [OF assms(1), of e]
  have "\<not> alreadyScheduled e (descheduleTick e c)"
    using d(1,2) by (simp add: alreadyScheduled_iff)
  then have "processCurrentEvent now wakeup (snd (tryConsumeTick e c)) s
      = Some (scheduleNextWakeup now ((descheduleTick e c)\<lparr>m_wakeup_event := None\<rparr>), s)"
    using d(4) by (simp add: processCurrentEvent_eq Let_def tryConsumeTick_eq e_def)
  moreover have "descheduleTick e (c\<lparr>m_wakeup_event := None\<rparr>) = (descheduleTick e c)\<lparr>m_wakeup_event := None\<rparr>"
    by (simp add: descheduleTick_def)
  ultimately show ?thesis
    using alreadyScheduled_iff [OF assms(1), of e]
    by (auto simp: processCurrentEvent_eq Let_def e_def [symmetric] split: Option.bind_split)
qed

theorem processCurrentEvent_serves_once_witness:
  "processCurrentEvent 1000 (\<lambda>c n. Some (c, Suc n)) (scheduleEvent 500 1 (Consumer_new 500)) 0
     = Some (Consumer_new 500, Suc 0)"
proof -
  let ?c = "scheduleEvent 500 1 (Consumer_new 500)"
  have wf: "Consumer_wf ?c" and p: "pending ?c = {1000}" "em_period ?c = 500"
    using Consumer_new_wf [of 500 0] Consumer_ops_wf(3)
    by (auto simp: pending_record) (auto simp: Consumer_new_def pending_def clock_edge_def divCeil_def scheduleEvent_def)
  show ?thesis
    using processCurrentEvent_serves_once [OF wf, of 1000 1000 "\<lambda>c n. Some (c, Suc n)" 0] p
    by (simp add: clock_edge_def divCeil_def, code_simp)
qed

end
