(* ===== verification/Router_State.thy ===== *)
theory Router_State
  imports Routing_Unit Ruby_Consumer
begin

text \<open>
  The state of a Garnet router (\<^verbatim>\<open>garnet/Router.{hh,cc}\<close> and the members of \<^verbatim>\<open>InputUnit\<close>, \<^verbatim>\<open>OutputUnit\<close>,
  \<^verbatim>\<open>SwitchAllocator\<close> and \<^verbatim>\<open>CrossbarSwitch\<close>) and the effects a router has outside itself.

  Links are objects of their own: an input unit holds the number of the link it reads and of the
  credit link it feeds.  Their buffers are a store of type \<open>link_store\<close>, which only the operations
  that read a link take.  What a router asks of the rest of the
  network during its wakeup is the list \<open>rs_acts\<close>: \<open>Sched\<close> is a call of \<^verbatim>\<open>deferOrSchedule\<close>, \<open>Register\<close> a
  call of \<^verbatim>\<open>registerWakeup\<close>.  \<^verbatim>\<open>InputUnit\<close>, \<^verbatim>\<open>SwitchAllocator\<close> and \<^verbatim>\<open>CrossbarSwitch\<close> are consumers that
  nobody schedules; the router's own consumer is part of its state, and those of its output units are
  in the store of consumers of the network, like those of the links.  The calls of \<^verbatim>\<open>rand()\<close> are answered from \<open>r_rand\<close>, one number
  per route computation of the router.  In the code all routers draw from one generator, so that \<open>r_rand\<close> depends on how
  their calls interleave; the model takes the answers as given.
\<close>

type_synonym link_id = nat

datatype consumer_ref =
    CLink link_id | COutput nat nat | CRouter nat | CNetIf nat | CController nat | CPerfectSwitch nat | CThrottle nat nat

datatype action = Sched consumer_ref tick | Register nat tick

record InputUnit =
  iu_id :: nat
  iu_direction :: PortDirection
  iu_vc_per_vnet :: nat
  m_in_link :: link_id
  iu_credit_link :: link_id
  creditQueue :: flitBuffer
  virtualChannels :: "VirtualChannel list"
  m_num_buffer_writes :: "nat list"
  m_num_buffer_reads :: "nat list"
  m_local_buffer_writes :: "nat list"
  m_local_buffer_reads :: "nat list"

record OutputUnit =
  ou_id :: nat
  ou_direction :: PortDirection
  ou_vc_per_vnet :: nat
  m_out_link :: link_id
  ou_credit_link :: link_id
  outBuffer :: flitBuffer
  outVcState :: "OutVcState list"

record SwitchAllocator =
  m_num_inports :: nat
  m_num_outports :: nat
  sa_num_vcs :: nat
  sa_vc_per_vnet :: nat
  m_input_arbiter_activity :: nat
  m_output_arbiter_activity :: nat
  m_round_robin_invc :: "nat list"
  m_round_robin_inport :: "nat list"
  m_port_requests :: "int list"
  m_vc_winners :: "int list"

record CrossbarSwitch =
  m_crossbar_activity :: nat
  switchBuffers :: "flitBuffer list"

record Router =
  r_id :: nat
  m_latency :: cycles
  r_virtual_networks :: nat
  r_vc_per_vnet :: nat
  r_num_vcs :: nat
  m_bit_width :: nat
  r_consumer :: Consumer
  routingUnit :: RoutingUnit
  switchAllocator :: SwitchAllocator
  crossbarSwitch :: CrossbarSwitch
  m_input_unit :: "InputUnit list"
  m_output_unit :: "OutputUnit list"
  m_buffer_reads :: nat
  m_buffer_writes :: nat
  m_sw_input_arbiter_activity :: nat
  m_sw_output_arbiter_activity :: nat
  r_crossbar_activity :: nat
  r_rand :: "nat \<Rightarrow> nat"
  r_rand_calls :: nat

type_synonym link_store = "link_id \<Rightarrow> flitBuffer"

record rstate =
  rs_router :: Router
  rs_acts :: "action list"

subsection \<open>Construction\<close>

definition InputUnit_new :: "nat \<Rightarrow> PortDirection \<Rightarrow> nat \<Rightarrow> nat \<Rightarrow> link_id \<Rightarrow> link_id \<Rightarrow> InputUnit option" where
  "InputUnit_new i direction num_vcs vc_per_vnet in_link credit_link =
     do { check (vc_per_vnet \<noteq> 0);
          let n = num_vcs div vc_per_vnet;
          Some \<lparr>iu_id = i, iu_direction = direction, iu_vc_per_vnet = vc_per_vnet,
            m_in_link = in_link, iu_credit_link = credit_link, creditQueue = flitBuffer_new,
            virtualChannels = replicate num_vcs VirtualChannel_new,
            m_num_buffer_writes = replicate n 0, m_num_buffer_reads = replicate n 0,
            m_local_buffer_writes = replicate n 0, m_local_buffer_reads = replicate n 0\<rparr> }"

definition OutputUnit_new ::
  "GarnetConfig \<Rightarrow> nat \<Rightarrow> PortDirection \<Rightarrow> nat \<Rightarrow> nat \<Rightarrow> link_id \<Rightarrow> link_id \<Rightarrow> OutputUnit option"
where
  "OutputUnit_new cfg i direction num_vnets consumerVcs out_link credit_link =
     do { vcs \<leftarrow> map_opt (\<lambda>v. OutVcState_new (m_vnet_type cfg) (m_buffers_per_data_vc cfg)
                  (m_buffers_per_ctrl_vc cfg) v consumerVcs) [0..<consumerVcs * num_vnets];
          Some \<lparr>ou_id = i, ou_direction = direction, ou_vc_per_vnet = consumerVcs,
            m_out_link = out_link, ou_credit_link = credit_link, outBuffer = flitBuffer_new,
            outVcState = vcs\<rparr> }"

definition SwitchAllocator_new :: "nat \<Rightarrow> nat \<Rightarrow> SwitchAllocator" where
  "SwitchAllocator_new num_vcs vc_per_vnet =
     \<lparr>m_num_inports = 0, m_num_outports = 0, sa_num_vcs = num_vcs, sa_vc_per_vnet = vc_per_vnet,
      m_input_arbiter_activity = 0, m_output_arbiter_activity = 0, m_round_robin_invc = [],
      m_round_robin_inport = [], m_port_requests = [], m_vc_winners = []\<rparr>"

definition CrossbarSwitch_new :: CrossbarSwitch where
  "CrossbarSwitch_new = \<lparr>m_crossbar_activity = 0, switchBuffers = []\<rparr>"

definition Router_new ::
  "nat \<Rightarrow> tick \<Rightarrow> cycles \<Rightarrow> nat \<Rightarrow> nat \<Rightarrow> nat \<Rightarrow> (nat \<Rightarrow> nat) \<Rightarrow> Router"
where
  "Router_new i period latency virt_nets vcs_per_vnet width rnd =
     \<lparr>r_id = i, m_latency = latency, r_virtual_networks = virt_nets, r_vc_per_vnet = vcs_per_vnet,
      r_num_vcs = virt_nets * vcs_per_vnet, m_bit_width = width, r_consumer = Consumer_new period,
      routingUnit = RoutingUnit_new,
      switchAllocator = SwitchAllocator_new (virt_nets * vcs_per_vnet) vcs_per_vnet,
      crossbarSwitch = CrossbarSwitch_new, m_input_unit = [], m_output_unit = [],
      m_buffer_reads = 0, m_buffer_writes = 0, m_sw_input_arbiter_activity = 0,
      m_sw_output_arbiter_activity = 0, r_crossbar_activity = 0, r_rand = rnd, r_rand_calls = 0\<rparr>"

text \<open>\<^verbatim>\<open>SwitchAllocator::init\<close> and \<^verbatim>\<open>CrossbarSwitch::init\<close>, called by \<^verbatim>\<open>Router::init\<close> after the ports exist;
  \<^verbatim>\<open>resize\<close> of the crossbar keeps the buffers that are there.\<close>

definition SwitchAllocator_init :: "nat \<Rightarrow> nat \<Rightarrow> SwitchAllocator \<Rightarrow> SwitchAllocator" where
  "SwitchAllocator_init num_inports num_outports sa =
     sa\<lparr>m_num_inports := num_inports, m_num_outports := num_outports,
        m_round_robin_inport := replicate num_outports 0,
        m_round_robin_invc := replicate num_inports 0,
        m_port_requests := replicate num_inports (-1),
        m_vc_winners := replicate num_inports (-1)\<rparr>"

definition CrossbarSwitch_init :: "nat \<Rightarrow> CrossbarSwitch \<Rightarrow> CrossbarSwitch" where
  "CrossbarSwitch_init num_inports x =
     x\<lparr>switchBuffers := take num_inports (switchBuffers x)
          @ replicate (num_inports - length (switchBuffers x)) flitBuffer_new\<rparr>"

definition Router_init :: "Router \<Rightarrow> Router" where
  "Router_init r =
     r\<lparr>switchAllocator := SwitchAllocator_init (length (m_input_unit r)) (length (m_output_unit r))
          (switchAllocator r),
       crossbarSwitch := CrossbarSwitch_init (length (m_input_unit r)) (crossbarSwitch r)\<rparr>"

text \<open>The router's part of \<^verbatim>\<open>addInPort\<close> and \<^verbatim>\<open>addOutPort\<close>; the links' part (consumer, source queue, number
  of virtual channels) is in the theory of the links.\<close>

definition Router_addInPort ::
  "PortDirection \<Rightarrow> nat \<Rightarrow> link_id \<Rightarrow> link_id \<Rightarrow> Router \<Rightarrow> Router option"
where
  "Router_addInPort inport_dirn in_link_width in_link credit_link r =
     do { check (in_link_width = m_bit_width r);
          let port_num = length (m_input_unit r);
          input_unit \<leftarrow> InputUnit_new port_num inport_dirn (r_num_vcs r) (r_vc_per_vnet r) in_link
            credit_link;
          Some (r\<lparr>m_input_unit := m_input_unit r @ [input_unit],
                  routingUnit := addInDirection inport_dirn port_num (routingUnit r)\<rparr>) }"

definition Router_addOutPort ::
  "GarnetConfig \<Rightarrow> PortDirection \<Rightarrow> nat \<Rightarrow> link_id \<Rightarrow> NetDest list \<Rightarrow> int \<Rightarrow> link_id \<Rightarrow> nat \<Rightarrow> Router
     \<Rightarrow> Router option"
where
  "Router_addOutPort cfg outport_dirn out_link_width out_link routing_table_entry link_weight
       credit_link consumerVcs r =
     do { check (out_link_width = m_bit_width r);
          let port_num = length (m_output_unit r);
          output_unit \<leftarrow> OutputUnit_new cfg port_num outport_dirn
            (r_virtual_networks r) consumerVcs out_link credit_link;
          Some (r\<lparr>m_output_unit := m_output_unit r @ [output_unit],
                  routingUnit := addOutDirection outport_dirn port_num
                    (addWeight link_weight (addRoute routing_table_entry (routingUnit r)))\<rparr>) }"

subsection \<open>Services of the router to its units\<close>

definition getInputUnit :: "nat \<Rightarrow> Router \<Rightarrow> InputUnit option" where
  "getInputUnit port r = at (m_input_unit r) port"

definition getOutputUnit :: "int \<Rightarrow> Router \<Rightarrow> OutputUnit option" where
  "getOutputUnit port r = (if port < 0 then None else at (m_output_unit r) (nat port))"

definition set_input :: "nat \<Rightarrow> InputUnit \<Rightarrow> Router \<Rightarrow> Router" where
  "set_input i u r = r\<lparr>m_input_unit := (m_input_unit r)[i := u]\<rparr>"

definition set_output :: "nat \<Rightarrow> OutputUnit \<Rightarrow> Router \<Rightarrow> Router" where
  "set_output i u r = r\<lparr>m_output_unit := (m_output_unit r)[i := u]\<rparr>"

definition router_edge :: "tick \<Rightarrow> cycles \<Rightarrow> Router \<Rightarrow> tick" where
  "router_edge curTick cycles r = clock_edge (em_period (r_consumer r)) curTick cycles"

definition schedule_wakeup :: "tick \<Rightarrow> cycles \<Rightarrow> rstate \<Rightarrow> rstate" where
  "schedule_wakeup curTick time s =
     (let r = rs_router s; target_tick = router_edge curTick time r
      in s\<lparr>rs_router := r\<lparr>r_consumer := recordEvent curTick time (r_consumer r)\<rparr>,
           rs_acts := rs_acts s @ [Register (r_id r) target_tick]\<rparr>)"

definition route_compute ::
  "GarnetConfig \<Rightarrow> RouteInfo \<Rightarrow> nat \<Rightarrow> PortDirection \<Rightarrow> Router \<Rightarrow> (nat \<times> Router) option"
where
  "route_compute cfg route inport inport_dirn r =
     do { (p, u) \<leftarrow> outportCompute cfg (r_rand r (r_rand_calls r)) (r_id r) route inport inport_dirn
            (routingUnit r);
          Some (p, r\<lparr>routingUnit := u, r_rand_calls := r_rand_calls r + 1\<rparr>) }"

definition grant_switch :: "nat \<Rightarrow> flit \<Rightarrow> Router \<Rightarrow> Router option" where
  "grant_switch inport t_flit r =
     do { b \<leftarrow> at (switchBuffers (crossbarSwitch r)) inport;
          Some (r\<lparr>crossbarSwitch := (crossbarSwitch r)
             \<lparr>switchBuffers := (switchBuffers (crossbarSwitch r))[inport := fb_insert t_flit b]\<rparr>\<rparr>) }"

end
