(* ===== verification/Priority_Heap.thy ===== *)
theory Priority_Heap
  imports Garnet_Prelude
begin

text \<open>
  The heap operations of the C++ standard library that the message buffers use, on vectors and with a
  comparison given by a key: \<^verbatim>\<open>std::push_heap\<close> and \<^verbatim>\<open>std::pop_heap\<close> with \<^verbatim>\<open>std::greater\<close>, so that the element
  with the least key is at the front.  The vector is the usual implicit binary tree; the element added
  last is sifted up, the element moved to the root is sifted down.

  The interface is the locale \<open>priority_queue\<close>: what a client can rely on, whatever the arrangement.
\<close>

subsection \<open>The interface\<close>

text \<open>What comes out when a queue is emptied from the front, at most \<open>n\<close> elements.\<close>

fun take_all :: "('q \<Rightarrow> 'a option) \<Rightarrow> ('q \<Rightarrow> 'q) \<Rightarrow> nat \<Rightarrow> 'q \<Rightarrow> 'a list" where
  "take_all front pop 0 q = []"
| "take_all front pop (Suc n) q = (case front q of None \<Rightarrow> [] | Some x \<Rightarrow> x # take_all front pop n (pop q))"

locale priority_queue =
  fixes key :: "'a \<Rightarrow> 'k :: linorder"
    and ins :: "'a \<Rightarrow> 'q \<Rightarrow> 'q"
    and front :: "'q \<Rightarrow> 'a option"
    and pop :: "'q \<Rightarrow> 'q"
    and elems :: "'q \<Rightarrow> 'a multiset"
    and invar :: "'q \<Rightarrow> bool"
  assumes invar_ins: "invar q \<Longrightarrow> invar (ins x q)"
    and elems_ins: "invar q \<Longrightarrow> elems (ins x q) = add_mset x (elems q)"
    and front_None: "invar q \<Longrightarrow> front q = None \<longleftrightarrow> elems q = {#}"
    and front_min: "invar q \<Longrightarrow> front q = Some x \<Longrightarrow> x \<in># elems q \<and> (\<forall>y \<in># elems q. key x \<le> key y)"
    and invar_pop: "invar q \<Longrightarrow> front q = Some x \<Longrightarrow> invar (pop q)"
    and elems_pop: "invar q \<Longrightarrow> front q = Some x \<Longrightarrow> elems (pop q) = elems q - {#x#}"
begin

lemma take_all_sorted:
  assumes "invar q" "size (elems q) \<le> n"
  shows "mset (take_all front pop n q) = elems q \<and> sorted (map key (take_all front pop n q))"
  using assms
proof (induction n arbitrary: q)
  case 0
  then show ?case by simp
next
  case (Suc n)
  show ?case
  proof (cases "front q")
    case None
    then show ?thesis using front_None [OF Suc.prems(1)] by simp
  next
    case (Some x)
    note min = front_min [OF Suc.prems(1) Some] and popped = elems_pop [OF Suc.prems(1) Some]
    have "size (elems (pop q)) \<le> n"
      using Suc.prems(2) min popped by (simp add: size_Diff_singleton)
    from Suc.IH [OF invar_pop [OF Suc.prems(1) Some] this]
    have IH: "mset (take_all front pop n (pop q)) = elems q - {#x#}" "sorted (map key (take_all front pop n (pop q)))"
      using popped by auto
    have "set (take_all front pop n (pop q)) \<subseteq> set_mset (elems q)"
      using IH(1) by (metis in_diffD set_mset_mset subsetI)
    then have "\<forall>y\<in>set (take_all front pop n (pop q)). key x \<le> key y" using min by auto
    then show ?thesis using Some min IH by auto
  qed
qed

lemma invar_ins_all: "invar q \<Longrightarrow> invar (fold ins xs q)"
  by (induction xs arbitrary: q) (auto simp: invar_ins)

lemma elems_ins_all: "invar q \<Longrightarrow> elems (fold ins xs q) = elems q + mset xs"
  by (induction xs arbitrary: q) (auto simp: invar_ins elems_ins)

end

subsection \<open>The implicit binary tree\<close>

definition par :: "nat \<Rightarrow> nat" where
  "par i = (i - 1) div 2"

lemma par_less: "0 < i \<Longrightarrow> par i < i"
  by (auto simp: par_def)

lemma par_child: "0 < j \<Longrightarrow> par j = i \<longleftrightarrow> j = 2 * i + 1 \<or> j = 2 * i + 2"
  by (auto simp: par_def)

definition swap :: "nat \<Rightarrow> nat \<Rightarrow> 'a list \<Rightarrow> 'a list" where
  "swap i j h = h[i := h ! j, j := h ! i]"

lemma length_swap [simp]: "length (swap i j h) = length h"
  by (simp add: swap_def)

lemma mset_swap_eq: "i < length h \<Longrightarrow> j < length h \<Longrightarrow> mset (swap i j h) = mset h"
  by (simp add: swap_def Multiset.mset_swap)

lemma nth_swap:
  "i < length h \<Longrightarrow> j < length h \<Longrightarrow> swap i j h ! k = (if k = j then h ! i else if k = i then h ! j else h ! k)"
  by (auto simp: swap_def nth_list_update)

function sift_up :: "('a \<Rightarrow> 'k :: linorder) \<Rightarrow> nat \<Rightarrow> 'a list \<Rightarrow> 'a list" where
  "sift_up key i h =
     (if 0 < i \<and> key (h ! par i) > key (h ! i) then sift_up key (par i) (swap i (par i) h) else h)"
  by pat_completeness auto
termination
  by (relation "measure (\<lambda>(key, i, h). i)") (auto simp: par_less)

definition least_child :: "('a \<Rightarrow> 'k :: linorder) \<Rightarrow> nat \<Rightarrow> 'a list \<Rightarrow> nat" where
  "least_child key i h =
     (if 2 * i + 2 < length h \<and> key (h ! (2 * i + 2)) < key (h ! (2 * i + 1)) then 2 * i + 2 else 2 * i + 1)"

function sift_down :: "('a \<Rightarrow> 'k :: linorder) \<Rightarrow> nat \<Rightarrow> 'a list \<Rightarrow> 'a list" where
  "sift_down key i h =
     (if 2 * i + 1 < length h \<and> key (h ! least_child key i h) < key (h ! i)
      then sift_down key (least_child key i h) (swap i (least_child key i h) h) else h)"
  by pat_completeness auto
termination
  by (relation "measure (\<lambda>(key, i, h). length h - i)") (auto simp: least_child_def)

declare sift_up.simps [simp del] sift_down.simps [simp del]

definition push_heap :: "('a \<Rightarrow> 'k :: linorder) \<Rightarrow> 'a list \<Rightarrow> 'a list" where
  "push_heap key h = sift_up key (length h - 1) h"

definition pop_heap :: "('a \<Rightarrow> 'k :: linorder) \<Rightarrow> 'a list \<Rightarrow> 'a list" where
  "pop_heap key h =
     (if length h \<le> 1 then h else sift_down key 0 ((butlast h)[0 := last h]) @ [hd h])"

definition is_heap :: "('a \<Rightarrow> 'k :: linorder) \<Rightarrow> 'a list \<Rightarrow> bool" where
  "is_heap key h \<longleftrightarrow> (\<forall>i<length h. 0 < i \<longrightarrow> key (h ! par i) \<le> key (h ! i))"

lemma is_heap_min:
  assumes "is_heap key h" "i < length h"
  shows "key (h ! 0) \<le> key (h ! i)"
  using assms(2)
proof (induction i rule: less_induct)
  case (less i)
  show ?case
  proof (cases "i = 0")
    case False
    then have "key (h ! 0) \<le> key (h ! par i)" using less par_less [of i] by simp
    also have "\<dots> \<le> key (h ! i)" using assms(1) less.prems False by (simp add: is_heap_def)
    finally show ?thesis .
  qed simp
qed

subsection \<open>Sifting restores the heap\<close>

text \<open>A heap but for the edge above \<open>i\<close>, and but for the edges below \<open>i\<close>.\<close>

definition up_ok :: "('a \<Rightarrow> 'k :: linorder) \<Rightarrow> nat \<Rightarrow> 'a list \<Rightarrow> bool" where
  "up_ok key i h \<longleftrightarrow> i < length h \<and> (\<forall>j<length h. 0 < j \<and> j \<noteq> i \<longrightarrow> key (h ! par j) \<le> key (h ! j))
     \<and> (\<forall>j<length h. 0 < j \<and> par j = i \<and> 0 < i \<longrightarrow> key (h ! par i) \<le> key (h ! j))"

definition down_ok :: "('a \<Rightarrow> 'k :: linorder) \<Rightarrow> nat \<Rightarrow> 'a list \<Rightarrow> bool" where
  "down_ok key i h \<longleftrightarrow> i < length h \<and> (\<forall>j<length h. 0 < j \<and> par j \<noteq> i \<longrightarrow> key (h ! par j) \<le> key (h ! j))
     \<and> (\<forall>j<length h. 0 < j \<and> par j = i \<and> 0 < i \<longrightarrow> key (h ! par i) \<le> key (h ! j))"

lemma up_ok_step:
  assumes ok: "up_ok key i h" and i: "0 < i" "key (h ! par i) > key (h ! i)"
  shows "up_ok key (par i) (swap i (par i) h)"
proof -
  have p: "par i < i" "i < length h" using ok i by (auto simp: up_ok_def par_less)
  note nth = nth_swap [OF p(2) less_trans [OF p]]
  have up: "key (h ! par j) \<le> key (h ! j)" if "j < length h" "0 < j" "j \<noteq> i" for j
    using ok that by (simp add: up_ok_def)
  have below: "key (h ! par i) \<le> key (h ! j)" if "j < length h" "0 < j" "par j = i" for j
    using ok i(1) that by (simp add: up_ok_def)
  have 1: "key (swap i (par i) h ! par j) \<le> key (swap i (par i) h ! j)"
    if j: "j < length h" "0 < j" "j \<noteq> par i" for j
  proof (cases "j = i")
    case True
    then show ?thesis using i(2) p by (simp add: nth)
  next
    case False
    consider "par j = i" | "par j = par i" | "par j \<noteq> i" "par j \<noteq> par i" by blast
    then show ?thesis
      using up [OF j(1,2) False] below [OF j(1,2)] i(2) p j False by cases (auto simp: nth)
  qed
  have 2: "key (swap i (par i) h ! par (par i)) \<le> key (swap i (par i) h ! j)"
    if j: "j < length h" "0 < j" "par j = par i" "0 < par i" for j
  proof -
    have "par (par i) < par i" using j(4) by (rule par_less)
    moreover have "key (h ! par (par i)) \<le> key (h ! par i)" using up [of "par i"] p j(4) by simp
    moreover have "j = i \<or> key (h ! par i) \<le> key (h ! j)" using up [OF j(1,2)] j(3) by auto
    moreover have "j \<noteq> par i" using j(3,4) par_less [of "par i"] by auto
    ultimately show ?thesis using p by (auto simp: nth)
  qed
  show ?thesis using 1 2 p by (simp add: up_ok_def)
qed

lemma sift_up_heap: "up_ok key i h \<Longrightarrow> is_heap key (sift_up key i h)"
proof (induction key i h rule: sift_up.induct)
  case (1 key i h)
  show ?case
  proof (cases "0 < i \<and> key (h ! par i) > key (h ! i)")
    case True
    then show ?thesis using 1 up_ok_step [of key i h] by (subst sift_up.simps) simp
  next
    case False
    then show ?thesis using 1(2) by (subst sift_up.simps) (auto simp: up_ok_def is_heap_def not_less)
  qed
qed

lemma least_child_props:
  assumes "2 * i + 1 < length h"
  shows "par (least_child key i h) = i" "0 < least_child key i h" "i < least_child key i h"
    "least_child key i h < length h"
    "j < length h \<Longrightarrow> 0 < j \<Longrightarrow> par j = i \<Longrightarrow> key (h ! least_child key i h) \<le> key (h ! j)"
proof -
  show "par (least_child key i h) = i" "0 < least_child key i h" "i < least_child key i h"
    "least_child key i h < length h"
    using assms by (auto simp: least_child_def par_def)
  assume "j < length h" "0 < j" "par j = i"
  then have "j = 2 * i + 1 \<or> j = 2 * i + 2" "j < length h" by (auto simp: par_child)
  then show "key (h ! least_child key i h) \<le> key (h ! j)" by (auto simp: least_child_def)
qed

lemma down_ok_step:
  assumes ok: "down_ok key i h" and i: "2 * i + 1 < length h" "key (h ! least_child key i h) < key (h ! i)"
  shows "down_ok key (least_child key i h) (swap i (least_child key i h) h)"
proof -
  define c where "c = least_child key i h"
  note lc = least_child_props [OF i(1), where key = key, folded c_def]
  have il: "i < length h" using i(1) by simp
  note nth = nth_swap [OF il lc(4)]
  have other: "key (h ! par j) \<le> key (h ! j)" if "j < length h" "0 < j" "par j \<noteq> i" for j
    using ok that by (simp add: down_ok_def)
  have above: "key (h ! par i) \<le> key (h ! j)" if "j < length h" "0 < j" "par j = i" "0 < i" for j
    using ok that by (simp add: down_ok_def)
  have 1: "key (swap i c h ! par j) \<le> key (swap i c h ! j)" if j: "j < length h" "0 < j" "par j \<noteq> c" for j
  proof (cases "par j = i")
    case True
    have "swap i c h ! i = h ! c" using lc(3) by (simp add: nth)
    moreover have "key (h ! c) \<le> key (swap i c h ! j)"
      using lc(5) [OF j(1,2) True] less_imp_le [OF i(2)] True par_less [OF j(2)] unfolding c_def [symmetric]
      by (auto simp: nth)
    ultimately show ?thesis using True by simp
  next
    case False
    show ?thesis
    proof (cases "j = i")
      case True
      then show ?thesis using above [OF lc(4,2,1)] j par_less [of i] lc(3) by (auto simp: nth)
    next
      case False
      then show ?thesis using other [OF j(1,2) \<open>par j \<noteq> i\<close>] j \<open>par j \<noteq> i\<close> lc(1) by (auto simp: nth)
    qed
  qed
  have 2: "key (swap i c h ! par c) \<le> key (swap i c h ! j)" if j: "j < length h" "0 < j" "par j = c" for j
    using other [OF j(1,2)] j lc(1,3) par_less [OF j(2)] by (auto simp: nth)
  show ?thesis using 1 2 lc(4) by (simp add: down_ok_def c_def [symmetric])
qed

lemma sift_down_heap: "down_ok key i h \<Longrightarrow> is_heap key (sift_down key i h)"
proof (induction key i h rule: sift_down.induct)
  case (1 key i h)
  show ?case
  proof (cases "2 * i + 1 < length h \<and> key (h ! least_child key i h) < key (h ! i)")
    case True
    then show ?thesis using 1 down_ok_step [of key i h] by (subst sift_down.simps) simp
  next
    case False
    have "key (h ! par j) \<le> key (h ! j)" if "j < length h" "0 < j" for j
    proof (cases "par j = i")
      case True
      then have "2 * i + 1 < length h" using that by (auto simp: par_child)
      with False have "key (h ! i) \<le> key (h ! least_child key i h)" by simp
      also have "\<dots> \<le> key (h ! j)" using least_child_props(5) [OF \<open>2 * i + 1 < length h\<close> that True] .
      finally show ?thesis using True by simp
    qed (use 1(2) that in \<open>simp add: down_ok_def\<close>)
    then show ?thesis using False by (subst sift_down.simps) (auto simp: is_heap_def)
  qed
qed

lemma mset_sift_up [simp]: "i < length h \<Longrightarrow> mset (sift_up key i h) = mset h"
proof (induction key i h rule: sift_up.induct)
  case (1 key i h)
  then show ?case using par_less [of i] by (subst sift_up.simps) (auto simp: mset_swap_eq)
qed

lemma mset_sift_down [simp]: "i < length h \<Longrightarrow> mset (sift_down key i h) = mset h"
proof (induction key i h rule: sift_down.induct)
  case (1 key i h)
  then show ?case using least_child_props(4) [of i h] by (subst sift_down.simps) (auto simp: mset_swap_eq)
qed

subsection \<open>The vector heap is a priority queue\<close>

definition heap_ins :: "('a \<Rightarrow> 'k :: linorder) \<Rightarrow> 'a \<Rightarrow> 'a list \<Rightarrow> 'a list" where
  "heap_ins key x h = push_heap key (h @ [x])"

definition heap_front :: "'a list \<Rightarrow> 'a option" where
  "heap_front h = (if h = [] then None else Some (h ! 0))"

definition heap_pop :: "('a \<Rightarrow> 'k :: linorder) \<Rightarrow> 'a list \<Rightarrow> 'a list" where
  "heap_pop key h = butlast (pop_heap key h)"

lemma heap_ins_facts:
  assumes "is_heap key h"
  shows "is_heap key (heap_ins key x h)" "mset (heap_ins key x h) = add_mset x (mset h)"
proof -
  have par: "par j < length h" if "j < Suc (length h)" "0 < j" for j using that par_less [of j] by linarith
  have "key ((h @ [x]) ! par j) \<le> key ((h @ [x]) ! j)" if "j < length (h @ [x])" "0 < j" "j \<noteq> length h" for j
    using assms that par [of j] by (simp add: is_heap_def nth_append)
  moreover have "par j \<noteq> length h" if "j < length (h @ [x])" "0 < j" for j
    using par [of j] that by simp
  ultimately have "up_ok key (length h) (h @ [x])" unfolding up_ok_def by auto
  then show "is_heap key (heap_ins key x h)" by (simp add: heap_ins_def push_heap_def sift_up_heap)
  show "mset (heap_ins key x h) = add_mset x (mset h)" by (simp add: heap_ins_def push_heap_def)
qed

lemma heap_pop_facts:
  assumes "is_heap key h" "h \<noteq> []"
  shows "is_heap key (heap_pop key h)" "mset (heap_pop key h) = mset h - {#h ! 0#}"
proof -
  consider (one) x where "h = [x]" | (more) x y ys where "h = x # y # ys" using assms(2) by (cases h; cases "tl h") auto
  then have "is_heap key (heap_pop key h) \<and> mset (heap_pop key h) = mset h - {#h ! 0#}"
  proof cases
    case one
    then show ?thesis by (simp add: heap_pop_def pop_heap_def is_heap_def)
  next
    case more
    let ?h = "(butlast h)[0 := last h]"
    have len: "length ?h = length h - 1" "0 < length ?h" using more by auto
    have nth: "?h ! j = h ! j" if "0 < j" "j < length ?h" for j using that by (simp add: nth_butlast)
    have "key (?h ! par j) \<le> key (?h ! j)" if "j < length ?h" "0 < j" "par j \<noteq> 0" for j
      using assms(1) that nth [of j] nth [of "par j"] par_less [of j] by (simp add: is_heap_def)
    then have "down_ok key 0 ?h" using len by (simp add: down_ok_def)
    moreover have "mset ?h = mset h - {#h ! 0#}"
    proof -
      have "mset h = mset (butlast h) + {#last h#}"
        using append_butlast_last_id [of h] more by (metis list.distinct(1) mset.simps(2) mset_append mset_single_iff mset_zero_iff_right)
      moreover have "mset ?h = mset (butlast h) - {#h ! 0#} + {#last h#}"
        using more by (simp add: mset_update)
      moreover have "h ! 0 \<in># mset (butlast h)" using more by simp
      ultimately show ?thesis by simp
    qed
    ultimately show ?thesis
      using len more by (simp add: heap_pop_def pop_heap_def sift_down_heap)
  qed
  then show "is_heap key (heap_pop key h)" "mset (heap_pop key h) = mset h - {#h ! 0#}" by auto
qed

lemma heap_front_min:
  assumes "is_heap key h" "heap_front h = Some x"
  shows "x \<in># mset h \<and> (\<forall>y \<in># mset h. key x \<le> key y)"
  using assms(2) is_heap_min [OF assms(1)] by (auto simp: heap_front_def in_set_conv_nth split: if_splits)

lemma heap_front_None: "is_heap key h \<Longrightarrow> heap_front h = None \<longleftrightarrow> mset h = {#}"
  by (simp add: heap_front_def)

lemma heap_pop_front:
  assumes "is_heap key h" "heap_front h = Some x"
  shows "is_heap key (heap_pop key h)" "mset (heap_pop key h) = mset h - {#x#}"
proof -
  have "h \<noteq> []" "x = h ! 0" using assms(2) by (auto simp: heap_front_def split: if_splits)
  then show "is_heap key (heap_pop key h)" "mset (heap_pop key h) = mset h - {#x#}"
    using heap_pop_facts [OF assms(1)] by auto
qed

interpretation vector_heap: priority_queue key "heap_ins key" heap_front "heap_pop key" mset "is_heap key"
  for key :: "'a \<Rightarrow> 'k :: linorder"
  by unfold_locales
    (fact heap_ins_facts, fact heap_ins_facts, fact heap_front_None, fact heap_front_min, fact heap_pop_front, fact heap_pop_front)

end
