(* ===== verification/Message_Buffer.thy ===== *)
theory Message_Buffer
  imports Router_State Priority_Heap
begin

text \<open>
  \<^verbatim>\<open>mem/ruby/network/MessageBuffer.{hh,cc}\<close>: the queues between the controllers and the network.  A buffer is
  a heap of messages ordered by arrival time and then by a counter of the enqueue operations, with two
  side tables: stalled messages by address, and messages whose enqueueing was deferred.

  The consumer of a buffer is somebody else; what an operation asks of it is the list of effects it
  returns.  \<^verbatim>\<open>random_time()\<close> draws three numbers from a generator; the draws for the message with counter \<open>n\<close>
  are \<open>rnd n\<close>.  \<^verbatim>\<open>m_stall_msg_map\<close> is a \<^verbatim>\<open>std::map\<close>, here its entries in ascending order of the address, and
  \<^verbatim>\<open>m_deferred_msg_map\<close> an \<^verbatim>\<open>std::unordered_map\<close> that is never iterated.  The functional accesses of the
  message classes are arguments.
\<close>

datatype MessageRandomization = rand_disabled | rand_enabled | rand_ruby_system

datatype mb_effect =
    WakeAt consumer_ref tick | WakeNext consumer_ref | StoreInfo consumer_ref nat | DequeueCallback

record MessageBuffer =
  mb_consumer :: "consumer_ref option"
  m_prio_heap :: "Message list"
  m_dequeue_callback :: bool
  m_stall_msg_map :: "(nat \<times> Message list) list"
  m_deferred_msg_map :: "nat \<rightharpoonup> Message list"
  m_stall_map_size :: int
  m_max_size :: nat
  m_max_dequeue_rate :: nat
  m_dequeues_this_cy :: nat
  m_time_last_time_size_checked :: tick
  m_size_last_time_size_checked :: nat
  m_time_last_time_enqueue :: tick
  m_time_last_time_pop :: tick
  m_last_arrival_time :: tick
  m_size_at_cycle_start :: nat
  m_stalled_at_cycle_start :: nat
  m_msgs_this_cycle :: nat
  mb_msg_counter :: nat
  m_priority_rank :: int
  m_last_message_strict_fifo_bypassed :: bool
  m_strict_fifo :: bool
  m_randomization :: MessageRandomization
  m_allow_zero_latency :: bool
  m_routing_priority :: int
  m_input_link_id :: nat
  m_vnet_id :: nat
  m_not_avail_count :: nat
  m_msg_count :: nat
  m_buf_msgs :: int
  m_stall_time :: nat
  m_stall_count :: nat

definition MessageBuffer_new ::
  "nat \<Rightarrow> nat \<Rightarrow> bool \<Rightarrow> MessageRandomization \<Rightarrow> bool \<Rightarrow> int \<Rightarrow> MessageBuffer"
where
  "MessageBuffer_new buffer_size max_dequeue_rate ordered randomization allow_zero_latency routing_priority =
     \<lparr>mb_consumer = None, m_prio_heap = [], m_dequeue_callback = False, m_stall_msg_map = [],
      m_deferred_msg_map = Map.empty, m_stall_map_size = 0, m_max_size = buffer_size,
      m_max_dequeue_rate = max_dequeue_rate, m_dequeues_this_cy = 0, m_time_last_time_size_checked = 0,
      m_size_last_time_size_checked = 0, m_time_last_time_enqueue = 0, m_time_last_time_pop = 0,
      m_last_arrival_time = 0, m_size_at_cycle_start = 0, m_stalled_at_cycle_start = 0,
      m_msgs_this_cycle = 0, mb_msg_counter = 0, m_priority_rank = 0,
      m_last_message_strict_fifo_bypassed = False, m_strict_fifo = ordered,
      m_randomization = randomization, m_allow_zero_latency = allow_zero_latency,
      m_routing_priority = routing_priority, m_input_link_id = 0, m_vnet_id = 0,
      m_not_avail_count = 0, m_msg_count = 0, m_buf_msgs = 0, m_stall_time = 0, m_stall_count = 0\<rparr>"

definition setConsumer :: "consumer_ref \<Rightarrow> MessageBuffer \<Rightarrow> MessageBuffer option" where
  "setConsumer c b = do { check (mb_consumer b = None); Some (b\<lparr>mb_consumer := Some c\<rparr>) }"

definition getSize :: "tick \<Rightarrow> MessageBuffer \<Rightarrow> nat \<times> MessageBuffer" where
  "getSize curTime b =
     (let b1 = (if m_time_last_time_size_checked b \<noteq> curTime
                then b\<lparr>m_time_last_time_size_checked := curTime,
                       m_size_last_time_size_checked := length (m_prio_heap b)\<rparr>
                else b)
      in (m_size_last_time_size_checked b1, b1))"

text \<open>The sizes that \<^verbatim>\<open>areNSlotsAvailable\<close> compares with the capacity.\<close>

definition visible_size :: "tick \<Rightarrow> MessageBuffer \<Rightarrow> int" where
  "visible_size current_time b =
     (if m_time_last_time_pop b < current_time then int (length (m_prio_heap b)) + m_stall_map_size b
      else
        (if m_time_last_time_enqueue b < current_time then int (m_size_at_cycle_start b)
         else int (m_size_at_cycle_start b + m_msgs_this_cycle b))
        + int (m_stalled_at_cycle_start b))"

definition areNSlotsAvailable :: "nat \<Rightarrow> tick \<Rightarrow> MessageBuffer \<Rightarrow> bool \<times> MessageBuffer" where
  "areNSlotsAvailable n current_time b =
     (if m_max_size b = 0 then (True, b)
      else if visible_size current_time b + int n \<le> int (m_max_size b) then (True, b)
      else (False, b\<lparr>m_not_avail_count := m_not_avail_count b + 1\<rparr>))"

definition peek :: "MessageBuffer \<Rightarrow> Message option" where
  "peek b = heap_front (m_prio_heap b)"

definition random_time :: "nat \<times> nat \<times> nat \<Rightarrow> tick" where
  "random_time r = (case r of (r1, r2, r3) \<Rightarrow> 1 + r1 + (if r2 = 0 then 100 + r3 else 0))"

text \<open>The arrival time of a message: the first tick it can be dequeued.  With randomisation the buffer
  also brings \<^verbatim>\<open>m_last_arrival_time\<close> up to the present.\<close>

definition arrival ::
  "(nat \<Rightarrow> nat \<times> nat \<times> nat) \<Rightarrow> tick \<Rightarrow> tick \<Rightarrow> bool \<Rightarrow> MessageBuffer \<Rightarrow> tick \<times> MessageBuffer"
where
  "arrival rnd current_time delta ruby_is_random b =
     (if m_randomization b = rand_disabled \<or> (m_randomization b = rand_ruby_system \<and> \<not> ruby_is_random)
      then (current_time + delta, b)
      else if m_strict_fifo b then
        (let b1 = (if m_last_arrival_time b < current_time then b\<lparr>m_last_arrival_time := current_time\<rparr> else b)
         in (m_last_arrival_time b1 + random_time (rnd (mb_msg_counter b)), b1))
      else (current_time + random_time (rnd (mb_msg_counter b)), b))"

definition heap_push :: "Message \<Rightarrow> MessageBuffer \<Rightarrow> MessageBuffer" where
  "heap_push m b = b\<lparr>m_prio_heap := heap_ins msg_key m (m_prio_heap b)\<rparr>"

definition count_enqueue :: "tick \<Rightarrow> MessageBuffer \<Rightarrow> MessageBuffer" where
  "count_enqueue current_time b =
     (let b1 = (if m_time_last_time_enqueue b < current_time
                then b\<lparr>m_msgs_this_cycle := 0, m_time_last_time_enqueue := current_time\<rparr> else b)
      in b1\<lparr>mb_msg_counter := mb_msg_counter b1 + 1, m_msgs_this_cycle := m_msgs_this_cycle b1 + 1\<rparr>)"

definition note_arrival :: "bool \<Rightarrow> bool \<Rightarrow> tick \<Rightarrow> MessageBuffer \<Rightarrow> MessageBuffer" where
  "note_arrival ruby_warmup bypassStrictFIFO arrival_time b =
     (if \<not> ruby_warmup then b\<lparr>m_last_arrival_time := arrival_time\<rparr> else b)
       \<lparr>m_last_message_strict_fifo_bypassed := bypassStrictFIFO\<rparr>"

definition enqueue ::
  "(nat \<Rightarrow> nat \<times> nat \<times> nat) \<Rightarrow> Message \<Rightarrow> tick \<Rightarrow> tick \<Rightarrow> bool \<Rightarrow> bool \<Rightarrow> bool \<Rightarrow> MessageBuffer
     \<Rightarrow> (MessageBuffer \<times> mb_effect list) option"
where
  "enqueue rnd message current_time delta ruby_is_random ruby_warmup bypassStrictFIFO b =
     do { let b2 = count_enqueue current_time b;
          check (\<not> (delta = 0 \<and> \<not> m_allow_zero_latency b2));
          let (arrival_time, b3) = arrival rnd current_time delta ruby_is_random b2;
          check (arrival_time \<ge> current_time);
          check (m_strict_fifo b3 \<and> \<not> (bypassStrictFIFO \<or> m_last_message_strict_fifo_bypassed b3)
                 \<longrightarrow> \<not> arrival_time < m_last_arrival_time b3);
          let b5 = note_arrival ruby_warmup bypassStrictFIFO arrival_time b3;
          check (current_time \<ge> m_LastEnqueueTime message);
          m1 \<leftarrow> updateDelayedTicks current_time message;
          let m2 = setMsgCounter (mb_msg_counter b5) (setLastEnqueueTime arrival_time m1);
          let b6 = (heap_push m2 b5)\<lparr>m_buf_msgs := m_buf_msgs b5 + 1\<rparr>;
          check (m_max_size b6 = 0 \<or> int (length (m_prio_heap b6)) + m_stall_map_size b6 \<le> int (m_max_size b6));
          c \<leftarrow> mb_consumer b6;
          Some (b6, [WakeAt c arrival_time, StoreInfo c (m_vnet_id b6)]) }"

definition mb_isReady :: "tick \<Rightarrow> MessageBuffer \<Rightarrow> (bool \<times> mb_effect list) option" where
  "mb_isReady current_time b =
     do { check (m_time_last_time_pop b \<le> current_time);
          let can_dequeue = (m_max_dequeue_rate b = 0 \<or> m_time_last_time_pop b < current_time
                             \<or> m_dequeues_this_cy b < m_max_dequeue_rate b);
          let is_ready = (case heap_front (m_prio_heap b) of None \<Rightarrow> False
                          | Some m \<Rightarrow> m_LastEnqueueTime m \<le> current_time);
          es \<leftarrow> (if \<not> can_dequeue \<and> is_ready then map_option (\<lambda>c. [WakeNext c]) (mb_consumer b) else Some []);
          Some (can_dequeue \<and> is_ready, es) }"

definition mb_readyTime :: "tick \<Rightarrow> MessageBuffer \<Rightarrow> tick" where
  "mb_readyTime MaxTick b = (case heap_front (m_prio_heap b) of None \<Rightarrow> MaxTick | Some m \<Rightarrow> m_LastEnqueueTime m)"

definition count_dequeue :: "tick \<Rightarrow> MessageBuffer \<Rightarrow> MessageBuffer" where
  "count_dequeue current_time b =
     (let b1 = (if m_time_last_time_pop b < current_time
                then b\<lparr>m_size_at_cycle_start := length (m_prio_heap b),
                       m_stalled_at_cycle_start := nat (m_stall_map_size b),
                       m_time_last_time_pop := current_time, m_dequeues_this_cy := 0\<rparr>
                else b)
      in b1\<lparr>m_dequeues_this_cy := m_dequeues_this_cy b1 + 1\<rparr>)"

definition count_removal :: "tick \<Rightarrow> Message \<Rightarrow> MessageBuffer \<Rightarrow> MessageBuffer" where
  "count_removal curTick message b =
     b\<lparr>m_stall_time := m_stall_time b + nat ((int curTick - int (m_LastEnqueueTime message)) mod 2 ^ 64),
       m_msg_count := m_msg_count b + 1, m_buf_msgs := m_buf_msgs b - 1\<rparr>"

text \<open>\<^verbatim>\<open>dequeue\<close>; the result has the message with its delay, the buffer and the effects.\<close>

definition dequeue ::
  "tick \<Rightarrow> tick \<Rightarrow> bool \<Rightarrow> MessageBuffer \<Rightarrow> (Message \<times> MessageBuffer \<times> mb_effect list) option"
where
  "dequeue curTick current_time decrement_messages b =
     do { (ready, _) \<leftarrow> mb_isReady current_time b;
          check ready;
          message \<leftarrow> heap_front (m_prio_heap b);
          m1 \<leftarrow> updateDelayedTicks current_time message;
          let b1 = count_dequeue current_time b;
          let b2 = b1\<lparr>m_prio_heap := heap_pop msg_key (m_prio_heap b1)\<rparr>;
          let b3 = (if decrement_messages then count_removal curTick m1 b2 else b2);
          Some (m1, b3, if m_dequeue_callback b3 then [DequeueCallback] else []) }"

definition registerDequeueCallback :: "MessageBuffer \<Rightarrow> MessageBuffer" where
  "registerDequeueCallback b = b\<lparr>m_dequeue_callback := True\<rparr>"

definition unregisterDequeueCallback :: "MessageBuffer \<Rightarrow> MessageBuffer" where
  "unregisterDequeueCallback b = b\<lparr>m_dequeue_callback := False\<rparr>"

definition mb_clear :: "MessageBuffer \<Rightarrow> MessageBuffer" where
  "mb_clear b = b\<lparr>m_prio_heap := [], mb_msg_counter := 0, m_time_last_time_enqueue := 0,
     m_time_last_time_pop := 0, m_size_at_cycle_start := 0, m_stalled_at_cycle_start := 0,
     m_msgs_this_cycle := 0\<rparr>"

definition delayHead ::
  "(nat \<Rightarrow> nat \<times> nat \<times> nat) \<Rightarrow> tick \<Rightarrow> tick \<Rightarrow> bool \<Rightarrow> bool \<Rightarrow> MessageBuffer
     \<Rightarrow> (MessageBuffer \<times> mb_effect list) option"
where
  "delayHead rnd current_time delta ruby_is_random ruby_warmup b =
     do { m \<leftarrow> heap_front (m_prio_heap b);
          enqueue rnd m current_time delta ruby_is_random ruby_warmup False
            (b\<lparr>m_prio_heap := heap_pop msg_key (m_prio_heap b)\<rparr>) }"

definition recycle :: "tick \<Rightarrow> tick \<Rightarrow> MessageBuffer \<Rightarrow> (MessageBuffer \<times> mb_effect list) option" where
  "recycle current_time recycle_latency b =
     do { (ready, _) \<leftarrow> mb_isReady current_time b;
          check ready;
          node \<leftarrow> heap_front (m_prio_heap b);
          let future_time = current_time + recycle_latency;
          c \<leftarrow> mb_consumer b;
          Some (heap_push (setLastEnqueueTime future_time node) (b\<lparr>m_prio_heap := heap_pop msg_key (m_prio_heap b)\<rparr>),
                [WakeAt c future_time]) }"

subsection \<open>Stalled and deferred messages\<close>

text \<open>\<^verbatim>\<open>m_stall_msg_map[addr].push_back(message)\<close> on the sorted entries.\<close>

fun stall_push :: "nat \<Rightarrow> Message \<Rightarrow> (nat \<times> Message list) list \<Rightarrow> (nat \<times> Message list) list" where
  "stall_push a m [] = [(a, [m])]"
| "stall_push a m ((b, ms) # es) =
     (if a < b then (a, [m]) # (b, ms) # es
      else if a = b then (b, ms @ [m]) # es
      else (b, ms) # stall_push a m es)"

definition stall_erase :: "nat \<Rightarrow> (nat \<times> Message list) list \<Rightarrow> (nat \<times> Message list) list" where
  "stall_erase a es = filter (\<lambda>e. fst e \<noteq> a) es"

definition requeue ::
  "tick \<Rightarrow> Message \<Rightarrow> MessageBuffer \<times> mb_effect list \<Rightarrow> (MessageBuffer \<times> mb_effect list) option"
where
  "requeue schdTick m s =
     do { check (m_LastEnqueueTime m \<le> schdTick);
          c \<leftarrow> mb_consumer (fst s);
          Some (heap_push m (fst s), snd s @ [WakeAt c schdTick]) }"

definition reanalyzeList ::
  "Message list \<Rightarrow> tick \<Rightarrow> MessageBuffer \<Rightarrow> (MessageBuffer \<times> mb_effect list) option"
where
  "reanalyzeList lt schdTick b = for_list (requeue schdTick) lt (b, [])"

definition reanalyzeMessages :: "nat \<Rightarrow> tick \<Rightarrow> MessageBuffer \<Rightarrow> (MessageBuffer \<times> mb_effect list) option" where
  "reanalyzeMessages addr current_time b =
     do { ms \<leftarrow> map_of (m_stall_msg_map b) addr;
          let b1 = b\<lparr>m_stall_map_size := m_stall_map_size b - int (length ms)\<rparr>;
          check (m_stall_map_size b1 \<ge> 0);
          (b2, es) \<leftarrow> reanalyzeList ms current_time b1;
          Some (b2\<lparr>m_stall_msg_map := stall_erase addr (m_stall_msg_map b2)\<rparr>, es) }"

definition reanalyze_entry ::
  "tick \<Rightarrow> nat \<times> Message list \<Rightarrow> MessageBuffer \<times> mb_effect list \<Rightarrow> (MessageBuffer \<times> mb_effect list) option"
where
  "reanalyze_entry current_time e s =
     do { let b = (fst s)\<lparr>m_stall_map_size := m_stall_map_size (fst s) - int (length (snd e))\<rparr>;
          check (m_stall_map_size b \<ge> 0);
          (b', es) \<leftarrow> reanalyzeList (snd e) current_time b;
          Some (b', snd s @ es) }"

definition reanalyzeAllMessages :: "tick \<Rightarrow> MessageBuffer \<Rightarrow> (MessageBuffer \<times> mb_effect list) option" where
  "reanalyzeAllMessages current_time b =
     do { (b1, es) \<leftarrow> for_list (reanalyze_entry current_time) (m_stall_msg_map b) (b, []);
          Some (b1\<lparr>m_stall_msg_map := []\<rparr>, es) }"

definition stallMessage :: "tick \<Rightarrow> nat \<Rightarrow> tick \<Rightarrow> MessageBuffer \<Rightarrow> (MessageBuffer \<times> mb_effect list) option" where
  "stallMessage curTick addr current_time b =
     do { (message, b1, es) \<leftarrow> dequeue curTick current_time False b;
          Some (b1\<lparr>m_stall_msg_map := stall_push addr message (m_stall_msg_map b1),
                   m_stall_map_size := m_stall_map_size b1 + 1,
                   m_stall_count := m_stall_count b1 + 1\<rparr>, es) }"

definition hasStalledMsg :: "nat \<Rightarrow> MessageBuffer \<Rightarrow> bool" where
  "hasStalledMsg addr b = (map_of (m_stall_msg_map b) addr \<noteq> None)"

definition deferEnqueueingMessage :: "nat \<Rightarrow> Message \<Rightarrow> MessageBuffer \<Rightarrow> MessageBuffer" where
  "deferEnqueueingMessage addr message b =
     b\<lparr>m_deferred_msg_map := (m_deferred_msg_map b)
        (addr \<mapsto> (case m_deferred_msg_map b addr of None \<Rightarrow> [] | Some ms \<Rightarrow> ms) @ [message])\<rparr>"

definition isDeferredMsgMapEmpty :: "nat \<Rightarrow> MessageBuffer \<Rightarrow> bool" where
  "isDeferredMsgMapEmpty addr b = (m_deferred_msg_map b addr = None)"

definition enqueueDeferredMessages ::
  "(nat \<Rightarrow> nat \<times> nat \<times> nat) \<Rightarrow> nat \<Rightarrow> tick \<Rightarrow> tick \<Rightarrow> bool \<Rightarrow> bool \<Rightarrow> MessageBuffer
     \<Rightarrow> (MessageBuffer \<times> mb_effect list) option"
where
  "enqueueDeferredMessages rnd addr curTime delay ruby_is_random ruby_warmup b =
     do { check (\<not> isDeferredMsgMapEmpty addr b);
          msg_vec \<leftarrow> m_deferred_msg_map b addr;
          check (length msg_vec > 0);
          (b1, es) \<leftarrow> for_list (\<lambda>m (b, es).
             do { (b', es') \<leftarrow> enqueue rnd m curTime delay ruby_is_random ruby_warmup False b; Some (b', es @ es') })
             msg_vec (b, []);
          Some (b1\<lparr>m_deferred_msg_map := (m_deferred_msg_map b1)(addr := None)\<rparr>, es) }"

subsection \<open>Functional accesses\<close>

text \<open>One pass over a list of messages.  \<open>acc\<close> is the access of one message class; with \<open>stop\<close> the first
  success ends the pass.\<close>

fun access_list ::
  "bool \<Rightarrow> (Message \<Rightarrow> 's \<Rightarrow> bool \<times> Message \<times> 's) \<Rightarrow> Message list \<Rightarrow> 's \<Rightarrow> nat \<times> Message list \<times> 's"
where
  "access_list stop acc [] s = (0, [], s)"
| "access_list stop acc (m # ms) s =
     (let (hit, m', s') = acc m s
      in if hit \<and> stop then (1, m' # ms, s')
         else (let (n, ms', s'') = access_list stop acc ms s' in ((if hit then n + 1 else n), m' # ms', s'')))"

fun access_stalled ::
  "bool \<Rightarrow> (Message \<Rightarrow> 's \<Rightarrow> bool \<times> Message \<times> 's) \<Rightarrow> (nat \<times> Message list) list \<Rightarrow> 's
     \<Rightarrow> nat \<times> (nat \<times> Message list) list \<times> 's"
where
  "access_stalled stop acc [] s = (0, [], s)"
| "access_stalled stop acc ((a, ms) # es) s =
     (let (n, ms', s') = access_list stop acc ms s
      in if stop \<and> n > 0 then (n, (a, ms') # es, s')
         else (let (k, es', s'') = access_stalled stop acc es s' in (n + k, (a, ms') # es', s'')))"

definition functionalAccess ::
  "bool \<Rightarrow> (Message \<Rightarrow> 's \<Rightarrow> bool \<times> Message \<times> 's) \<Rightarrow> MessageBuffer \<Rightarrow> 's \<Rightarrow> nat \<times> MessageBuffer \<times> 's"
where
  "functionalAccess stop acc b s =
     (let (n, h, s1) = access_list stop acc (m_prio_heap b) s
      in if stop \<and> n > 0 then (n, b\<lparr>m_prio_heap := h\<rparr>, s1)
         else (let (k, es, s2) = access_stalled stop acc (m_stall_msg_map b) s1
               in (n + k, b\<lparr>m_prio_heap := h, m_stall_msg_map := es\<rparr>, s2)))"

text \<open>\<^verbatim>\<open>functionalWrite(pkt)\<close>, \<^verbatim>\<open>functionalRead(pkt)\<close> and \<^verbatim>\<open>functionalRead(pkt, mask)\<close>.\<close>

definition mb_functionalWrite ::
  "(Message \<Rightarrow> 's \<Rightarrow> bool \<times> Message \<times> 's) \<Rightarrow> MessageBuffer \<Rightarrow> 's \<Rightarrow> nat \<times> MessageBuffer \<times> 's"
where
  "mb_functionalWrite wr b s = functionalAccess False wr b s"

definition mb_functionalRead ::
  "(Message \<Rightarrow> 's \<Rightarrow> bool \<times> 's) \<Rightarrow> MessageBuffer \<Rightarrow> 's \<Rightarrow> bool \<times> 's"
where
  "mb_functionalRead rd b s =
     (let (n, _, s') = functionalAccess True (\<lambda>m s. (fst (rd m s), m, snd (rd m s))) b s in (n = 1, s'))"

definition mb_functionalRead_mask ::
  "(Message \<Rightarrow> 's \<Rightarrow> bool \<times> 's) \<Rightarrow> MessageBuffer \<Rightarrow> 's \<Rightarrow> bool \<times> 's"
where
  "mb_functionalRead_mask rd b s =
     (let (n, _, s') = functionalAccess False (\<lambda>m s. (fst (rd m s), m, snd (rd m s))) b s in (n = 1, s'))"

subsection \<open>What the operations change\<close>

lemma count_enqueue_frame [simp]:
  "m_prio_heap (count_enqueue now b) = m_prio_heap b" "m_stall_msg_map (count_enqueue now b) = m_stall_msg_map b"
  "m_stall_map_size (count_enqueue now b) = m_stall_map_size b" "m_max_size (count_enqueue now b) = m_max_size b"
  "mb_consumer (count_enqueue now b) = mb_consumer b" "m_time_last_time_pop (count_enqueue now b) = m_time_last_time_pop b"
  "m_size_at_cycle_start (count_enqueue now b) = m_size_at_cycle_start b"
  "m_stalled_at_cycle_start (count_enqueue now b) = m_stalled_at_cycle_start b"
  "m_strict_fifo (count_enqueue now b) = m_strict_fifo b" "m_randomization (count_enqueue now b) = m_randomization b"
  "m_vnet_id (count_enqueue now b) = m_vnet_id b" "m_buf_msgs (count_enqueue now b) = m_buf_msgs b"
  "m_last_message_strict_fifo_bypassed (count_enqueue now b) = m_last_message_strict_fifo_bypassed b"
  "m_deferred_msg_map (count_enqueue now b) = m_deferred_msg_map b"
  "m_allow_zero_latency (count_enqueue now b) = m_allow_zero_latency b"
  "m_last_arrival_time (count_enqueue now b) = m_last_arrival_time b"
  "mb_msg_counter (count_enqueue now b) = mb_msg_counter b + 1"
  "m_time_last_time_enqueue (count_enqueue now b) = max (m_time_last_time_enqueue b) now"
  "m_msgs_this_cycle (count_enqueue now b) = (if m_time_last_time_enqueue b < now then 1 else m_msgs_this_cycle b + 1)"
  by (simp_all add: count_enqueue_def Let_def max_def)

lemma note_arrival_frame [simp]:
  "m_prio_heap (note_arrival w y t b) = m_prio_heap b" "m_stall_msg_map (note_arrival w y t b) = m_stall_msg_map b"
  "m_stall_map_size (note_arrival w y t b) = m_stall_map_size b" "m_max_size (note_arrival w y t b) = m_max_size b"
  "mb_consumer (note_arrival w y t b) = mb_consumer b" "m_time_last_time_pop (note_arrival w y t b) = m_time_last_time_pop b"
  "m_size_at_cycle_start (note_arrival w y t b) = m_size_at_cycle_start b"
  "m_stalled_at_cycle_start (note_arrival w y t b) = m_stalled_at_cycle_start b"
  "m_strict_fifo (note_arrival w y t b) = m_strict_fifo b" "m_vnet_id (note_arrival w y t b) = m_vnet_id b"
  "m_buf_msgs (note_arrival w y t b) = m_buf_msgs b" "m_deferred_msg_map (note_arrival w y t b) = m_deferred_msg_map b"
  "mb_msg_counter (note_arrival w y t b) = mb_msg_counter b"
  "m_time_last_time_enqueue (note_arrival w y t b) = m_time_last_time_enqueue b"
  "m_msgs_this_cycle (note_arrival w y t b) = m_msgs_this_cycle b"
  "m_last_message_strict_fifo_bypassed (note_arrival w y t b) = y"
  "m_last_arrival_time (note_arrival w y t b) = (if w then m_last_arrival_time b else t)"
  by (simp_all add: note_arrival_def)



lemma arrival_frame:
  assumes "arrival rnd now d rr b = (t, b')"
  shows "m_prio_heap b' = m_prio_heap b" "m_stall_msg_map b' = m_stall_msg_map b" "m_stall_map_size b' = m_stall_map_size b"
    "mb_msg_counter b' = mb_msg_counter b" "m_max_size b' = m_max_size b" "mb_consumer b' = mb_consumer b"
    "m_time_last_time_enqueue b' = m_time_last_time_enqueue b" "m_time_last_time_pop b' = m_time_last_time_pop b"
    "m_size_at_cycle_start b' = m_size_at_cycle_start b" "m_stalled_at_cycle_start b' = m_stalled_at_cycle_start b"
    "m_msgs_this_cycle b' = m_msgs_this_cycle b" "m_strict_fifo b' = m_strict_fifo b"
    "m_randomization b' = m_randomization b" "m_vnet_id b' = m_vnet_id b" "m_buf_msgs b' = m_buf_msgs b"
    "m_last_message_strict_fifo_bypassed b' = m_last_message_strict_fifo_bypassed b"
    "m_deferred_msg_map b' = m_deferred_msg_map b"
    "m_allow_zero_latency b' = m_allow_zero_latency b" "m_last_arrival_time b \<le> m_last_arrival_time b'"
  using assms by (auto simp: arrival_def Let_def split: if_splits)

lemma enqueue_Some:
  assumes "enqueue rnd m now d rr warm byp b = Some (b', es)"
  obtains arr m' c where "now \<le> arr" "mb_consumer b = Some c" "es = [WakeAt c arr, StoreInfo c (m_vnet_id b)]"
    "m_LastEnqueueTime m' = arr" "m_msg_counter m' = mb_msg_counter b + 1" "msg_payload m' = msg_payload m"
    "m_prio_heap b' = heap_ins msg_key m' (m_prio_heap b)" "mb_msg_counter b' = mb_msg_counter b + 1"
    "m_stall_msg_map b' = m_stall_msg_map b" "m_stall_map_size b' = m_stall_map_size b" "m_max_size b' = m_max_size b"
    "mb_consumer b' = mb_consumer b" "m_time_last_time_enqueue b' = max (m_time_last_time_enqueue b) now"
    "m_time_last_time_pop b' = m_time_last_time_pop b" "m_size_at_cycle_start b' = m_size_at_cycle_start b"
    "m_stalled_at_cycle_start b' = m_stalled_at_cycle_start b"
    "m_msgs_this_cycle b' = (if m_time_last_time_enqueue b < now then 1 else m_msgs_this_cycle b + 1)"
    "m_strict_fifo b' = m_strict_fifo b" "m_last_message_strict_fifo_bypassed b' = byp" "m_buf_msgs b' = m_buf_msgs b + 1"
    "\<not> warm \<Longrightarrow> m_last_arrival_time b' = arr"
    "m_strict_fifo b \<Longrightarrow> \<not> byp \<Longrightarrow> \<not> m_last_message_strict_fifo_bypassed b \<Longrightarrow> m_last_arrival_time b \<le> arr"
    "m_max_size b = 0 \<or> int (length (m_prio_heap b')) + m_stall_map_size b \<le> int (m_max_size b)"
proof -
  obtain arr b3 where a: "arrival rnd now d rr (count_enqueue now b) = (arr, b3)" by fastforce
  note fr = arrival_frame [OF a, simplified]
  from assms a obtain m1 c where
    e: "now \<le> arr" "m_strict_fifo b3 \<and> \<not> (byp \<or> m_last_message_strict_fifo_bypassed b3) \<longrightarrow> \<not> arr < m_last_arrival_time b3"
      "updateDelayedTicks now m = Some m1" "mb_consumer b3 = Some c" "es = [WakeAt c arr, StoreInfo c (m_vnet_id b3)]"
    and b': "b' = (heap_push (setMsgCounter (mb_msg_counter b3) (setLastEnqueueTime arr m1)) (note_arrival warm byp arr b3))
        \<lparr>m_buf_msgs := m_buf_msgs b3 + 1\<rparr>"
    and cap: "m_max_size b3 = 0 \<or> int (length (heap_ins msg_key (setMsgCounter (mb_msg_counter b3) (setLastEnqueueTime arr m1)) (m_prio_heap b3)))
        + m_stall_map_size b3 \<le> int (m_max_size b3)"
    by (simp add: enqueue_def Let_def bind_eq_Some_conv heap_push_def) blast
  have "msg_payload m1 = msg_payload m" using e(3) by (auto simp: updateDelayedTicks_def bind_eq_Some_conv)
  then show thesis
    using e cap fr(19)
    by (intro that [of arr c "setMsgCounter (mb_msg_counter b3) (setLastEnqueueTime arr m1)"])
      (simp_all add: b' heap_push_def setMsgCounter_def setLastEnqueueTime_def fr(1-18) del: One_nat_def)
qed

lemma mset_heap_ins [simp]: "mset (heap_ins key x h) = add_mset x (mset h)"
  by (simp add: heap_ins_def push_heap_def)

lemma length_heap_ins [simp]: "length (heap_ins key x h) = Suc (length h)"
  by (metis mset_heap_ins size_add_mset size_mset)

lemma length_heap_pop: "is_heap key h \<Longrightarrow> heap_front h = Some x \<Longrightarrow> Suc (length (heap_pop key h)) = length h"
proof -
  assume h: "is_heap key h" "heap_front h = Some x"
  have x: "x \<in># mset h" using heap_front_min [OF h] by (rule conjunct1)
  then have "h \<noteq> []" by auto
  moreover have "size (mset (heap_pop key h)) = size (mset h) - 1"
    using x by (simp only: heap_pop_front(2) [OF h] size_Diff_singleton)
  ultimately show ?thesis by (cases h) auto
qed

lemma mb_isReady_True:
  "mb_isReady now b = Some (True, es) \<Longrightarrow>
     m_time_last_time_pop b \<le> now \<and> (\<exists>m. heap_front (m_prio_heap b) = Some m \<and> m_LastEnqueueTime m \<le> now)"
  by (auto simp: mb_isReady_def Let_def bind_eq_Some_conv split: option.splits if_splits)

lemma count_dequeue_frame [simp]:
  "m_prio_heap (count_dequeue now b) = m_prio_heap b" "m_stall_msg_map (count_dequeue now b) = m_stall_msg_map b"
  "m_stall_map_size (count_dequeue now b) = m_stall_map_size b" "m_max_size (count_dequeue now b) = m_max_size b"
  "mb_consumer (count_dequeue now b) = mb_consumer b" "m_deferred_msg_map (count_dequeue now b) = m_deferred_msg_map b"
  "m_time_last_time_enqueue (count_dequeue now b) = m_time_last_time_enqueue b"
  "m_msgs_this_cycle (count_dequeue now b) = m_msgs_this_cycle b"
  "m_time_last_time_pop (count_dequeue now b) = max (m_time_last_time_pop b) now"
  "m_size_at_cycle_start (count_dequeue now b) = (if m_time_last_time_pop b < now then length (m_prio_heap b) else m_size_at_cycle_start b)"
  "m_stalled_at_cycle_start (count_dequeue now b) = (if m_time_last_time_pop b < now then nat (m_stall_map_size b) else m_stalled_at_cycle_start b)"
  by (simp_all add: count_dequeue_def Let_def max_def)

lemma count_removal_frame [simp]:
  "m_prio_heap (count_removal ct m b) = m_prio_heap b" "m_stall_msg_map (count_removal ct m b) = m_stall_msg_map b"
  "m_stall_map_size (count_removal ct m b) = m_stall_map_size b" "m_max_size (count_removal ct m b) = m_max_size b"
  "mb_consumer (count_removal ct m b) = mb_consumer b" "m_deferred_msg_map (count_removal ct m b) = m_deferred_msg_map b"
  "m_time_last_time_enqueue (count_removal ct m b) = m_time_last_time_enqueue b"
  "m_msgs_this_cycle (count_removal ct m b) = m_msgs_this_cycle b"
  "m_time_last_time_pop (count_removal ct m b) = m_time_last_time_pop b"
  "m_size_at_cycle_start (count_removal ct m b) = m_size_at_cycle_start b"
  "m_stalled_at_cycle_start (count_removal ct m b) = m_stalled_at_cycle_start b"
  by (simp_all add: count_removal_def)

lemma dequeue_Some:
  assumes "dequeue ct now dec b = Some (m1, b', es)"
  obtains m where "heap_front (m_prio_heap b) = Some m" "m_LastEnqueueTime m \<le> now" "m_time_last_time_pop b \<le> now"
    "m1 = m\<lparr>m_DelayedTicks := m_DelayedTicks m + (now - m_LastEnqueueTime m)\<rparr>"
    "m_prio_heap b' = heap_pop msg_key (m_prio_heap b)" "m_stall_msg_map b' = m_stall_msg_map b"
    "m_stall_map_size b' = m_stall_map_size b" "m_max_size b' = m_max_size b" "mb_consumer b' = mb_consumer b"
    "m_time_last_time_enqueue b' = m_time_last_time_enqueue b" "m_msgs_this_cycle b' = m_msgs_this_cycle b"
    "m_time_last_time_pop b' = now"
    "m_size_at_cycle_start b' = (if m_time_last_time_pop b < now then length (m_prio_heap b) else m_size_at_cycle_start b)"
    "m_stalled_at_cycle_start b' = (if m_time_last_time_pop b < now then nat (m_stall_map_size b) else m_stalled_at_cycle_start b)"
proof -
  from assms obtain es' m where r: "mb_isReady now b = Some (True, es')" "heap_front (m_prio_heap b) = Some m"
      "updateDelayedTicks now m = Some m1"
    and b': "b' = (if dec then count_removal ct m1 ((count_dequeue now b)\<lparr>m_prio_heap := heap_pop msg_key (m_prio_heap b)\<rparr>)
        else (count_dequeue now b)\<lparr>m_prio_heap := heap_pop msg_key (m_prio_heap b)\<rparr>)"
    by (auto simp: dequeue_def Let_def bind_eq_Some_conv)
  have "m_time_last_time_pop b \<le> now" using mb_isReady_True [OF r(1)] by simp
  moreover have "m_LastEnqueueTime m \<le> now"
      "m1 = m\<lparr>m_DelayedTicks := m_DelayedTicks m + (now - m_LastEnqueueTime m)\<rparr>"
    using r(3) by (auto simp: updateDelayedTicks_def bind_eq_Some_conv)
  ultimately show thesis using r(2) by (intro that [of m]) (simp_all add: b' max_def)
qed

definition stalled :: "MessageBuffer \<Rightarrow> Message list" where
  "stalled b = concat (map snd (m_stall_msg_map b))"

definition mb_wf :: "MessageBuffer \<Rightarrow> bool" where
  "mb_wf b \<longleftrightarrow> is_heap msg_key (m_prio_heap b) \<and> sorted_wrt (<) (map fst (m_stall_msg_map b))
     \<and> m_stall_map_size b = int (length (stalled b))"

lemma map_of_below: "\<forall>e\<in>set es. a < fst e \<Longrightarrow> map_of es (a :: nat) = None"
  by (auto simp: map_of_eq_None_iff)

lemma stall_push_facts:
  assumes "sorted_wrt (<) (map fst es)"
  shows "sorted_wrt (<) (map fst (stall_push a m es))" "fst ` set (stall_push a m es) = insert a (fst ` set es)"
    "mset (concat (map snd (stall_push a m es))) = add_mset m (mset (concat (map snd es)))"
    "map_of (stall_push a m es) a = Some ((case map_of es a of None \<Rightarrow> [] | Some ms \<Rightarrow> ms) @ [m])"
proof -
  have "sorted_wrt (<) (map fst (stall_push a m es)) \<and> fst ` set (stall_push a m es) = insert a (fst ` set es)"
    using assms by (induction es rule: stall_push.induct) auto
  then show "sorted_wrt (<) (map fst (stall_push a m es))" "fst ` set (stall_push a m es) = insert a (fst ` set es)" by auto
  show "mset (concat (map snd (stall_push a m es))) = add_mset m (mset (concat (map snd es)))"
    by (induction es rule: stall_push.induct) auto
  show "map_of (stall_push a m es) a = Some ((case map_of es a of None \<Rightarrow> [] | Some ms \<Rightarrow> ms) @ [m])"
    using assms
  proof (induction a m es rule: stall_push.induct)
    case (2 a m b ms es)
    show ?case
    proof (cases "a < b")
      case True
      then have "\<forall>e\<in>set es. a < fst e" using 2(2) by auto
      then show ?thesis using True by (simp add: map_of_below)
    next
      case False
      then show ?thesis using 2 by auto
    qed
  qed simp
qed

lemma stall_erase_facts:
  assumes "sorted_wrt (<) (map fst es)" "map_of es a = Some ms"
  shows "sorted_wrt (<) (map fst (stall_erase a es))"
    "mset (concat (map snd es)) = mset ms + mset (concat (map snd (stall_erase a es)))"
proof -
  show "sorted_wrt (<) (map fst (stall_erase a es))"
    using assms(1) by (induction es) (auto simp: stall_erase_def)
  show "mset (concat (map snd es)) = mset ms + mset (concat (map snd (stall_erase a es)))"
    using assms
  proof (induction es)
    case (Cons e es)
    show ?case
    proof (cases "fst e = a")
      case True
      then have "\<forall>x\<in>set es. fst x \<noteq> a" using Cons.prems(1) by auto
      then have "stall_erase a es = es" by (simp add: stall_erase_def filter_id_conv)
      then show ?thesis using True Cons.prems(2) by (cases e) (auto simp: stall_erase_def)
    next
      case False
      then show ?thesis using Cons by (cases e) (auto simp: stall_erase_def)
    qed
  qed simp
qed

text \<open>Pushing a list of messages back, as \<^verbatim>\<open>reanalyzeList\<close> does, changes the heap only.\<close>

lemma requeue_all:
  "for_list (requeue t) ms (b, es0) = Some (b', es) \<Longrightarrow>
     b' = b\<lparr>m_prio_heap := fold (heap_ins msg_key) ms (m_prio_heap b)\<rparr> \<and> (\<forall>m\<in>set ms. m_LastEnqueueTime m \<le> t)"
proof (induction ms arbitrary: b es0)
  case (Cons m ms)
  then obtain c where "m_LastEnqueueTime m \<le> t" "for_list (requeue t) ms (heap_push m b, es0 @ [WakeAt c t]) = Some (b', es)"
    by (auto simp: requeue_def [of t m] bind_eq_Some_conv)
  with Cons.IH [OF this(2)] show ?case by (simp add: heap_push_def)
qed simp

lemmas reanalyzeList_Some = requeue_all [of t ms b "[]" b' es for t ms b b' es, folded reanalyzeList_def]

lemma requeue_all_defined:
  "mb_consumer b = Some c \<Longrightarrow> \<forall>m\<in>set ms. m_LastEnqueueTime m \<le> t \<Longrightarrow>
     \<exists>es. for_list (requeue t) ms (b, es0) = Some (b\<lparr>m_prio_heap := fold (heap_ins msg_key) ms (m_prio_heap b)\<rparr>, es)"
proof (induction ms arbitrary: b es0)
  case (Cons m ms)
  then show ?case using Cons.IH [of "heap_push m b" "es0 @ [WakeAt c t]"] by (simp add: requeue_def heap_push_def)
qed simp

lemmas reanalyzeList_defined = requeue_all_defined [of b c ms t "[]" for b c ms t, folded reanalyzeList_def]

lemma reanalyze_entries:
  "for_list (reanalyze_entry t) l (b, es0) = Some (b1, es1) \<Longrightarrow>
     b1 = b\<lparr>m_prio_heap := fold (heap_ins msg_key) (concat (map snd l)) (m_prio_heap b),
       m_stall_map_size := m_stall_map_size b - int (length (concat (map snd l)))\<rparr>"
proof (induction l arbitrary: b es0)
  case (Cons x l)
  let ?b = "b\<lparr>m_stall_map_size := m_stall_map_size b - int (length (snd x))\<rparr>"
  from Cons.prems obtain b2 es2 where b2: "reanalyzeList (snd x) t ?b = Some (b2, es2)"
    and rest: "for_list (reanalyze_entry t) l (b2, es0 @ es2) = Some (b1, es1)"
    by (auto simp: bind_eq_Some_conv Let_def reanalyze_entry_def [of t x])
  from Cons.IH [OF rest] reanalyzeList_Some [OF b2] show ?case by simp
qed simp

lemma reanalyzeAll_Some:
  assumes "reanalyzeAllMessages t b = Some (b', es)"
  shows "b' = b\<lparr>m_prio_heap := fold (heap_ins msg_key) (stalled b) (m_prio_heap b), m_stall_msg_map := [],
      m_stall_map_size := m_stall_map_size b - int (length (stalled b))\<rparr>"
proof -
  from assms obtain b1 where b': "b' = b1\<lparr>m_stall_msg_map := []\<rparr>"
      "for_list (reanalyze_entry t) (m_stall_msg_map b) (b, []) = Some (b1, es)"
    by (auto simp: reanalyzeAllMessages_def bind_eq_Some_conv)
  from reanalyze_entries [OF b'(2)] b'(1) show ?thesis by (simp add: stalled_def)
qed

lemma reanalyzeMessages_Some:
  assumes "reanalyzeMessages a t b = Some (b', es)"
  obtains ms where "map_of (m_stall_msg_map b) a = Some ms" "\<forall>m\<in>set ms. m_LastEnqueueTime m \<le> t"
    "b' = b\<lparr>m_prio_heap := fold (heap_ins msg_key) ms (m_prio_heap b), m_stall_msg_map := stall_erase a (m_stall_msg_map b),
      m_stall_map_size := m_stall_map_size b - int (length ms)\<rparr>"
proof -
  from assms obtain ms b2 where ms: "map_of (m_stall_msg_map b) a = Some ms"
      "reanalyzeList ms t (b\<lparr>m_stall_map_size := m_stall_map_size b - int (length ms)\<rparr>) = Some (b2, es)"
      "b' = b2\<lparr>m_stall_msg_map := stall_erase a (m_stall_msg_map b2)\<rparr>"
    by (auto simp: reanalyzeMessages_def bind_eq_Some_conv Let_def)
  from reanalyzeList_Some [OF ms(2)] ms show thesis by (intro that [of ms]) auto
qed

lemma fold_heap_ins:
  assumes "is_heap key h"
  shows "is_heap key (fold (heap_ins key) ms h)" "mset (fold (heap_ins key) ms h) = mset h + mset ms"
    "length (fold (heap_ins key) ms h) = length h + length ms"
proof -
  show "is_heap key (fold (heap_ins key) ms h)" by (rule vector_heap.invar_ins_all [OF assms])
  show m: "mset (fold (heap_ins key) ms h) = mset h + mset ms" by (rule vector_heap.elems_ins_all [OF assms])
  show "length (fold (heap_ins key) ms h) = length h + length ms" using arg_cong [OF m, of size] by simp
qed

subsection \<open>Every reachable buffer is well formed and within its capacity\<close>

text \<open>The operations on a buffer in the order in which its users call them; time does not go back.\<close>

inductive mb_reach :: "tick \<Rightarrow> MessageBuffer \<Rightarrow> bool" where
  init: "mb_reach now (MessageBuffer_new cap rate ordered rn z prio)"
| consumer: "mb_reach now b \<Longrightarrow> setConsumer c b = Some b' \<Longrightarrow> mb_reach now b'"
| time: "mb_reach now b \<Longrightarrow> now \<le> now' \<Longrightarrow> mb_reach now' b"
| slots: "mb_reach now b \<Longrightarrow> areNSlotsAvailable n now b = (r, b') \<Longrightarrow> mb_reach now b'"
| enq: "mb_reach now b \<Longrightarrow> enqueue rnd m now d rr w y b = Some (b', es) \<Longrightarrow> mb_reach now b'"
| deq: "mb_reach now b \<Longrightarrow> dequeue ct now dec b = Some (m, b', es) \<Longrightarrow> mb_reach now b'"
| delay: "mb_reach now b \<Longrightarrow> delayHead rnd now d rr w b = Some (b', es) \<Longrightarrow> mb_reach now b'"
| recyc: "mb_reach now b \<Longrightarrow> recycle now d b = Some (b', es) \<Longrightarrow> mb_reach now b'"
| stall: "mb_reach now b \<Longrightarrow> stallMessage ct a now b = Some (b', es) \<Longrightarrow> mb_reach now b'"
| wake: "mb_reach now b \<Longrightarrow> reanalyzeMessages a now b = Some (b', es) \<Longrightarrow> mb_reach now b'"
| wake_all: "mb_reach now b \<Longrightarrow> reanalyzeAllMessages now b = Some (b', es) \<Longrightarrow> mb_reach now b'"
| defer_msg: "mb_reach now b \<Longrightarrow> mb_reach now (deferEnqueueingMessage a m b)"

text \<open>\<open>occupied\<close> is what the capacity limits.  Within a cycle in which messages were taken out, the size that
  \<^verbatim>\<open>areNSlotsAvailable\<close> works with is an upper bound of it.\<close>

definition occupied :: "MessageBuffer \<Rightarrow> int" where
  "occupied b = int (length (m_prio_heap b)) + m_stall_map_size b"

definition slots_ok :: "tick \<Rightarrow> MessageBuffer \<Rightarrow> bool" where
  "slots_ok now b \<longleftrightarrow> m_time_last_time_enqueue b \<le> now \<and> m_time_last_time_pop b \<le> now
     \<and> (0 < m_max_size b \<longrightarrow> occupied b \<le> int (m_max_size b))
     \<and> (m_time_last_time_pop b = now \<longrightarrow> occupied b \<le> int (m_size_at_cycle_start b) + int (m_stalled_at_cycle_start b)
          + (if m_time_last_time_enqueue b = now then int (m_msgs_this_cycle b) else 0))"

lemma visible_size_bound: "slots_ok now b \<Longrightarrow> occupied b \<le> visible_size now b"
  by (auto simp: slots_ok_def visible_size_def occupied_def)

lemma enqueue_inv:
  assumes "enqueue rnd m now d rr w y b = Some (b', es)" "mb_wf b" "slots_ok now b"
  shows "mb_wf b' \<and> slots_ok now b'"
  using assms(1)
proof (cases rule: enqueue_Some)
  case (1 arr m' c)
  then have "mb_wf b'" using assms(2) by (simp add: mb_wf_def stalled_def heap_ins_facts(1))
  moreover have "slots_ok now b'"
    using 1 assms(3) by (auto simp: slots_ok_def occupied_def)
  ultimately show ?thesis by simp
qed

lemma dequeue_inv:
  assumes "dequeue ct now dec b = Some (m, b', es)" "mb_wf b" "slots_ok now b"
  shows "mb_wf b' \<and> slots_ok now b' \<and> m_time_last_time_pop b' = now
    \<and> occupied b' + 1 \<le> int (m_size_at_cycle_start b') + int (m_stalled_at_cycle_start b')
          + (if m_time_last_time_enqueue b' = now then int (m_msgs_this_cycle b') else 0)
    \<and> (0 < m_max_size b' \<longrightarrow> occupied b' + 1 \<le> int (m_max_size b'))"
  using assms(1)
proof (cases rule: dequeue_Some)
  case (1 m0)
  have h: "is_heap msg_key (m_prio_heap b)" using assms(2) by (simp add: mb_wf_def)
  have wf: "mb_wf b'" using assms(2) 1 heap_pop_front(1) [OF h 1(1)] by (simp add: mb_wf_def stalled_def)
  have s: "0 \<le> m_stall_map_size b" using assms(2) by (simp add: mb_wf_def)
  have o: "occupied b = occupied b' + 1"
    using length_heap_pop [OF h 1(1)] 1 by (simp add: occupied_def)
  then show ?thesis
    using 1 assms(3) s wf by (cases "m_time_last_time_pop b < now") (auto simp: slots_ok_def occupied_def)
qed

lemma delayHead_inv:
  assumes "delayHead rnd now d rr w b = Some (b', es)" "mb_wf b" "slots_ok now b"
  shows "mb_wf b' \<and> slots_ok now b'"
proof -
  from assms(1) obtain m where m: "heap_front (m_prio_heap b) = Some m"
      "enqueue rnd m now d rr w False (b\<lparr>m_prio_heap := heap_pop msg_key (m_prio_heap b)\<rparr>) = Some (b', es)"
    by (auto simp: delayHead_def bind_eq_Some_conv)
  have h: "is_heap msg_key (m_prio_heap b)" using assms(2) by (simp add: mb_wf_def)
  have "mb_wf (b\<lparr>m_prio_heap := heap_pop msg_key (m_prio_heap b)\<rparr>)"
    using assms(2) heap_pop_front(1) [OF h m(1)] by (simp add: mb_wf_def stalled_def)
  moreover have "slots_ok now (b\<lparr>m_prio_heap := heap_pop msg_key (m_prio_heap b)\<rparr>)"
    using assms(3) length_heap_pop [OF h m(1)] by (auto simp: slots_ok_def occupied_def)
  ultimately show ?thesis by (rule enqueue_inv [OF m(2)])
qed

lemma recycle_inv:
  assumes "recycle now d b = Some (b', es)" "mb_wf b" "slots_ok now b"
  shows "mb_wf b' \<and> slots_ok now b'"
proof -
  from assms(1) obtain m where m: "heap_front (m_prio_heap b) = Some m"
      "b' = b\<lparr>m_prio_heap := heap_ins msg_key (setLastEnqueueTime (now + d) m) (heap_pop msg_key (m_prio_heap b))\<rparr>"
    by (auto simp: recycle_def bind_eq_Some_conv Let_def heap_push_def)
  have h: "is_heap msg_key (m_prio_heap b)" using assms(2) by (simp add: mb_wf_def)
  show ?thesis
    using assms(2,3) heap_ins_facts(1) [OF heap_pop_front(1) [OF h m(1)]] length_heap_pop [OF h m(1)]
    by (auto simp: m(2) mb_wf_def stalled_def slots_ok_def occupied_def)
qed

lemma stallMessage_inv:
  assumes "stallMessage ct a now b = Some (b', es)" "mb_wf b" "slots_ok now b"
  shows "mb_wf b' \<and> slots_ok now b'"
proof -
  from assms(1) obtain m b1 where d: "dequeue ct now False b = Some (m, b1, es)"
    and b': "b' = b1\<lparr>m_stall_msg_map := stall_push a m (m_stall_msg_map b1), m_stall_map_size := m_stall_map_size b1 + 1,
        m_stall_count := m_stall_count b1 + 1\<rparr>"
    by (auto simp: stallMessage_def bind_eq_Some_conv)
  note inv = dequeue_inv [OF d assms(2,3)]
  have sorted: "sorted_wrt (<) (map fst (m_stall_msg_map b1))" using inv by (simp add: mb_wf_def)
  have "length (concat (map snd (stall_push a m (m_stall_msg_map b1)))) = Suc (length (stalled b1))"
    using arg_cong [OF stall_push_facts(3) [OF sorted, of a m], of size] by (simp add: stalled_def)
  then have "mb_wf b'"
    using inv stall_push_facts(1) [OF sorted] by (simp add: b' mb_wf_def stalled_def)
  moreover have "occupied b' = occupied b1 + 1" by (simp add: b' occupied_def)
  then have "slots_ok now b'" using inv by (auto simp: b' slots_ok_def)
  ultimately show ?thesis by simp
qed

lemma reanalyzeMessages_inv:
  assumes "reanalyzeMessages a now b = Some (b', es)" "mb_wf b" "slots_ok now b"
  shows "mb_wf b' \<and> slots_ok now b'"
  using assms(1)
proof (cases rule: reanalyzeMessages_Some)
  case (1 ms)
  have h: "is_heap msg_key (m_prio_heap b)" "sorted_wrt (<) (map fst (m_stall_msg_map b))"
    using assms(2) by (simp_all add: mb_wf_def)
  have "length (stalled b) = length ms + length (concat (map snd (stall_erase a (m_stall_msg_map b))))"
    using arg_cong [OF stall_erase_facts(2) [OF h(2) 1(1)], of size] by (simp add: stalled_def)
  then have "mb_wf b'"
    using assms(2) stall_erase_facts(1) [OF h(2) 1(1)] fold_heap_ins(1) [OF h(1), of ms]
    by (simp add: 1(3) mb_wf_def stalled_def)
  moreover have "occupied b' = occupied b" using fold_heap_ins(3) [OF h(1), of ms] by (simp add: 1(3) occupied_def)
  then have "slots_ok now b'" using assms(3) by (auto simp: 1(3) slots_ok_def)
  ultimately show ?thesis by simp
qed

lemma reanalyzeAll_inv:
  assumes "reanalyzeAllMessages now b = Some (b', es)" "mb_wf b" "slots_ok now b"
  shows "mb_wf b' \<and> slots_ok now b'"
proof -
  have h: "is_heap msg_key (m_prio_heap b)" using assms(2) by (simp add: mb_wf_def)
  note b' = reanalyzeAll_Some [OF assms(1)]
  have "occupied b' = occupied b" using fold_heap_ins(3) [OF h, of "stalled b"] by (simp add: b' occupied_def)
  then have "slots_ok now b'" using assms(3) by (auto simp: b' slots_ok_def)
  moreover have "stalled b' = []" by (simp add: b' stalled_def)
  then have "mb_wf b'" using assms(2) fold_heap_ins(1) [OF h] by (simp add: b' mb_wf_def)
  ultimately show ?thesis by simp
qed

lemma mb_reach_inv: "mb_reach now b \<Longrightarrow> mb_wf b \<and> slots_ok now b"
proof (induction rule: mb_reach.induct)
  case (init now cap rate ordered rn z prio)
  then show ?case
    by (simp add: MessageBuffer_new_def mb_wf_def stalled_def slots_ok_def occupied_def is_heap_def)
next
  case (consumer now b c b')
  then show ?case by (auto simp: setConsumer_def bind_eq_Some_conv mb_wf_def stalled_def slots_ok_def occupied_def)
next
  case (time now b now')
  then show ?case by (auto simp: slots_ok_def)
next
  case (slots now b n r b')
  then show ?case
    by (auto simp: areNSlotsAvailable_def mb_wf_def stalled_def slots_ok_def occupied_def split: if_splits)
next
  case (defer_msg now b a m)
  then show ?case by (auto simp: deferEnqueueingMessage_def mb_wf_def stalled_def slots_ok_def occupied_def)
qed (auto dest: enqueue_inv dequeue_inv delayHead_inv recycle_inv stallMessage_inv reanalyzeMessages_inv reanalyzeAll_inv)

subsection \<open>Strict order\<close>

lemma sorted_by_key_unique:
  assumes "mset xs = mset ys" "sorted (map k xs)" "sorted_wrt (<) (map k ys)"
  shows "xs = (ys :: 'a list)"
proof -
  have "distinct (map k ys)" using assms(3) by (simp add: strict_sorted_iff)
  then have "inj_on k (set xs)" using mset_eq_setD [OF assms(1)] by (simp add: distinct_map)
  then show ?thesis
    using assms(1,2) strict_sorted_imp_sorted [OF assms(3)] sort_key_inj_key_eq [of xs ys k] sorted_sort_id
    by (metis (no_types, lifting) properties_for_sort_key sort_key_inj_key_eq)
qed

text \<open>A run of enqueue operations by a well-behaved producer: no bypass, no warmup.\<close>

definition enqueue_all :: "(nat \<Rightarrow> nat \<times> nat \<times> nat) \<Rightarrow> bool \<Rightarrow> (Message \<times> tick \<times> tick) list \<Rightarrow> MessageBuffer \<Rightarrow> MessageBuffer option" where
  "enqueue_all rnd rr xs b =
     for_list (\<lambda>(m, now, d) b. map_option fst (enqueue rnd m now d rr False False b)) xs b"

lemma enqueue_all_order:
  assumes "enqueue_all rnd rr xs b = Some b'" "m_strict_fifo b" "\<not> m_last_message_strict_fifo_bypassed b"
    and "mset (m_prio_heap b) = mset L" "sorted_wrt (<) (map msg_key L)"
      "\<forall>m\<in>set L. msg_key m \<le> (m_last_arrival_time b, mb_msg_counter b)" "is_heap msg_key (m_prio_heap b)"
  shows "\<exists>L'. mset (m_prio_heap b') = mset (L @ L') \<and> sorted_wrt (<) (map msg_key (L @ L'))
    \<and> map msg_payload L' = map (\<lambda>x. msg_payload (fst x)) xs \<and> is_heap msg_key (m_prio_heap b')"
  using assms
proof (induction xs arbitrary: b L)
  case Nil
  then show ?case by (intro exI [of _ "[]"]) (simp add: enqueue_all_def)
next
  case (Cons x xs)
  obtain m now d where x: "x = (m, now, d)" by (cases x) auto
  with Cons.prems(1) obtain b1 es where
    e: "enqueue rnd m now d rr False False b = Some (b1, es)" and rest: "enqueue_all rnd rr xs b1 = Some b'"
    by (auto simp: enqueue_all_def bind_eq_Some_conv)
  from e show ?case
  proof (cases rule: enqueue_Some)
    case (1 arr m' c)
    have key: "msg_key m' = (m_last_arrival_time b1, mb_msg_counter b1)" using 1 by (simp add: msg_key_def)
    have "(m_last_arrival_time b, mb_msg_counter b) < msg_key m'"
      using 1 Cons.prems(2,3) by (auto simp: msg_key_def less_prod_def)
    then have less: "\<forall>y\<in>set L. msg_key y < msg_key m'" using Cons.prems(6) by (meson order_le_less_trans)
    then have "sorted_wrt (<) (map msg_key (L @ [m']))" using Cons.prems(5) by (simp add: sorted_wrt_append)
    moreover have "\<forall>y\<in>set (L @ [m']). msg_key y \<le> (m_last_arrival_time b1, mb_msg_counter b1)"
      using less key by (auto intro: less_imp_le)
    moreover have "mset (m_prio_heap b1) = mset (L @ [m'])" using 1 Cons.prems(4) by simp
    moreover have "is_heap msg_key (m_prio_heap b1)" using 1 Cons.prems(7) by (simp add: heap_ins_facts(1))
    ultimately obtain L' where "mset (m_prio_heap b') = mset ((L @ [m']) @ L')" "sorted_wrt (<) (map msg_key ((L @ [m']) @ L'))"
      "map msg_payload L' = map (\<lambda>x. msg_payload (fst x)) xs" "is_heap msg_key (m_prio_heap b')"
      using Cons.IH [OF rest, of "L @ [m']"] 1 Cons.prems(2) by auto
    then show ?thesis using 1 x by (intro exI [of _ "m' # L'"]) simp
  qed
qed

subsection \<open>A producer that asked for room\<close>

definition accepts :: "tick \<Rightarrow> tick \<Rightarrow> MessageBuffer \<Rightarrow> bool" where
  "accepts now d b \<longleftrightarrow> mb_consumer b \<noteq> None \<and> m_randomization b = rand_disabled
     \<and> (0 < d \<or> m_allow_zero_latency b) \<and> m_last_arrival_time b \<le> now + d"

lemma enqueue_defined:
  assumes "accepts now d b" "m_LastEnqueueTime m \<le> now" "m_max_size b = 0 \<or> occupied b + 1 \<le> int (m_max_size b)"
  shows "\<exists>b' es. enqueue rnd m now d rr False False b = Some (b', es) \<and> accepts now d b'
    \<and> occupied b' = occupied b + 1 \<and> m_max_size b' = m_max_size b"
proof -
  obtain c where c: "mb_consumer b = Some c" using assms(1) by (auto simp: accepts_def)
  have a: "arrival rnd now d rr (count_enqueue now b) = (now + d, count_enqueue now b)"
    using assms(1) by (simp add: arrival_def accepts_def)
  let ?b = "note_arrival False False (now + d) (count_enqueue now b)"
  let ?m = "setMsgCounter (mb_msg_counter ?b) (setLastEnqueueTime (now + d)
      (m\<lparr>m_DelayedTicks := m_DelayedTicks m + (now - m_LastEnqueueTime m)\<rparr>))"
  let ?b' = "(heap_push ?m ?b)\<lparr>m_buf_msgs := m_buf_msgs ?b + 1\<rparr>"
  have "updateDelayedTicks now m = Some (m\<lparr>m_DelayedTicks := m_DelayedTicks m + (now - m_LastEnqueueTime m)\<rparr>)"
    using assms(2) by (simp add: updateDelayedTicks_def)
  then have "enqueue rnd m now d rr False False b = Some (?b', [WakeAt c (now + d), StoreInfo c (m_vnet_id b)])"
    using assms c a by (auto simp: enqueue_def Let_def accepts_def heap_push_def occupied_def)
  moreover have "accepts now d ?b'" "occupied ?b' = occupied b + 1" "m_max_size ?b' = m_max_size b"
    using assms(1) by (simp_all add: accepts_def heap_push_def occupied_def) (simp add: note_arrival_def)
  ultimately show ?thesis by blast
qed

lemma enqueue_all_defined:
  assumes "accepts now d b" "\<forall>m\<in>set ms. m_LastEnqueueTime m \<le> now"
    and "m_max_size b = 0 \<or> occupied b + int (length ms) \<le> int (m_max_size b)"
  shows "\<exists>b'. enqueue_all rnd rr (map (\<lambda>m. (m, now, d)) ms) b = Some b' \<and> occupied b' = occupied b + int (length ms)"
  using assms
proof (induction ms arbitrary: b)
  case Nil
  then show ?case by (simp add: enqueue_all_def)
next
  case (Cons m ms)
  from enqueue_defined [of now d b m rnd rr] Cons.prems obtain b1 es where
    b1: "enqueue rnd m now d rr False False b = Some (b1, es)" "accepts now d b1"
      "occupied b1 = occupied b + 1" "m_max_size b1 = m_max_size b" by auto
  from Cons.IH [OF b1(2)] Cons.prems(2,3) b1(3,4) obtain b' where
    "enqueue_all rnd rr (map (\<lambda>m. (m, now, d)) ms) b1 = Some b'" "occupied b' = occupied b1 + int (length ms)"
    by auto
  then show ?case using b1(1,3) by (simp add: enqueue_all_def)
qed

subsection \<open>Stalled messages are due\<close>

lemma stalled_heap_update [simp]: "stalled (b\<lparr>m_prio_heap := h\<rparr>) = stalled b"
  by (simp add: stalled_def)

lemma stalled_due_ops:
  "enqueue rnd m now d rr w y b = Some (b', es) \<Longrightarrow> stalled b' = stalled b"
  "dequeue ct now dec b = Some (m1, b', es) \<Longrightarrow> stalled b' = stalled b \<and> m_LastEnqueueTime m1 \<le> now"
  by (elim enqueue_Some, simp add: stalled_def) (elim dequeue_Some, simp add: stalled_def)

lemma stallMessage_Some:
  assumes "stallMessage ct a now b = Some (b', es)"
  obtains m b1 where "dequeue ct now False b = Some (m, b1, es)"
    "b' = b1\<lparr>m_stall_msg_map := stall_push a m (m_stall_msg_map b1), m_stall_map_size := m_stall_map_size b1 + 1,
        m_stall_count := m_stall_count b1 + 1\<rparr>"
  using assms by (auto simp: stallMessage_def bind_eq_Some_conv)

lemma mb_reach_due: "mb_reach now b \<Longrightarrow> \<forall>m\<in>set (stalled b). m_LastEnqueueTime m \<le> now"
proof (induction rule: mb_reach.induct)
  case (init now cap rate ordered rn z prio)
  then show ?case by (simp add: MessageBuffer_new_def stalled_def)
next
  case (stall now b ct a b' es)
  from stall(2) show ?case
  proof (cases rule: stallMessage_Some)
    case (1 m b1)
    have "sorted_wrt (<) (map fst (m_stall_msg_map b1))"
      using dequeue_inv [OF 1(1)] mb_reach_inv [OF stall(1)] by (simp add: mb_wf_def)
    from stall_push_facts(3) [OF this, of a m] have "mset (stalled b') = add_mset m (mset (stalled b1))"
      by (simp add: 1(2) stalled_def)
    then have "set (stalled b') = insert m (set (stalled b1))" by (metis set_mset_add_mset_insert set_mset_mset)
    then show ?thesis using stall(3) stalled_due_ops(2) [OF 1(1)] by auto
  qed
next
  case (wake now b a b' es)
  have "sorted_wrt (<) (map fst (m_stall_msg_map b))" using mb_reach_inv [OF wake(1)] by (simp add: mb_wf_def)
  with wake show ?case
    by (elim reanalyzeMessages_Some) (auto simp: stalled_def stall_erase_def)
next
  case (delay now b rnd d rr w b' es)
  then show ?case by (auto simp: delayHead_def bind_eq_Some_conv dest: stalled_due_ops(1))
next
  case (time now b now')
  then show ?case by (meson order_trans)
next
  case (enq now b rnd m d rr w y b' es)
  then show ?case using stalled_due_ops(1) by metis
next
  case (deq now b ct dec m b' es)
  then show ?case using stalled_due_ops(2) by metis
qed (auto simp: setConsumer_def areNSlotsAvailable_def bind_eq_Some_conv recycle_def Let_def heap_push_def stalled_def
    deferEnqueueingMessage_def dest: stalled_due_ops reanalyzeAll_Some split: if_splits)

subsection \<open>Counting functional accesses\<close>

definition always :: "Message \<Rightarrow> 's \<Rightarrow> bool \<times> 's" where
  "always m s = (True, s)"

lemma access_list_always:
  "access_list False (\<lambda>m s. (fst (always m s), m, snd (always m s))) ms s = (length ms, ms, s)"
  "access_list True (\<lambda>m s. (fst (always m s), m, snd (always m s))) ms s = (if ms = [] then 0 else 1, ms, s)"
  by (induction ms) (auto simp: always_def)

lemma access_stalled_always:
  "access_stalled False (\<lambda>m s. (fst (always m s), m, snd (always m s))) es s = (length (concat (map snd es)), es, s)"
  "access_stalled True (\<lambda>m s. (fst (always m s), m, snd (always m s))) es s
     = (if concat (map snd es) = [] then 0 else 1, es, s)"
  by (induction es) (auto simp: access_list_always, force)

subsection \<open>A buffer with two messages\<close>

definition ex_buf :: MessageBuffer where
  "ex_buf = (MessageBuffer_new 4 0 True rand_disabled False 0)\<lparr>mb_consumer := Some (CNetIf 0)\<rparr>"

definition ex_msg :: "nat \<Rightarrow> Message" where
  "ex_msg p = Message_new 10 \<lparr>m_bits = [], m_ruby_system = None\<rparr> Control p"

definition ex_buf2 :: MessageBuffer where
  "ex_buf2 = (case enqueue_all (\<lambda>_. (0, 0, 0)) False (map (\<lambda>m. (m, 10, 5)) [ex_msg 7, ex_msg 8]) ex_buf of
      Some b \<Rightarrow> b | None \<Rightarrow> ex_buf)"

lemmas ex_buf_eval = enqueue_all_def enqueue_def arrival_def ex_buf_def ex_msg_def MessageBuffer_new_def Let_def
  Message_new_def updateDelayedTicks_def setMsgCounter_def setLastEnqueueTime_def heap_push_def heap_ins_def
  push_heap_def sift_up.simps par_def swap_def msg_key_def less_prod_def note_arrival_def count_enqueue_def

lemma enqueue_all_reach:
  "enqueue_all rnd rr (map (\<lambda>m. (m, now, d)) ms) b = Some b' \<Longrightarrow> mb_reach now b \<Longrightarrow> mb_reach now b'"
  by (induction ms arbitrary: b) (auto simp: enqueue_all_def bind_eq_Some_conv intro: mb_reach.enq)

lemma ex_buf2_enqueued:
  "enqueue_all (\<lambda>_. (0, 0, 0)) False (map (\<lambda>m. (m, 10, 5)) [ex_msg 7, ex_msg 8]) ex_buf = Some ex_buf2"
  by (simp add: ex_buf2_def) (simp add: ex_buf_eval)

lemma ex_buf_reach: "mb_reach 10 ex_buf"
  by (rule mb_reach.consumer [OF mb_reach.init [of 10 4 0 True rand_disabled False 0], of "CNetIf 0"]) (simp add: setConsumer_def ex_buf_def MessageBuffer_new_def)

lemma ex_buf2_reach: "mb_reach 15 ex_buf2"
  by (rule mb_reach.time [OF enqueue_all_reach [OF ex_buf2_enqueued ex_buf_reach]]) simp

lemma ex_buf2_is:
  "m_prio_heap ex_buf2 = [(ex_msg 7)\<lparr>m_LastEnqueueTime := 15, m_msg_counter := 1\<rparr>, (ex_msg 8)\<lparr>m_LastEnqueueTime := 15, m_msg_counter := 2\<rparr>]"
  "m_time_last_time_pop ex_buf2 = 0" "m_max_dequeue_rate ex_buf2 = 0" "mb_consumer ex_buf2 = Some (CNetIf 0)"
  "m_stall_msg_map ex_buf2 = []" "m_stall_map_size ex_buf2 = 0" "m_max_size ex_buf2 = 4"
  "m_randomization ex_buf2 = rand_disabled" "m_last_arrival_time ex_buf2 = 15"
  by (simp_all add: ex_buf2_def) (simp_all add: ex_buf_eval)

lemma ex_buf2_dequeue: "\<exists>m1 b' es. dequeue 15 15 dec ex_buf2 = Some (m1, b', es)"
  by (simp add: dequeue_def mb_isReady_def ex_buf2_is heap_front_def updateDelayedTicks_def Let_def)

lemma ex_buf2_stall: "\<exists>b' es. stallMessage 15 64 15 ex_buf2 = Some (b', es)"
  using ex_buf2_dequeue [of False] by (auto simp: stallMessage_def)

lemma map_of_stall_erase: "map_of (stall_erase a es) x = (if x = a then None else map_of es x)"
  by (induction es) (auto simp: stall_erase_def)

subsection \<open>Properties\<close>

text \<open>C21. Whatever the controllers and the network do with a message buffer, in any order and with time moving
  forward: its vector is a heap, its stall map is sorted and \<^verbatim>\<open>m_stall_map_size\<close> counts exactly the
  stalled messages, and a finite buffer never holds more messages, waiting and stalled, than its capacity.\<close>
theorem MessageBuffer_reachable_wf:
  assumes "mb_reach now b"
  shows "is_heap msg_key (m_prio_heap b) \<and> sorted_wrt (<) (map fst (m_stall_msg_map b))
    \<and> m_stall_map_size b = int (length (stalled b))
    \<and> (0 < m_max_size b \<longrightarrow> length (m_prio_heap b) + length (stalled b) \<le> m_max_size b)"
  using mb_reach_inv [OF assms] by (auto simp: mb_wf_def slots_ok_def occupied_def)

theorem MessageBuffer_reachable_wf_witness:
  "is_heap msg_key (m_prio_heap ex_buf2) \<and> length (m_prio_heap ex_buf2) + length (stalled ex_buf2) \<le> 4"
  using MessageBuffer_reachable_wf [OF ex_buf2_reach] by (simp add: ex_buf2_is)

text \<open>C23. A message buffer is a priority queue: \<^verbatim>\<open>dequeue\<close> returns a message that is due and that no other waiting
  message precedes by arrival time and enqueue order, removes exactly that message, and leaves the stalled messages
  alone.\<close>
theorem MessageBuffer_dequeues_first:
  assumes "mb_reach now b" "dequeue curTick now dec b = Some (m1, b', es)"
  shows "\<exists>m \<in># mset (m_prio_heap b). (\<forall>y \<in># mset (m_prio_heap b). \<not> msg_greater m y)
    \<and> m_LastEnqueueTime m \<le> now \<and> mset (m_prio_heap b') = mset (m_prio_heap b) - {#m#}
    \<and> m1 = m\<lparr>m_DelayedTicks := m_DelayedTicks m + (now - m_LastEnqueueTime m)\<rparr> \<and> stalled b' = stalled b"
  using assms(2)
proof (cases rule: dequeue_Some)
  case (1 m)
  have h: "is_heap msg_key (m_prio_heap b)" using mb_reach_inv [OF assms(1)] by (simp add: mb_wf_def)
  from heap_front_min [OF h 1(1)] heap_pop_front(2) [OF h 1(1)] 1 show ?thesis
    by (intro bexI [of _ m]) (auto simp: msg_greater_key stalled_def not_less)
qed

theorem MessageBuffer_dequeues_first_witness:
  "\<exists>m1 b' es. dequeue 15 15 True ex_buf2 = Some (m1, b', es) \<and> m_LastEnqueueTime m1 \<le> 15 \<and> stalled b' = []"
proof -
  obtain m1 b' es where d: "dequeue 15 15 True ex_buf2 = Some (m1, b', es)" using ex_buf2_dequeue by blast
  from MessageBuffer_dequeues_first [OF ex_buf2_reach d] have "m_LastEnqueueTime m1 \<le> 15 \<and> stalled b' = []"
    by (auto simp: stalled_def ex_buf2_is)
  with d show ?thesis by blast
qed

text \<open>C22. An ordered buffer delivers in the order of the enqueue operations: if the producer's \<^verbatim>\<open>enqueue\<close> calls on an
  empty strict FIFO buffer pass the check of the arrival times, the messages come out of the heap in exactly the order
  in which they were put in, even when several have the same arrival time.\<close>
theorem MessageBuffer_strict_fifo:
  assumes "enqueue_all rnd rr xs b = Some b'" "m_strict_fifo b" "\<not> m_last_message_strict_fifo_bypassed b"
    and "m_prio_heap b = []"
  shows "map msg_payload (take_all heap_front (heap_pop msg_key) (length xs) (m_prio_heap b')) = map (\<lambda>x. msg_payload (fst x)) xs"
proof -
  from enqueue_all_order [OF assms(1-3), of "[]"] assms(4) obtain L where
    L: "mset (m_prio_heap b') = mset L" "sorted_wrt (<) (map msg_key L)"
      "map msg_payload L = map (\<lambda>x. msg_payload (fst x)) xs" "is_heap msg_key (m_prio_heap b')"
    by (auto simp: is_heap_def)
  have "length L = length xs" using arg_cong [OF L(3), of length] by simp
  then have "size (mset (m_prio_heap b')) \<le> length xs" using L(1) by simp
  from vector_heap.take_all_sorted [OF L(4) this] L(1,2)
  have "take_all heap_front (heap_pop msg_key) (length xs) (m_prio_heap b') = L"
    by (intro sorted_by_key_unique [where k = msg_key]) auto
  then show ?thesis using L(3) by simp
qed

theorem MessageBuffer_strict_fifo_witness:
  "map msg_payload (take_all heap_front (heap_pop msg_key) 2 (m_prio_heap ex_buf2)) = [7, 8]"
  using MessageBuffer_strict_fifo [OF ex_buf2_enqueued] by (simp add: ex_buf_def ex_msg_def MessageBuffer_new_def Message_new_def numeral_2_eq_2)



text \<open>C24. Stalling is not losing: a message set aside with \<^verbatim>\<open>stallMessage\<close> can be brought back by
  \<^verbatim>\<open>reanalyzeMessages\<close> at any later time without a failing assertion, together with the messages stalled on the
  same address before it; they are back with the arrival times and counters they had, so they keep their place
  before younger messages, and the messages stalled on other addresses stay where they are.\<close>
theorem MessageBuffer_stall_reanalyze:
  assumes "mb_reach now b" "stallMessage curTick a now b = Some (b1, es)" "now \<le> t" "mb_consumer b = Some c"
  shows "\<exists>b2 es2 old. reanalyzeMessages a t b1 = Some (b2, es2)
    \<and> old = (case map_of (m_stall_msg_map b) a of None \<Rightarrow> [] | Some ms \<Rightarrow> ms)
    \<and> image_mset msg_key (mset (m_prio_heap b2)) = image_mset msg_key (mset (m_prio_heap b) + mset old)
    \<and> \<not> hasStalledMsg a b2 \<and> (\<forall>x. x \<noteq> a \<longrightarrow> map_of (m_stall_msg_map b2) x = map_of (m_stall_msg_map b1) x)"
  using assms(2)
proof (cases rule: stallMessage_Some)
  case (1 m b0)
  define old where old: "old = (case map_of (m_stall_msg_map b) a of None \<Rightarrow> [] | Some ms \<Rightarrow> ms)"
  from 1(1) show ?thesis
  proof (cases rule: dequeue_Some)
    case d: (1 m0)
    have r1: "mb_reach now b1" using assms(1,2) by (rule mb_reach.stall)
    note inv = mb_reach_inv [OF assms(1)] and inv1 = mb_reach_inv [OF r1]
    have h: "is_heap msg_key (m_prio_heap b)" "sorted_wrt (<) (map fst (m_stall_msg_map b))"
      "is_heap msg_key (m_prio_heap b1)" "m_stall_map_size b1 = int (length (stalled b1))"
      "sorted_wrt (<) (map fst (m_stall_msg_map b1))"
      using inv inv1 by (simp_all add: mb_wf_def)
    have ms: "map_of (m_stall_msg_map b1) a = Some (old @ [m])"
      using stall_push_facts(4) [OF h(2), of a m] d by (simp add: 1(2) old)
    have split: "mset (stalled b1) = mset (old @ [m]) + mset (concat (map snd (stall_erase a (m_stall_msg_map b1))))"
      unfolding stalled_def by (rule stall_erase_facts(2) [OF h(5) ms])
    have sub: "set (old @ [m]) \<subseteq> set (stalled b1)" using arg_cong [OF split, of set_mset] by auto
    have due: "\<forall>x\<in>set (old @ [m]). m_LastEnqueueTime x \<le> t"
    proof
      fix x assume "x \<in> set (old @ [m])"
      with sub have "x \<in> set (stalled b1)" by (rule subsetD)
      with mb_reach_due [OF r1] have "m_LastEnqueueTime x \<le> now" by blast
      with assms(3) show "m_LastEnqueueTime x \<le> t" by simp
    qed
    have "size (mset (stalled b1)) \<ge> length (old @ [m])" unfolding split by simp
    then have size: "0 \<le> m_stall_map_size b1 - int (length (old @ [m]))" using h(4) by simp
    have c: "mb_consumer b1 = Some c" using assms(4) d by (simp add: 1(2))
    let ?b = "b1\<lparr>m_stall_map_size := m_stall_map_size b1 - int (length (old @ [m]))\<rparr>"
    have "mb_consumer ?b = Some c" using c by simp
    from reanalyzeList_defined [OF this due] obtain es2 where
      re: "reanalyzeList (old @ [m]) t ?b = Some (?b\<lparr>m_prio_heap := fold (heap_ins msg_key) (old @ [m]) (m_prio_heap ?b)\<rparr>, es2)"
      by blast
    let ?b2 = "?b\<lparr>m_prio_heap := fold (heap_ins msg_key) (old @ [m]) (m_prio_heap ?b), m_stall_msg_map := stall_erase a (m_stall_msg_map b1)\<rparr>"
    have "reanalyzeMessages a t b1 = Some (?b2, es2)"
      using re size by (simp add: reanalyzeMessages_def ms Let_def)
    moreover have "image_mset msg_key (mset (m_prio_heap ?b2)) = image_mset msg_key (mset (m_prio_heap b) + mset old)"
    proof -
      have "mset (m_prio_heap ?b2) = mset (m_prio_heap b1) + mset (old @ [m])"
        using fold_heap_ins(2) [OF h(3)] by simp
      moreover have "mset (m_prio_heap b1) = mset (m_prio_heap b) - {#m0#}"
        using heap_pop_front(2) [OF h(1) d(1)] d by (simp add: 1(2))
      moreover have "m0 \<in># mset (m_prio_heap b)" using heap_front_min [OF h(1) d(1)] by blast
      moreover have "msg_key m = msg_key m0" using d by (simp add: msg_key_def)
      ultimately show ?thesis by (auto simp: image_mset_Diff dest!: multi_member_split)
    qed
    moreover have "\<not> hasStalledMsg a ?b2" "x \<noteq> a \<Longrightarrow> map_of (m_stall_msg_map ?b2) x = map_of (m_stall_msg_map b1) x" for x
      by (simp_all add: hasStalledMsg_def map_of_stall_erase)
    ultimately show ?thesis using old by blast
  qed
qed

theorem MessageBuffer_stall_reanalyze_witness:
  "\<exists>b1 es b2 es2. stallMessage 15 64 15 ex_buf2 = Some (b1, es) \<and> reanalyzeMessages 64 20 b1 = Some (b2, es2)
     \<and> image_mset msg_key (mset (m_prio_heap b2)) = {#(15, 1), (15, 2)#}"
proof -
  obtain b1 es where s: "stallMessage 15 64 15 ex_buf2 = Some (b1, es)" using ex_buf2_stall by blast
  from MessageBuffer_stall_reanalyze [OF ex_buf2_reach s, of 20] obtain b2 es2 where
    "reanalyzeMessages 64 20 b1 = Some (b2, es2)"
    "image_mset msg_key (mset (m_prio_heap b2)) = image_mset msg_key (mset (m_prio_heap ex_buf2))"
    by (auto simp: ex_buf2_is(4,5))
  with s show ?thesis by (auto simp: ex_buf2_is msg_key_def)
qed

text \<open>The masked functional read miscounts: it reports success only when exactly one message answers.  When every
  message in the buffer answers the read, the unmasked read succeeds as soon as there is one, but the masked read
  reports failure whenever there are two or more, although it has merged their data.\<close>
lemma functionalRead_mask_counts:
  "fst (mb_functionalRead always b s) = (0 < length (m_prio_heap b) + length (stalled b))
   \<and> fst (mb_functionalRead_mask always b s) = (length (m_prio_heap b) + length (stalled b) = 1)"
  by (cases "m_prio_heap b = []"; cases "stalled b = []") (simp_all add: mb_functionalRead_def mb_functionalRead_mask_def functionalAccess_def access_list_always
      access_stalled_always stalled_def)

end
