(* ===== verification/Ruby_Network.thy ===== *)
theory Ruby_Network
  imports Addr_Range Net_Topology Message_Buffer
begin

text \<open>
  The base class of the networks (\<^verbatim>\<open>mem/ruby/network/Network.{hh,cc}\<close>): the numbering of the controllers of this
  network, the queues between the controllers and the network, and the map from addresses to controllers.

  The controllers are generated from the protocol; what their \<^verbatim>\<open>initNetQueues\<close> asks of the network is the list of
  \<open>queue_call\<close>s that the constructor takes, and their address ranges are a parameter.  The order of the elements with
  the same key in the \<^verbatim>\<open>unordered_multimap\<close> is that of their insertion.  The registration of the network and its
  machines with the Ruby system concerns systems of several networks only and is left out.
\<close>

subsection \<open>The state\<close>

record AddrMapNode =
  amn_id :: nat
  amn_ranges :: "AddrRange list"

record Network =
  nw_virtual_networks :: nat
  nw_control_msg_size :: nat
  nw_data_msg_size :: nat
  nw_nodes :: nat
  globalToLocalMap :: "nat \<rightharpoonup> nat"
  m_topology :: Topology
  m_toNetQueues :: "MessageBuffer option list list"
  m_fromNetQueues :: "MessageBuffer option list list"
  nw_ordered :: "bool list"
  m_vnet_type_names :: "string list"
  addrMap :: "(MachineType \<times> AddrMapNode) list"
  nw_ruby_system :: num_controllers

subsection \<open>Local numbers\<close>

text \<open>\<^verbatim>\<open>localNodeVersions\<close>, and the loops over the machine types and the versions of each.\<close>

definition localNodeVersions :: "BasicExtLink list \<Rightarrow> MachineType \<Rightarrow> nat list" where
  "localNodeVersions ext_links m =
     map (\<lambda>l. mach_num (ext_node l)) (filter (\<lambda>l. mach_type (ext_node l) = m) ext_links)"

definition local_machines :: "num_controllers \<Rightarrow> BasicExtLink list \<Rightarrow> (MachineType \<times> nat) list" where
  "local_machines nc ext_links =
     concat (map (\<lambda>m. map (\<lambda>v. (m, v)) (localNodeVersions ext_links m)) [0..<length nc])"

text \<open>\<^verbatim>\<open>emplace\<close> keeps an entry that is there.\<close>

definition number_machine ::
  "num_controllers \<Rightarrow> MachineType \<times> nat \<Rightarrow> (nat \<rightharpoonup> nat) \<times> nat \<Rightarrow> ((nat \<rightharpoonup> nat) \<times> nat) option"
where
  "number_machine nc machine st =
     (let (mach, ver) = machine; (ids, local_node_id) = st
      in do { base \<leftarrow> MachineType_base_number nc mach;
              let global_node_id = base + ver;
              Some (if ids global_node_id = None then ids(global_node_id \<mapsto> local_node_id) else ids,
                    local_node_id + 1) })"

definition number_machines :: "num_controllers \<Rightarrow> BasicExtLink list \<Rightarrow> ((nat \<rightharpoonup> nat) \<times> nat) option" where
  "number_machines nc ext_links = for_list (number_machine nc) (local_machines nc ext_links) (Map.empty, 0)"

definition getLocalNodeID :: "nat \<Rightarrow> Network \<Rightarrow> nat option" where
  "getLocalNodeID global_id nw = globalToLocalMap nw global_id"

subsection \<open>Queues\<close>

definition checkNetworkAllocation :: "nat \<Rightarrow> bool \<Rightarrow> nat \<Rightarrow> string \<Rightarrow> Network \<Rightarrow> Network option" where
  "checkNetworkAllocation local_id ordered network_num vnet_type nw =
     do { check (\<not> local_id \<ge> nw_nodes nw);
          check (\<not> network_num \<ge> nw_virtual_networks nw);
          ord \<leftarrow> (if ordered then put (nw_ordered nw) network_num True else Some (nw_ordered nw));
          names \<leftarrow> put (m_vnet_type_names nw) network_num vnet_type;
          Some (nw\<lparr>nw_ordered := ord, m_vnet_type_names := names\<rparr>) }"

definition set_queue :: "nat \<Rightarrow> nat \<Rightarrow> MessageBuffer \<Rightarrow> MessageBuffer option list list \<Rightarrow> MessageBuffer option list list option" where
  "set_queue local_id network_num b queues =
     do { qs \<leftarrow> at queues local_id;
          let qs1 = qs @ replicate (Suc network_num - length qs) None;
          put queues local_id (qs1[network_num := Some b]) }"

definition setToNetQueue :: "nat \<Rightarrow> bool \<Rightarrow> nat \<Rightarrow> string \<Rightarrow> MessageBuffer \<Rightarrow> Network \<Rightarrow> Network option" where
  "setToNetQueue global_id ordered network_num vnet_type b nw =
     do { local_id \<leftarrow> getLocalNodeID global_id nw;
          nw1 \<leftarrow> checkNetworkAllocation local_id ordered network_num vnet_type nw;
          qs \<leftarrow> set_queue local_id network_num b (m_toNetQueues nw1);
          Some (nw1\<lparr>m_toNetQueues := qs\<rparr>) }"

definition setFromNetQueue :: "nat \<Rightarrow> bool \<Rightarrow> nat \<Rightarrow> string \<Rightarrow> MessageBuffer \<Rightarrow> Network \<Rightarrow> Network option" where
  "setFromNetQueue global_id ordered network_num vnet_type b nw =
     do { local_id \<leftarrow> getLocalNodeID global_id nw;
          nw1 \<leftarrow> checkNetworkAllocation local_id ordered network_num vnet_type nw;
          qs \<leftarrow> set_queue local_id network_num b (m_fromNetQueues nw1);
          Some (nw1\<lparr>m_fromNetQueues := qs\<rparr>) }"

datatype queue_call = ToNet nat bool nat string MessageBuffer | FromNet nat bool nat string MessageBuffer

fun queue_step :: "queue_call \<Rightarrow> Network \<Rightarrow> Network option" where
  "queue_step (ToNet g ordered n ty b) nw = setToNetQueue g ordered n ty b nw"
| "queue_step (FromNet g ordered n ty b) nw = setFromNetQueue g ordered n ty b nw"

subsection \<open>Addresses\<close>

definition addressToNodeID :: "Addr \<Rightarrow> MachineType \<Rightarrow> Network \<Rightarrow> nat option" where
  "addressToNodeID addr mtype nw =
     (case List.find (\<lambda>n. \<exists>r\<in>set (amn_ranges n). ar_contains r addr) (map snd (filter (\<lambda>e. fst e = mtype) (addrMap nw))) of
        Some node \<Rightarrow> Some (amn_id node)
      | None \<Rightarrow> MachineType_base_count (nw_ruby_system nw) mtype)"

subsection \<open>Construction\<close>

record network_params =
  np_virtual_networks :: nat
  np_control_msg_size :: nat
  np_data_msg_size :: nat
  np_block_size :: nat
  np_num_routers :: nat
  np_ext_links :: "BasicExtLink list"
  np_int_links :: "BasicIntLink list"
  np_ruby_system :: num_controllers
  np_ranges :: "MachineID \<Rightarrow> AddrRange list"
  np_queues :: "MachineID \<Rightarrow> queue_call list"

definition address_map :: "network_params \<Rightarrow> (MachineType \<times> AddrMapNode) list" where
  "address_map p =
     map (\<lambda>l. (mach_type (ext_node l), \<lparr>amn_id = mach_num (ext_node l), amn_ranges = np_ranges p (ext_node l)\<rparr>))
       (filter (\<lambda>l. np_ranges p (ext_node l) \<noteq> []) (np_ext_links p))"

definition network_start :: "network_params \<Rightarrow> (nat \<rightharpoonup> nat) \<Rightarrow> nat \<Rightarrow> Topology \<Rightarrow> Network" where
  "network_start p ids n t =
     \<lparr>nw_virtual_networks = np_virtual_networks p, nw_control_msg_size = np_control_msg_size p,
      nw_data_msg_size = np_data_msg_size p + np_control_msg_size p, nw_nodes = n, globalToLocalMap = ids,
      m_topology = t, m_toNetQueues = replicate n [], m_fromNetQueues = replicate n [],
      nw_ordered = replicate (np_virtual_networks p) False,
      m_vnet_type_names = replicate (np_virtual_networks p) [], addrMap = address_map p,
      nw_ruby_system = np_ruby_system p\<rparr>"

definition init_queues :: "network_params \<Rightarrow> Network \<Rightarrow> Network option" where
  "init_queues p nw = for_list (\<lambda>l. for_list queue_step (np_queues p (ext_node l))) (np_ext_links p) nw"

definition Network_new :: "network_params \<Rightarrow> Network option" where
  "Network_new p =
     do { check (\<not> np_data_msg_size p > np_block_size p);
          (ids, n) \<leftarrow> number_machines (np_ruby_system p) (np_ext_links p);
          check (n \<noteq> 0);
          check (np_virtual_networks p \<noteq> 0);
          t \<leftarrow> Topology_new (np_num_routers p) (np_virtual_networks p) (np_ext_links p) (np_int_links p) (np_ruby_system p);
          init_queues p (network_start p ids n t) }"

subsection \<open>The local numbers are a renumbering\<close>

lemma map_of_snoc: "map_of xs k = None \<Longrightarrow> map_of (xs @ [(k, v)]) = (map_of xs)(k \<mapsto> v)"
  by (induction xs) (auto simp: fun_upd_twist split: if_splits)

lemma number_loop:
  assumes "distinct (map (node_id nc) ms)" "\<forall>e\<in>set ms. fst e < length nc"
  shows "for_list (number_machine nc) ms (Map.empty, 0)
    = Some (map_of (zip (map (node_id nc) ms) [0..<length ms]), length ms)"
  using assms
proof (induction ms rule: rev_induct)
  case (snoc e ms)
  let ?g = "map (node_id nc) ms"
  have base: "MachineType_base_number nc (fst e) = Some (machine_base nc (fst e))"
    using snoc.prems(2) by (simp add: MachineType_base_number_def machine_base_def)
  have new: "map_of (zip ?g [0..<length ms]) (node_id nc e) = None"
    using snoc.prems(1) by (auto simp: map_of_eq_None_iff dest: set_zip_leftD)
  have "number_machine nc e (map_of (zip ?g [0..<length ms]), length ms)
      = Some ((map_of (zip ?g [0..<length ms]))(node_id nc e \<mapsto> length ms), Suc (length ms))"
    using base new by (simp add: number_machine_def split_beta node_id_def Let_def)
  moreover have "map_of (zip (?g @ [node_id nc e]) ([0..<length ms] @ [length ms]))
      = (map_of (zip ?g [0..<length ms]))(node_id nc e \<mapsto> length ms)"
    using map_of_snoc [OF new] by simp
  ultimately show ?case using snoc by (simp add: for_list_append fun_upd_def)
qed simp

lemma set_local_machines:
  "set (local_machines nc ls) = {(mach_type (ext_node l), mach_num (ext_node l)) | l. l \<in> set ls \<and> mach_type (ext_node l) < length nc}"
  by (auto simp: local_machines_def localNodeVersions_def)

lemma distinct_concat_types:
  assumes "\<And>m. distinct (f m)" "\<And>m e. e \<in> set (f m) \<Longrightarrow> fst e = m"
  shows "distinct (concat (map f [0..<n]))"
proof (induction n)
  case (Suc n)
  have "set (concat (map f [0..<n])) \<inter> set (f n) = {}"
  proof (rule equals0I)
    fix e assume "e \<in> set (concat (map f [0..<n])) \<inter> set (f n)"
    then obtain m where "m < n" "e \<in> set (f m)" "e \<in> set (f n)" by auto
    then show False using assms(2) [of e m] assms(2) [of e n] by simp
  qed
  then show ?case using Suc assms(1) by simp
qed simp

lemma distinct_local_machines:
  assumes "distinct (map (\<lambda>l. (mach_type (ext_node l), mach_num (ext_node l))) ls)"
  shows "distinct (local_machines nc ls)"
proof -
  have "distinct (map (\<lambda>v. (m, v)) (localNodeVersions ls m))" for m
  proof -
    have "map (\<lambda>v. (m, v)) (localNodeVersions ls m)
        = filter (\<lambda>e. fst e = m) (map (\<lambda>l. (mach_type (ext_node l), mach_num (ext_node l))) ls)"
      unfolding localNodeVersions_def by (induction ls) auto
    then show ?thesis using assms by (metis distinct_filter)
  qed
  then show ?thesis unfolding local_machines_def by (intro distinct_concat_types) auto
qed

lemma length_local_machines:
  "\<forall>l\<in>set ls. mach_type (ext_node l) < length nc \<Longrightarrow> length (local_machines nc ls) = length ls"
proof (induction ls)
  case Nil
  then show ?case by (simp add: local_machines_def localNodeVersions_def length_concat)
next
  case (Cons l ls)
  let ?t = "mach_type (ext_node l)"
  have "length (local_machines nc (l # ls))
      = (\<Sum>m\<leftarrow>[0..<length nc]. length (localNodeVersions ls m) + (if m = ?t then 1 else 0))"
    by (simp add: local_machines_def length_concat o_def localNodeVersions_def) (rule arg_cong [where f = sum_list], auto)
  also have "\<dots> = length (local_machines nc ls) + (\<Sum>m\<leftarrow>[0..<length nc]. if m = ?t then 1 else 0)"
    by (simp add: sum_list_addf local_machines_def length_concat o_def)
  also have "(\<Sum>m\<leftarrow>[0..<length nc]. if m = ?t then 1 else 0 :: nat) = 1"
    using Cons.prems by (simp add: interv_sum_list_conv_sum_set_nat)
  finally show ?case using Cons by simp
qed

definition nodes_ok :: "num_controllers \<Rightarrow> BasicExtLink list \<Rightarrow> bool" where
  "nodes_ok nc ls \<longleftrightarrow> distinct (map (\<lambda>l. (mach_type (ext_node l), mach_num (ext_node l))) ls)
     \<and> (\<forall>l\<in>set ls. valid_machine nc (mach_type (ext_node l), mach_num (ext_node l)))"

lemma numbering:
  assumes "nodes_ok nc ls"
  shows "\<exists>ids. number_machines nc ls = Some (ids, length ls) \<and> inj_on ids (dom ids) \<and> ran ids = {..<length ls}
    \<and> dom ids = (\<lambda>l. node_id nc (mach_type (ext_node l), mach_num (ext_node l))) ` set ls"
proof -
  let ?ms = "local_machines nc ls" and ?g = "map (node_id nc) (local_machines nc ls)"
  have v: "\<forall>e\<in>set ?ms. valid_machine nc e" and types: "\<forall>l\<in>set ls. mach_type (ext_node l) < length nc"
    using assms by (auto simp: nodes_ok_def set_local_machines valid_machine_def)
  have len: "length ?ms = length ls" using types by (rule length_local_machines)
  have "distinct ?ms" using assms by (simp add: nodes_ok_def distinct_local_machines)
  then have d: "distinct ?g" using v by (auto simp: distinct_map intro!: inj_onI dest: node_id_inj)
  have "\<forall>e\<in>set ?ms. fst e < length nc" using v by (auto simp: valid_machine_def)
  from number_loop [OF d this] have n: "number_machines nc ls = Some (map_of (zip ?g [0..<length ls]), length ls)"
    by (simp add: number_machines_def len)
  let ?ids = "map_of (zip ?g [0..<length ls])"
  have at: "?ids (?g ! i) = Some i" if "i < length ls" for i
    using map_of_zip_nth [of ?g "[0..<length ls]" i] d that by (simp add: len)
  have dom: "dom ?ids = set ?g" by (simp add: dom_map_of_zip len)
  have "inj_on ?ids (dom ?ids)"
  proof (rule inj_onI)
    fix x y assume xy: "x \<in> dom ?ids" "y \<in> dom ?ids" "?ids x = ?ids y"
    then obtain i j where ij: "i < length ls" "x = ?g ! i" "j < length ls" "y = ?g ! j"
      unfolding dom by (metis in_set_conv_nth len length_map)
    then have "i = j" using at xy(3) by (metis option.inject)
    then show "x = y" using ij by simp
  qed
  moreover have "ran ?ids = {..<length ls}"
  proof
    show "ran ?ids \<subseteq> {..<length ls}" by (auto simp: ran_def dest!: map_of_SomeD set_zip_rightD)
    show "{..<length ls} \<subseteq> ran ?ids" using at by (auto intro: ranI)
  qed
  moreover have "set ?g = (\<lambda>l. node_id nc (mach_type (ext_node l), mach_num (ext_node l))) ` set ls"
    using types by (force simp: set_local_machines)
  ultimately show ?thesis using n dom by auto
qed

lemma queue_step_ids: "queue_step c nw = Some nw' \<Longrightarrow> globalToLocalMap nw' = globalToLocalMap nw \<and> nw_nodes nw' = nw_nodes nw
    \<and> m_topology nw' = m_topology nw"
  by (cases c) (auto simp: setToNetQueue_def setFromNetQueue_def checkNetworkAllocation_def bind_eq_Some_conv split: if_splits)

lemma Network_new_ids:
  assumes "Network_new p = Some nw"
  shows "number_machines (np_ruby_system p) (np_ext_links p) = Some (globalToLocalMap nw, nw_nodes nw)"
    "Topology_new (np_num_routers p) (np_virtual_networks p) (np_ext_links p) (np_int_links p) (np_ruby_system p) = Some (m_topology nw)"
proof -
  from assms obtain ids n t where
    0: "number_machines (np_ruby_system p) (np_ext_links p) = Some (ids, n)"
      "Topology_new (np_num_routers p) (np_virtual_networks p) (np_ext_links p) (np_int_links p) (np_ruby_system p) = Some t"
      "init_queues p (network_start p ids n t) = Some nw"
    unfolding Network_new_def by (auto simp: bind_eq_Some_conv)
  let ?P = "\<lambda>x. globalToLocalMap x = ids \<and> nw_nodes x = n \<and> m_topology x = t"
  have "?P nw"
  proof (rule for_list_invariant [OF 0(3) [unfolded init_queues_def]])
    fix l s u assume s: "?P s" and u: "for_list queue_step (np_queues p (ext_node l)) s = Some u"
    show "?P u" by (rule for_list_invariant [OF u]) (use s queue_step_ids in auto)
  qed (simp add: network_start_def)
  then show "number_machines (np_ruby_system p) (np_ext_links p) = Some (globalToLocalMap nw, nw_nodes nw)"
    "Topology_new (np_num_routers p) (np_virtual_networks p) (np_ext_links p) (np_int_links p) (np_ruby_system p) = Some (m_topology nw)"
    using 0(1,2) by auto
qed

text \<open>C38. The local numbers are a renumbering of the controllers: in a network whose external links lead to different
  controllers, \<^verbatim>\<open>getLocalNodeID\<close> is defined for exactly the global numbers of these controllers, gives different numbers to
  different controllers, and uses all the numbers below \<^verbatim>\<open>m_nodes\<close>, which is the number of external links.\<close>
theorem getLocalNodeID_renumbers:
  assumes "Network_new p = Some nw" "nodes_ok (np_ruby_system p) (np_ext_links p)"
  shows "nw_nodes nw = length (np_ext_links p)
    \<and> (\<forall>i<nw_nodes nw. \<exists>!g. getLocalNodeID g nw = Some i)
    \<and> (\<forall>g. getLocalNodeID g nw \<noteq> None \<longleftrightarrow>
         (\<exists>l\<in>set (np_ext_links p). g = node_id (np_ruby_system p) (mach_type (ext_node l), mach_num (ext_node l))))
    \<and> (\<forall>g i. getLocalNodeID g nw = Some i \<longrightarrow> i < nw_nodes nw)"
proof -
  from numbering [OF assms(2)] Network_new_ids(1) [OF assms(1)] have
    n: "nw_nodes nw = length (np_ext_links p)" "inj_on (globalToLocalMap nw) (dom (globalToLocalMap nw))"
      "ran (globalToLocalMap nw) = {..<nw_nodes nw}"
      "dom (globalToLocalMap nw) = (\<lambda>l. node_id (np_ruby_system p) (mach_type (ext_node l), mach_num (ext_node l))) ` set (np_ext_links p)"
    by auto
  have "\<exists>!g. getLocalNodeID g nw = Some i" if "i < nw_nodes nw" for i
  proof -
    have "i \<in> ran (globalToLocalMap nw)" using that n(3) by simp
    then obtain g where g: "globalToLocalMap nw g = Some i" by (auto simp: ran_def)
    then show ?thesis unfolding getLocalNodeID_def
      by (intro ex1I [of _ g]) (auto intro: inj_onD [OF n(2)])
  qed
  moreover have "i < nw_nodes nw" if "getLocalNodeID g nw = Some i" for g i
    using that n(3) ranI by (fastforce simp: getLocalNodeID_def)
  moreover have "getLocalNodeID g nw \<noteq> None \<longleftrightarrow> g \<in> dom (globalToLocalMap nw)" for g
    by (auto simp: getLocalNodeID_def)
  ultimately show ?thesis using n(1,4) by (auto simp: image_iff)
qed

definition ex_ext_link :: "nat \<Rightarrow> BasicExtLink" where
  "ex_ext_link i = \<lparr>bl_ref = ExtL i, bl_latency = 1, bl_weight = 1, bl_mVnets = [], ext_node = \<lparr>mach_type = 0, mach_num = i\<rparr>, int_node = 0\<rparr>"

definition ex_params :: network_params where
  "ex_params = \<lparr>np_virtual_networks = 1, np_control_msg_size = 8, np_data_msg_size = 64, np_block_size = 64, np_num_routers = 1,
     np_ext_links = [ex_ext_link 1, ex_ext_link 0], np_int_links = [], np_ruby_system = [2], np_ranges = (\<lambda>m. []),
     np_queues = (\<lambda>m. [])\<rparr>"

theorem getLocalNodeID_renumbers_witness:
  "\<exists>nw. Network_new ex_params = Some nw \<and> nw_nodes nw = 2 \<and> (\<exists>!g. getLocalNodeID g nw = Some 1)"
proof -
  have "\<exists>nw. Network_new ex_params = Some nw"
    by (simp add: Network_new_def ex_params_def number_machines_def local_machines_def localNodeVersions_def ex_ext_link_def
        number_machine_def MachineType_base_number_def Topology_new_def add_ext_link_def addLink_def init_queues_def)
  then obtain nw where nw: "Network_new ex_params = Some nw" by blast
  have "nodes_ok (np_ruby_system ex_params) (np_ext_links ex_params)"
    by (simp add: nodes_ok_def ex_params_def ex_ext_link_def valid_machine_def)
  from getLocalNodeID_renumbers [OF nw this] nw show ?thesis by (auto simp: ex_params_def)
qed

end
