(* ===== verification/Network_Link.thy ===== *)
theory Network_Link
  imports Router_State
begin

text \<open>
  The links of Garnet (\<^verbatim>\<open>garnet/NetworkLink.{hh,cc}\<close>, \<^verbatim>\<open>CreditLink.hh\<close>), the bridges between clock domains
  and widths (\<^verbatim>\<open>NetworkBridge.{hh,cc}\<close>) and the wiring objects of \<^verbatim>\<open>GarnetLink.{hh,cc}\<close>.

  A link moves one flit per wakeup from its source queue, which belongs to somebody else, to its own
  buffer.  \<open>link_io\<close> is what a wakeup can touch: the link, its own consumer, the source queue and the
  link's buffer; the calls of \<^verbatim>\<open>scheduleEventAbsolute\<close> on the consumer at the other end are actions, as for
  the routers.  The counters of the statistics are 32 bits wide and wrap around.  The type of a link
  that nobody set (\<^verbatim>\<open>NUM_LINK_TYPES_\<close>) is \<open>None\<close>.

  A bridge is a link with more members, so its record extends that of the link.  Its sizes are computed
  by \<^verbatim>\<open>floor\<close> and \<^verbatim>\<open>ceil\<close> of a quotient of \<^verbatim>\<open>float\<close>s, which for operands below \<open>2 ^ 24\<close> are the integer
  quotients written here.
\<close>

subsection \<open>NetworkLink\<close>

datatype queue_ref =
    QOutput nat nat | QInputCredit nat nat | QNetIfOut nat nat | QNetIfCredit nat nat | QLink link_id

record NetworkLink =
  l_id :: link_id
  l_type :: "link_type option"
  l_latency :: cycles
  m_link_utilized :: "32 word"
  m_vc_load :: "32 word list"
  m_virt_nets :: nat
  mVnets :: "nat list"
  bitWidth :: nat
  link_consumer :: "consumer_ref option"
  link_srcQueue :: "queue_ref option"

definition NetworkLink_new :: "link_id \<Rightarrow> cycles \<Rightarrow> nat \<Rightarrow> nat list \<Rightarrow> nat \<Rightarrow> NetworkLink" where
  "NetworkLink_new lid latency virt_nets supported_vnets width =
     \<lparr>l_id = lid, l_type = None, l_latency = latency, m_link_utilized = 0, m_vc_load = [],
      m_virt_nets = virt_nets, mVnets = supported_vnets, bitWidth = width, link_consumer = None,
      link_srcQueue = None\<rparr>"

definition setLinkConsumer :: "consumer_ref \<Rightarrow> 'a NetworkLink_scheme \<Rightarrow> 'a NetworkLink_scheme" where
  "setLinkConsumer c l = l\<lparr>link_consumer := Some c\<rparr>"

definition setSourceQueue :: "queue_ref \<Rightarrow> 'a NetworkLink_scheme \<Rightarrow> 'a NetworkLink_scheme" where
  "setSourceQueue q l = l\<lparr>link_srcQueue := Some q\<rparr>"

definition setType :: "link_type \<Rightarrow> 'a NetworkLink_scheme \<Rightarrow> 'a NetworkLink_scheme" where
  "setType ty l = l\<lparr>l_type := Some ty\<rparr>"

text \<open>\<^verbatim>\<open>std::vector::resize\<close>: keep the first \<open>n\<close> elements, fill up with \<open>d\<close>.\<close>

definition resize :: "nat \<Rightarrow> 'b \<Rightarrow> 'b list \<Rightarrow> 'b list" where
  "resize n d xs = take n xs @ replicate (n - length xs) d"

lemma length_resize [simp]: "length (resize n d xs) = n"
  by (simp add: resize_def)

definition setVcsPerVnet :: "nat \<Rightarrow> 'a NetworkLink_scheme \<Rightarrow> 'a NetworkLink_scheme" where
  "setVcsPerVnet consumerVcs l = l\<lparr>m_vc_load := resize (m_virt_nets l * consumerVcs) 0 (m_vc_load l)\<rparr>"

record link_io =
  li_link :: NetworkLink
  li_self :: Consumer
  li_src :: flitBuffer
  li_buf :: flitBuffer
  li_acts :: "action list"

text \<open>The transfer of one flit, and the wakeup around it.\<close>

definition link_transfer :: "tick \<Rightarrow> link_io \<Rightarrow> link_io option" where
  "link_transfer curTick s =
     do { (t_flit, src) \<leftarrow> fb_getTopFlit (li_src s);
          let l = li_link s;
          check (l_type l \<noteq> None \<longrightarrow> m_width t_flit = bitWidth l \<and> (m_vnet t_flit \<in> set (mVnets l) \<or> mVnets l = []));
          let arrival = clock_edge (em_period (li_self s)) curTick (l_latency l);
          c \<leftarrow> link_consumer l;
          n \<leftarrow> at (m_vc_load l) (m_vc t_flit);
          Some (s\<lparr>li_src := src, li_buf := fb_insert (t_flit\<lparr>m_time := arrival\<rparr>) (li_buf s),
                  li_acts := li_acts s @ [Sched c arrival],
                  li_link := l\<lparr>m_link_utilized := m_link_utilized l + 1,
                    m_vc_load := (m_vc_load l)[m_vc t_flit := n + 1]\<rparr>\<rparr>) }"

definition NetworkLink_wakeup :: "tick \<Rightarrow> link_io \<Rightarrow> link_io option" where
  "NetworkLink_wakeup curTick s =
     do { check (link_srcQueue (li_link s) \<noteq> None);
          check (curTick = clock_edge (em_period (li_self s)) curTick 0);
          s1 \<leftarrow> (if fb_isReady curTick (li_src s) then link_transfer curTick s else Some s);
          Some (if \<not> fb_isEmpty (li_src s1)
                then s1\<lparr>li_self := scheduleEvent curTick 1 (li_self s1)\<rparr> else s1) }"

definition NetworkLink_resetStats :: "'a NetworkLink_scheme \<Rightarrow> 'a NetworkLink_scheme" where
  "NetworkLink_resetStats l = l\<lparr>m_vc_load := map (\<lambda>_. 0) (m_vc_load l), m_link_utilized := 0\<rparr>"

definition NetworkLink_functionalRead :: "(Message \<Rightarrow> bool) \<Rightarrow> flitBuffer \<Rightarrow> bool option" where
  "NetworkLink_functionalRead rd buf = fb_functionalRead rd buf"

definition NetworkLink_functionalWrite ::
  "(Message \<Rightarrow> Message \<times> bool) \<Rightarrow> flitBuffer \<Rightarrow> (flitBuffer \<times> nat) option"
where
  "NetworkLink_functionalWrite wr buf = fb_functionalWrite wr buf"

subsection \<open>NetworkBridge\<close>

datatype bridge_type = LINK_OBJECT | OBJECT_LINK

record NetworkBridge = NetworkLink +
  coBridge :: link_id
  nLink :: link_id
  enCdc :: bool
  enSerDes :: bool
  mType :: bridge_type
  cdcLatency :: cycles
  serDesLatency :: cycles
  lastScheduledAt :: tick
  lenBuffer :: "nat list"
  sizeSent :: "int list"
  flitsSent :: "int list"
  extraCredit :: "nat list list"

text \<open>The constructor also connects the link it stands next to: a \<open>LINK_OBJECT\<close> bridge reads that
  link's buffer and is its consumer, an \<open>OBJECT_LINK\<close> bridge feeds it.\<close>

definition NetworkBridge_new ::
  "bridge_type \<Rightarrow> cycles \<Rightarrow> cycles \<Rightarrow> NetworkLink \<Rightarrow> NetworkLink \<Rightarrow> NetworkBridge \<times> NetworkLink"
where
  "NetworkBridge_new vtype cdc_latency serdes_latency base link =
     (let br = NetworkLink.extend base (NetworkBridge.fields 0 (l_id link) True True vtype cdc_latency
                 serdes_latency 0 [] [] [] [])
      in (case vtype of
            LINK_OBJECT \<Rightarrow> (setSourceQueue (QLink (l_id link)) br, setLinkConsumer (CLink (l_id base)) link)
          | OBJECT_LINK \<Rightarrow> (setLinkConsumer (CLink (l_id link)) br, setSourceQueue (QLink (l_id base)) link)))"

definition initBridge :: "link_id \<Rightarrow> bool \<Rightarrow> bool \<Rightarrow> NetworkBridge \<Rightarrow> NetworkBridge" where
  "initBridge coBrid cdc_en serdes_en br = br\<lparr>coBridge := coBrid, enCdc := cdc_en, enSerDes := serdes_en\<rparr>"

text \<open>The bridge's own part of \<^verbatim>\<open>setVcsPerVnet\<close>, which goes on to call \<^verbatim>\<open>nLink->setVcsPerVnet\<close>.\<close>

definition NetworkBridge_setVcsPerVnet :: "nat \<Rightarrow> NetworkBridge \<Rightarrow> NetworkBridge" where
  "NetworkBridge_setVcsPerVnet consumerVcs br =
     (let n = consumerVcs * m_virt_nets br
      in (setVcsPerVnet consumerVcs br)
           \<lparr>lenBuffer := resize n 0 (lenBuffer br), sizeSent := resize n 0 (sizeSent br),
            flitsSent := resize n 0 (flitsSent br), extraCredit := resize n [] (extraCredit br)\<rparr>)"

text \<open>\<open>bridge_io\<close> is what a wakeup of a bridge can touch; \<open>bi_co\<close> is the bridge of the opposite direction,
  which \<^verbatim>\<open>neutralize\<close> informs, \<open>bi_width\<close> the width of \<^verbatim>\<open>nLink\<close> and \<open>bi_period\<close> the clock period of the object
  behind \<^verbatim>\<open>link_consumer\<close>.\<close>

record bridge_io =
  bi_bridge :: NetworkBridge
  bi_co :: NetworkBridge
  bi_self :: Consumer
  bi_src :: flitBuffer
  bi_buf :: flitBuffer
  bi_width :: nat
  bi_period :: tick
  bi_acts :: "action list"

definition bridge_scheduleFlit :: "tick \<Rightarrow> flit \<Rightarrow> cycles \<Rightarrow> bridge_io \<Rightarrow> bridge_io option" where
  "bridge_scheduleFlit curTick t_flit latency s =
     do { let br = bi_bridge s;
          let totLatency = (if enCdc br then latency + cdcLatency br else latency);
          c \<leftarrow> link_consumer br;
          let nextAvailTick = lastScheduledAt br + bi_period s;
          let sendTime = max nextAvailTick (clock_edge (bi_period s) curTick totLatency);
          Some (s\<lparr>bi_bridge := br\<lparr>lastScheduledAt := sendTime\<rparr>,
                  bi_buf := fb_insert (t_flit\<lparr>m_time := sendTime\<rparr>) (bi_buf s),
                  bi_acts := bi_acts s @ [Sched c sendTime]\<rparr>) }"

definition neutralize :: "nat \<Rightarrow> nat \<Rightarrow> NetworkBridge \<Rightarrow> NetworkBridge option" where
  "neutralize vc eCredit br =
     do { q \<leftarrow> at (extraCredit br) vc; Some (br\<lparr>extraCredit := (extraCredit br)[vc := q @ [eCredit]]\<rparr>) }"

text \<open>How many flits the deserialiser can send after one more narrow flit, and its bookkeeping: the
  result is \<^verbatim>\<open>flitPossible\<close>, \<^verbatim>\<open>num_flits\<close> and the bridge.  For a credit \<^verbatim>\<open>num_flits\<close> is not used.\<close>

definition des_possible :: "nat \<Rightarrow> nat \<Rightarrow> flit \<Rightarrow> NetworkBridge \<Rightarrow> (int \<times> int \<times> NetworkBridge) option" where
  "des_possible target_width cur_width t_flit br =
     do { let vc = m_vc t_flit;
          len \<leftarrow> at (lenBuffer br) vc;
          sent \<leftarrow> at (sizeSent br) vc;
          fsent \<leftarrow> at (flitsSent br) vc;
          if m_type t_flit = CREDIT then
            do { q \<leftarrow> at (extraCredit br) vc;
                 (case q of
                    [] \<Rightarrow> None
                  | e # es \<Rightarrow>
                      do { check (e \<noteq> 0);
                           if len + 1 = e
                           then Some (1, 0, br\<lparr>extraCredit := (extraCredit br)[vc := es], lenBuffer := (lenBuffer br)[vc := 0]\<rparr>)
                           else Some (0, 0, br\<lparr>lenBuffer := (lenBuffer br)[vc := len + 1]\<rparr>) }) }
          else if m_type t_flit = TAIL \<or> m_type t_flit = HEAD_TAIL then
            do { let sizeAvail = int (msgSize t_flit) - sent;
                 let flitPossible = - ((- sizeAvail) div int target_width);
                 check (flitPossible < 2);
                 Some (flitPossible, int (m_id t_flit) + 1 - fsent,
                       br\<lparr>flitsSent := (flitsSent br)[vc := 0], sizeSent := (sizeSent br)[vc := 0]\<rparr>) }
          else
            do { let sizeAvail = (int (m_id t_flit) + 1) * int cur_width - sent;
                 let flitPossible = sizeAvail div int target_width;
                 check (flitPossible < 2);
                 Some (flitPossible, int (m_id t_flit) + 1 - fsent,
                       if flitPossible \<noteq> 0
                       then br\<lparr>sizeSent := (sizeSent br)[vc := sent + int target_width],
                               flitsSent := (flitsSent br)[vc := int (m_id t_flit) + 1]\<rparr>
                       else br) } }"

definition bridge_deserialize :: "tick \<Rightarrow> nat \<Rightarrow> nat \<Rightarrow> flit \<Rightarrow> bridge_io \<Rightarrow> bridge_io option" where
  "bridge_deserialize curTick target_width cur_width t_flit s =
     do { (flitPossible, num_flits, br) \<leftarrow> des_possible target_width cur_width t_flit (bi_bridge s);
          let s1 = s\<lparr>bi_bridge := br\<rparr>;
          if flitPossible \<noteq> 0 then
            do { len \<leftarrow> at (lenBuffer br) (m_vc t_flit);
                 fl \<leftarrow> deserialize len (nat num_flits) target_width t_flit;
                 co \<leftarrow> (if m_type t_flit \<noteq> CREDIT then neutralize (m_vc t_flit) (nat num_flits) (bi_co s1)
                        else Some (bi_co s1));
                 bridge_scheduleFlit curTick fl (serDesLatency br)
                   (s1\<lparr>bi_co := co, bi_bridge := br\<lparr>lenBuffer := (lenBuffer br)[m_vc t_flit := 0]\<rparr>\<rparr>) }
          else Some s1 }"

definition ser_possible :: "nat \<Rightarrow> nat \<Rightarrow> flit \<Rightarrow> NetworkBridge \<Rightarrow> (int \<times> NetworkBridge) option" where
  "ser_possible target_width cur_width t_flit br =
     do { let vc = m_vc t_flit;
          sent \<leftarrow> at (sizeSent br) vc;
          fsent \<leftarrow> at (flitsSent br) vc;
          if m_type t_flit = CREDIT then
            do { q \<leftarrow> at (extraCredit br) vc;
                 (case q of
                    [] \<Rightarrow> None
                  | e # es \<Rightarrow> do { check (e \<noteq> 0); Some (int e, br\<lparr>extraCredit := (extraCredit br)[vc := es]\<rparr>) }) }
          else if m_type t_flit = HEAD \<or> m_type t_flit = BODY then
            do { let sizeAvail = (int (m_id t_flit) + 1) * int cur_width - sent;
                 let flitPossible = sizeAvail div int target_width;
                 Some (flitPossible,
                       if flitPossible \<noteq> 0
                       then br\<lparr>sizeSent := (sizeSent br)[vc := sent + flitPossible * int target_width],
                               flitsSent := (flitsSent br)[vc := fsent + flitPossible]\<rparr>
                       else br) }
          else
            do { let sizeAvail = int (msgSize t_flit) - sent;
                 Some (- ((- sizeAvail) div int target_width),
                       br\<lparr>sizeSent := (sizeSent br)[vc := 0], flitsSent := (flitsSent br)[vc := 0]\<rparr>) } }"

definition bridge_serialize :: "tick \<Rightarrow> nat \<Rightarrow> nat \<Rightarrow> flit \<Rightarrow> bridge_io \<Rightarrow> bridge_io option" where
  "bridge_serialize curTick target_width cur_width t_flit s =
     do { (flitPossible, br) \<leftarrow> ser_possible target_width cur_width t_flit (bi_bridge s);
          check (flitPossible > 0);
          let parts = nat flitPossible;
          s1 \<leftarrow> for_range (\<lambda>i s. do { fl \<leftarrow> serialize i parts target_width t_flit;
                  bridge_scheduleFlit curTick fl (serDesLatency br) s }) parts (s\<lparr>bi_bridge := br\<rparr>);
          if m_type t_flit \<noteq> CREDIT then
            do { co \<leftarrow> neutralize (m_vc t_flit) parts (bi_co s1); Some (s1\<lparr>bi_co := co\<rparr>) }
          else Some s1 }"

definition flitisizeAndSend :: "tick \<Rightarrow> flit \<Rightarrow> bridge_io \<Rightarrow> bridge_io option" where
  "flitisizeAndSend curTick t_flit s =
     (let br = bi_bridge s
      in if enSerDes br then
           do { let (target_width, cur_width) =
                  (if mType br = OBJECT_LINK then (bi_width s, bitWidth br) else (bitWidth br, bi_width s));
                check (target_width \<noteq> cur_width);
                if target_width > cur_width then bridge_deserialize curTick target_width cur_width t_flit s
                else bridge_serialize curTick target_width cur_width t_flit s }
         else bridge_scheduleFlit curTick t_flit 0 s)"

definition NetworkBridge_wakeup :: "tick \<Rightarrow> bridge_io \<Rightarrow> bridge_io option" where
  "NetworkBridge_wakeup curTick s =
     do { s1 \<leftarrow> (if fb_isReady curTick (bi_src s)
                then do { (t_flit, src) \<leftarrow> fb_getTopFlit (bi_src s);
                          flitisizeAndSend curTick t_flit (s\<lparr>bi_src := src\<rparr>) }
                else Some s);
          Some (if \<not> fb_isEmpty (bi_src s1)
                then s1\<lparr>bi_self := scheduleEvent curTick 1 (bi_self s1)\<rparr> else s1) }"

subsection \<open>GarnetIntLink and GarnetExtLink\<close>

text \<open>The two classes bundle the links and bridges of one connection.  \<^verbatim>\<open>init\<close> introduces the network bridge
  and the credit bridge of each side to each other; the constructor's null pointers are \<open>None\<close>.\<close>

definition init_pair ::
  "bool \<Rightarrow> bool \<Rightarrow> NetworkBridge \<times> NetworkBridge \<Rightarrow> NetworkBridge \<times> NetworkBridge"
where
  "init_pair cdc_en serdes_en p =
     (initBridge (l_id (snd p)) cdc_en serdes_en (fst p), initBridge (l_id (fst p)) cdc_en serdes_en (snd p))"

record GarnetIntLink =
  m_network_link :: link_id
  il_credit_link :: link_id
  srcCdcEn :: bool
  dstCdcEn :: bool
  srcSerdesEn :: bool
  dstSerdesEn :: bool
  srcBridgeEn :: bool
  dstBridgeEn :: bool
  srcBridges :: "(NetworkBridge \<times> NetworkBridge) option"
  dstBridges :: "(NetworkBridge \<times> NetworkBridge) option"

definition GarnetIntLink_new ::
  "link_id \<Rightarrow> link_id \<Rightarrow> bool \<times> bool \<Rightarrow> bool \<times> bool \<Rightarrow> (NetworkBridge \<times> NetworkBridge) option
     \<Rightarrow> (NetworkBridge \<times> NetworkBridge) option \<Rightarrow> GarnetIntLink"
where
  "GarnetIntLink_new network_link credit_link src dst src_bridges dst_bridges =
     (let srcEn = fst src \<or> snd src; dstEn = fst dst \<or> snd dst
      in \<lparr>m_network_link = network_link, il_credit_link = credit_link, srcCdcEn = fst src,
          dstCdcEn = fst dst, srcSerdesEn = snd src, dstSerdesEn = snd dst, srcBridgeEn = srcEn,
          dstBridgeEn = dstEn, srcBridges = (if srcEn then src_bridges else None),
          dstBridges = (if dstEn then dst_bridges else None)\<rparr>)"

definition GarnetIntLink_init :: "GarnetIntLink \<Rightarrow> GarnetIntLink option" where
  "GarnetIntLink_init g =
     do { g1 \<leftarrow> (if srcBridgeEn g
                then do { p \<leftarrow> srcBridges g;
                          Some (g\<lparr>srcBridges := Some (init_pair (srcCdcEn g) (srcSerdesEn g) p)\<rparr>) }
                else Some g);
          (if dstBridgeEn g1
           then do { p \<leftarrow> dstBridges g1;
                     Some (g1\<lparr>dstBridges := Some (init_pair (dstCdcEn g1) (dstSerdesEn g1) p)\<rparr>) }
           else Some g1) }"

record GarnetExtLink =
  m_network_links :: "link_id \<times> link_id"
  m_credit_links :: "link_id \<times> link_id"
  extCdcEn :: bool
  intCdcEn :: bool
  extSerdesEn :: bool
  intSerdesEn :: bool
  extBridgeEn :: bool
  intBridgeEn :: bool
  extBridges :: "((NetworkBridge \<times> NetworkBridge) \<times> (NetworkBridge \<times> NetworkBridge)) option"
  intBridges :: "((NetworkBridge \<times> NetworkBridge) \<times> (NetworkBridge \<times> NetworkBridge)) option"

definition GarnetExtLink_new ::
  "link_id \<times> link_id \<Rightarrow> link_id \<times> link_id \<Rightarrow> bool \<times> bool \<Rightarrow> bool \<times> bool
     \<Rightarrow> ((NetworkBridge \<times> NetworkBridge) \<times> (NetworkBridge \<times> NetworkBridge)) option
     \<Rightarrow> ((NetworkBridge \<times> NetworkBridge) \<times> (NetworkBridge \<times> NetworkBridge)) option \<Rightarrow> GarnetExtLink"
where
  "GarnetExtLink_new network_links credit_links ext intl ext_bridges int_bridges =
     (let extEn = fst ext \<or> snd ext; intEn = fst intl \<or> snd intl
      in \<lparr>m_network_links = network_links, m_credit_links = credit_links, extCdcEn = fst ext,
          intCdcEn = fst intl, extSerdesEn = snd ext, intSerdesEn = snd intl, extBridgeEn = extEn,
          intBridgeEn = intEn, extBridges = (if extEn then ext_bridges else None),
          intBridges = (if intEn then int_bridges else None)\<rparr>)"

definition GarnetExtLink_init :: "GarnetExtLink \<Rightarrow> GarnetExtLink option" where
  "GarnetExtLink_init g =
     do { g1 \<leftarrow> (if extBridgeEn g
                then do { p \<leftarrow> extBridges g;
                          Some (g\<lparr>extBridges := Some (map_prod (init_pair (extCdcEn g) (extSerdesEn g))
                            (init_pair (extCdcEn g) (extSerdesEn g)) p)\<rparr>) }
                else Some g);
          (if intBridgeEn g1
           then do { p \<leftarrow> intBridges g1;
                     Some (g1\<lparr>intBridges := Some (map_prod (init_pair (intCdcEn g1) (intSerdesEn g1))
                       (init_pair (intCdcEn g1) (intSerdesEn g1)) p)\<rparr>) }
           else Some g1) }"

subsection \<open>A link transfers flits in order\<close>

lemma link_transfer_Some:
  assumes "link_transfer now s = Some s'"
  obtains f src c n where "m_buffer (li_src s) = f # m_buffer src" "link_consumer (li_link s) = Some c"
    "m_vc f < length (m_vc_load (li_link s))"
    "s' = s\<lparr>li_src := src, li_buf := fb_insert (f\<lparr>m_time := clock_edge (em_period (li_self s)) now (l_latency (li_link s))\<rparr>) (li_buf s),
       li_acts := li_acts s @ [Sched c (clock_edge (em_period (li_self s)) now (l_latency (li_link s)))],
       li_link := (li_link s)\<lparr>m_link_utilized := m_link_utilized (li_link s) + 1,
         m_vc_load := (m_vc_load (li_link s))[m_vc f := n + 1]\<rparr>\<rparr>"
  using assms flit_fifo.deq_Some [of "li_src s"]
  by (auto simp: link_transfer_def Let_def bind_eq_Some_conv)

definition link_moved :: "tick \<Rightarrow> link_io \<Rightarrow> flit list" where
  "link_moved now s = (if fb_isReady now (li_src s) then [hd (m_buffer (li_src s))] else [])"

definition arrives :: "tick \<Rightarrow> flit \<Rightarrow> flit" where
  "arrives t f = f\<lparr>m_time := t\<rparr>"

lemma scheduleEvent_pending: "clock_edge (em_period c) now k \<in> pending (scheduleEvent now k c)"
  by (simp add: scheduleEvent_def pending_def set_insertSorted)

subsection \<open>A serialising bridge\<close>

text \<open>\<open>sends gs s s'\<close>: the flits \<open>gs\<close> were queued behind those that were there, at increasing times, each
  later than anything scheduled before, and the consumer was told of every one; nothing else changed.\<close>

definition sends :: "flit list \<Rightarrow> bridge_io \<Rightarrow> bridge_io \<Rightarrow> bool" where
  "sends gs s s' \<longleftrightarrow>
     (\<exists>ts c. length ts = length gs \<and> link_consumer (bi_bridge s) = Some c
        \<and> sorted_wrt (<) (lastScheduledAt (bi_bridge s) # ts)
        \<and> s' = s\<lparr>bi_bridge := (bi_bridge s)\<lparr>lastScheduledAt := last (lastScheduledAt (bi_bridge s) # ts)\<rparr>,
               bi_buf := (bi_buf s)\<lparr>m_buffer := m_buffer (bi_buf s) @ map2 (\<lambda>g t. g\<lparr>m_time := t\<rparr>) gs ts\<rparr>,
               bi_acts := bi_acts s @ map (Sched c) ts\<rparr>)"

lemma sorted_snoc_last:
  "sorted_wrt (<) (x # ts) \<Longrightarrow> last (x # ts) < (t :: 'a :: order) \<Longrightarrow> sorted_wrt (<) (x # ts @ [t])"
proof (induction ts arbitrary: x)
  case (Cons y ts)
  from Cons.IH [of y] Cons.prems have "sorted_wrt (<) (y # ts @ [t])" by simp
  moreover have "x < y" using Cons.prems(1) by simp
  ultimately show ?case using Cons.prems(1) by auto
qed simp

lemma sends_Nil: "link_consumer (bi_bridge s) = Some c \<Longrightarrow> sends [] s s"
  by (simp add: sends_def)

lemma sends_snoc:
  assumes "sends gs s s1" "0 < bi_period s"
  shows "\<exists>s2. bridge_scheduleFlit now g lat s1 = Some s2 \<and> sends (gs @ [g]) s s2"
proof -
  from assms(1) obtain ts c where ts: "length ts = length gs" "link_consumer (bi_bridge s) = Some c"
      "sorted_wrt (<) (lastScheduledAt (bi_bridge s) # ts)"
    and s1: "s1 = s\<lparr>bi_bridge := (bi_bridge s)\<lparr>lastScheduledAt := last (lastScheduledAt (bi_bridge s) # ts)\<rparr>,
               bi_buf := (bi_buf s)\<lparr>m_buffer := m_buffer (bi_buf s) @ map2 (\<lambda>g t. g\<lparr>m_time := t\<rparr>) gs ts\<rparr>,
               bi_acts := bi_acts s @ map (Sched c) ts\<rparr>"
    unfolding sends_def by blast
  let ?l = "last (lastScheduledAt (bi_bridge s) # ts)"
  define t where "t = max (?l + bi_period s) (clock_edge (bi_period s) now (if enCdc (bi_bridge s) then lat + cdcLatency (bi_bridge s) else lat))"
  have "?l < t" using assms(2) unfolding t_def by linarith
  then have sorted: "sorted_wrt (<) (lastScheduledAt (bi_bridge s) # ts @ [t])"
    using sorted_snoc_last [OF ts(3)] by blast
  have "bridge_scheduleFlit now g lat s1 = Some (s1\<lparr>bi_bridge := (bi_bridge s1)\<lparr>lastScheduledAt := t\<rparr>,
      bi_buf := fb_insert (g\<lparr>m_time := t\<rparr>) (bi_buf s1), bi_acts := bi_acts s1 @ [Sched c t]\<rparr>)"
    using ts(2) unfolding s1 t_def by (simp add: bridge_scheduleFlit_def Let_def)
  moreover have "sends (gs @ [g]) s (s1\<lparr>bi_bridge := (bi_bridge s1)\<lparr>lastScheduledAt := t\<rparr>,
      bi_buf := fb_insert (g\<lparr>m_time := t\<rparr>) (bi_buf s1), bi_acts := bi_acts s1 @ [Sched c t]\<rparr>)"
    unfolding sends_def using ts(1,2) sorted
    by (intro exI [of _ "ts @ [t]"] exI [of _ c]) (simp add: s1 fb_insert_def)
  ultimately show ?thesis by blast
qed

lemma serialize_loop:
  assumes "link_consumer (bi_bridge s) = Some c" "0 < bi_period s"
    and "\<And>i. i < n \<Longrightarrow> serialize i parts w f = Some (g i)"
  shows "\<exists>s'. for_range (\<lambda>i s. do { fl \<leftarrow> serialize i parts w f; bridge_scheduleFlit now fl lat s }) n s = Some s'
     \<and> sends (map g [0..<n]) s s'"
  using assms(3)
proof (induction n)
  case 0
  then show ?case using sends_Nil [OF assms(1)] by (simp add: for_range_def)
next
  case (Suc n)
  then obtain s1 where s1: "for_range (\<lambda>i s. do { fl \<leftarrow> serialize i parts w f; bridge_scheduleFlit now fl lat s }) n s = Some s1"
      "sends (map g [0..<n]) s s1" by auto
  from sends_snoc [OF s1(2) assms(2), of now "g n" lat] obtain s2
    where "bridge_scheduleFlit now (g n) lat s1 = Some s2" "sends (map g [0..<n] @ [g n]) s s2" by blast
  then show ?case using Suc.prems [of n] s1(1) by (simp add: for_range_def for_list_append)
qed

text \<open>The flits of a packet of \<open>ms\<close> bytes on a link of width \<open>k * w\<close>, and the packet on a link of width \<open>w\<close>.\<close>

definition packet_flit :: "flit \<Rightarrow> nat \<Rightarrow> nat \<Rightarrow> flit" where
  "packet_flit f w i =
     (flit_new (m_packet_id f) i (m_vc f) (m_vnet f) (m_route f) (divCeil (msgSize f) w) (m_msg_ptr f) (msgSize f) w (m_time f))
       \<lparr>m_enqueue_time := m_enqueue_time f, src_delay := src_delay f\<rparr>"

lemma serialize_packet_flit:
  assumes "m_type f \<noteq> CREDIT" "m_width f = k * w" "1 < k" "0 < w" "m_id f * k + i < divCeil (msgSize f) w"
  shows "serialize i parts w f = Some (packet_flit f w (m_id f * k + i))"
proof -
  have "divCeil (k * w) w = k" using assms(3,4) by (intro divCeil_unique) auto
  moreover have "w < k * w" using assms(3,4) by simp
  ultimately show ?thesis
    using assms by (simp add: serialize_def Let_def packet_flit_def)
qed

definition ser_ready :: "nat \<Rightarrow> nat \<Rightarrow> bridge_io \<Rightarrow> bool" where
  "ser_ready vc sent s \<longleftrightarrow> link_consumer (bi_bridge s) \<noteq> None \<and> 0 < bi_period s
     \<and> vc < length (sizeSent (bi_bridge s)) \<and> vc < length (flitsSent (bi_bridge s))
     \<and> vc < length (extraCredit (bi_co s)) \<and> sizeSent (bi_bridge s) ! vc = int sent"

lemma bridge_serialize_sends:
  assumes "m_type f \<noteq> CREDIT" "m_width f = k * w" "1 < k" "0 < w" "0 < parts"
    and "\<And>i. i < parts \<Longrightarrow> m_id f * k + i < divCeil (msgSize f) w"
    and "ser_possible w (m_width f) f (bi_bridge s) = Some (int parts, br)"
    and "ser_ready (m_vc f) sent s" "link_consumer br = link_consumer (bi_bridge s)"
  shows "\<exists>s1. sends (map (\<lambda>i. packet_flit f w (m_id f * k + i)) [0..<parts]) (s\<lparr>bi_bridge := br\<rparr>) s1
     \<and> bridge_serialize now w (m_width f) f s
        = Some (s1\<lparr>bi_co := (bi_co s)\<lparr>extraCredit := (extraCredit (bi_co s))[m_vc f := extraCredit (bi_co s) ! m_vc f @ [parts]]\<rparr>\<rparr>)"
proof -
  obtain c where c: "link_consumer (bi_bridge (s\<lparr>bi_bridge := br\<rparr>)) = Some c"
    using assms(8,9) by (auto simp: ser_ready_def)
  have "0 < bi_period (s\<lparr>bi_bridge := br\<rparr>)" using assms(8) by (simp add: ser_ready_def)
  from serialize_loop [OF c this serialize_packet_flit [OF assms(1-4,6)], of parts parts now "serDesLatency br"] obtain s1
    where s1: "for_range (\<lambda>i s. do { fl \<leftarrow> serialize i parts w f; bridge_scheduleFlit now fl (serDesLatency br) s }) parts
        (s\<lparr>bi_bridge := br\<rparr>) = Some s1"
      "sends (map (\<lambda>i. packet_flit f w (m_id f * k + i)) [0..<parts]) (s\<lparr>bi_bridge := br\<rparr>) s1" by auto
  then have "bi_co s1 = bi_co s" by (auto simp: sends_def)
  with s1 assms(1,5,7,8) show ?thesis
    by (intro exI [of _ s1]) (simp add: bridge_serialize_def Let_def neutralize_def ser_ready_def at_def)
qed

definition flit_sig :: "flit \<Rightarrow> nat \<times> nat \<times> nat \<times> flit_type \<times> nat \<times> nat \<times> nat \<times> nat \<times> RouteInfo \<times> Message option" where
  "flit_sig f = (m_packet_id f, m_id f, m_size f, m_type f, m_vc f, m_vnet f, m_width f, msgSize f, m_route f, m_msg_ptr f)"

lemma flit_sig_packet: "flit_sig f = flit_sig (packet_flit f0 v j) \<Longrightarrow> flit_sig (packet_flit f w i) = flit_sig (packet_flit f0 w i)"
  by (simp add: flit_sig_def packet_flit_def flit_new_def)

lemma flit_sig_time [simp]: "flit_sig (g\<lparr>m_time := t\<rparr>) = flit_sig g"
  by (simp add: flit_sig_def)

lemma sorted_chain:
  "sorted_wrt (<) (x # ts) \<Longrightarrow> sorted_wrt (<) (last (x # ts) # us) \<Longrightarrow> sorted_wrt (<) ((x :: 'a :: order) # ts @ us)"
proof (induction us rule: rev_induct)
  case (snoc u us)
  have "sorted_wrt (<) (last (x # ts) # us)" "last (last (x # ts) # us) < u"
    using snoc.prems(2) by (auto simp: sorted_wrt_append)
  then have "sorted_wrt (<) (x # ts @ us)" "last (x # ts @ us) < u" using snoc.IH [OF snoc.prems(1)] by (auto split: if_splits)
  then show ?case using sorted_snoc_last [of x "ts @ us" u] by simp
qed simp

text \<open>The state after the first \<open>m\<close> narrow flits of a packet were queued, starting from \<open>s0\<close>.\<close>

definition queued :: "flit \<Rightarrow> nat \<Rightarrow> bridge_io \<Rightarrow> nat \<Rightarrow> bridge_io \<Rightarrow> bool" where
  "queued f0 w s0 m s \<longleftrightarrow>
     (\<exists>new. m_buffer (bi_buf s) = m_buffer (bi_buf s0) @ new
        \<and> map flit_sig new = map (\<lambda>i. flit_sig (packet_flit f0 w i)) [0..<m]
        \<and> sorted_wrt (<) (lastScheduledAt (bi_bridge s0) # map m_time new)
        \<and> lastScheduledAt (bi_bridge s) = last (lastScheduledAt (bi_bridge s0) # map m_time new))"

lemma stamped:
  "length ts = length gs \<Longrightarrow> map m_time (map2 (\<lambda>g t. g\<lparr>m_time := t\<rparr>) gs ts) = ts
     \<and> map flit_sig (map2 (\<lambda>g t. g\<lparr>m_time := t\<rparr>) gs ts) = map flit_sig gs"
  by (induction ts gs rule: list_induct2) auto

lemma queued_sends:
  assumes q: "queued f0 w s0 m s" and br: "lastScheduledAt br = lastScheduledAt (bi_bridge s)"
    and s1: "sends gs (s\<lparr>bi_bridge := br\<rparr>) s1"
    and gs: "map flit_sig gs = map (\<lambda>i. flit_sig (packet_flit f0 w i)) [m..<m + k]"
  shows "queued f0 w s0 (m + k) (s1\<lparr>bi_co := co\<rparr>)"
proof -
  from q obtain new where new: "m_buffer (bi_buf s) = m_buffer (bi_buf s0) @ new"
      "map flit_sig new = map (\<lambda>i. flit_sig (packet_flit f0 w i)) [0..<m]"
      "sorted_wrt (<) (lastScheduledAt (bi_bridge s0) # map m_time new)"
      "lastScheduledAt (bi_bridge s) = last (lastScheduledAt (bi_bridge s0) # map m_time new)"
    unfolding queued_def by blast
  from s1 obtain ts where "length ts = length gs" "sorted_wrt (<) (lastScheduledAt br # ts)"
      "m_buffer (bi_buf s1) = m_buffer (bi_buf s) @ map2 (\<lambda>g t. g\<lparr>m_time := t\<rparr>) gs ts"
      "lastScheduledAt (bi_bridge s1) = last (lastScheduledAt br # ts)"
    unfolding sends_def by (elim exE conjE) simp
  note ts = this [unfolded br]
  let ?out = "map2 (\<lambda>g t. g\<lparr>m_time := t\<rparr>) gs ts"
  have out: "map m_time ?out = ts" "map flit_sig ?out = map flit_sig gs"
    using stamped [OF ts(1)] by auto
  have "sorted_wrt (<) (lastScheduledAt (bi_bridge s0) # map m_time (new @ ?out))"
    using sorted_chain [OF new(3)] ts(2) new(4) out(1) by simp
  moreover have "map flit_sig (new @ ?out) = map (\<lambda>i. flit_sig (packet_flit f0 w i)) [0..<m + k]"
    using new(2) out(2) gs upt_add_eq_append [of 0 m k] by simp
  moreover have "lastScheduledAt (bi_bridge s1) = last (lastScheduledAt (bi_bridge s0) # map m_time (new @ ?out))"
    using ts(4) new(4) out(1) by simp
  ultimately show ?thesis
    unfolding queued_def using new(1) ts(3) by (intro exI [of _ "new @ ?out"]) simp
qed

lemma divCeil_gt_iff: "0 < b \<Longrightarrow> m < divCeil a b \<longleftrightarrow> m * b < a"
proof -
  assume b: "0 < b"
  have "m < divCeil a b \<longleftrightarrow> Suc m * b \<le> a + b - 1"
    unfolding divCeil_def using less_eq_div_iff_mult_less_eq [OF b, of "Suc m" "a + b - 1"] by auto
  also have "\<dots> \<longleftrightarrow> m * b < a" using b by auto
  finally show ?thesis .
qed

lemma packet_ceil:
  assumes "0 < w"
  shows "- ((int m * int w - int a) div int w) = int (divCeil a w) - int m"
proof -
  have "(int m * int w - int a) div int w = int m + (- int a) div int w"
    using assms div_mult_self4 [of "int w" "int m" "- int a"] by (simp add: algebra_simps)
  moreover have "(- int a) div int w = - int (divCeil a w)"
  proof (rule int_div_pos_eq)
    show "- int a = int w * - int (divCeil a w) + int (divCeil a w * w - a)"
      using divCeil_ge [OF assms, of a] by (simp add: of_nat_diff algebra_simps)
    show "int (divCeil a w * w - a) < int w" using divCeil_less [OF assms, of a] assms by linarith
  qed simp
  ultimately show ?thesis by simp
qed

lemma packet_parts:
  assumes "1 < k" "0 < w" "j < divCeil ms (k * w)"
    and "parts = (if Suc j < divCeil ms (k * w) then k else divCeil ms w - j * k)"
  shows "0 < parts \<and> parts \<le> k \<and> (\<forall>i<parts. j * k + i < divCeil ms w)
     \<and> (\<not> Suc j < divCeil ms (k * w) \<longrightarrow> j * k + parts = divCeil ms w)"
proof -
  have W: "0 < k * w" using assms by simp
  have 1: "j * k < divCeil ms w"
    using assms(3) by (simp add: divCeil_gt_iff [OF W] divCeil_gt_iff [OF assms(2)] mult.assoc)
  have 2: "Suc j < divCeil ms (k * w) \<longleftrightarrow> j * k + k < divCeil ms w"
    by (simp add: divCeil_gt_iff [OF W] divCeil_gt_iff [OF assms(2)] algebra_simps)
  show ?thesis using 1 2 assms(1,4) by auto
qed

text \<open>One wide flit of the packet.\<close>

lemma packet_step:
  assumes f: "flit_sig f = flit_sig (packet_flit f0 (k * w) j)" and k: "1 < k" "0 < w"
    and j: "j < divCeil (msgSize f0) (k * w)"
    and ready: "ser_ready (m_vc f0) (j * (k * w)) s" and q: "queued f0 w s0 (j * k) s"
  shows "\<exists>s' parts. bridge_serialize now w (k * w) f s = Some s' \<and> 0 < parts \<and> parts \<le> k
     \<and> extraCredit (bi_co s') ! m_vc f0 = extraCredit (bi_co s) ! m_vc f0 @ [parts]
     \<and> (if Suc j < divCeil (msgSize f0) (k * w)
        then parts = k \<and> ser_ready (m_vc f0) (Suc j * (k * w)) s' \<and> queued f0 w s0 (Suc j * k) s'
        else j * k + parts = divCeil (msgSize f0) w \<and> ser_ready (m_vc f0) 0 s' \<and> queued f0 w s0 (j * k + parts) s')"
proof -
  let ?W = "k * w" and ?n = "divCeil (msgSize f0) (k * w)" and ?vc = "m_vc f0" and ?br = "bi_bridge s"
  have W: "0 < ?W" using k by simp
  have fs: "m_vc f = ?vc" "m_id f = j" "m_width f = ?W" "msgSize f = msgSize f0"
      "m_type f = m_type (packet_flit f0 ?W j)"
    using f by (auto simp: flit_sig_def packet_flit_def flit_new_def)
  have ty: "m_type f \<noteq> CREDIT" "Suc j < ?n \<Longrightarrow> m_type f = HEAD \<or> m_type f = BODY"
      "\<not> Suc j < ?n \<Longrightarrow> m_type f = TAIL \<or> m_type f = HEAD_TAIL"
    using fs(5) j by (auto simp: packet_flit_def flit_new_def)
  define parts where "parts = (if Suc j < ?n then k else divCeil (msgSize f0) w - j * k)"
  have pos: "0 < parts" "parts \<le> k" and room: "\<And>i. i < parts \<Longrightarrow> j * k + i < divCeil (msgSize f0) w"
    and all: "\<not> Suc j < ?n \<Longrightarrow> j * k + parts = divCeil (msgSize f0) w"
    using packet_parts [OF k j parts_def] by auto
  define br where "br = ?br\<lparr>sizeSent := (sizeSent ?br)[?vc := if Suc j < ?n then int (Suc j * ?W) else 0],
      flitsSent := (flitsSent ?br)[?vc := if Suc j < ?n then flitsSent ?br ! ?vc + int k else 0]\<rparr>"
  have "ser_possible w (m_width f) f ?br = Some (int parts, br)"
  proof (cases "Suc j < ?n")
    case True
    then have "((int j + 1) * int ?W - int (j * ?W)) div int w = int k" using k by (simp add: algebra_simps)
    with True ready ty(1,2) k show ?thesis
      by (simp add: ser_possible_def fs Let_def at_def ser_ready_def br_def parts_def algebra_simps)
  next
    case False
    have "int (divCeil (msgSize f0) w) = int (j * k) + int parts" using all [OF False] by linarith
    then have "- ((int (j * ?W) - int (msgSize f0)) div int w) = int parts"
      using packet_ceil [OF k(2), of "j * k" "msgSize f0"] by (simp add: mult.assoc)
    moreover have "m_type f \<noteq> HEAD" "m_type f \<noteq> BODY" using ty(3) [OF False] by auto
    ultimately show ?thesis
      using False ready ty(1) by (simp add: ser_possible_def fs Let_def at_def ser_ready_def br_def)
  qed
  from bridge_serialize_sends [OF ty(1) fs(3) k pos(1) _ this _, of "j * ?W" now] room ready fs
  obtain s1 where s1: "sends (map (\<lambda>i. packet_flit f w (j * k + i)) [0..<parts]) (s\<lparr>bi_bridge := br\<rparr>) s1"
    "bridge_serialize now w ?W f s
        = Some (s1\<lparr>bi_co := (bi_co s)\<lparr>extraCredit := (extraCredit (bi_co s))[?vc := extraCredit (bi_co s) ! ?vc @ [parts]]\<rparr>\<rparr>)"
    by (auto simp: br_def)
  have "map flit_sig (map (\<lambda>i. packet_flit f w (j * k + i)) [0..<parts]) = map (\<lambda>i. flit_sig (packet_flit f0 w i)) [j * k..<j * k + parts]"
    using flit_sig_packet [OF f] by (intro nth_equalityI) auto
  from queued_sends [OF q _ s1(1) this] have "queued f0 w s0 (j * k + parts) (s1\<lparr>bi_co := co\<rparr>)" for co
    by (simp add: br_def)
  moreover have "ser_ready ?vc (if Suc j < ?n then Suc j * ?W else 0) (s1\<lparr>bi_co := (bi_co s)\<lparr>extraCredit := (extraCredit (bi_co s))[?vc := x]\<rparr>\<rparr>)" for x
    using ready s1(1) by (auto simp: sends_def ser_ready_def br_def)
  moreover have "Suc j < ?n \<Longrightarrow> parts = k" by (simp add: parts_def)
  moreover have "?vc < length (extraCredit (bi_co s))" using ready by (simp add: ser_ready_def)
  ultimately show ?thesis
    using s1(2) pos all
    by (intro exI [of _ "s1\<lparr>bi_co := (bi_co s)\<lparr>extraCredit := (extraCredit (bi_co s))[?vc := extraCredit (bi_co s) ! ?vc @ [parts]]\<rparr>\<rparr>"]
        exI [of _ parts]) (cases "Suc j < ?n"; simp add: add.commute)
qed

lemma packet_prefix:
  assumes fs: "\<And>j. j < n \<Longrightarrow> flit_sig (f j) = flit_sig (packet_flit f0 (k * w) j)" and k: "1 < k" "0 < w"
    and n: "n = divCeil (msgSize f0) (k * w)" and s0: "ser_ready (m_vc f0) 0 s0" and m: "m < n"
  shows "\<exists>s. for_list (\<lambda>j. bridge_serialize (now j) w (k * w) (f j)) [0..<m] s0 = Some s
     \<and> ser_ready (m_vc f0) (m * (k * w)) s \<and> queued f0 w s0 (m * k) s
     \<and> extraCredit (bi_co s) ! m_vc f0 = extraCredit (bi_co s0) ! m_vc f0 @ replicate m k"
  using m
proof (induction m)
  case 0
  then show ?case using s0 by (simp add: queued_def)
next
  case (Suc m)
  then obtain s where s: "for_list (\<lambda>j. bridge_serialize (now j) w (k * w) (f j)) [0..<m] s0 = Some s"
      "ser_ready (m_vc f0) (m * (k * w)) s" "queued f0 w s0 (m * k) s"
      "extraCredit (bi_co s) ! m_vc f0 = extraCredit (bi_co s0) ! m_vc f0 @ replicate m k" by auto
  have "m < n" "Suc m < divCeil (msgSize f0) (k * w)" using Suc.prems n by auto
  from packet_step [OF fs [OF this(1)] k _ s(2,3), of "now m"] this obtain s'
    where "bridge_serialize (now m) w (k * w) (f m) s = Some s'"
      "extraCredit (bi_co s') ! m_vc f0 = extraCredit (bi_co s) ! m_vc f0 @ [k]"
      "ser_ready (m_vc f0) (Suc m * (k * w)) s'" "queued f0 w s0 (Suc m * k) s'" by auto
  then show ?case using s(1,4) by (auto simp: for_list_append replicate_append_same)
qed

subsection \<open>A bridge that merges credits\<close>

definition des_ready :: "nat \<Rightarrow> nat \<Rightarrow> nat list \<Rightarrow> bridge_io \<Rightarrow> bool" where
  "des_ready vc len es s \<longleftrightarrow> link_consumer (bi_bridge s) \<noteq> None
     \<and> vc < length (lenBuffer (bi_bridge s)) \<and> vc < length (sizeSent (bi_bridge s))
     \<and> vc < length (flitsSent (bi_bridge s)) \<and> vc < length (extraCredit (bi_bridge s))
     \<and> lenBuffer (bi_bridge s) ! vc = len \<and> extraCredit (bi_bridge s) ! vc = es"

lemma bridge_scheduleFlit_Some:
  "link_consumer (bi_bridge s) = Some r \<Longrightarrow>
     \<exists>t. bridge_scheduleFlit now f lat s = Some (s\<lparr>bi_bridge := (bi_bridge s)\<lparr>lastScheduledAt := t\<rparr>,
       bi_buf := fb_insert (f\<lparr>m_time := t\<rparr>) (bi_buf s), bi_acts := bi_acts s @ [Sched r t]\<rparr>)"
  by (auto simp: bridge_scheduleFlit_def Let_def)

lemma credit_step:
  assumes "des_ready vc len (e # es) s" "len < e" "m_type c = CREDIT" "m_vc c = vc"
  shows "\<exists>s'. bridge_deserialize now tw cw c s = Some s'
     \<and> (if len + 1 = e
        then des_ready vc 0 es s' \<and> (\<exists>t. m_buffer (bi_buf s') = m_buffer (bi_buf s) @ [(Credit_new vc (m_is_free_signal c) (m_time c))\<lparr>m_time := t\<rparr>])
        else des_ready vc (len + 1) (e # es) s' \<and> bi_buf s' = bi_buf s)"
proof (cases "len + 1 = e")
  case True
  let ?br = "bi_bridge s"
  let ?br1 = "?br\<lparr>extraCredit := (extraCredit ?br)[vc := es], lenBuffer := (lenBuffer ?br)[vc := 0]\<rparr>"
  let ?c = "Credit_new vc (m_is_free_signal c) (m_time c)"
  from assms(1) obtain r where r: "link_consumer ?br = Some r" by (auto simp: des_ready_def)
  have poss: "des_possible tw cw c ?br = Some (1, 0, ?br1)"
    using True assms by (simp add: des_possible_def des_ready_def at_def Let_def)
  have "link_consumer (bi_bridge (s\<lparr>bi_bridge := ?br1\<rparr>)) = Some r" using r by simp
  from bridge_scheduleFlit_Some [OF this, of now ?c "serDesLatency ?br"] obtain t where
    sched: "bridge_scheduleFlit now ?c (serDesLatency ?br) (s\<lparr>bi_bridge := ?br1\<rparr>)
      = Some (s\<lparr>bi_bridge := ?br1\<lparr>lastScheduledAt := t\<rparr>, bi_buf := fb_insert (?c\<lparr>m_time := t\<rparr>) (bi_buf s),
          bi_acts := bi_acts s @ [Sched r t]\<rparr>)" by auto
  have "bridge_deserialize now tw cw c s = bridge_scheduleFlit now ?c (serDesLatency ?br) (s\<lparr>bi_bridge := ?br1\<rparr>)"
    using assms by (simp add: bridge_deserialize_def poss at_def des_ready_def deserialize_def)
  with sched assms True show ?thesis by (auto simp: des_ready_def)
next
  case False
  with assms show ?thesis
    by (simp add: bridge_deserialize_def des_possible_def des_ready_def at_def Let_def)
qed

lemma credit_group:
  assumes "des_ready vc len (e # es) s" "\<forall>c\<in>set cs. m_type c = CREDIT \<and> m_vc c = vc"
    and "cs \<noteq> []" "len + length cs = e"
  shows "\<exists>s' t. for_list (\<lambda>c. bridge_deserialize now tw cw c) cs s = Some s' \<and> des_ready vc 0 es s'
     \<and> m_buffer (bi_buf s') = m_buffer (bi_buf s) @ [(Credit_new vc (m_is_free_signal (last cs)) (m_time (last cs)))\<lparr>m_time := t\<rparr>]"
  using assms
proof (induction cs arbitrary: len s)
  case Nil
  then show ?case by simp
next
  case (Cons c cs)
  from credit_step [OF Cons.prems(1), of c now tw cw] Cons.prems(2,4) obtain s1 where
    s1: "bridge_deserialize now tw cw c s = Some s1"
      "if len + 1 = e
        then des_ready vc 0 es s1 \<and> (\<exists>t. m_buffer (bi_buf s1) = m_buffer (bi_buf s) @ [(Credit_new vc (m_is_free_signal c) (m_time c))\<lparr>m_time := t\<rparr>])
        else des_ready vc (len + 1) (e # es) s1 \<and> bi_buf s1 = bi_buf s" by auto
  show ?case
  proof (cases "cs = []")
    case True
    then show ?thesis using s1 Cons.prems(4) by auto
  next
    case False
    then have "des_ready vc (len + 1) (e # es) s1" "bi_buf s1 = bi_buf s"
      using s1(2) Cons.prems(4) by (auto split: if_splits)
    with Cons.IH [of "len + 1" s1] False Cons.prems(2,4) s1(1) show ?thesis by auto
  qed
qed

lemma for_list_stuck: "i \<in> set xs \<Longrightarrow> (\<And>s. f i s = None) \<Longrightarrow> for_list f xs s = None"
  by (induction xs arbitrary: s) (auto split: Option.bind_split)

lemma bridge_serialize_sizeSent:
  assumes "bridge_serialize now w c f s = Some s'" "ser_possible w c f (bi_bridge s) = Some (p, br)"
  shows "sizeSent (bi_bridge s') = sizeSent br"
proof -
  from assms obtain s1 where
    s1: "for_range (\<lambda>i s. do { fl \<leftarrow> serialize i (nat p) w f; bridge_scheduleFlit now fl (serDesLatency br) s }) (nat p)
        (s\<lparr>bi_bridge := br\<rparr>) = Some s1" "bi_bridge s' = bi_bridge s1"
    by (auto simp: bridge_serialize_def Let_def bind_eq_Some_conv split: if_splits)
  from s1(1) have "sizeSent (bi_bridge s1) = sizeSent br"
    by (rule for_range_invariant [where P = "\<lambda>_ s. sizeSent (bi_bridge s) = sizeSent br"])
      (auto simp: bind_eq_Some_conv bridge_scheduleFlit_def Let_def)
  then show ?thesis using s1(2) by simp
qed

lemma serialize_uneven_stuck:
  assumes w: "0 < w" and g: "m_type g = TAIL" "m_id g = 1" "msgSize g = 2 * c" "m_width g = c" "divCeil c w = 2"
    and N: "2 < divCeil (2 * c) w" and sent: "sizeSent (bi_bridge s) ! m_vc g = int w"
  shows "bridge_serialize now w c g s = None"
proof (cases "ser_possible w c g (bi_bridge s)")
  case None
  then show ?thesis by (simp add: bridge_serialize_def)
next
  case (Some r)
  let ?N = "divCeil (2 * c) w"
  have "- ((int w - int (2 * c)) div int w) = int ?N - 1" using packet_ceil [OF w, of 1 "2 * c"] by simp
  with Some sent g obtain br where r: "r = (int ?N - 1, br)"
    by (auto simp: ser_possible_def Let_def bind_eq_Some_conv)
  have "serialize (?N - 2) (?N - 1) w g = None"
    using N g by (simp add: serialize_def Let_def)
  then have "for_range (\<lambda>i s. do { fl \<leftarrow> serialize i (?N - 1) w g; bridge_scheduleFlit now fl (serDesLatency br) s })
      (?N - 1) s1 = None" for s1
    using N unfolding for_range_def by (intro for_list_stuck [of "?N - 2"]) auto
  moreover have "nat (int ?N - 1) = ?N - 1" by simp
  ultimately show ?thesis
    using Some r by (simp add: bridge_serialize_def Let_def)
qed

subsection \<open>Properties\<close>

text \<open>C26. A link is a pipe of fixed latency: a wakeup takes the oldest flit of the source queue exactly when
  it is due, appends it unchanged but for its time to the link's buffer, tells the consumer to look at
  the arrival time, \<^verbatim>\<open>m_latency\<close> cycles later, and counts it; if flits are left in the source queue the link is due
  again one cycle later.\<close>
theorem NetworkLink_wakeup_transfers:
  assumes "NetworkLink_wakeup now s = Some s'"
  shows "let arrival = now + em_period (li_self s) * l_latency (li_link s) in
      m_buffer (li_src s) = link_moved now s @ m_buffer (li_src s')
    \<and> m_buffer (li_buf s') = m_buffer (li_buf s) @ map (arrives arrival) (link_moved now s)
    \<and> (\<exists>c. li_acts s' = li_acts s @ map (\<lambda>_. Sched c arrival) (link_moved now s))
    \<and> m_link_utilized (li_link s') = m_link_utilized (li_link s) + of_nat (length (link_moved now s))
    \<and> (m_buffer (li_src s') \<noteq> [] \<longrightarrow> now + em_period (li_self s) \<in> pending (li_self s'))"
proof -
  let ?p = "em_period (li_self s)"
  have edge: "now = clock_edge ?p now 0" using assms by (simp add: NetworkLink_wakeup_def bind_eq_Some_conv)
  then have k: "clock_edge ?p now k = now + ?p * k" for k by (simp add: clock_edge_def)
  obtain s1 where s1: "(if fb_isReady now (li_src s) then link_transfer now s else Some s) = Some s1"
      "s' = (if \<not> fb_isEmpty (li_src s1) then s1\<lparr>li_self := scheduleEvent now 1 (li_self s1)\<rparr> else s1)"
    using assms by (auto simp: NetworkLink_wakeup_def bind_eq_Some_conv)
  have next_due: "m_buffer (li_src s') \<noteq> [] \<longrightarrow> now + ?p \<in> pending (li_self s')" if "li_self s1 = li_self s"
    using s1(2) that scheduleEvent_pending [of "li_self s" now 1] k [of 1] by (auto simp: fb_isEmpty_def)
  show ?thesis
  proof (cases "fb_isReady now (li_src s)")
    case True
    then have "link_transfer now s = Some s1" using s1(1) by simp
    then show ?thesis
    proof (cases rule: link_transfer_Some)
      case (1 f src c n)
      then show ?thesis using True s1(2) next_due k by (auto simp: link_moved_def Let_def arrives_def)
    qed
  next
    case False
    then show ?thesis using s1 next_due by (auto simp: link_moved_def)
  qed
qed

definition ex_link_io :: link_io where
  "ex_link_io = \<lparr>li_link = setVcsPerVnet 1 (setSourceQueue (QOutput 0 0) (setLinkConsumer (CRouter 1) (NetworkLink_new 4 2 1 [] 16))),
     li_self = Consumer_new 500, li_src = fb_insert (Credit_new 0 True 500) flitBuffer_new, li_buf = flitBuffer_new, li_acts = []\<rparr>"

theorem NetworkLink_wakeup_transfers_witness:
  "\<exists>s'. NetworkLink_wakeup 500 ex_link_io = Some s' \<and> m_buffer (li_buf s') = [(Credit_new 0 True 500)\<lparr>m_time := 1500\<rparr>]"
proof -
  have "\<exists>s'. NetworkLink_wakeup 500 ex_link_io = Some s'"
    by (simp add: NetworkLink_wakeup_def ex_link_io_def clock_edge_def divCeil_def Consumer_new_def fb_isReady_iff
        flitBuffer_new_def Credit_new_def flit_new_def link_transfer_def fb_getTopFlit_def setVcsPerVnet_def resize_def
        setSourceQueue_def setLinkConsumer_def NetworkLink_new_def fb_insert_def at_def)
  then obtain s' where s': "NetworkLink_wakeup 500 ex_link_io = Some s'" by blast
  with NetworkLink_wakeup_transfers [OF s'] show ?thesis
    by (auto simp: Let_def link_moved_def ex_link_io_def fb_isReady_iff flitBuffer_new_def Credit_new_def flit_new_def
        arrives_def Consumer_new_def setVcsPerVnet_def setSourceQueue_def setLinkConsumer_def NetworkLink_new_def)
qed

text \<open>C27. A serialising bridge re-packages a packet faithfully: the flits of a packet on a link \<open>k\<close> times as
  wide come out as exactly the flits of the same message on the narrow link, none missing or
  repeated, in order and at increasing times, the bookkeeping of the virtual channel is back at its start,
  and the credit bridge of the opposite direction is told, for every wide flit, how many narrow flits it
  became.\<close>
theorem bridge_serializes_packet:
  assumes "\<And>j. j < n \<Longrightarrow> flit_sig (f j) = flit_sig (packet_flit f0 (k * w) j)" "1 < k" "0 < w" "0 < msgSize f0"
    and "n = divCeil (msgSize f0) (k * w)" "ser_ready (m_vc f0) 0 s0"
  shows "\<exists>s new es. for_list (\<lambda>j. bridge_serialize (now j) w (k * w) (f j)) [0..<n] s0 = Some s
     \<and> ser_ready (m_vc f0) 0 s
     \<and> m_buffer (bi_buf s) = m_buffer (bi_buf s0) @ new
     \<and> map flit_sig new = map (\<lambda>i. flit_sig (packet_flit f0 w i)) [0..<divCeil (msgSize f0) w]
     \<and> sorted_wrt (<) (lastScheduledAt (bi_bridge s0) # map m_time new)
     \<and> extraCredit (bi_co s) ! m_vc f0 = extraCredit (bi_co s0) ! m_vc f0 @ es
     \<and> length es = n \<and> 0 \<notin> set es \<and> sum_list es = length new"
proof -
  have "0 < n" using assms(2-5) divCeil_gt_iff [of "k * w" 0 "msgSize f0"] by simp
  then obtain m where m: "n = Suc m" by (cases n) auto
  from packet_prefix [OF assms(1,2,3,5,6), of m now] m obtain s where
    s: "for_list (\<lambda>j. bridge_serialize (now j) w (k * w) (f j)) [0..<m] s0 = Some s"
      "ser_ready (m_vc f0) (m * (k * w)) s" "queued f0 w s0 (m * k) s"
      "extraCredit (bi_co s) ! m_vc f0 = extraCredit (bi_co s0) ! m_vc f0 @ replicate m k" by auto
  from packet_step [OF assms(1) assms(2,3) _ s(2,3), of "now m"] m assms(5) obtain s' parts where
    s': "bridge_serialize (now m) w (k * w) (f m) s = Some s'" "0 < parts"
      "extraCredit (bi_co s') ! m_vc f0 = extraCredit (bi_co s) ! m_vc f0 @ [parts]"
      "m * k + parts = divCeil (msgSize f0) w" "ser_ready (m_vc f0) 0 s'" "queued f0 w s0 (m * k + parts) s'" by auto
  from s'(6) obtain new where new: "m_buffer (bi_buf s') = m_buffer (bi_buf s0) @ new"
      "map flit_sig new = map (\<lambda>i. flit_sig (packet_flit f0 w i)) [0..<m * k + parts]"
      "sorted_wrt (<) (lastScheduledAt (bi_bridge s0) # map m_time new)" unfolding queued_def by blast
  have "length new = m * k + parts" using arg_cong [OF new(2), of length] by simp
  then show ?thesis
    using s(1,4) s' new m assms(2)
    by (intro exI [of _ s'] exI [of _ new] exI [of _ "replicate m k @ [parts]"])
      (simp add: for_list_append sum_list_replicate)
qed

definition ex_bridge :: NetworkBridge where
  "ex_bridge = NetworkBridge_setVcsPerVnet 1 (fst (NetworkBridge_new OBJECT_LINK 1 1 (NetworkLink_new 8 1 1 [] 32)
     (NetworkLink_new 9 1 1 [] 16)))"

definition ex_bridge_io :: bridge_io where
  "ex_bridge_io = \<lparr>bi_bridge = ex_bridge, bi_co = ex_bridge, bi_self = Consumer_new 500, bi_src = flitBuffer_new,
     bi_buf = flitBuffer_new, bi_width = 16, bi_period = 500, bi_acts = []\<rparr>"

lemmas ex_bridge_defs = ex_bridge_io_def ex_bridge_def NetworkBridge_setVcsPerVnet_def NetworkBridge_new_def Let_def
  NetworkLink_new_def setVcsPerVnet_def setLinkConsumer_def setSourceQueue_def resize_def
  NetworkLink.defs NetworkBridge.defs

theorem bridge_serializes_packet_witness:
  "\<exists>s. for_list (\<lambda>j. bridge_serialize 500 16 32 (packet_flit (flit_new 5 0 0 0 RouteInfo_new 2 None 40 32 0) 32 j)) [0..<2]
         ex_bridge_io = Some s \<and> length (m_buffer (bi_buf s)) = 3"
proof -
  let ?f = "flit_new 5 0 0 0 RouteInfo_new 2 None 40 32 0"
  have f: "msgSize ?f = 40" "m_vc ?f = 0" by (simp_all add: flit_new_def)
  have "ser_ready 0 0 ex_bridge_io" by (simp add: ser_ready_def ex_bridge_defs)
  with bridge_serializes_packet [of 2 "packet_flit ?f 32" ?f 2 16 ex_bridge_io "\<lambda>_. 500"]
  obtain s new where s: "for_list (\<lambda>j. bridge_serialize 500 16 32 (packet_flit ?f 32 j)) [0..<2] ex_bridge_io = Some s"
      "m_buffer (bi_buf s) = m_buffer (bi_buf ex_bridge_io) @ new"
      "map flit_sig new = map (\<lambda>i. flit_sig (packet_flit ?f 16 i)) [0..<3]"
    by (auto simp: f divCeil_def)
  have "length new = 3" using arg_cong [OF s(3), of length] by simp
  with s show ?thesis by (auto simp: ex_bridge_io_def flitBuffer_new_def)
qed

text \<open>C28. A credit bridge merges exactly the credits that belong together: when the credits of the narrow flits
  come back in the groups the serialiser announced, it sends one wide credit for every group, which
  carries the free signal of the last credit of the group, and is ready for the next group; none is lost.\<close>
theorem bridge_merges_credits:
  assumes "des_ready vc 0 (map length css @ es) s"
    and "\<forall>cs\<in>set css. cs \<noteq> [] \<and> (\<forall>c\<in>set cs. m_type c = CREDIT \<and> m_vc c = vc)"
  shows "\<exists>s' new. for_list (\<lambda>c. bridge_deserialize now tw cw c) (concat css) s = Some s'
     \<and> des_ready vc 0 es s' \<and> m_buffer (bi_buf s') = m_buffer (bi_buf s) @ new
     \<and> map m_is_free_signal new = map (\<lambda>cs. m_is_free_signal (last cs)) css
     \<and> (\<forall>c\<in>set new. m_type c = CREDIT \<and> m_vc c = vc)"
  using assms
proof (induction css arbitrary: s)
  case Nil
  then show ?case by auto
next
  case (Cons cs css)
  from Cons.prems have "des_ready vc 0 (length cs # map length css @ es) s" by simp
  from credit_group [OF this, of cs now tw cw] Cons.prems(2) obtain s1 t where
    s1: "for_list (\<lambda>c. bridge_deserialize now tw cw c) cs s = Some s1" "des_ready vc 0 (map length css @ es) s1"
      "m_buffer (bi_buf s1) = m_buffer (bi_buf s) @ [(Credit_new vc (m_is_free_signal (last cs)) (m_time (last cs)))\<lparr>m_time := t\<rparr>]"
    by auto
  from Cons.IH [OF s1(2)] Cons.prems(2) obtain s' new where
    s': "for_list (\<lambda>c. bridge_deserialize now tw cw c) (concat css) s1 = Some s'" "des_ready vc 0 es s'"
      "m_buffer (bi_buf s') = m_buffer (bi_buf s1) @ new"
      "map m_is_free_signal new = map (\<lambda>cs. m_is_free_signal (last cs)) css"
      "\<forall>c\<in>set new. m_type c = CREDIT \<and> m_vc c = vc" by auto
  then show ?case using s1(1,3)
    by (intro exI [of _ s'] exI [of _ "(Credit_new vc (m_is_free_signal (last cs)) (m_time (last cs)))\<lparr>m_time := t\<rparr> # new"])
      (simp add: for_list_append Credit_new_def flit_new_def)
qed

theorem bridge_merges_credits_witness:
  "\<exists>s'. for_list (\<lambda>c. bridge_deserialize 500 32 16 c) [Credit_new 0 False 0, Credit_new 0 True 0]
        (ex_bridge_io\<lparr>bi_bridge := ex_bridge\<lparr>extraCredit := [[2]]\<rparr>\<rparr>) = Some s'
     \<and> map m_is_free_signal (m_buffer (bi_buf s')) = [True]"
proof -
  let ?s = "ex_bridge_io\<lparr>bi_bridge := ex_bridge\<lparr>extraCredit := [[2]]\<rparr>\<rparr>"
  have c: "m_type (Credit_new 0 b 0) = CREDIT" "m_vc (Credit_new 0 b 0) = 0" "m_is_free_signal (Credit_new 0 b 0) = b" for b
    by (simp_all add: Credit_new_def flit_new_def)
  have "des_ready 0 0 (map length [[Credit_new 0 False 0, Credit_new 0 True 0]] @ []) ?s"
    by (simp add: des_ready_def ex_bridge_defs numeral_2_eq_2)
  from bridge_merges_credits [OF this, of 500 32 16] show ?thesis
    by (auto simp: c ex_bridge_io_def flitBuffer_new_def)
qed



end
