(* ===== verification/Network_Interface.thy ===== *)
theory Network_Interface
  imports Message_Buffer Network_Link
begin

text \<open>
  The network interface (\<^verbatim>\<open>garnet/NetworkInterface.{hh,cc}\<close>): it turns the messages of the protocol into
  packets of flits, one packet for every destination, sends the flits as credits allow, hands arriving messages
  to the protocol and returns credits.

  \<open>NetworkInterface\<close> has the members of the class; the message buffers, the links it reads, its consumer and the
  counters of the network are shared with others, and \<open>ni_state\<close> has all that a wakeup can touch.  A message object
  is shared by the flits of one packet only, because \<^verbatim>\<open>flitisizeMessage\<close> clones it, so that messages are values;
  the one message it changes is the head of the protocol buffer, which is written back there.  Calls on other
  consumers and on the wakeup ring are the list \<open>ns_effects\<close>.  The local statistics are 64 bits wide and wrap
  around, as the differences of ticks do that are added to them.

  \<open>ni_env\<close> holds what does not change during a run: the configuration, the controllers of the system,
  \<^verbatim>\<open>GarnetNetwork::get_router_id\<close>, the two flags of the Ruby system that \<^verbatim>\<open>enqueue\<close> takes, and the random delays.
\<close>

subsection \<open>Ports\<close>

record OutputPort =
  op_vnets :: "nat list"
  outFlitQueue :: flitBuffer
  outNetLink :: link_id
  inCreditLink :: link_id
  vcRoundRobin :: nat
  routerID :: nat
  op_bitWidth :: nat

definition OutputPort_new :: "'a NetworkLink_scheme \<Rightarrow> link_id \<Rightarrow> nat \<Rightarrow> OutputPort" where
  "OutputPort_new outLink creditLink router =
     \<lparr>op_vnets = mVnets outLink, outFlitQueue = flitBuffer_new, outNetLink = l_id outLink,
      inCreditLink = creditLink, vcRoundRobin = 0, routerID = router, op_bitWidth = bitWidth outLink\<rparr>"

text \<open>\<^verbatim>\<open>messageEnqueuedThisCycle\<close> is not initialised.\<close>

record InputPort =
  m_stall_queue :: "flit list"
  messageEnqueuedThisCycle :: "bool option"
  ip_vnets :: "nat list"
  outCreditQueue :: flitBuffer
  inNetLink :: link_id
  outCreditLink :: link_id
  ip_bitWidth :: nat

definition InputPort_new :: "'a NetworkLink_scheme \<Rightarrow> link_id \<Rightarrow> InputPort" where
  "InputPort_new inLink creditLink =
     \<lparr>m_stall_queue = [], messageEnqueuedThisCycle = None, ip_vnets = mVnets inLink,
      outCreditQueue = flitBuffer_new, inNetLink = l_id inLink, outCreditLink = creditLink,
      ip_bitWidth = bitWidth inLink\<rparr>"

definition isVnetSupported :: "nat list \<Rightarrow> nat \<Rightarrow> bool" where
  "isVnetSupported vnets pVnet = (vnets = [] \<or> pVnet \<in> set vnets)"

definition sendCredit :: "flit \<Rightarrow> InputPort \<Rightarrow> InputPort" where
  "sendCredit cFlit p = p\<lparr>outCreditQueue := fb_insert cFlit (outCreditQueue p)\<rparr>"

subsection \<open>The state\<close>

type_synonym counter = "64 word"

record NetworkInterface =
  ni_id :: nat
  ni_virtual_networks :: nat
  ni_vc_per_vnet :: nat
  m_vc_allocator :: "nat list"
  outPorts :: "OutputPort list"
  inPorts :: "InputPort list"
  m_deadlock_threshold :: nat
  ni_outVcState :: "OutVcState list"
  ni_stall_count :: "int list"
  niOutVcs :: "flitBuffer list"
  m_ni_out_vcs_enqueue_time :: "tick list"
  vc_busy_counter :: "nat list"
  m_local_flits_injected :: "counter list"
  m_local_flits_received :: "counter list"
  m_local_flit_network_latency :: "counter list"
  m_local_flit_queueing_latency :: "counter list"
  m_local_total_hops :: counter
  m_local_packets_injected :: "counter list"
  m_local_packets_received :: "counter list"
  m_local_packet_network_latency :: "counter list"
  m_local_packet_queueing_latency :: "counter list"
  m_router :: "nat option"

definition NetworkInterface_new :: "nat \<Rightarrow> nat \<Rightarrow> nat \<Rightarrow> NetworkInterface" where
  "NetworkInterface_new nid virt_nets deadlock_threshold =
     \<lparr>ni_id = nid, ni_virtual_networks = virt_nets, ni_vc_per_vnet = 0,
      m_vc_allocator = replicate virt_nets 0, outPorts = [], inPorts = [],
      m_deadlock_threshold = deadlock_threshold, ni_outVcState = [], ni_stall_count = replicate virt_nets 0,
      niOutVcs = [], m_ni_out_vcs_enqueue_time = [], vc_busy_counter = replicate virt_nets 0,
      m_local_flits_injected = replicate virt_nets 0, m_local_flits_received = replicate virt_nets 0,
      m_local_flit_network_latency = replicate virt_nets 0,
      m_local_flit_queueing_latency = replicate virt_nets 0, m_local_total_hops = 0,
      m_local_packets_injected = replicate virt_nets 0, m_local_packets_received = replicate virt_nets 0,
      m_local_packet_network_latency = replicate virt_nets 0,
      m_local_packet_queueing_latency = replicate virt_nets 0, m_router = None\<rparr>"

record ni_env =
  ne_config :: GarnetConfig
  ne_controllers :: num_controllers
  ne_router_id :: "nat \<Rightarrow> nat \<Rightarrow> nat option"
  ne_randomization :: bool
  ne_warmup :: bool
  ne_random :: "nat \<Rightarrow> nat \<times> nat \<times> nat"

datatype ni_effect = Act action | Buf mb_effect

record ni_state =
  ns_ni :: NetworkInterface
  ns_in :: "MessageBuffer option list"
  ns_out :: "MessageBuffer option list"
  ns_links :: link_store
  ns_self :: Consumer
  ns_packet_id :: nat
  ns_data_traffic :: "nat list list"
  ns_ctrl_traffic :: "nat list list"
  ns_effects :: "ni_effect list"

definition emit :: "ni_effect list \<Rightarrow> ni_state \<Rightarrow> ni_state" where
  "emit es s = s\<lparr>ns_effects := ns_effects s @ es\<rparr>"

definition set_in_port :: "nat \<Rightarrow> InputPort \<Rightarrow> ni_state \<Rightarrow> ni_state" where
  "set_in_port i p s = s\<lparr>ns_ni := (ns_ni s)\<lparr>inPorts := (inPorts (ns_ni s))[i := p]\<rparr>\<rparr>"

definition set_out_buffer :: "nat \<Rightarrow> MessageBuffer \<Rightarrow> ni_state \<Rightarrow> ni_state" where
  "set_out_buffer v b s = s\<lparr>ns_out := (ns_out s)[v := Some b]\<rparr>"

definition out_buffer :: "nat \<Rightarrow> ni_state \<Rightarrow> MessageBuffer option" where
  "out_buffer v s = do { mb \<leftarrow> at (ns_out s) v; mb }"

definition ni_edge :: "tick \<Rightarrow> cycles \<Rightarrow> ni_state \<Rightarrow> tick" where
  "ni_edge curTick n s = clock_edge (em_period (ns_self s)) curTick n"

subsection \<open>Construction\<close>

text \<open>The part of \<^verbatim>\<open>addInPort\<close> and \<^verbatim>\<open>addOutPort\<close> that concerns the interface itself; the links' part is in the
  theory that wires the network.\<close>

definition NetworkInterface_addInPort ::
  "'a NetworkLink_scheme \<Rightarrow> link_id \<Rightarrow> NetworkInterface \<Rightarrow> NetworkInterface"
where
  "NetworkInterface_addInPort in_link credit_link ni =
     ni\<lparr>inPorts := inPorts ni @ [InputPort_new in_link credit_link]\<rparr>"

definition NetworkInterface_addOutPort ::
  "GarnetConfig \<Rightarrow> 'a NetworkLink_scheme \<Rightarrow> link_id \<Rightarrow> nat \<Rightarrow> nat \<Rightarrow> NetworkInterface \<Rightarrow> NetworkInterface option"
where
  "NetworkInterface_addOutPort cfg out_link credit_link router_id consumerVcs ni =
     do { let ni1 = (if m_router ni = None then ni\<lparr>m_router := Some router_id\<rparr> else ni);
          let ni2 = ni1\<lparr>outPorts := outPorts ni1 @ [OutputPort_new out_link credit_link router_id]\<rparr>;
          check (consumerVcs > 0);
          if niOutVcs ni2 = [] then
            do { let num_vcs = consumerVcs * ni_virtual_networks ni2;
                 vcs \<leftarrow> map_opt (\<lambda>v. OutVcState_new (m_vnet_type cfg) (m_buffers_per_data_vc cfg)
                         (m_buffers_per_ctrl_vc cfg) v consumerVcs) [0..<num_vcs];
                 Some (ni2\<lparr>ni_vc_per_vnet := consumerVcs, niOutVcs := replicate num_vcs flitBuffer_new,
                           m_ni_out_vcs_enqueue_time := replicate num_vcs INFINITE,
                           ni_outVcState := ni_outVcState ni2 @ vcs\<rparr>) }
          else do { check (consumerVcs = ni_vc_per_vnet ni2); Some ni2 } }"

definition attach_queues :: "nat \<Rightarrow> MessageBuffer option list \<Rightarrow> MessageBuffer option list option" where
  "attach_queues nid inn =
     map_opt (\<lambda>mb. case mb of None \<Rightarrow> Some None | Some b \<Rightarrow> map_option Some (setConsumer (CNetIf nid) b)) inn"

definition addNode ::
  "MessageBuffer option list \<Rightarrow> MessageBuffer option list \<Rightarrow> ni_state \<Rightarrow> ni_state option"
where
  "addNode inn out s = do { bs \<leftarrow> attach_queues (ni_id (ns_ni s)) inn; Some (s\<lparr>ns_in := bs, ns_out := out\<rparr>) }"

definition dequeueCallback :: "tick \<Rightarrow> ni_state \<Rightarrow> ni_state" where
  "dequeueCallback curTick s =
     s\<lparr>ns_self := scheduleEventAbsolute curTick (ni_edge curTick 1 s) (ns_self s)\<rparr>"

subsection \<open>Choosing ports and virtual channels\<close>

definition getInportForVnet :: "nat \<Rightarrow> NetworkInterface \<Rightarrow> nat option" where
  "getInportForVnet vnet ni =
     List.find (\<lambda>i. isVnetSupported (ip_vnets (inPorts ni ! i)) vnet) [0..<length (inPorts ni)]"

definition getOutportForVnet :: "nat \<Rightarrow> NetworkInterface \<Rightarrow> nat option" where
  "getOutportForVnet vnet ni =
     List.find (\<lambda>i. isVnetSupported (op_vnets (outPorts ni ! i)) vnet) [0..<length (outPorts ni)]"

definition get_router_id :: "nat \<Rightarrow> NetworkInterface \<Rightarrow> nat option" where
  "get_router_id vnet ni = do { p \<leftarrow> getOutportForVnet vnet ni; Some (routerID (outPorts ni ! p)) }"

definition ni_get_vnet :: "nat \<Rightarrow> NetworkInterface \<Rightarrow> nat option" where
  "ni_get_vnet vc ni =
     List.find (\<lambda>i. i * ni_vc_per_vnet ni \<le> vc \<and> vc < (i + 1) * ni_vc_per_vnet ni) [0..<ni_virtual_networks ni]"

text \<open>The loop of \<^verbatim>\<open>calculateVC\<close>; \<open>Some None\<close> is its result \<open>-1\<close>.\<close>

definition next_vc :: "nat \<Rightarrow> NetworkInterface \<Rightarrow> (nat \<times> NetworkInterface) option" where
  "next_vc vnet ni =
     do { delta \<leftarrow> at (m_vc_allocator ni) vnet;
          Some (vnet * ni_vc_per_vnet ni + delta,
                ni\<lparr>m_vc_allocator := (m_vc_allocator ni)
                     [vnet := if delta + 1 = ni_vc_per_vnet ni then 0 else delta + 1]\<rparr>) }"

fun search_vc :: "tick \<Rightarrow> nat \<Rightarrow> nat \<Rightarrow> NetworkInterface \<Rightarrow> (nat option \<times> NetworkInterface) option" where
  "search_vc curTick vnet 0 ni = Some (None, ni)"
| "search_vc curTick vnet (Suc n) ni =
     do { (vc, ni1) \<leftarrow> next_vc vnet ni;
          ovc \<leftarrow> at (ni_outVcState ni1) vc;
          if ovc_isInState IDLE curTick ovc then Some (Some vc, ni1) else search_vc curTick vnet n ni1 }"

definition calculateVC :: "tick \<Rightarrow> nat \<Rightarrow> NetworkInterface \<Rightarrow> (nat option \<times> NetworkInterface) option" where
  "calculateVC curTick vnet ni =
     do { (r, ni1) \<leftarrow> search_vc curTick vnet (ni_vc_per_vnet ni) ni;
          busy \<leftarrow> at (vc_busy_counter ni1) vnet;
          (case r of
             Some vc \<Rightarrow> Some (Some vc, ni1\<lparr>vc_busy_counter := (vc_busy_counter ni1)[vnet := 0]\<rparr>)
           | None \<Rightarrow> do { check (\<not> busy + 1 > m_deadlock_threshold ni1);
                        Some (None, ni1\<lparr>vc_busy_counter := (vc_busy_counter ni1)[vnet := busy + 1]\<rparr>) }) }"

subsection \<open>From messages to flits\<close>

text \<open>The loop over the machine types that finds the one \<^verbatim>\<open>destID\<close> belongs to.\<close>

definition machine_of :: "num_controllers \<Rightarrow> nat \<Rightarrow> nat option option" where
  "machine_of nc destID =
     find_opt (\<lambda>m. do { b \<leftarrow> MachineType_base_number nc m; e \<leftarrow> MachineType_base_number nc (m + 1);
                       Some (b \<le> destID \<and> destID < e) }) [0..<length nc]"

text \<open>\<open>split_dest\<close> is the block that makes the clone for one destination of a multicast: the clone, the
  message without that destination, and the local \<^verbatim>\<open>net_msg_dest\<close>.\<close>

definition split_dest ::
  "num_controllers \<Rightarrow> bool \<Rightarrow> nat \<Rightarrow> Message \<Rightarrow> NetDest \<Rightarrow> (Message \<times> Message \<times> NetDest) option"
where
  "split_dest nc multicast destID m net_msg_dest =
     (if multicast then
        do { empty \<leftarrow> NetDest_new nc;
             ty \<leftarrow> machine_of nc destID;
             (personal_dest, new_msg) \<leftarrow>
               (case ty of
                  None \<Rightarrow> Some (empty, m)
                | Some k \<Rightarrow>
                    do { cleared \<leftarrow> NetDest_clear empty;
                         b \<leftarrow> MachineType_base_number nc k;
                         pd \<leftarrow> NetDest_add \<lparr>mach_type = k, mach_num = destID - b\<rparr> cleared;
                         Some (pd, m\<lparr>Destination := pd\<rparr>) });
             nd \<leftarrow> NetDest_removeNetDest net_msg_dest personal_dest;
             d \<leftarrow> NetDest_removeNetDest (Destination m) personal_dest;
             Some (new_msg, m\<lparr>Destination := d\<rparr>, nd) }
      else Some (m, m, net_msg_dest))"

definition bump :: "nat list list \<Rightarrow> nat \<Rightarrow> nat \<Rightarrow> nat list list option" where
  "bump tab i j = do { row \<leftarrow> at tab i; n \<leftarrow> at row j; Some (tab[i := row[j := n + 1]]) }"

definition update_traffic_distribution :: "GarnetConfig \<Rightarrow> RouteInfo \<Rightarrow> ni_state \<Rightarrow> ni_state option" where
  "update_traffic_distribution cfg route s =
     do { ty \<leftarrow> get_vnet_type cfg (rt_vnet route);
          if ty = DATA_VNET
          then do { t \<leftarrow> bump (ns_data_traffic s) (src_router route) (dest_router route);
                    Some (s\<lparr>ns_data_traffic := t\<rparr>) }
          else do { t \<leftarrow> bump (ns_ctrl_traffic s) (src_router route) (dest_router route);
                    Some (s\<lparr>ns_ctrl_traffic := t\<rparr>) } }"

definition packet :: "nat \<Rightarrow> nat \<Rightarrow> nat \<Rightarrow> RouteInfo \<Rightarrow> nat \<Rightarrow> Message \<Rightarrow> nat \<Rightarrow> nat \<Rightarrow> tick \<Rightarrow> tick \<Rightarrow> flit list" where
  "packet packet_id vc vnet route num_flits m msg_size width curTick delay =
     map (\<lambda>i. (flit_new packet_id i vc vnet route num_flits (Some m) msg_size width curTick)
            \<lparr>src_delay := Some delay\<rparr>) [0..<num_flits]"

text \<open>The flits of one packet go to the buffer of the virtual channel, which becomes active.\<close>

definition fill_vc :: "tick \<Rightarrow> nat \<Rightarrow> nat \<Rightarrow> flit list \<Rightarrow> NetworkInterface \<Rightarrow> NetworkInterface option" where
  "fill_vc curTick vnet vc flits ni =
     do { p \<leftarrow> at (m_local_packets_injected ni) vnet;
          n \<leftarrow> at (m_local_flits_injected ni) vnet;
          b \<leftarrow> at (niOutVcs ni) vc;
          times \<leftarrow> put (m_ni_out_vcs_enqueue_time ni) vc curTick;
          ovc \<leftarrow> at (ni_outVcState ni) vc;
          Some (ni\<lparr>m_local_packets_injected := (m_local_packets_injected ni)[vnet := p + 1],
                   m_local_flits_injected := (m_local_flits_injected ni)[vnet := n + of_nat (length flits)],
                   niOutVcs := (niOutVcs ni)[vc := fold fb_insert flits b],
                   m_ni_out_vcs_enqueue_time := times,
                   ni_outVcState := (ni_outVcState ni)[vc := ovc_setState ACTIVE curTick ovc]\<rparr>) }"

definition inject_packet ::
  "ni_env \<Rightarrow> tick \<Rightarrow> nat \<Rightarrow> OutputPort \<Rightarrow> nat \<Rightarrow> nat \<Rightarrow> nat \<Rightarrow> nat \<Rightarrow> Message \<Rightarrow> Message \<Rightarrow> ni_state \<Rightarrow> ni_state option"
where
  "inject_packet env curTick vnet oPort num_flits msg_size vc destID m new_msg s =
     do { dr \<leftarrow> ne_router_id env destID vnet;
          let route = \<lparr>rt_vnet = vnet, rt_net_dest = Destination new_msg, src_ni = ni_id (ns_ni s),
                       src_router = routerID oPort, dest_ni = destID, dest_router = dr, hops_traversed = -1\<rparr>;
          s1 \<leftarrow> update_traffic_distribution (ne_config env) route s;
          let packet_id = ns_packet_id s1;
          ni \<leftarrow> fill_vc curTick vnet vc (packet packet_id vc vnet route num_flits new_msg msg_size
                   (op_bitWidth oPort) curTick (curTick - msg_time m)) (ns_ni s1);
          Some (s1\<lparr>ns_ni := ni, ns_packet_id := packet_id + 1\<rparr>) }"

fun flitisize_loop ::
  "ni_env \<Rightarrow> tick \<Rightarrow> nat \<Rightarrow> OutputPort \<Rightarrow> nat \<Rightarrow> nat \<Rightarrow> bool \<Rightarrow> nat list \<Rightarrow> Message \<Rightarrow> NetDest \<Rightarrow> ni_state
     \<Rightarrow> (bool \<times> Message \<times> ni_state) option"
where
  "flitisize_loop env curTick vnet oPort num_flits msg_size multicast [] m nd s = Some (True, m, s)"
| "flitisize_loop env curTick vnet oPort num_flits msg_size multicast (destID # dests) m nd s =
     do { (r, ni) \<leftarrow> calculateVC curTick vnet (ns_ni s);
          let s1 = s\<lparr>ns_ni := ni\<rparr>;
          (case r of
             None \<Rightarrow> Some (False, m, s1)
           | Some vc \<Rightarrow>
               do { (new_msg, m1, nd1) \<leftarrow> split_dest (ne_controllers env) multicast destID m nd;
                    s2 \<leftarrow> inject_packet env curTick vnet oPort num_flits msg_size vc destID m new_msg s1;
                    flitisize_loop env curTick vnet oPort num_flits msg_size multicast dests m1 nd1 s2 }) }"

definition flitisizeMessage :: "ni_env \<Rightarrow> tick \<Rightarrow> Message \<Rightarrow> nat \<Rightarrow> ni_state \<Rightarrow> (bool \<times> Message \<times> ni_state) option" where
  "flitisizeMessage env curTick m vnet s =
     do { dest_nodes \<leftarrow> NetDest_getAllDest (Destination m);
          p \<leftarrow> getOutportForVnet vnet (ns_ni s);
          oPort \<leftarrow> at (outPorts (ns_ni s)) p;
          let msg_size = MessageSizeType_to_int (m_control_msg_size (ne_config env))
                           (m_data_msg_size (ne_config env)) (MessageSize m);
          check (0 < op_bitWidth oPort);
          flitisize_loop env curTick vnet oPort (divCeil msg_size (op_bitWidth oPort)) msg_size
            (length dest_nodes > 1) dest_nodes m (Destination m) s }"

subsection \<open>Sending flits\<close>

definition scheduleFlit :: "tick \<Rightarrow> flit \<Rightarrow> ni_state \<Rightarrow> ni_state option" where
  "scheduleFlit curTick t_flit s =
     do { router \<leftarrow> m_router (ns_ni s);
          p \<leftarrow> getOutportForVnet (m_vnet t_flit) (ns_ni s);
          oPort \<leftarrow> at (outPorts (ns_ni s)) p;
          let target = ni_edge curTick 1 s;
          Some (emit [Act (Sched (CLink (outNetLink oPort)) target), Act (Register router target)]
            (s\<lparr>ns_ni := (ns_ni s)\<lparr>outPorts := (outPorts (ns_ni s))
                 [p := oPort\<lparr>outFlitQueue := fb_insert t_flit (outFlitQueue oPort)\<rparr>]\<rparr>\<rparr>)) }"

text \<open>On an ordered virtual network a channel may send only if no other ready channel has an older packet.\<close>

definition is_candidate_vc :: "GarnetConfig \<Rightarrow> tick \<Rightarrow> nat \<Rightarrow> nat \<Rightarrow> NetworkInterface \<Rightarrow> bool option" where
  "is_candidate_vc cfg curTick t_vnet vc ni =
     do { ordered \<leftarrow> isVNetOrdered cfg t_vnet;
          if ordered then
            do { older \<leftarrow> any_opt (\<lambda>t_vc. do { b \<leftarrow> at (niOutVcs ni) t_vc;
                      if fb_isReady curTick b
                      then do { t1 \<leftarrow> at (m_ni_out_vcs_enqueue_time ni) t_vc;
                                t2 \<leftarrow> at (m_ni_out_vcs_enqueue_time ni) vc; Some (t1 < t2) }
                      else Some False })
                   (map (\<lambda>vc_offset. t_vnet * ni_vc_per_vnet ni + vc_offset) [0..<ni_vc_per_vnet ni]);
                 Some (\<not> older) }
          else Some True }"

fun search_out_vc :: "GarnetConfig \<Rightarrow> tick \<Rightarrow> OutputPort \<Rightarrow> nat \<Rightarrow> nat \<Rightarrow> NetworkInterface \<Rightarrow> nat option option" where
  "search_out_vc cfg curTick oPort 0 vc0 ni = Some None"
| "search_out_vc cfg curTick oPort (Suc n) vc0 ni =
     do { let vc = (if vc0 + 1 = length (niOutVcs ni) then 0 else vc0 + 1);
          t_vnet \<leftarrow> ni_get_vnet vc ni;
          if isVnetSupported (op_vnets oPort) t_vnet then
            do { b \<leftarrow> at (niOutVcs ni) vc;
                 ovc \<leftarrow> at (ni_outVcState ni) vc;
                 candidate \<leftarrow> (if fb_isReady curTick b \<and> ovc_has_credit ovc
                              then is_candidate_vc cfg curTick t_vnet vc ni else Some False);
                 if candidate then Some (Some vc) else search_out_vc cfg curTick oPort n vc ni }
          else search_out_vc cfg curTick oPort n vc ni }"

definition send_flit :: "tick \<Rightarrow> nat \<Rightarrow> nat \<Rightarrow> ni_state \<Rightarrow> ni_state option" where
  "send_flit curTick p vc s =
     do { oPort \<leftarrow> at (outPorts (ns_ni s)) p;
          ovc \<leftarrow> at (ni_outVcState (ns_ni s)) vc;
          ovc' \<leftarrow> ovc_decrement_credit ovc;
          b \<leftarrow> at (niOutVcs (ns_ni s)) vc;
          (t_flit, b') \<leftarrow> fb_getTopFlit b;
          s1 \<leftarrow> scheduleFlit curTick (t_flit\<lparr>m_time := ni_edge curTick 1 s\<rparr>)
            (s\<lparr>ns_ni := (ns_ni s)\<lparr>outPorts := (outPorts (ns_ni s))[p := oPort\<lparr>vcRoundRobin := vc\<rparr>],
                 ni_outVcState := (ni_outVcState (ns_ni s))[vc := ovc'],
                 niOutVcs := (niOutVcs (ns_ni s))[vc := b']\<rparr>\<rparr>);
          if m_type t_flit = TAIL \<or> m_type t_flit = HEAD_TAIL
          then do { times \<leftarrow> put (m_ni_out_vcs_enqueue_time (ns_ni s1)) vc INFINITE;
                    Some (s1\<lparr>ns_ni := (ns_ni s1)\<lparr>m_ni_out_vcs_enqueue_time := times\<rparr>\<rparr>) }
          else Some s1 }"

definition scheduleOutputPort :: "GarnetConfig \<Rightarrow> tick \<Rightarrow> nat \<Rightarrow> ni_state \<Rightarrow> ni_state option" where
  "scheduleOutputPort cfg curTick p s =
     do { oPort \<leftarrow> at (outPorts (ns_ni s)) p;
          r \<leftarrow> search_out_vc cfg curTick oPort (length (niOutVcs (ns_ni s))) (vcRoundRobin oPort) (ns_ni s);
          (case r of None \<Rightarrow> Some s | Some vc \<Rightarrow> send_flit curTick p vc s) }"

definition scheduleOutputLink :: "GarnetConfig \<Rightarrow> tick \<Rightarrow> ni_state \<Rightarrow> ni_state option" where
  "scheduleOutputLink cfg curTick s = for_range (scheduleOutputPort cfg curTick) (length (outPorts (ns_ni s))) s"

subsection \<open>Receiving flits and credits\<close>

definition add_at :: "counter list \<Rightarrow> nat \<Rightarrow> counter \<Rightarrow> counter list option" where
  "add_at xs i d = do { x \<leftarrow> at xs i; Some (xs[i := x + d]) }"

definition count_flit :: "nat \<Rightarrow> counter \<Rightarrow> counter \<Rightarrow> NetworkInterface \<Rightarrow> NetworkInterface option" where
  "count_flit vnet network_delay queueing_delay ni =
     do { fr \<leftarrow> add_at (m_local_flits_received ni) vnet 1;
          fn \<leftarrow> add_at (m_local_flit_network_latency ni) vnet network_delay;
          fq \<leftarrow> add_at (m_local_flit_queueing_latency ni) vnet queueing_delay;
          Some (ni\<lparr>m_local_flits_received := fr, m_local_flit_network_latency := fn,
                   m_local_flit_queueing_latency := fq\<rparr>) }"

definition count_packet :: "nat \<Rightarrow> counter \<Rightarrow> counter \<Rightarrow> NetworkInterface \<Rightarrow> NetworkInterface option" where
  "count_packet vnet network_delay queueing_delay ni =
     do { pr \<leftarrow> add_at (m_local_packets_received ni) vnet 1;
          pn \<leftarrow> add_at (m_local_packet_network_latency ni) vnet network_delay;
          pq \<leftarrow> add_at (m_local_packet_queueing_latency ni) vnet queueing_delay;
          Some (ni\<lparr>m_local_packets_received := pr, m_local_packet_network_latency := pn,
                   m_local_packet_queueing_latency := pq\<rparr>) }"

definition network_delay :: "tick \<Rightarrow> flit \<Rightarrow> counter" where
  "network_delay period f = of_nat (m_dequeue_time f) - of_nat (m_enqueue_time f) - of_nat period"

definition queueing_delay :: "tick \<Rightarrow> tick \<Rightarrow> flit \<Rightarrow> counter" where
  "queueing_delay curTick src_queueing_delay f =
     of_nat src_queueing_delay + (of_nat curTick - of_nat (m_dequeue_time f))"

definition incrementStats :: "tick \<Rightarrow> tick \<Rightarrow> flit \<Rightarrow> NetworkInterface \<Rightarrow> NetworkInterface option" where
  "incrementStats curTick period f ni =
     do { d \<leftarrow> src_delay f;
          ni1 \<leftarrow> count_flit (m_vnet f) (network_delay period f) (queueing_delay curTick d f) ni;
          ni2 \<leftarrow> (if m_type f = TAIL \<or> m_type f = HEAD_TAIL
                  then count_packet (m_vnet f) (network_delay period f) (queueing_delay curTick d f) ni1
                  else Some ni1);
          Some (ni2\<lparr>m_local_total_hops := m_local_total_hops ni2 + of_int (hops_traversed (m_route f))\<rparr>) }"

text \<open>Return a credit on input port \<open>i\<close> and count the flit.\<close>

definition credit_and_count :: "tick \<Rightarrow> nat \<Rightarrow> bool \<Rightarrow> flit \<Rightarrow> ni_state \<Rightarrow> ni_state option" where
  "credit_and_count curTick i free f s =
     do { iPort \<leftarrow> at (inPorts (ns_ni s)) i;
          let s1 = set_in_port i (sendCredit (Credit_new (m_vc f) free curTick) iPort) s;
          ni \<leftarrow> incrementStats curTick (em_period (ns_self s)) f (ns_ni s1);
          Some (s1\<lparr>ns_ni := ni\<rparr>) }"

text \<open>Hand the message of a tail flit to the protocol.\<close>

definition eject :: "ni_env \<Rightarrow> tick \<Rightarrow> nat \<Rightarrow> flit \<Rightarrow> ni_state \<Rightarrow> ni_state option" where
  "eject env curTick i f s =
     do { b \<leftarrow> out_buffer (m_vnet f) s;
          m \<leftarrow> m_msg_ptr f;
          (b', es) \<leftarrow> enqueue (ne_random env) m curTick (em_period (ns_self s)) (ne_randomization env)
                        (ne_warmup env) False b;
          credit_and_count curTick i True f (emit (map Buf es) (set_out_buffer (m_vnet f) b' s)) }"

text \<open>The scan of one stall queue: the first flit whose message fits, the queue without it, and the buffers,
  which count the refusals.\<close>

fun stall_scan ::
  "tick \<Rightarrow> MessageBuffer option list \<Rightarrow> flit list \<Rightarrow> (flit option \<times> flit list \<times> MessageBuffer option list) option"
where
  "stall_scan curTick outs [] = Some (None, [], outs)"
| "stall_scan curTick outs (f # fs) =
     do { mb \<leftarrow> at outs (m_vnet f);
          b \<leftarrow> mb;
          let (ok, b1) = areNSlotsAvailable 1 curTick b;
          let outs1 = outs[m_vnet f := Some b1];
          if ok then Some (Some f, fs, outs1)
          else do { (r, fs', outs2) \<leftarrow> stall_scan curTick outs1 fs; Some (r, f # fs', outs2) } }"

definition release_stall :: "nat \<Rightarrow> ni_state \<Rightarrow> ni_state option" where
  "release_stall vnet s =
     do { n \<leftarrow> at (ni_stall_count (ns_ni s)) vnet;
          let s1 = s\<lparr>ns_ni := (ns_ni s)\<lparr>ni_stall_count := (ni_stall_count (ns_ni s))[vnet := n - 1]\<rparr>\<rparr>;
          if n - 1 = 0 then do { b \<leftarrow> out_buffer vnet s1; Some (set_out_buffer vnet (unregisterDequeueCallback b) s1) }
          else Some s1 }"

definition check_stall_port :: "ni_env \<Rightarrow> tick \<Rightarrow> nat \<Rightarrow> ni_state \<Rightarrow> ni_state option" where
  "check_stall_port env curTick i s =
     do { iPort \<leftarrow> at (inPorts (ns_ni s)) i;
          (r, q, outs) \<leftarrow> stall_scan curTick (ns_out s) (m_stall_queue iPort);
          let s1 = (set_in_port i (iPort\<lparr>messageEnqueuedThisCycle := Some False, m_stall_queue := q\<rparr>) s)
                     \<lparr>ns_out := outs\<rparr>;
          (case r of
             None \<Rightarrow> Some s1
           | Some f \<Rightarrow>
               do { s2 \<leftarrow> eject env curTick i f s1;
                    s3 \<leftarrow> release_stall (m_vnet f) s2;
                    p \<leftarrow> at (inPorts (ns_ni s3)) i;
                    Some (set_in_port i (p\<lparr>messageEnqueuedThisCycle := Some True\<rparr>) s3) }) }"

definition checkStallQueue :: "ni_env \<Rightarrow> tick \<Rightarrow> ni_state \<Rightarrow> ni_state option" where
  "checkStallQueue env curTick s = for_range (check_stall_port env curTick) (length (inPorts (ns_ni s))) s"

definition stall_flit :: "nat \<Rightarrow> flit \<Rightarrow> ni_state \<Rightarrow> ni_state option" where
  "stall_flit i f s =
     do { iPort \<leftarrow> at (inPorts (ns_ni s)) i;
          let s1 = set_in_port i (iPort\<lparr>m_stall_queue := m_stall_queue iPort @ [f]\<rparr>) s;
          n \<leftarrow> at (ni_stall_count (ns_ni s1)) (m_vnet f);
          b \<leftarrow> out_buffer (m_vnet f) s1;
          Some (set_out_buffer (m_vnet f) (registerDequeueCallback b)
            (s1\<lparr>ns_ni := (ns_ni s1)\<lparr>ni_stall_count := (ni_stall_count (ns_ni s1))[m_vnet f := n + 1]\<rparr>\<rparr>)) }"

definition accept_flit :: "ni_env \<Rightarrow> tick \<Rightarrow> nat \<Rightarrow> flit \<Rightarrow> ni_state \<Rightarrow> ni_state option" where
  "accept_flit env curTick i f s =
     (if m_type f = TAIL \<or> m_type f = HEAD_TAIL then
        do { iPort \<leftarrow> at (inPorts (ns_ni s)) i;
             busy \<leftarrow> messageEnqueuedThisCycle iPort;
             (ok, s1) \<leftarrow> (if busy then Some (False, s)
                         else do { b \<leftarrow> out_buffer (m_vnet f) s;
                                   let (ok, b1) = areNSlotsAvailable 1 curTick b;
                                   Some (ok, set_out_buffer (m_vnet f) b1 s) });
             if ok then eject env curTick i f s1 else stall_flit i f s1 }
      else credit_and_count curTick i False f s)"

definition receive_flit :: "ni_env \<Rightarrow> tick \<Rightarrow> nat \<Rightarrow> ni_state \<Rightarrow> ni_state option" where
  "receive_flit env curTick i s =
     do { iPort \<leftarrow> at (inPorts (ns_ni s)) i;
          let l = inNetLink iPort;
          if fb_isReady curTick (ns_links s l) then
            do { (t_flit, b) \<leftarrow> fb_getTopFlit (ns_links s l);
                 check (m_width t_flit = ip_bitWidth iPort);
                 accept_flit env curTick i (t_flit\<lparr>m_dequeue_time := curTick\<rparr>)
                   (s\<lparr>ns_links := (ns_links s)(l := b)\<rparr>) }
          else Some s }"

definition receive_credit :: "tick \<Rightarrow> nat \<Rightarrow> ni_state \<Rightarrow> ni_state option" where
  "receive_credit curTick p s =
     do { oPort \<leftarrow> at (outPorts (ns_ni s)) p;
          let l = inCreditLink oPort;
          if fb_isReady curTick (ns_links s l) then
            do { (t_credit, b) \<leftarrow> fb_getTopFlit (ns_links s l);
                 ovc \<leftarrow> at (ni_outVcState (ns_ni s)) (m_vc t_credit);
                 ovc1 \<leftarrow> ovc_increment_credit ovc;
                 let ovc2 = (if m_is_free_signal t_credit then ovc_setState IDLE curTick ovc1 else ovc1);
                 Some (s\<lparr>ns_links := (ns_links s)(l := b),
                         ns_ni := (ns_ni s)\<lparr>ni_outVcState := (ni_outVcState (ns_ni s))[m_vc t_credit := ovc2]\<rparr>\<rparr>) }
          else Some s }"

definition schedule_credits :: "tick \<Rightarrow> ni_state \<Rightarrow> ni_state" where
  "schedule_credits curTick s =
     emit (map (\<lambda>iPort. Act (Sched (CLink (outCreditLink iPort)) (ni_edge curTick 1 s)))
       (filter (\<lambda>iPort. length (m_buffer (outCreditQueue iPort)) > 0) (inPorts (ns_ni s)))) s"

text \<open>The four loops of \<^verbatim>\<open>checkReschedule\<close> return at the first thing they find waiting; only the first has effects,
  those of \<^verbatim>\<open>isReady\<close>.\<close>

fun message_waiting :: "tick \<Rightarrow> MessageBuffer option list \<Rightarrow> (bool \<times> mb_effect list) option" where
  "message_waiting curTime [] = Some (False, [])"
| "message_waiting curTime (mb # mbs) =
     do { (ready, es) \<leftarrow> (case mb of None \<Rightarrow> Some (False, []) | Some b \<Rightarrow> mb_isReady curTime b);
          if ready then Some (True, es)
          else do { (r, es') \<leftarrow> message_waiting curTime mbs; Some (r, es @ es') } }"

definition checkReschedule :: "tick \<Rightarrow> ni_state \<Rightarrow> ni_state option" where
  "checkReschedule curTick s =
     do { (waiting, es) \<leftarrow> message_waiting (ni_edge curTick 0 s) (ns_in s);
          let s1 = emit (map Buf es) s;
          let again = (waiting \<or> (\<exists>b\<in>set (niOutVcs (ns_ni s)). fb_isReady (ni_edge curTick 1 s) b)
                \<or> (\<exists>p\<in>set (inPorts (ns_ni s)). fb_isReady curTick (ns_links s (inNetLink p)))
                \<or> (\<exists>p\<in>set (outPorts (ns_ni s)). fb_isReady curTick (ns_links s (inCreditLink p))));
          Some (if again then s1\<lparr>ns_self := scheduleEvent curTick 1 (ns_self s1)\<rparr> else s1) }"

subsection \<open>The wakeup\<close>

text \<open>One message per virtual network and cycle.  \<^verbatim>\<open>flitisizeMessage\<close> works on the message in the buffer, which keeps
  the destinations that found no channel.\<close>

definition take_message :: "ni_env \<Rightarrow> tick \<Rightarrow> nat \<Rightarrow> ni_state \<Rightarrow> ni_state option" where
  "take_message env curTime vnet s =
     do { mb \<leftarrow> at (ns_in s) vnet;
          (case mb of
             None \<Rightarrow> Some s
           | Some b \<Rightarrow>
               do { (ready, es) \<leftarrow> mb_isReady curTime b;
                    let s1 = emit (map Buf es) s;
                    if ready then
                      do { m \<leftarrow> heap_front (m_prio_heap b);
                           (done, m', s2) \<leftarrow> flitisizeMessage env curTime m vnet s1;
                           let b1 = b\<lparr>m_prio_heap := (m_prio_heap b)[0 := m']\<rparr>;
                           if done then
                             do { (_, b2, es2) \<leftarrow> dequeue curTime curTime True b1;
                                  Some (emit (map Buf es2) (s2\<lparr>ns_in := (ns_in s2)[vnet := Some b2]\<rparr>)) }
                           else Some (s2\<lparr>ns_in := (ns_in s2)[vnet := Some b1]\<rparr>) }
                    else Some s1 }) }"

definition NetworkInterface_wakeup :: "ni_env \<Rightarrow> tick \<Rightarrow> ni_state \<Rightarrow> ni_state option" where
  "NetworkInterface_wakeup env curTick s =
     do { check (m_router (ns_ni s) \<noteq> None);
          check (curTick = ni_edge curTick 0 s);
          s1 \<leftarrow> for_range (take_message env curTick) (length (ns_in s)) s;
          s2 \<leftarrow> scheduleOutputLink (ne_config env) curTick s1;
          s3 \<leftarrow> checkStallQueue env curTick s2;
          s4 \<leftarrow> for_range (receive_flit env curTick) (length (inPorts (ns_ni s3))) s3;
          s5 \<leftarrow> for_range (receive_credit curTick) (length (outPorts (ns_ni s4))) s4;
          checkReschedule curTick (schedule_credits curTick s5) }"

subsection \<open>Functional accesses\<close>

definition ni_queues :: "NetworkInterface \<Rightarrow> flitBuffer list" where
  "ni_queues ni = niOutVcs ni @ map outFlitQueue (outPorts ni)"

definition NetworkInterface_functionalRead :: "(Message \<Rightarrow> bool) \<Rightarrow> NetworkInterface \<Rightarrow> bool option" where
  "NetworkInterface_functionalRead rd ni =
     for_list (\<lambda>b read. do { r \<leftarrow> fb_functionalRead rd b; Some (if r then True else read) }) (ni_queues ni) False"

definition NetworkInterface_functionalWrite ::
  "(Message \<Rightarrow> Message \<times> bool) \<Rightarrow> NetworkInterface \<Rightarrow> (NetworkInterface \<times> nat) option"
where
  "NetworkInterface_functionalWrite wr ni =
     do { vs \<leftarrow> map_opt (fb_functionalWrite wr) (niOutVcs ni);
          ps \<leftarrow> map_opt (\<lambda>p. do { (b, n) \<leftarrow> fb_functionalWrite wr (outFlitQueue p);
                                 Some (p\<lparr>outFlitQueue := b\<rparr>, n) }) (outPorts ni);
          Some (ni\<lparr>niOutVcs := map fst vs, outPorts := map fst ps\<rparr>,
                sum_list (map snd vs) + sum_list (map snd ps)) }"

subsection \<open>The search for an idle channel\<close>

definition vc_idle :: "tick \<Rightarrow> NetworkInterface \<Rightarrow> nat \<Rightarrow> bool" where
  "vc_idle t ni vc \<longleftrightarrow> ovc_isInState IDLE t (ni_outVcState ni ! vc)"

definition vcs_of :: "nat \<Rightarrow> NetworkInterface \<Rightarrow> nat set" where
  "vcs_of vnet ni = {vnet * ni_vc_per_vnet ni ..< (vnet + 1) * ni_vc_per_vnet ni}"

definition alloc_ok :: "NetworkInterface \<Rightarrow> bool" where
  "alloc_ok ni \<longleftrightarrow> (\<forall>d\<in>set (m_vc_allocator ni). d < ni_vc_per_vnet ni)"

text \<open>The channel that is \<open>i\<close> places after the one \<^verbatim>\<open>m_vc_allocator\<close> points to.\<close>

definition rr_vc :: "nat \<Rightarrow> NetworkInterface \<Rightarrow> nat \<Rightarrow> nat" where
  "rr_vc vnet ni i = vnet * ni_vc_per_vnet ni + (m_vc_allocator ni ! vnet + i) mod ni_vc_per_vnet ni"

lemma next_vc_Some:
  assumes "next_vc vnet ni = Some (vc, ni1)" "alloc_ok ni"
  shows "vnet < length (m_vc_allocator ni)" "vc = rr_vc vnet ni 0" "alloc_ok ni1"
    "ni1 = ni\<lparr>m_vc_allocator := (m_vc_allocator ni)[vnet := (m_vc_allocator ni ! vnet + 1) mod ni_vc_per_vnet ni]\<rparr>"
    "rr_vc vnet ni1 i = rr_vc vnet ni (Suc i)"
proof -
  let ?d = "m_vc_allocator ni ! vnet" and ?n = "ni_vc_per_vnet ni"
  from assms(1) have v: "vnet < length (m_vc_allocator ni)" and vc: "vc = vnet * ?n + ?d"
    and ni1: "ni1 = ni\<lparr>m_vc_allocator := (m_vc_allocator ni)[vnet := if ?d + 1 = ?n then 0 else ?d + 1]\<rparr>"
    by (auto simp: next_vc_def bind_eq_Some_conv)
  have d: "?d < ?n" using assms(2) v by (simp add: alloc_ok_def)
  have step: "(if ?d + 1 = ?n then 0 else ?d + 1) = (?d + 1) mod ?n" using d by auto
  show "vnet < length (m_vc_allocator ni)" by (rule v)
  show "vc = rr_vc vnet ni 0" using vc d by (simp add: rr_vc_def)
  show eq: "ni1 = ni\<lparr>m_vc_allocator := (m_vc_allocator ni)[vnet := (?d + 1) mod ?n]\<rparr>" using ni1 step by simp
  show "alloc_ok ni1" using assms(2) d set_update_subset_insert [of "m_vc_allocator ni" vnet]
    by (fastforce simp: eq alloc_ok_def)
  show "rr_vc vnet ni1 i = rr_vc vnet ni (Suc i)" using v by (simp add: eq rr_vc_def mod_add_left_eq)
qed

lemma next_vc_frame:
  "next_vc vnet ni = Some (vc, ni1) \<Longrightarrow> ni_outVcState ni1 = ni_outVcState ni \<and> ni_vc_per_vnet ni1 = ni_vc_per_vnet ni"
  by (auto simp: next_vc_def bind_eq_Some_conv)

lemma search_vc_spec:
  assumes "search_vc t vnet n ni = Some (r, ni')" "alloc_ok ni"
  shows "case r of None \<Rightarrow> \<forall>i<n. \<not> vc_idle t ni (rr_vc vnet ni i)
    | Some vc \<Rightarrow> vc < length (ni_outVcState ni) \<and> vc_idle t ni vc
        \<and> (\<exists>i<n. vc = rr_vc vnet ni i \<and> (\<forall>j<i. \<not> vc_idle t ni (rr_vc vnet ni j)))"
  using assms
proof (induction n arbitrary: ni)
  case (Suc n)
  from Suc.prems(1) obtain vc ni1 where nx: "next_vc vnet ni = Some (vc, ni1)"
    and vc: "vc < length (ni_outVcState ni1)"
    and rest: "(if ovc_isInState IDLE t (ni_outVcState ni1 ! vc) then Some (Some vc, ni1)
       else search_vc t vnet n ni1) = Some (r, ni')"
    by (auto simp: bind_eq_Some_conv split: if_splits)
  note ni1 = next_vc_Some [OF nx Suc.prems(2)] and fr = next_vc_frame [OF nx]
  show ?case
  proof (cases "vc_idle t ni vc")
    case True
    then have "r = Some vc" using rest fr by (auto simp: vc_idle_def)
    then show ?thesis using True vc fr ni1(2) by auto
  next
    case False
    then have s: "search_vc t vnet n ni1 = Some (r, ni')" using rest fr by (auto simp: vc_idle_def split: if_splits)
    have idle: "vc_idle t ni1 x = vc_idle t ni x" for x using fr by (simp add: vc_idle_def)
    from Suc.IH [OF s ni1(3)] False ni1(2) show ?thesis
      unfolding ni1(5) idle using fr
      by (auto split: option.splits simp: less_Suc_eq_0_disj)
        (metis Suc_less_eq less_Suc_eq_0_disj not0_implies_Suc)
  qed
qed simp

lemma search_vc_frame:
  assumes "search_vc t vnet n ni = Some (r, ni')"
  shows "\<exists>a. ni' = ni\<lparr>m_vc_allocator := a\<rparr> \<and> (alloc_ok ni \<longrightarrow> alloc_ok ni')"
  using assms
proof (induction n arbitrary: ni)
  case 0
  then show ?case by (intro exI [of _ "m_vc_allocator ni"]) auto
next
  case (Suc n)
  from Suc.prems obtain vc ni1 where nx: "next_vc vnet ni = Some (vc, ni1)"
    and rest: "ni' = ni1 \<or> search_vc t vnet n ni1 = Some (r, ni')"
    by (auto simp: bind_eq_Some_conv split: if_splits)
  have "\<exists>a. ni1 = ni\<lparr>m_vc_allocator := a\<rparr>" using nx by (auto simp: next_vc_def bind_eq_Some_conv)
  moreover have "alloc_ok ni \<longrightarrow> alloc_ok ni1" using next_vc_Some(3) [OF nx] by simp
  ultimately show ?case using rest Suc.IH [of ni1] by auto
qed

lemma rr_vc_in: "alloc_ok ni \<Longrightarrow> 0 < ni_vc_per_vnet ni \<Longrightarrow> rr_vc vnet ni i \<in> vcs_of vnet ni"
  by (auto simp: rr_vc_def vcs_of_def)

lemma rr_vc_all:
  assumes "vc \<in> vcs_of vnet ni"
  shows "\<exists>i<ni_vc_per_vnet ni. vc = rr_vc vnet ni i"
proof -
  let ?n = "ni_vc_per_vnet ni" and ?d = "m_vc_allocator ni ! vnet"
  have n: "0 < ?n" using assms by (auto simp: vcs_of_def intro: gr0I)
  define k where "k = vc - vnet * ?n"
  have k: "vc = vnet * ?n + k" "k < ?n" using assms by (auto simp: vcs_of_def k_def)
  let ?i = "(k + (?n - ?d mod ?n)) mod ?n"
  have "(?d + ?i) mod ?n = (?d mod ?n + (k + (?n - ?d mod ?n))) mod ?n" by (simp add: mod_simps)
  also have "?d mod ?n + (k + (?n - ?d mod ?n)) = k + ?n"
    using mod_le_divisor [OF n, of ?d] by linarith
  finally have "(?d + ?i) mod ?n = k" using k(2) by simp
  then show ?thesis using k(1) n by (intro exI [of _ ?i]) (simp add: rr_vc_def)
qed

lemma calculateVC_Some:
  assumes "calculateVC t vnet ni = Some (r, ni')"
  obtains ni1 b where "search_vc t vnet (ni_vc_per_vnet ni) ni = Some (r, ni1)" "ni' = ni1\<lparr>vc_busy_counter := b\<rparr>"
    "r = None \<Longrightarrow> vc_busy_counter ni1 ! vnet < m_deadlock_threshold ni1"
  using assms by (auto simp: calculateVC_def bind_eq_Some_conv split: option.splits)

lemma calculateVC_facts:
  assumes "calculateVC t vnet ni = Some (r, ni')" "alloc_ok ni"
  shows "case r of None \<Rightarrow> \<forall>vc\<in>vcs_of vnet ni. \<not> vc_idle t ni vc
    | Some vc \<Rightarrow> vc \<in> vcs_of vnet ni \<and> vc_idle t ni vc
        \<and> (\<exists>i. vc = rr_vc vnet ni i \<and> (\<forall>j<i. \<not> vc_idle t ni (rr_vc vnet ni j)))"
  using assms(1)
proof (cases rule: calculateVC_Some)
  case (1 ni1 b)
  show ?thesis
  proof (cases r)
    case None
    then show ?thesis using search_vc_spec [OF 1(1) assms(2)] rr_vc_all by fastforce
  next
    case (Some vc)
    then obtain i where "i < ni_vc_per_vnet ni" "vc = rr_vc vnet ni i" "vc_idle t ni vc"
      "\<forall>j<i. \<not> vc_idle t ni (rr_vc vnet ni j)" using search_vc_spec [OF 1(1) assms(2)] by auto
    then show ?thesis using Some rr_vc_in [OF assms(2), of vnet i] by auto
  qed
qed

subsection \<open>Stalled messages\<close>

text \<open>What the stalling of messages depends on: the flits in the stall queues, \<^verbatim>\<open>m_stall_count\<close>, and which
  protocol buffers have the callback.\<close>

definition stalled_flits :: "ni_state \<Rightarrow> flit multiset" where
  "stalled_flits s = mset (concat (map m_stall_queue (inPorts (ns_ni s))))"

definition callbacks :: "ni_state \<Rightarrow> bool option list" where
  "callbacks s = map (map_option m_dequeue_callback) (ns_out s)"

definition on_vnet :: "nat \<Rightarrow> flit multiset \<Rightarrow> nat" where
  "on_vnet v M = size {#f \<in># M. m_vnet f = v#}"

definition stall_inv :: "flit multiset \<Rightarrow> int list \<Rightarrow> bool option list \<Rightarrow> bool" where
  "stall_inv M cnt cbs \<longleftrightarrow> (\<forall>v<length cnt. cnt ! v = int (on_vnet v M))
     \<and> (\<forall>v. 0 < on_vnet v M \<longrightarrow> v < length cnt \<and> v < length cbs)
     \<and> (\<forall>v<length cbs. cbs ! v = Some True \<longleftrightarrow> 0 < on_vnet v M)"

definition stall_ok :: "ni_state \<Rightarrow> bool" where
  "stall_ok s \<longleftrightarrow> stall_inv (stalled_flits s) (ni_stall_count (ns_ni s)) (callbacks s)"

lemma on_vnet_add: "on_vnet v (add_mset f M) = (if m_vnet f = v then Suc (on_vnet v M) else on_vnet v M)"
  by (simp add: on_vnet_def)

lemma stall_inv_add:
  assumes "stall_inv M cnt cbs" "v = m_vnet f" "v < length cnt" "v < length cbs"
  shows "stall_inv (add_mset f M) (cnt[v := cnt ! v + 1]) (cbs[v := Some True])"
  using assms by (auto simp: stall_inv_def on_vnet_add nth_list_update)

lemma stall_inv_remove:
  assumes "stall_inv (add_mset f M) cnt cbs" "v = m_vnet f" "v < length cnt" "v < length cbs"
  shows "stall_inv M (cnt[v := cnt ! v - 1]) (if cnt ! v - 1 = 0 then cbs[v := Some False] else cbs)"
  using assms by (auto simp: stall_inv_def on_vnet_add nth_list_update split: if_splits)

lemma concat_update:
  "i < length qs \<Longrightarrow> mset (concat (qs[i := q])) + mset (qs ! i) = mset (concat qs) + mset q"
  by (induction qs arbitrary: i) (auto simp: nth_Cons split: nat.splits)

lemma stalled_set_in_port:
  assumes "i < length (inPorts (ns_ni s))"
  shows "stalled_flits (set_in_port i p s) + mset (m_stall_queue (inPorts (ns_ni s) ! i))
    = stalled_flits s + mset (m_stall_queue p)"
  using concat_update [of i "map m_stall_queue (inPorts (ns_ni s))" "m_stall_queue p"] assms
  by (simp add: stalled_flits_def set_in_port_def map_update)

lemma stall_frames [simp]:
  "stalled_flits (emit es s) = stalled_flits s" "callbacks (emit es s) = callbacks s"
  "ns_ni (emit es s) = ns_ni s" "ns_out (emit es s) = ns_out s"
  "stalled_flits (set_out_buffer v b s) = stalled_flits s" "ns_ni (set_out_buffer v b s) = ns_ni s"
  "callbacks (set_out_buffer v b s) = (callbacks s)[v := Some (m_dequeue_callback b)]"
  "callbacks (set_in_port i p s) = callbacks s" "ns_out (set_in_port i p s) = ns_out s"
  "ni_stall_count (ns_ni (set_in_port i p s)) = ni_stall_count (ns_ni s)"
  "inPorts (ns_ni (set_in_port i p s)) = (inPorts (ns_ni s))[i := p]"
  "callbacks (s\<lparr>ns_ni := ni\<rparr>) = callbacks s"
  "stalled_flits (s\<lparr>ns_ni := (ns_ni s)\<lparr>ni_stall_count := c\<rparr>\<rparr>) = stalled_flits s"
  by (simp_all add: emit_def stalled_flits_def callbacks_def set_out_buffer_def set_in_port_def map_update)

lemma out_buffer_Some: "out_buffer v s = Some b \<longleftrightarrow> v < length (ns_out s) \<and> ns_out s ! v = Some b"
  by (auto simp: out_buffer_def bind_eq_Some_conv)

lemma out_buffer_callback:
  "out_buffer v s = Some b \<Longrightarrow> v < length (callbacks s) \<and> callbacks s ! v = Some (m_dequeue_callback b)"
  by (auto simp: out_buffer_Some callbacks_def)

lemma count_frames:
  "count_flit v a b ni = Some ni' \<Longrightarrow> inPorts ni' = inPorts ni \<and> ni_stall_count ni' = ni_stall_count ni"
  "count_packet v a b ni = Some ni' \<Longrightarrow> inPorts ni' = inPorts ni \<and> ni_stall_count ni' = ni_stall_count ni"
  by (auto simp: count_flit_def count_packet_def bind_eq_Some_conv)

lemma incrementStats_frame:
  assumes "incrementStats t p f ni = Some ni'"
  shows "inPorts ni' = inPorts ni" "ni_stall_count ni' = ni_stall_count ni"
  using assms by (auto simp: incrementStats_def bind_eq_Some_conv split: if_splits dest!: count_frames)

lemma enqueue_callback: "enqueue rnd m now d rr w y b = Some (b', es) \<Longrightarrow> m_dequeue_callback b' = m_dequeue_callback b"
  by (auto simp: enqueue_def arrival_def count_enqueue_def note_arrival_def heap_push_def Let_def bind_eq_Some_conv
      split: if_splits)

lemma slots_callback: "areNSlotsAvailable n t b = (r, b') \<Longrightarrow> m_dequeue_callback b' = m_dequeue_callback b"
  by (auto simp: areNSlotsAvailable_def Let_def split: if_splits)

lemma credit_and_count_frame:
  assumes "credit_and_count t i free f s = Some s'"
  shows "stalled_flits s' = stalled_flits s" "callbacks s' = callbacks s"
    "ni_stall_count (ns_ni s') = ni_stall_count (ns_ni s)"
    "length (inPorts (ns_ni s')) = length (inPorts (ns_ni s))"
proof -
  from assms obtain ni where i: "i < length (inPorts (ns_ni s))"
    and ni: "incrementStats t (em_period (ns_self s)) f
        (ns_ni (set_in_port i (sendCredit (Credit_new (m_vc f) free t) (inPorts (ns_ni s) ! i)) s)) = Some ni"
    and s': "s' = (set_in_port i (sendCredit (Credit_new (m_vc f) free t) (inPorts (ns_ni s) ! i)) s)\<lparr>ns_ni := ni\<rparr>"
    by (auto simp: credit_and_count_def bind_eq_Some_conv Let_def)
  have "stalled_flits s' = stalled_flits (set_in_port i (sendCredit (Credit_new (m_vc f) free t) (inPorts (ns_ni s) ! i)) s)"
    using incrementStats_frame [OF ni] by (simp add: s' stalled_flits_def)
  then show "stalled_flits s' = stalled_flits s"
    using stalled_set_in_port [OF i, of "sendCredit (Credit_new (m_vc f) free t) (inPorts (ns_ni s) ! i)"]
    by (simp add: sendCredit_def)
  show "callbacks s' = callbacks s" by (simp add: s' callbacks_def set_in_port_def)
  show "ni_stall_count (ns_ni s') = ni_stall_count (ns_ni s)" "length (inPorts (ns_ni s')) = length (inPorts (ns_ni s))"
    using incrementStats_frame [OF ni] by (simp_all add: s')
qed

lemma list_update_same_nth: "v < length xs \<Longrightarrow> xs ! v = x \<Longrightarrow> xs[v := x] = xs"
  by auto

lemma eject_frame:
  assumes "eject env t i f s = Some s'"
  shows "stalled_flits s' = stalled_flits s" "callbacks s' = callbacks s"
    "ni_stall_count (ns_ni s') = ni_stall_count (ns_ni s)"
    "length (inPorts (ns_ni s')) = length (inPorts (ns_ni s))" "m_vnet f < length (callbacks s)"
proof -
  from assms obtain b m b' es where b: "out_buffer (m_vnet f) s = Some b"
    and e: "enqueue (ne_random env) m t (em_period (ns_self s)) (ne_randomization env) (ne_warmup env) False b = Some (b', es)"
    and c: "credit_and_count t i True f (emit (map Buf es) (set_out_buffer (m_vnet f) b' s)) = Some s'"
    by (auto simp: eject_def bind_eq_Some_conv)
  have "(callbacks s)[m_vnet f := Some (m_dequeue_callback b')] = callbacks s"
    using out_buffer_callback [OF b] enqueue_callback [OF e] by (simp add: list_update_same_nth)
  then show "stalled_flits s' = stalled_flits s" "callbacks s' = callbacks s"
    "ni_stall_count (ns_ni s') = ni_stall_count (ns_ni s)"
    "length (inPorts (ns_ni s')) = length (inPorts (ns_ni s))" "m_vnet f < length (callbacks s)"
    using credit_and_count_frame [OF c] out_buffer_callback [OF b] by simp_all
qed

lemma stall_scan_facts:
  assumes "stall_scan t outs q = Some (r, q', outs')"
  shows "mset q = mset q' + (case r of None \<Rightarrow> {#} | Some f \<Rightarrow> {#f#})"
    "map (map_option m_dequeue_callback) outs' = map (map_option m_dequeue_callback) outs"
proof -
  have "mset q = mset q' + (case r of None \<Rightarrow> {#} | Some f \<Rightarrow> {#f#})
    \<and> map (map_option m_dequeue_callback) outs' = map (map_option m_dequeue_callback) outs"
    using assms
  proof (induction q arbitrary: outs q')
    case (Cons f q)
    from Cons.prems obtain b where b: "m_vnet f < length outs" "outs ! m_vnet f = Some b"
      by (auto simp: bind_eq_Some_conv)
    obtain ok b1 where a: "areNSlotsAvailable 1 t b = (ok, b1)" by (cases "areNSlotsAvailable 1 t b")
    have rest: "(if ok then Some (Some f, q, outs[m_vnet f := Some b1])
        else do { (r, fs', outs2) \<leftarrow> stall_scan t (outs[m_vnet f := Some b1]) q; Some (r, f # fs', outs2) }) = Some (r, q', outs')"
      using Cons.prems b a by (simp add: at_def Let_def)
    have cb: "map (map_option m_dequeue_callback) (outs[m_vnet f := Some b1]) = map (map_option m_dequeue_callback) outs"
      using b slots_callback [OF a] by (simp add: map_update list_update_same_nth)
    show ?case
    proof (cases ok)
      case True
      then show ?thesis using rest cb by auto
    next
      case False
      then obtain fs' where "stall_scan t (outs[m_vnet f := Some b1]) q = Some (r, fs', outs')" "q' = f # fs'"
        using rest by (auto simp: bind_eq_Some_conv)
      then show ?thesis using Cons.IH cb by auto
    qed
  qed auto
  then show "mset q = mset q' + (case r of None \<Rightarrow> {#} | Some f \<Rightarrow> {#f#})"
    "map (map_option m_dequeue_callback) outs' = map (map_option m_dequeue_callback) outs" by auto
qed


lemma release_stall_ok:
  assumes "release_stall (m_vnet f) s = Some s'"
    and "stall_inv (add_mset f (stalled_flits s)) (ni_stall_count (ns_ni s)) (callbacks s)"
  shows "stall_ok s'" "length (inPorts (ns_ni s')) = length (inPorts (ns_ni s))"
proof -
  let ?v = "m_vnet f" and ?n = "ni_stall_count (ns_ni s)"
  let ?s1 = "s\<lparr>ns_ni := (ns_ni s)\<lparr>ni_stall_count := ?n[?v := ?n ! ?v - 1]\<rparr>\<rparr>"
  from assms(1) have v: "?v < length ?n"
    and s': "(if ?n ! ?v - 1 = 0 then do { b \<leftarrow> out_buffer ?v ?s1; Some (set_out_buffer ?v (unregisterDequeueCallback b) ?s1) }
      else Some ?s1) = Some s'"
    by (auto simp: release_stall_def bind_eq_Some_conv Let_def)
  have c: "?v < length (callbacks s)" using assms(2) by (simp add: stall_inv_def on_vnet_add)
  have "stalled_flits s' = stalled_flits s" "ni_stall_count (ns_ni s') = ?n[?v := ?n ! ?v - 1]"
    "callbacks s' = (if ?n ! ?v - 1 = 0 then (callbacks s)[?v := Some False] else callbacks s)"
    using s' by (auto simp: bind_eq_Some_conv unregisterDequeueCallback_def split: if_splits)
  then show "stall_ok s'" using stall_inv_remove [OF assms(2) refl v c] by (simp add: stall_ok_def)
  show "length (inPorts (ns_ni s')) = length (inPorts (ns_ni s))"
    using s' by (auto simp: bind_eq_Some_conv split: if_splits)
qed

lemma set_in_port_stall_ok:
  assumes "stall_ok s" "i < length (inPorts (ns_ni s))" "m_stall_queue p = m_stall_queue (inPorts (ns_ni s) ! i)"
  shows "stall_ok (set_in_port i p s)"
  using stalled_set_in_port [OF assms(2), of p] assms by (simp add: stall_ok_def)

lemma check_stall_port_ok:
  assumes "check_stall_port env t i s = Some s'" "stall_ok s"
  shows "stall_ok s'"
proof -
  from assms(1) obtain r q outs where i: "i < length (inPorts (ns_ni s))"
    and sc: "stall_scan t (ns_out s) (m_stall_queue (inPorts (ns_ni s) ! i)) = Some (r, q, outs)"
    by (auto simp: check_stall_port_def bind_eq_Some_conv)
  let ?p = "(inPorts (ns_ni s) ! i)\<lparr>messageEnqueuedThisCycle := Some False, m_stall_queue := q\<rparr>"
  let ?s1 = "(set_in_port i ?p s)\<lparr>ns_out := outs\<rparr>"
  have res: "(case r of None \<Rightarrow> Some ?s1 | Some f \<Rightarrow> do { s2 \<leftarrow> eject env t i f ?s1; s3 \<leftarrow> release_stall (m_vnet f) s2;
       p \<leftarrow> at (inPorts (ns_ni s3)) i; Some (set_in_port i (p\<lparr>messageEnqueuedThisCycle := Some True\<rparr>) s3) }) = Some s'"
    using assms(1) i sc by (simp add: check_stall_port_def at_def Let_def)
  note f = stall_scan_facts [OF sc]
  have m: "stalled_flits ?s1 + (case r of None \<Rightarrow> {#} | Some f \<Rightarrow> {#f#}) = stalled_flits s"
    using stalled_set_in_port [OF i, of ?p] f(1) by (simp add: stalled_flits_def)
  have cb: "callbacks ?s1 = callbacks s" "ni_stall_count (ns_ni ?s1) = ni_stall_count (ns_ni s)"
    using f(2) by (simp_all add: callbacks_def)
  show ?thesis
  proof (cases r)
    case None
    then show ?thesis using res m cb assms(2) by (simp add: stall_ok_def)
  next
    case (Some f)
    then obtain s2 s3 where s2: "eject env t i f ?s1 = Some s2" and s3: "release_stall (m_vnet f) s2 = Some s3"
      and i3: "i < length (inPorts (ns_ni s3))"
      and s': "s' = set_in_port i ((inPorts (ns_ni s3) ! i)\<lparr>messageEnqueuedThisCycle := Some True\<rparr>) s3"
      using res by (auto simp: bind_eq_Some_conv)
    have "stall_inv (add_mset f (stalled_flits s2)) (ni_stall_count (ns_ni s2)) (callbacks s2)"
      using assms(2) eject_frame [OF s2] cb m Some by (simp add: stall_ok_def)
    from release_stall_ok(1) [OF s3 this] i3 show ?thesis
      unfolding s' by (rule set_in_port_stall_ok) simp
  qed
qed

lemma stall_flit_ok:
  assumes "stall_flit i f s = Some s'" "stall_ok s"
  shows "stall_ok s'"
proof -
  let ?p = "(inPorts (ns_ni s) ! i)\<lparr>m_stall_queue := m_stall_queue (inPorts (ns_ni s) ! i) @ [f]\<rparr>"
  let ?s1 = "set_in_port i ?p s" and ?v = "m_vnet f" and ?n = "ni_stall_count (ns_ni s)"
  from assms(1) obtain b where i: "i < length (inPorts (ns_ni s))" and v: "?v < length ?n"
    and b: "out_buffer ?v ?s1 = Some b"
    and s': "s' = set_out_buffer ?v (registerDequeueCallback b)
       (?s1\<lparr>ns_ni := (ns_ni ?s1)\<lparr>ni_stall_count := ?n[?v := ?n ! ?v + 1]\<rparr>\<rparr>)"
    by (auto simp: stall_flit_def bind_eq_Some_conv Let_def)
  have m: "stalled_flits ?s1 = add_mset f (stalled_flits s)" using stalled_set_in_port [OF i, of ?p] by simp
  have "stalled_flits s' = stalled_flits ?s1" by (simp add: s')
  moreover have "callbacks s' = (callbacks s)[?v := Some True]"
    by (simp add: s' registerDequeueCallback_def)
  moreover have "ni_stall_count (ns_ni s') = ?n[?v := ?n ! ?v + 1]" by (simp add: s')
  moreover have "?v < length (callbacks s)" using out_buffer_callback [OF b] by simp
  ultimately show ?thesis
    using stall_inv_add [of "stalled_flits s" ?n "callbacks s" ?v f] v assms(2) m by (simp add: stall_ok_def)
qed

lemma stall_ok_frame:
  "stalled_flits s' = stalled_flits s \<Longrightarrow> callbacks s' = callbacks s \<Longrightarrow>
     ni_stall_count (ns_ni s') = ni_stall_count (ns_ni s) \<Longrightarrow> stall_ok s' = stall_ok s"
  by (simp add: stall_ok_def)

lemma accept_flit_ok:
  assumes "accept_flit env t i f s = Some s'" "stall_ok s"
  shows "stall_ok s'"
proof (cases "m_type f = TAIL \<or> m_type f = HEAD_TAIL")
  case True
  with assms(1) obtain busy ok s1 where r: "(if busy then Some (False, s)
       else do { b \<leftarrow> out_buffer (m_vnet f) s; let (ok, b1) = areNSlotsAvailable 1 t b;
                 Some (ok, set_out_buffer (m_vnet f) b1 s) }) = Some (ok, s1)"
    and s': "(if ok then eject env t i f s1 else stall_flit i f s1) = Some s'"
    by (auto simp: accept_flit_def bind_eq_Some_conv)
  have "stall_ok s1"
  proof (cases busy)
    case False
    then obtain b where b: "out_buffer (m_vnet f) s = Some b" using r by (auto simp: bind_eq_Some_conv)
    obtain ok1 b1 where a: "areNSlotsAvailable 1 t b = (ok1, b1)" by (cases "areNSlotsAvailable 1 t b")
    have s1: "s1 = set_out_buffer (m_vnet f) b1 s" using r False b a by simp
    have "callbacks s1 = callbacks s"
      using out_buffer_callback [OF b] slots_callback [OF a] by (simp add: s1 list_update_same_nth)
    then show ?thesis using stall_ok_frame [of s1 s] assms(2) by (simp add: s1)
  qed (use r assms(2) in simp)
  moreover have "stall_ok s' = stall_ok s1" if ok
    using that s' stall_ok_frame [OF eject_frame(1-3)] by simp
  ultimately show ?thesis using s' stall_flit_ok by (cases ok) auto
next
  case False
  then have "credit_and_count t i False f s = Some s'" using assms(1) by (simp add: accept_flit_def)
  from stall_ok_frame [OF credit_and_count_frame(1-3) [OF this]] assms(2) show ?thesis by simp
qed

definition stall_same :: "ni_state \<Rightarrow> ni_state \<Rightarrow> bool" where
  "stall_same s s' \<longleftrightarrow> inPorts (ns_ni s') = inPorts (ns_ni s) \<and> ni_stall_count (ns_ni s') = ni_stall_count (ns_ni s)
     \<and> ns_out s' = ns_out s"

lemma stall_same_refl [simp]: "stall_same s s"
  by (simp add: stall_same_def)

lemma stall_same_trans [trans]: "stall_same s s1 \<Longrightarrow> stall_same s1 s2 \<Longrightarrow> stall_same s s2"
  by (simp add: stall_same_def)

lemma stall_same_ok: "stall_same s s' \<Longrightarrow> stall_ok s' = stall_ok s"
  by (simp add: stall_same_def stall_ok_def stalled_flits_def callbacks_def)

lemma stall_same_emit [simp]: "stall_same s (emit es s') = stall_same s s'"
  by (simp add: stall_same_def)

lemma stall_same_in [simp]: "stall_same s (s'\<lparr>ns_in := x\<rparr>) = stall_same s s'"
  by (simp add: stall_same_def)

lemma calculateVC_frame:
  assumes "calculateVC t vnet ni = Some (r, ni')"
  shows "\<exists>a b. ni' = ni\<lparr>m_vc_allocator := a, vc_busy_counter := b\<rparr> \<and> (alloc_ok ni \<longrightarrow> alloc_ok ni')"
  using assms
proof (cases rule: calculateVC_Some)
  case (1 ni1 b)
  from search_vc_frame [OF 1(1)] obtain a where "ni1 = ni\<lparr>m_vc_allocator := a\<rparr>" "alloc_ok ni \<longrightarrow> alloc_ok ni1" by blast
  then show ?thesis using 1(2) by (intro exI [of _ a] exI [of _ b]) (simp add: alloc_ok_def)
qed

lemma update_traffic_frame:
  assumes "update_traffic_distribution cfg route s = Some s'"
  shows "\<exists>d c. s' = s\<lparr>ns_data_traffic := d, ns_ctrl_traffic := c\<rparr>"
  using assms
  by (auto simp: update_traffic_distribution_def bind_eq_Some_conv split: if_splits)
    (metis ni_state.surjective ni_state.update_convs(7,8))+

lemma inject_packet_same:
  assumes "inject_packet env t vnet oPort n sz vc d m m1 s = Some s'"
  shows "stall_same s s'"
proof -
  from assms obtain route s1 ni where s1: "update_traffic_distribution (ne_config env) route s = Some s1"
    and ni: "fill_vc t vnet vc (packet (ns_packet_id s1) vc vnet route n m1 sz (op_bitWidth oPort) t (t - msg_time m)) (ns_ni s1) = Some ni"
    and s': "s' = s1\<lparr>ns_ni := ni, ns_packet_id := ns_packet_id s1 + 1\<rparr>"
    by (auto simp: inject_packet_def bind_eq_Some_conv Let_def)
  from update_traffic_frame [OF s1] obtain dd cc where "s1 = s\<lparr>ns_data_traffic := dd, ns_ctrl_traffic := cc\<rparr>" by blast
  moreover have "inPorts ni = inPorts (ns_ni s1)" "ni_stall_count ni = ni_stall_count (ns_ni s1)"
    using ni by (auto simp: fill_vc_def bind_eq_Some_conv)
  ultimately show ?thesis using s' by (simp add: stall_same_def)
qed

lemma flitisize_loop_same:
  "flitisize_loop env t vnet oPort n sz mc ds m nd s = Some (ok, m', s') \<Longrightarrow> stall_same s s'"
proof (induction ds arbitrary: m nd s)
  case (Cons d ds)
  from Cons.prems obtain r ni where c: "calculateVC t vnet (ns_ni s) = Some (r, ni)"
    and rest: "(case r of None \<Rightarrow> Some (False, m, s\<lparr>ns_ni := ni\<rparr>) | Some vc \<Rightarrow>
       do { (new_msg, m1, nd1) \<leftarrow> split_dest (ne_controllers env) mc d m nd;
            s2 \<leftarrow> inject_packet env t vnet oPort n sz vc d m new_msg (s\<lparr>ns_ni := ni\<rparr>);
            flitisize_loop env t vnet oPort n sz mc ds m1 nd1 s2 }) = Some (ok, m', s')"
    by (auto simp: bind_eq_Some_conv Let_def)
  have "stall_same s (s\<lparr>ns_ni := ni\<rparr>)" using calculateVC_frame [OF c] by (auto simp: stall_same_def)
  with rest Cons.IH show ?case
    by (auto split: option.splits simp: bind_eq_Some_conv) (meson inject_packet_same stall_same_trans)
qed simp

lemma take_message_same:
  assumes "take_message env t v s = Some s'"
  shows "stall_same s s'"
proof -
  have fl: "flitisizeMessage env t m v s0 = Some (ok, m', s1) \<Longrightarrow> stall_same s0 s1" for m s0 ok m' s1
    by (auto simp: flitisizeMessage_def bind_eq_Some_conv Let_def dest: flitisize_loop_same)
  have em: "stall_same (emit es s) s1 = stall_same s s1" for es s1 by (simp add: stall_same_def)
  show ?thesis using assms
    by (auto simp: take_message_def bind_eq_Some_conv Let_def split: option.splits if_splits)
      (use fl em in blast)+
qed

lemma send_flit_same:
  assumes "send_flit t p vc s = Some s'"
  shows "stall_same s s'"
proof -
  have sf: "scheduleFlit t f s0 = Some s1 \<Longrightarrow> stall_same s0 s1" for f s0 s1
    by (auto simp: scheduleFlit_def bind_eq_Some_conv Let_def stall_same_def emit_def)
  show ?thesis using assms
    by (auto simp: send_flit_def bind_eq_Some_conv split: if_splits dest!: sf) (simp_all add: stall_same_def)
qed

lemma scheduleOutputPort_same: "scheduleOutputPort cfg t p s = Some s' \<Longrightarrow> stall_same s s'"
  by (auto simp: scheduleOutputPort_def bind_eq_Some_conv split: option.splits dest: send_flit_same)

lemma receive_flit_ok:
  assumes "receive_flit env t i s = Some s'" "stall_ok s"
  shows "stall_ok s'"
proof (cases "fb_isReady t (ns_links s (inNetLink (inPorts (ns_ni s) ! i)))")
  case True
  with assms(1) obtain f b where
    "accept_flit env t i f (s\<lparr>ns_links := (ns_links s)(inNetLink (inPorts (ns_ni s) ! i) := b)\<rparr>) = Some s'"
    by (auto simp: receive_flit_def bind_eq_Some_conv Let_def)
  moreover have "stall_ok (s\<lparr>ns_links := l\<rparr>) = stall_ok s" for l
    by (simp add: stall_ok_def stalled_flits_def callbacks_def)
  ultimately show ?thesis using assms(2) accept_flit_ok by simp
next
  case False
  then show ?thesis using assms by (auto simp: receive_flit_def bind_eq_Some_conv Let_def)
qed

lemma receive_credit_same: "receive_credit t p s = Some s' \<Longrightarrow> stall_same s s'"
  by (auto simp: receive_credit_def bind_eq_Some_conv Let_def stall_same_def split: if_splits)

lemma checkReschedule_same: "checkReschedule t s = Some s' \<Longrightarrow> stall_same s s'"
  by (auto simp: checkReschedule_def bind_eq_Some_conv Let_def stall_same_def)

lemma stall_loop:
  assumes "for_range f n s = Some s'" "stall_ok s" "\<And>i s s'. f i s = Some s' \<Longrightarrow> stall_ok s \<Longrightarrow> stall_ok s'"
  shows "stall_ok s'"
  using for_list_invariant [where P = stall_ok, OF assms(1) [unfolded for_range_def] assms(2)] assms(3) by blast

subsection \<open>The copy for one destination\<close>

lemma find_opt_first:
  "(\<And>y. y \<in> set xs \<Longrightarrow> p y = Some False) \<Longrightarrow> p x = Some True \<Longrightarrow> find_opt p (xs @ x # ys) = Some (Some x)"
  by (induction xs) auto

lemma machine_of_node:
  assumes "valid_machine nc e"
  shows "machine_of nc (node_id nc e) = Some (Some (fst e))"
proof -
  let ?p = "\<lambda>m. do { b \<leftarrow> MachineType_base_number nc m; x \<leftarrow> MachineType_base_number nc (m + 1);
      Some (b \<le> node_id nc e \<and> node_id nc e < x) }"
  have i: "fst e < length nc" using assms by (simp add: valid_machine_def)
  have p: "?p m = Some (machine_base nc m \<le> node_id nc e \<and> node_id nc e < machine_base nc (Suc m))" if "m < length nc" for m
    using that by (simp add: MachineType_base_number_def machine_base_def)
  have "?p m = Some False" if "m \<in> set [0..<fst e]" for m
  proof -
    have "machine_base nc (Suc m) \<le> node_id nc e"
      using that node_id_bounds(1) [OF assms] machine_base_mono [of "Suc m" "fst e" nc] by simp
    then show ?thesis using p [of m] that i by simp
  qed
  moreover have "?p (fst e) = Some True" using p [OF i] node_id_bounds [OF assms] by simp
  ultimately have "find_opt ?p ([0..<fst e] @ fst e # [Suc (fst e)..<length nc]) = Some (Some (fst e))"
    by (rule find_opt_first)
  moreover have "[0..<length nc] = [0..<fst e] @ fst e # [Suc (fst e)..<length nc]"
    using i upt_add_eq_append [of 0 "fst e" "length nc - fst e"] by (simp add: upt_conv_Cons)
  ultimately show ?thesis by (simp add: machine_of_def)
qed

lemma NetDest_clear_ok: "dest_wf nc nd \<Longrightarrow> \<exists>c. NetDest_clear nd = Some c \<and> dest_wf nc c \<and> dest_els c = {}"
  using dest_wf_length [of nc nd]
  by (auto simp: NetDest_clear_def check_def dest_wf_def dest_els_def list_all2_conv_all_nth set_wf_def Set_clear_def set_els_def)

lemma split_dest_multicast:
  assumes wf: "dest_wf nc (Destination m)" "dest_wf nc nd" and e: "valid_machine nc e"
  shows "\<exists>pd d nd'. split_dest nc True (node_id nc e) m nd = Some (m\<lparr>Destination := pd\<rparr>, m\<lparr>Destination := d\<rparr>, nd')
    \<and> dest_wf nc pd \<and> dest_els pd = {e} \<and> dest_wf nc d \<and> dest_els d = dest_els (Destination m) - {e} \<and> dest_wf nc nd'"
proof -
  obtain e0 where e0: "NetDest_new nc = Some e0" "dest_wf nc e0"
    using NetDest_new_ok dest_wf_sizes [OF wf(1)] by blast
  obtain c where c: "NetDest_clear e0 = Some c" "dest_wf nc c" "dest_els c = {}" using NetDest_clear_ok [OF e0(2)] by blast
  obtain pd where pd: "NetDest_add \<lparr>mach_type = fst e, mach_num = snd e\<rparr> c = Some pd" "dest_wf nc pd" "dest_els pd = {e}"
    using NetDest_add_ok [OF c(2), of "fst e" "snd e"] e c(3) by (auto simp: valid_machine_def)
  obtain nd' where nd': "NetDest_removeNetDest nd pd = Some nd'" "dest_wf nc nd'"
    using net_dest.removeAll [OF wf(2) pd(2)] by blast
  obtain d where d: "NetDest_removeNetDest (Destination m) pd = Some d" "dest_wf nc d" "dest_els d = dest_els (Destination m) - {e}"
    using net_dest.removeAll [OF wf(1) pd(2)] pd(3) by auto
  have b: "MachineType_base_number nc (fst e) = Some (node_id nc e - snd e)" "node_id nc e - (node_id nc e - snd e) = snd e"
    using e by (simp_all add: MachineType_base_number_def valid_machine_def node_id_def machine_base_def)
  show ?thesis
    using e0 c pd nd' d b machine_of_node [OF e]
    by (intro exI [of _ pd] exI [of _ d] exI [of _ nd']) (simp add: split_dest_def)
qed


subsection \<open>One packet for every destination\<close>

text \<open>\<open>fs\<close> is the packet of message \<open>m\<close> for node \<open>d\<close> on channel \<open>vc\<close>, addressed to that node alone.\<close>

definition packet_for ::
  "ni_env \<Rightarrow> tick \<Rightarrow> nat \<Rightarrow> nat \<Rightarrow> OutputPort \<Rightarrow> nat \<Rightarrow> nat \<Rightarrow> Message \<Rightarrow> nat \<Rightarrow> nat \<Rightarrow> flit list \<Rightarrow> bool"
where
  "packet_for env t src vnet oPort n sz m vc d fs \<longleftrightarrow>
     (\<exists>pid dr pd. ne_router_id env d vnet = Some dr \<and> dest_wf (ne_controllers env) pd
        \<and> node_id (ne_controllers env) ` dest_els pd = {d}
        \<and> fs = packet pid vc vnet \<lparr>rt_vnet = vnet, rt_net_dest = pd, src_ni = src, src_router = routerID oPort,
             dest_ni = d, dest_router = dr, hops_traversed = -1\<rparr> n (m\<lparr>Destination := pd\<rparr>) sz (op_bitWidth oPort) t
             (t - msg_time m))"

lemma packet_for_dest: "packet_for env t src vnet oPort n sz (m\<lparr>Destination := x\<rparr>) vc d fs = packet_for env t src vnet oPort n sz m vc d fs"
  by (simp add: packet_for_def)

lemma fill_vc_Some:
  assumes "fill_vc t vnet vc fs ni = Some ni'"
  shows "vc < length (niOutVcs ni)" "vc < length (ni_outVcState ni)"
    "niOutVcs ni' = (niOutVcs ni)[vc := fold fb_insert fs (niOutVcs ni ! vc)]"
    "ni_outVcState ni' = (ni_outVcState ni)[vc := ovc_setState ACTIVE t (ni_outVcState ni ! vc)]"
    "ni_vc_per_vnet ni' = ni_vc_per_vnet ni" "m_vc_allocator ni' = m_vc_allocator ni" "ni_id ni' = ni_id ni"
  using assms by (auto simp: fill_vc_def bind_eq_Some_conv)

lemma inject_packet_Some:
  assumes "inject_packet env t vnet oPort n sz vc d m (m\<lparr>Destination := pd\<rparr>) s = Some s'"
    and "dest_wf (ne_controllers env) pd" "node_id (ne_controllers env) ` dest_els pd = {d}"
  obtains fs where "packet_for env t (ni_id (ns_ni s)) vnet oPort n sz m vc d fs"
    "fill_vc t vnet vc fs (ns_ni s) = Some (ns_ni s')"
proof -
  from assms(1) obtain dr s1 ni where dr: "ne_router_id env d vnet = Some dr"
    and s1: "update_traffic_distribution (ne_config env) \<lparr>rt_vnet = vnet, rt_net_dest = pd, src_ni = ni_id (ns_ni s),
        src_router = routerID oPort, dest_ni = d, dest_router = dr, hops_traversed = -1\<rparr> s = Some s1"
    and ni: "fill_vc t vnet vc (packet (ns_packet_id s1) vc vnet \<lparr>rt_vnet = vnet, rt_net_dest = pd, src_ni = ni_id (ns_ni s),
        src_router = routerID oPort, dest_ni = d, dest_router = dr, hops_traversed = -1\<rparr> n (m\<lparr>Destination := pd\<rparr>) sz
          (op_bitWidth oPort) t (t - msg_time m)) (ns_ni s1) = Some ni"
    and s': "s' = s1\<lparr>ns_ni := ni, ns_packet_id := ns_packet_id s1 + 1\<rparr>"
    by (auto simp: inject_packet_def bind_eq_Some_conv Let_def)
  have "ns_ni s1 = ns_ni s" using update_traffic_frame [OF s1] by auto
  with ni s' dr assms(2,3) show thesis by (intro that) (auto simp: packet_for_def)
qed

text \<open>What a prefix of the loop over the destinations has done: \<open>ps\<close> pairs the channels it took with the destinations.\<close>

definition injected ::
  "ni_env \<Rightarrow> tick \<Rightarrow> nat \<Rightarrow> OutputPort \<Rightarrow> nat \<Rightarrow> nat \<Rightarrow> Message \<Rightarrow> (nat \<times> nat) list \<Rightarrow> NetworkInterface \<Rightarrow> NetworkInterface \<Rightarrow> bool"
where
  "injected env t vnet oPort n sz m ps ni ni' \<longleftrightarrow> distinct (map fst ps)
     \<and> (\<forall>vc\<in>fst ` set ps. vc \<in> vcs_of vnet ni \<and> vc < length (niOutVcs ni) \<and> vc_idle t ni vc)
     \<and> length (niOutVcs ni') = length (niOutVcs ni)
     \<and> (\<forall>vc<length (niOutVcs ni). \<exists>fs. m_buffer (niOutVcs ni' ! vc) = m_buffer (niOutVcs ni ! vc) @ fs
          \<and> (case map_of ps vc of None \<Rightarrow> fs = [] | Some d \<Rightarrow> packet_for env t (ni_id ni) vnet oPort n sz m vc d fs))"

lemma injected_Nil: "niOutVcs ni' = niOutVcs ni \<Longrightarrow> injected env t vnet oPort n sz m [] ni ni'"
  by (simp add: injected_def)

lemma injected_Cons:
  assumes vc: "vc \<in> vcs_of vnet ni" "vc_idle t ni vc" and fl: "fill_vc t vnet vc fs ni = Some ni1"
    and pk: "packet_for env t (ni_id ni) vnet oPort n sz m vc d fs"
    and rest: "injected env t vnet oPort n sz m ps ni1 ni'"
  shows "injected env t vnet oPort n sz m ((vc, d) # ps) ni ni'"
proof -
  note f = fill_vc_Some [OF fl]
  have idle: "vc_idle t ni1 x \<longleftrightarrow> x \<noteq> vc \<and> vc_idle t ni x" if "x < length (ni_outVcState ni) \<or> x \<noteq> vc" for x
    using f(2,4) by (auto simp: vc_idle_def nth_list_update ovc_isInState_def ovc_setState_def)
  have new: "vc \<notin> fst ` set ps" using rest idle [of vc] f(2) by (auto simp: injected_def)
  have vcs: "vcs_of vnet ni1 = vcs_of vnet ni" by (simp add: vcs_of_def f(5))
  have len: "length (niOutVcs ni1) = length (niOutVcs ni)" by (simp add: f(3))
  have "\<exists>gs. m_buffer (niOutVcs ni' ! x) = m_buffer (niOutVcs ni ! x) @ gs
      \<and> (case map_of ((vc, d) # ps) x of None \<Rightarrow> gs = [] | Some d \<Rightarrow> packet_for env t (ni_id ni) vnet oPort n sz m x d gs)"
    if x: "x < length (niOutVcs ni)" for x
  proof -
    from rest x len obtain gs where gs: "m_buffer (niOutVcs ni' ! x) = m_buffer (niOutVcs ni1 ! x) @ gs"
      "case map_of ps x of None \<Rightarrow> gs = [] | Some d \<Rightarrow> packet_for env t (ni_id ni1) vnet oPort n sz m x d gs"
      by (auto simp: injected_def)
    show ?thesis
    proof (cases "x = vc")
      case True
      then have "map_of ps x = None" using new by (simp add: map_of_eq_None_iff)
      then show ?thesis using gs pk True x by (simp add: f(3) flit_fifo.contents_enq_all)
    next
      case False
      then show ?thesis using gs(1) gs(2) [unfolded f(7)] by (simp add: f(3))
    qed
  qed
  moreover have "\<forall>x\<in>fst ` set ((vc, d) # ps). x \<in> vcs_of vnet ni \<and> x < length (niOutVcs ni) \<and> vc_idle t ni x"
    using rest vc f(1) new idle by (auto simp: injected_def vcs len) (metis image_eqI fst_conv)+
  ultimately show ?thesis using rest new len by (simp add: injected_def)
qed


lemma injected_dest: "injected env t vnet oPort n sz (m\<lparr>Destination := x\<rparr>) ps ni ni' = injected env t vnet oPort n sz m ps ni ni'"
  by (simp add: injected_def packet_for_dest cong: option.case_cong)

lemma injected_frame:
  "injected env t vnet oPort n sz m ps (ni\<lparr>m_vc_allocator := a, vc_busy_counter := b\<rparr>) ni' = injected env t vnet oPort n sz m ps ni ni'"
  by (simp add: injected_def vcs_of_def vc_idle_def cong: option.case_cong)

text \<open>The loop may assume that \<open>ds\<close> are the remaining destinations of the message; only the multicast
  loop removes them one by one.\<close>

definition remaining :: "num_controllers \<Rightarrow> bool \<Rightarrow> nat list \<Rightarrow> Message \<Rightarrow> bool" where
  "remaining nc multicast ds m \<longleftrightarrow> dest_wf nc (Destination m) \<and> distinct ds
     \<and> (if multicast then set ds = node_id nc ` dest_els (Destination m)
        else ds = [] \<or> (\<exists>d. ds = [d] \<and> node_id nc ` dest_els (Destination m) = {d}))"

lemma split_dest_remaining:
  assumes "remaining nc mc (d # ds) m" "dest_wf nc nd" "split_dest nc mc d m nd = Some (m1, m2, nd')"
  obtains pd where "m1 = m\<lparr>Destination := pd\<rparr>" "dest_wf nc pd" "node_id nc ` dest_els pd = {d}"
    "remaining nc mc ds m2" "m2 = m\<lparr>Destination := Destination m2\<rparr>" "\<not> mc \<longrightarrow> m2 = m" "dest_wf nc nd'"
proof (cases mc)
  case True
  with assms(1) have wf: "dest_wf nc (Destination m)" and ds: "set (d # ds) = node_id nc ` dest_els (Destination m)"
    "distinct (d # ds)" by (auto simp: remaining_def)
  from ds(1) obtain e where e: "e \<in> dest_els (Destination m)" "d = node_id nc e" by (metis image_iff list.set_intros(1))
  have valid: "valid_machine nc x" if "x \<in> dest_els (Destination m)" for x using dest_els_valid [OF wf that] .
  from split_dest_multicast [OF wf assms(2) valid [OF e(1)]] obtain pd d' nd1 where
    sp: "split_dest nc True (node_id nc e) m nd = Some (m\<lparr>Destination := pd\<rparr>, m\<lparr>Destination := d'\<rparr>, nd1)"
      "dest_wf nc pd" "dest_els pd = {e}" "dest_wf nc d'" "dest_els d' = dest_els (Destination m) - {e}" "dest_wf nc nd1"
    by blast
  then have eq: "m1 = m\<lparr>Destination := pd\<rparr>" "m2 = m\<lparr>Destination := d'\<rparr>" "nd' = nd1" using assms(3) True e(2) by auto
  have "node_id nc ` (dest_els (Destination m) - {e}) = node_id nc ` dest_els (Destination m) - {d}"
  proof -
    have "inj_on (node_id nc) (dest_els (Destination m))" using node_id_inj valid by (intro inj_onI) blast
    then show ?thesis using e by (simp add: inj_on_image_set_diff)
  qed
  then have "set ds = node_id nc ` dest_els d'" using ds sp(5) by auto
  then show ?thesis using that [of pd] eq sp ds e(2) True by (simp add: remaining_def)
next
  case False
  then show ?thesis using assms that [of "Destination m"] by (auto simp: remaining_def split_dest_def)
qed

lemma flitisize_loop_facts:
  assumes "flitisize_loop env t vnet oPort n sz mc ds m nd s = Some (ok, m', s')"
    and "remaining (ne_controllers env) mc ds m" "dest_wf (ne_controllers env) nd" "alloc_ok (ns_ni s)"
  shows "\<exists>ps. map snd ps = take (length ps) ds \<and> length ps \<le> length ds \<and> (ok \<longleftrightarrow> length ps = length ds)
    \<and> injected env t vnet oPort n sz m ps (ns_ni s) (ns_ni s') \<and> remaining (ne_controllers env) mc (drop (length ps) ds) m'
    \<and> m' = m\<lparr>Destination := Destination m'\<rparr> \<and> (\<not> mc \<longrightarrow> m' = m)
    \<and> (\<not> ok \<longrightarrow> (\<forall>vc\<in>vcs_of vnet (ns_ni s'). \<not> vc_idle t (ns_ni s') vc))"
  using assms
proof (induction ds arbitrary: m nd s)
  case Nil
  then show ?case by (intro exI [of _ "[]"]) (auto simp: injected_Nil)
next
  case (Cons d ds)
  let ?nc = "ne_controllers env"
  from Cons.prems(1) obtain r ni where c: "calculateVC t vnet (ns_ni s) = Some (r, ni)"
    and rest: "(case r of None \<Rightarrow> Some (False, m, s\<lparr>ns_ni := ni\<rparr>) | Some vc \<Rightarrow>
       do { (new_msg, m1, nd1) \<leftarrow> split_dest ?nc mc d m nd;
            s2 \<leftarrow> inject_packet env t vnet oPort n sz vc d m new_msg (s\<lparr>ns_ni := ni\<rparr>);
            flitisize_loop env t vnet oPort n sz mc ds m1 nd1 s2 }) = Some (ok, m', s')"
    by (auto simp: bind_eq_Some_conv Let_def)
  from calculateVC_frame [OF c] Cons.prems(4) obtain a b where ni: "ni = (ns_ni s)\<lparr>m_vc_allocator := a, vc_busy_counter := b\<rparr>"
    and aok: "alloc_ok ni" by blast
  note rr = calculateVC_facts [OF c Cons.prems(4)]
  show ?case
  proof (cases r)
    case None
    then have "ok = False" "m' = m" "s' = s\<lparr>ns_ni := ni\<rparr>" using rest by auto
    then show ?thesis using Cons.prems(2) rr None ni
      by (intro exI [of _ "[]"]) (auto simp: injected_Nil vcs_of_def vc_idle_def)
  next
    case (Some vc)
    then obtain m1 m2 nd1 s2 where sp: "split_dest ?nc mc d m nd = Some (m1, m2, nd1)"
      and s2: "inject_packet env t vnet oPort n sz vc d m m1 (s\<lparr>ns_ni := ni\<rparr>) = Some s2"
      and fl: "flitisize_loop env t vnet oPort n sz mc ds m2 nd1 s2 = Some (ok, m', s')"
      using rest by (auto simp: bind_eq_Some_conv)
    from Cons.prems(2,3) sp obtain pd where pd: "m1 = m\<lparr>Destination := pd\<rparr>" "dest_wf ?nc pd" "node_id ?nc ` dest_els pd = {d}"
      and m2: "remaining ?nc mc ds m2" "m2 = m\<lparr>Destination := Destination m2\<rparr>" "\<not> mc \<longrightarrow> m2 = m" and nd1: "dest_wf ?nc nd1"
      by (rule split_dest_remaining)
    from s2 [unfolded pd(1)] pd(2,3) obtain fs where
      fs: "packet_for env t (ni_id (ns_ni (s\<lparr>ns_ni := ni\<rparr>))) vnet oPort n sz m vc d fs"
        "fill_vc t vnet vc fs (ns_ni (s\<lparr>ns_ni := ni\<rparr>)) = Some (ns_ni s2)" by (rule inject_packet_Some)
    have "alloc_ok (ns_ni s2)" using aok fill_vc_Some(5,6) [OF fs(2)] by (simp add: alloc_ok_def)
    from Cons.IH [OF fl m2(1) nd1 this] obtain ps where ps: "map snd ps = take (length ps) ds" "length ps \<le> length ds"
      "ok \<longleftrightarrow> length ps = length ds" "injected env t vnet oPort n sz m2 ps (ns_ni s2) (ns_ni s')"
      "remaining ?nc mc (drop (length ps) ds) m'" "m' = m2\<lparr>Destination := Destination m'\<rparr>" "\<not> mc \<longrightarrow> m' = m2"
      "\<not> ok \<longrightarrow> (\<forall>vc\<in>vcs_of vnet (ns_ni s'). \<not> vc_idle t (ns_ni s') vc)" by blast
    have "injected env t vnet oPort n sz m ps (ns_ni s2) (ns_ni s')"
      using ps(4) m2(2) injected_dest [where m = m and x = "Destination m2"] by metis
    then have "injected env t vnet oPort n sz m ((vc, d) # ps) ni (ns_ni s')"
      using injected_Cons fs rr Some ni by (auto simp: vcs_of_def vc_idle_def)
    then have inj: "injected env t vnet oPort n sz m ((vc, d) # ps) (ns_ni s) (ns_ni s')"
      unfolding ni injected_frame .
    have m': "m' = m\<lparr>Destination := Destination m'\<rparr>" using ps(6) m2(2) by (metis Message.update_convs(7) Message.surjective)
    show ?thesis
      using ps(1-3,5,7,8) inj m' m2(3) by (intro exI [of _ "(vc, d) # ps"]) auto
  qed
qed

lemma remaining_start:
  assumes "dest_wf nc (Destination m)" "NetDest_getAllDest (Destination m) = Some ds"
  shows "remaining nc (1 < length ds) ds m"
proof -
  have img: "(\<lambda>(i, j). machine_base nc i + j) = node_id nc" by (auto simp: node_id_def)
  have ds: "sorted_wrt (<) ds" "set ds = node_id nc ` dest_els (Destination m)"
    using getAllDest_facts [OF assms(1)] assms(2) by (auto simp: img)
  have "ds = [] \<or> (\<exists>d. ds = [d])" if "\<not> 1 < length ds" using that by (cases ds) auto
  then show ?thesis using ds assms(1) by (auto simp: remaining_def strict_sorted_iff)
qed

subsection \<open>Properties\<close>

text \<open>C30. A multicast that runs out of virtual channels loses no destination and serves none twice.
  \<^verbatim>\<open>flitisizeMessage\<close> serves a prefix of the destinations: each gets its own idle channel of the virtual network and in it, behind
  what was there, the complete packet of a copy of the message that is addressed to that node alone; all other
  channels are untouched.  The message that stays in the protocol buffer is addressed to exactly
  the remaining destinations, the call reports success only when there are none, and it gives up only when every channel
  of the virtual network is busy.\<close>
theorem flitisizeMessage_multicast:
  assumes "flitisizeMessage env t m vnet s = Some (ok, m', s')" "dest_wf (ne_controllers env) (Destination m)"
    and "alloc_ok (ns_ni s)"
  shows "\<exists>ds ps p sz. NetDest_getAllDest (Destination m) = Some ds \<and> getOutportForVnet vnet (ns_ni s) = Some p
    \<and> sz = MessageSizeType_to_int (m_control_msg_size (ne_config env)) (m_data_msg_size (ne_config env)) (MessageSize m)
    \<and> map snd ps = take (length ps) ds \<and> (ok \<longleftrightarrow> length ps = length ds)
    \<and> injected env t vnet (outPorts (ns_ni s) ! p) (divCeil sz (op_bitWidth (outPorts (ns_ni s) ! p))) sz m ps (ns_ni s) (ns_ni s')
    \<and> m' = m\<lparr>Destination := Destination m'\<rparr>
    \<and> (if 1 < length ds then node_id (ne_controllers env) ` dest_els (Destination m') = set (drop (length ps) ds) else m' = m)
    \<and> (ok \<or> (\<forall>vc\<in>vcs_of vnet (ns_ni s'). \<not> vc_idle t (ns_ni s') vc))"
proof -
  let ?sz = "MessageSizeType_to_int (m_control_msg_size (ne_config env)) (m_data_msg_size (ne_config env)) (MessageSize m)"
  from assms(1) obtain ds p where ds: "NetDest_getAllDest (Destination m) = Some ds"
    and p: "getOutportForVnet vnet (ns_ni s) = Some p"
    and fl: "flitisize_loop env t vnet (outPorts (ns_ni s) ! p) (divCeil ?sz (op_bitWidth (outPorts (ns_ni s) ! p))) ?sz
      (1 < length ds) ds m (Destination m) s = Some (ok, m', s')"
    by (auto simp: flitisizeMessage_def bind_eq_Some_conv Let_def)
  from flitisize_loop_facts [OF fl remaining_start [OF assms(2) ds] assms(2,3)] obtain ps where
    ps: "map snd ps = take (length ps) ds" "ok \<longleftrightarrow> length ps = length ds"
      "injected env t vnet (outPorts (ns_ni s) ! p) (divCeil ?sz (op_bitWidth (outPorts (ns_ni s) ! p))) ?sz m ps (ns_ni s) (ns_ni s')"
      "remaining (ne_controllers env) (1 < length ds) (drop (length ps) ds) m'" "m' = m\<lparr>Destination := Destination m'\<rparr>"
      "\<not> 1 < length ds \<longrightarrow> m' = m" "\<not> ok \<longrightarrow> (\<forall>vc\<in>vcs_of vnet (ns_ni s'). \<not> vc_idle t (ns_ni s') vc)" by blast
  have "if 1 < length ds then node_id (ne_controllers env) ` dest_els (Destination m') = set (drop (length ps) ds) else m' = m"
    using ps(4,6) by (simp add: remaining_def)
  then show ?thesis
    using ds p ps(1-3,5,7)
    by (intro exI [of _ ds] exI [of _ ps] exI [of _ p] exI [of _ ?sz] conjI) (rule refl | assumption | blast)+
qed

subsection \<open>An interface with one channel\<close>

definition ex_ni :: NetworkInterface where
  "ex_ni = (case NetworkInterface_addOutPort ex_config (NetworkLink_new 4 1 1 [] 16) 5 0 1
      (NetworkInterface_new 0 1 50) of Some ni \<Rightarrow> ni | None \<Rightarrow> NetworkInterface_new 0 1 50)"

definition ex_ni_env :: ni_env where
  "ex_ni_env = \<lparr>ne_config = ex_config, ne_controllers = [2, 3], ne_router_id = (\<lambda>d v. Some 0),
     ne_randomization = False, ne_warmup = False, ne_random = (\<lambda>_. (0, 0, 0))\<rparr>"

definition ex_ni_state :: ni_state where
  "ex_ni_state = \<lparr>ns_ni = ex_ni, ns_in = [], ns_out = [], ns_links = (\<lambda>_. flitBuffer_new), ns_self = Consumer_new 500,
     ns_packet_id = 0, ns_data_traffic = [[0]], ns_ctrl_traffic = [[0]], ns_effects = []\<rparr>"

definition ex_cast :: Message where
  "ex_cast = Message_new 10 (ex_dest 1 1) Control 7"

lemma ex_ni_is:
  "outPorts ex_ni = [OutputPort_new (NetworkLink_new 4 1 1 [] 16) 5 0]" "m_vc_allocator ex_ni = [0]"
  "ni_vc_per_vnet ex_ni = 1" "vc_busy_counter ex_ni = [0]" "m_deadlock_threshold ex_ni = 50"
  "niOutVcs ex_ni = [flitBuffer_new]"
  by (simp_all add: ex_ni_def NetworkInterface_addOutPort_def NetworkInterface_new_def ex_config_def OutVcState_new_def Let_def at_def)


lemma ex_ni_vc:
  "ni_outVcState ex_ni = [\<lparr>ovc_id = 0, ovc_time = 0, ovc_state = IDLE, m_credit_count = 1, m_max_credit_count = 1\<rparr>]"
  "m_ni_out_vcs_enqueue_time ex_ni = [INFINITE]" "m_local_packets_injected ex_ni = [0]"
  "m_local_flits_injected ex_ni = [0]" "ni_id ex_ni = 0" "alloc_ok ex_ni" "inPorts ex_ni = []"
  "ni_virtual_networks ex_ni = 1" "ni_stall_count ex_ni = [0]"
  by (simp_all add: ex_ni_def NetworkInterface_addOutPort_def NetworkInterface_new_def ex_config_def OutVcState_new_def Let_def
      at_def alloc_ok_def)

lemma ex_calculateVC:
  "calculateVC 20 0 ex_ni = Some (Some 0, ex_ni\<lparr>m_vc_allocator := [0], vc_busy_counter := [0]\<rparr>)"
  by (simp add: calculateVC_def next_vc_def ex_ni_is ex_ni_vc at_def ovc_isInState_def Let_def)

lemma ex_port: "getOutportForVnet 0 ex_ni = Some 0"
  by (simp add: getOutportForVnet_def ex_ni_is OutputPort_new_def NetworkLink_new_def isVnetSupported_def)

lemma ex_cast_dests: "NetDest_getAllDest (Destination ex_cast) = Some [0, 2]"
  by (simp add: ex_cast_def Message_new_def NetDest_getAllDest_def ex_dest_def MachineType_base_number_def check_def upt_conv_Cons
      numeral_2_eq_2 numeral_3_eq_3)


lemma ex_flitisize: "\<exists>m' s'. flitisizeMessage ex_ni_env 20 ex_cast 0 ex_ni_state = Some (False, m', s')"
proof -
  let ?ni = "ex_ni\<lparr>m_vc_allocator := [0], vc_busy_counter := [0]\<rparr>" and ?s = "ex_ni_state\<lparr>ns_ni := ex_ni\<lparr>m_vc_allocator := [0], vc_busy_counter := [0]\<rparr>\<rparr>"
  let ?p = "OutputPort_new (NetworkLink_new 4 1 1 [] 16) 5 0"
  have wf: "dest_wf [2, 3] (Destination ex_cast)" using ex_dest_wf [of 1 1] by (simp add: ex_cast_def Message_new_def)
  have "valid_machine [2, 3] (0, 0)" "node_id [2, 3] (0, 0) = 0" by (simp_all add: valid_machine_def node_id_def machine_base_def)
  with split_dest_multicast [OF wf wf, of "(0, 0)"] obtain pd d nd where
    sp: "split_dest [2, 3] True 0 ex_cast (Destination ex_cast) = Some (ex_cast\<lparr>Destination := pd\<rparr>, ex_cast\<lparr>Destination := d\<rparr>, nd)"
    by auto
  have "\<exists>s2. inject_packet ex_ni_env 20 0 ?p 1 8 0 0 ex_cast (ex_cast\<lparr>Destination := pd\<rparr>) ?s = Some s2
      \<and> m_vc_allocator (ns_ni s2) = [0] \<and> ni_vc_per_vnet (ns_ni s2) = 1 \<and> vc_busy_counter (ns_ni s2) = [0]
      \<and> m_deadlock_threshold (ns_ni s2) = 50 \<and> length (ni_outVcState (ns_ni s2)) = 1 \<and> ovc_state (ni_outVcState (ns_ni s2) ! 0) = ACTIVE"
    by (simp add: inject_packet_def ex_ni_env_def ex_ni_state_def update_traffic_distribution_def get_vnet_type_def ex_config_def
        bump_def fill_vc_def ex_ni_is ex_ni_vc at_def put_def Let_def OutputPort_new_def ovc_setState_def)
  then obtain s2 where s2: "inject_packet ex_ni_env 20 0 ?p 1 8 0 0 ex_cast (ex_cast\<lparr>Destination := pd\<rparr>) ?s = Some s2"
    "m_vc_allocator (ns_ni s2) = [0]" "ni_vc_per_vnet (ns_ni s2) = 1" "vc_busy_counter (ns_ni s2) = [0]"
    "m_deadlock_threshold (ns_ni s2) = 50" "length (ni_outVcState (ns_ni s2)) = 1" "ovc_state (ni_outVcState (ns_ni s2) ! 0) = ACTIVE"
    by blast
  have busy: "\<exists>ni. calculateVC 20 0 (ns_ni s2) = Some (None, ni)"
    using s2(2-) by (auto simp: calculateVC_def next_vc_def at_def ovc_isInState_def Let_def)
  have sz: "MessageSizeType_to_int (m_control_msg_size ex_config) (m_data_msg_size ex_config) (MessageSize ex_cast) = 8"
    by (simp add: ex_config_def ex_cast_def Message_new_def MessageSizeType_to_int_def)
  have w: "op_bitWidth (OutputPort_new (NetworkLink_new a b c x 16) e f) = 16" "divCeil 8 16 = (1 :: nat)" for a b c x e f by (simp_all add: OutputPort_new_def NetworkLink_new_def divCeil_def)
  have ns: "ns_ni ex_ni_state = ex_ni" by (simp add: ex_ni_state_def)
  have env: "ne_controllers ex_ni_env = [2, 3]" "ne_config ex_ni_env = ex_config" by (simp_all add: ex_ni_env_def)
  show ?thesis
    using busy sp s2(1)
    by (auto simp: flitisizeMessage_def ex_cast_dests ns ex_port ex_ni_is at_def sz w env ex_calculateVC Let_def)
qed

theorem flitisizeMessage_multicast_witness:
  "\<exists>m' s'. flitisizeMessage ex_ni_env 20 ex_cast 0 ex_ni_state = Some (False, m', s')
     \<and> m' = ex_cast\<lparr>Destination := Destination m'\<rparr>"
proof -
  obtain m' s' where f: "flitisizeMessage ex_ni_env 20 ex_cast 0 ex_ni_state = Some (False, m', s')" using ex_flitisize by blast
  moreover have "dest_wf (ne_controllers ex_ni_env) (Destination ex_cast)" "alloc_ok (ns_ni ex_ni_state)"
    using ex_dest_wf [of 1 1] by (simp_all add: ex_cast_def Message_new_def ex_ni_env_def ex_ni_state_def ex_ni_vc)
  ultimately show ?thesis using flitisizeMessage_multicast [OF f] by blast
qed

text \<open>C32. \<^verbatim>\<open>calculateVC\<close> is a round robin: it returns the first idle virtual channel of the virtual network, in the
  cyclic order that starts at its pointer, and it reports that there is none only when every channel of the virtual
  network is busy.\<close>
theorem calculateVC_round_robin:
  assumes "calculateVC t vnet ni = Some (r, ni')" "alloc_ok ni"
  shows "case r of None \<Rightarrow> \<forall>vc\<in>vcs_of vnet ni. \<not> vc_idle t ni vc
    | Some vc \<Rightarrow> vc \<in> vcs_of vnet ni \<and> vc_idle t ni vc
        \<and> (\<exists>i. vc = rr_vc vnet ni i \<and> (\<forall>j<i. \<not> vc_idle t ni (rr_vc vnet ni j)))"
  by (rule calculateVC_facts [OF assms])

theorem calculateVC_round_robin_witness:
  "\<exists>ni'. calculateVC 20 0 ex_ni = Some (Some 0, ni') \<and> 0 \<in> vcs_of 0 ex_ni \<and> vc_idle 20 ex_ni 0"
  using calculateVC_round_robin [OF ex_calculateVC ex_ni_vc(6)] ex_calculateVC by auto

text \<open>C31. Stalled messages are accounted for: every wakeup of a network interface keeps \<^verbatim>\<open>m_stall_count\<close> equal to the
  number of stalled flits of each virtual network, and keeps the callback registered on exactly the protocol buffers
  that some stalled message waits for.  So the first message that the protocol takes out of such a buffer calls
  \<^verbatim>\<open>dequeueCallback\<close>, which wakes the interface up: no stalled message is forgotten.\<close>
theorem NetworkInterface_stalls_recorded:
  assumes "NetworkInterface_wakeup env t s = Some s'" "stall_ok s"
  shows "stall_ok s' \<and> (\<forall>f\<in>#stalled_flits s'. \<exists>b. out_buffer (m_vnet f) s' = Some b
    \<and> (\<forall>ct now m b1 es. dequeue ct now True b = Some (m, b1, es) \<longrightarrow> DequeueCallback \<in> set es))"
proof -
  from assms(1) obtain s1 s2 s3 s4 s5 where
    s1: "for_range (take_message env t) (length (ns_in s)) s = Some s1"
    and s2: "scheduleOutputLink (ne_config env) t s1 = Some s2" and s3: "checkStallQueue env t s2 = Some s3"
    and s4: "for_range (receive_flit env t) (length (inPorts (ns_ni s3))) s3 = Some s4"
    and s5: "for_range (receive_credit t) (length (outPorts (ns_ni s4))) s4 = Some s5"
    and s6: "checkReschedule t (schedule_credits t s5) = Some s'"
    by (auto simp: NetworkInterface_wakeup_def bind_eq_Some_conv)
  have "stall_ok s1" using s1 assms(2) by (rule stall_loop) (rule stall_same_ok [THEN iffD2, OF take_message_same])
  with s2 [unfolded scheduleOutputLink_def] have "stall_ok s2"
    by (rule stall_loop) (rule stall_same_ok [THEN iffD2, OF scheduleOutputPort_same])
  with s3 [unfolded checkStallQueue_def] have "stall_ok s3" by (rule stall_loop) (rule check_stall_port_ok)
  with s4 have "stall_ok s4" by (rule stall_loop) (rule receive_flit_ok)
  with s5 have "stall_ok s5" by (rule stall_loop) (rule stall_same_ok [THEN iffD2, OF receive_credit_same])
  moreover have "stall_same s5 s'"
    using checkReschedule_same [OF s6] by (simp add: schedule_credits_def stall_same_def)
  ultimately have ok: "stall_ok s'" using stall_same_ok by blast
  moreover have "\<exists>b. out_buffer (m_vnet f) s' = Some b
    \<and> (\<forall>ct now m b1 es. dequeue ct now True b = Some (m, b1, es) \<longrightarrow> DequeueCallback \<in> set es)"
    if "f \<in># stalled_flits s'" for f
  proof -
    from that have "0 < on_vnet (m_vnet f) (stalled_flits s')"
      by (auto simp: on_vnet_def dest!: multi_member_split)
    then have "m_vnet f < length (callbacks s')" "callbacks s' ! m_vnet f = Some True"
      using ok by (auto simp: stall_ok_def stall_inv_def)
    then obtain b where "out_buffer (m_vnet f) s' = Some b" "m_dequeue_callback b"
      by (auto simp: callbacks_def out_buffer_Some)
    then show ?thesis
      by (auto simp: dequeue_def bind_eq_Some_conv Let_def count_removal_def count_dequeue_def split: if_splits)
  qed
  ultimately show ?thesis by blast
qed

definition ex_stall_state :: ni_state where
  "ex_stall_state = \<lparr>ns_ni = ex_ni\<lparr>outPorts := [], niOutVcs := [], inPorts := [InputPort_new (NetworkLink_new 7 1 1 [] 16) 8]\<rparr>,
     ns_in = [], ns_out = [Some (ex_buf2\<lparr>m_max_size := 2\<rparr>)],
     ns_links = (\<lambda>_. flitBuffer_new)(7 := fb_insert (flit_new 0 0 0 0 RouteInfo_new 1 (Some (ex_msg 9)) 8 16 20) flitBuffer_new),
     ns_self = Consumer_new 500, ns_packet_id = 0, ns_data_traffic = [], ns_ctrl_traffic = [], ns_effects = []\<rparr>"

lemma ex_buf2_callback: "m_dequeue_callback ex_buf2 = False"
  by (simp add: ex_buf2_def) (simp add: ex_buf_eval)

lemma ex_stall_wakeup: "\<exists>s'. NetworkInterface_wakeup ex_ni_env 500 ex_stall_state = Some s' \<and> size (stalled_flits s') = 1"
proof -
  have r: "m_router ex_ni = Some 0"
    by (simp add: ex_ni_def NetworkInterface_addOutPort_def NetworkInterface_new_def ex_config_def OutVcState_new_def Let_def at_def)
  show ?thesis
    by (simp add: NetworkInterface_wakeup_def ex_stall_state_def r ni_edge_def clock_edge_def divCeil_def Consumer_new_def for_range_def
        scheduleOutputLink_def checkStallQueue_def check_stall_port_def set_in_port_def InputPort_new_def NetworkLink_new_def at_def
        Let_def receive_flit_def fb_isReady_def fb_peekTopFlit_def fb_getTopFlit_def fb_insert_def flitBuffer_new_def flit_new_def
        accept_flit_def out_buffer_def areNSlotsAvailable_def visible_size_def ex_buf2_is set_out_buffer_def stall_flit_def ex_ni_vc
        registerDequeueCallback_def schedule_credits_def checkReschedule_def emit_def stalled_flits_def)
qed

theorem NetworkInterface_stalls_recorded_witness:
  "\<exists>s'. NetworkInterface_wakeup ex_ni_env 500 ex_stall_state = Some s' \<and> stall_ok s' \<and> size (stalled_flits s') = 1"
proof -
  obtain s' where s': "NetworkInterface_wakeup ex_ni_env 500 ex_stall_state = Some s'" "size (stalled_flits s') = 1"
    using ex_stall_wakeup by blast
  have "stall_ok ex_stall_state"
    by (simp add: stall_ok_def stall_inv_def ex_stall_state_def stalled_flits_def callbacks_def on_vnet_def InputPort_new_def ex_ni_vc
        ex_buf2_callback)
  from NetworkInterface_stalls_recorded [OF s'(1) this] s' show ?thesis by blast
qed

end
