(* ===== verification/Router_Units.thy ===== *)
theory Router_Units
  imports Router_State
begin

text \<open>
  The input and output units of a router (\<^verbatim>\<open>garnet/InputUnit.{hh,cc}\<close>, \<^verbatim>\<open>garnet/OutputUnit.{hh,cc}\<close>).

  An operation that reads a member of the router through \<^verbatim>\<open>m_router\<close> takes the router state; one that
  stays inside the unit takes the unit.  In \<^verbatim>\<open>InputUnit::wakeup\<close> the code buffers a pointer to the flit
  and then sets its stage; the model buffers the flit with its final stage.
\<close>

subsection \<open>InputUnit\<close>

definition is_head :: "flit \<Rightarrow> bool" where
  "is_head f = (m_type f = HEAD \<or> m_type f = HEAD_TAIL)"

definition is_tail :: "flit \<Rightarrow> bool" where
  "is_tail f = (m_type f = TAIL \<or> m_type f = HEAD_TAIL)"

definition iu_update_vc :: "nat \<Rightarrow> (VirtualChannel \<Rightarrow> VirtualChannel) \<Rightarrow> InputUnit \<Rightarrow> InputUnit option" where
  "iu_update_vc vc g u =
     do { v \<leftarrow> at (virtualChannels u) vc;
          Some (u\<lparr>virtualChannels := (virtualChannels u)[vc := g v]\<rparr>) }"

definition set_vc_idle :: "nat \<Rightarrow> tick \<Rightarrow> InputUnit \<Rightarrow> InputUnit option" where
  "set_vc_idle vc curTime u = iu_update_vc vc (vc_set_idle curTime) u"

definition set_vc_active :: "nat \<Rightarrow> tick \<Rightarrow> InputUnit \<Rightarrow> InputUnit option" where
  "set_vc_active vc curTime u = iu_update_vc vc (vc_set_active curTime) u"

definition grant_outport :: "nat \<Rightarrow> nat \<Rightarrow> InputUnit \<Rightarrow> InputUnit option" where
  "grant_outport vc outport u = iu_update_vc vc (vc_set_outport (int outport)) u"

definition grant_outvc :: "nat \<Rightarrow> int \<Rightarrow> InputUnit \<Rightarrow> InputUnit option" where
  "grant_outvc vc outvc u = iu_update_vc vc (vc_set_outvc outvc) u"

definition iu_get_outport :: "nat \<Rightarrow> InputUnit \<Rightarrow> int option" where
  "iu_get_outport invc u = do { v \<leftarrow> at (virtualChannels u) invc; Some (m_output_port v) }"

definition iu_get_outvc :: "nat \<Rightarrow> InputUnit \<Rightarrow> int option" where
  "iu_get_outvc invc u = do { v \<leftarrow> at (virtualChannels u) invc; Some (m_output_vc v) }"

definition iu_get_enqueue_time :: "nat \<Rightarrow> InputUnit \<Rightarrow> tick option" where
  "iu_get_enqueue_time invc u = do { v \<leftarrow> at (virtualChannels u) invc; Some (vc_enqueue_time v) }"

definition iu_getTopFlit :: "nat \<Rightarrow> InputUnit \<Rightarrow> (flit \<times> InputUnit) option" where
  "iu_getTopFlit vc u =
     do { v \<leftarrow> at (virtualChannels u) vc;
          (f, v') \<leftarrow> vc_getTopFlit v;
          Some (f, u\<lparr>virtualChannels := (virtualChannels u)[vc := v']\<rparr>) }"

definition iu_need_stage :: "nat \<Rightarrow> flit_stage \<Rightarrow> tick \<Rightarrow> InputUnit \<Rightarrow> bool option" where
  "iu_need_stage vc stage time u =
     do { v \<leftarrow> at (virtualChannels u) vc; vc_need_stage stage time v }"

definition iu_isReady :: "nat \<Rightarrow> tick \<Rightarrow> InputUnit \<Rightarrow> bool option" where
  "iu_isReady invc curTime u =
     do { v \<leftarrow> at (virtualChannels u) invc; Some (vc_isReady curTime v) }"

text \<open>Send a credit upstream: queue it for the credit link and have that link woken in the next cycle.\<close>

definition InputUnit_increment_credit :: "tick \<Rightarrow> nat \<Rightarrow> nat \<Rightarrow> bool \<Rightarrow> tick \<Rightarrow> rstate \<Rightarrow> rstate option" where
  "InputUnit_increment_credit curTick inport in_vc free_signal curTime s =
     do { u \<leftarrow> getInputUnit inport (rs_router s);
          let t_credit = Credit_new in_vc free_signal curTime;
          let u' = u\<lparr>creditQueue := fb_insert t_credit (creditQueue u)\<rparr>;
          Some (s\<lparr>rs_router := set_input inport u' (rs_router s),
                  rs_acts := rs_acts s
                    @ [Sched (CLink (iu_credit_link u)) (router_edge curTick 1 (rs_router s))]\<rparr>) }"

text \<open>The part of \<^verbatim>\<open>InputUnit::wakeup\<close> between the assertion on the width and the pipeline delay: routing
  for a head flit, the state of the virtual channel, and the statistics.\<close>

definition InputUnit_accept :: "GarnetConfig \<Rightarrow> tick \<Rightarrow> nat \<Rightarrow> flit \<Rightarrow> flit \<Rightarrow> Router \<Rightarrow> Router option" where
  "InputUnit_accept cfg curTick inport t_flit stored r =
     do { u \<leftarrow> getInputUnit inport r;
          let vc = m_vc t_flit;
          v \<leftarrow> at (virtualChannels u) vc;
          (u1, r1) \<leftarrow>
            (if is_head t_flit then
               do { check (fst (m_vc_state v) = IDLE);
                    ua \<leftarrow> set_vc_active vc curTick u;
                    (outport, ra) \<leftarrow> route_compute cfg (m_route t_flit) (iu_id u) (iu_direction u) r;
                    ub \<leftarrow> grant_outport vc outport ua;
                    Some (ub, ra) }
             else
               do { check (fst (m_vc_state v) = ACTIVE); Some (u, r) });
          u2 \<leftarrow> iu_update_vc vc (vc_insertFlit stored) u1;
          check (iu_vc_per_vnet u2 \<noteq> 0);
          let vnet = vc div iu_vc_per_vnet u2;
          w \<leftarrow> at (m_local_buffer_writes u2) vnet;
          rd \<leftarrow> at (m_local_buffer_reads u2) vnet;
          Some (set_input inport
            (u2\<lparr>m_local_buffer_writes := (m_local_buffer_writes u2)[vnet := w + 1],
                m_local_buffer_reads := (m_local_buffer_reads u2)[vnet := rd + 1]\<rparr>) r1) }"

definition stored_flit :: "tick \<Rightarrow> Router \<Rightarrow> flit \<Rightarrow> flit" where
  "stored_flit curTick r t_flit = advance_stage stage_SA
     (if m_latency r = 1 then curTick else router_edge curTick (m_latency r - 1) r) t_flit"

definition InputUnit_wakeup ::
  "GarnetConfig \<Rightarrow> tick \<Rightarrow> nat \<Rightarrow> link_store \<times> rstate \<Rightarrow> (link_store \<times> rstate) option"
where
  "InputUnit_wakeup cfg curTick inport = (\<lambda>(lk, s).
     do { u \<leftarrow> getInputUnit inport (rs_router s);
          if fb_isReady curTick (lk (m_in_link u)) then
            do { (f0, lb) \<leftarrow> fb_getTopFlit (lk (m_in_link u));
                 let lk1 = lk(m_in_link u := lb);
                 check (m_width f0 = m_bit_width (rs_router s));
                 let t_flit = increment_hops f0;
                 let pipe_stages = m_latency (rs_router s);
                 check (pipe_stages \<ge> 1);
                 let wait_time = pipe_stages - 1;
                 let stored = stored_flit curTick (rs_router s) t_flit;
                 r1 \<leftarrow> InputUnit_accept cfg curTick inport t_flit stored (rs_router s);
                 let s2 = s\<lparr>rs_router := r1\<rparr>;
                 let s3 = (if pipe_stages = 1 then s2 else schedule_wakeup curTick wait_time s2);
                 Some (lk1, if fb_isReady curTick (lk1 (m_in_link u)) then schedule_wakeup curTick 1 s3 else s3) }
          else Some (lk, s) })"

definition InputUnit_resetStats :: "InputUnit \<Rightarrow> InputUnit" where
  "InputUnit_resetStats u =
     (let n = length (m_num_buffer_reads u)
      in u\<lparr>m_num_buffer_reads := replicate n 0, m_num_buffer_writes := replicate n 0,
           m_local_buffer_writes := replicate n 0, m_local_buffer_reads := replicate n 0\<rparr>)"

text \<open>The totals that \<^verbatim>\<open>collateStats\<close> returns are those of the local counters, which it keeps.\<close>

definition InputUnit_collateStats :: "InputUnit \<Rightarrow> (nat \<times> nat) \<times> InputUnit" where
  "InputUnit_collateStats u =
     ((sum_list (m_local_buffer_reads u), sum_list (m_local_buffer_writes u)),
      u\<lparr>m_num_buffer_reads := map2 (+) (m_num_buffer_reads u) (m_local_buffer_reads u),
        m_num_buffer_writes := map2 (+) (m_num_buffer_writes u) (m_local_buffer_writes u)\<rparr>)"

subsection \<open>OutputUnit\<close>

definition ou_update_vc :: "int \<Rightarrow> (OutVcState \<Rightarrow> OutVcState option) \<Rightarrow> OutputUnit \<Rightarrow> OutputUnit option" where
  "ou_update_vc vc g u =
     do { check (vc \<ge> 0);
          v \<leftarrow> at (outVcState u) (nat vc);
          v' \<leftarrow> g v;
          Some (u\<lparr>outVcState := (outVcState u)[nat vc := v']\<rparr>) }"

definition OutputUnit_decrement_credit :: "int \<Rightarrow> OutputUnit \<Rightarrow> OutputUnit option" where
  "OutputUnit_decrement_credit out_vc u = ou_update_vc out_vc ovc_decrement_credit u"

definition OutputUnit_increment_credit :: "int \<Rightarrow> OutputUnit \<Rightarrow> OutputUnit option" where
  "OutputUnit_increment_credit out_vc u = ou_update_vc out_vc ovc_increment_credit u"

definition set_vc_state :: "VC_state_type \<Rightarrow> int \<Rightarrow> tick \<Rightarrow> OutputUnit \<Rightarrow> OutputUnit option" where
  "set_vc_state state vc curTime u = ou_update_vc vc (\<lambda>v. Some (ovc_setState state curTime v)) u"

definition is_vc_idle :: "nat \<Rightarrow> tick \<Rightarrow> OutputUnit \<Rightarrow> bool option" where
  "is_vc_idle vc curTime u =
     do { v \<leftarrow> at (outVcState u) vc; Some (ovc_isInState IDLE curTime v) }"

definition OutputUnit_has_credit :: "tick \<Rightarrow> int \<Rightarrow> OutputUnit \<Rightarrow> bool option" where
  "OutputUnit_has_credit curTick out_vc u =
     do { check (out_vc \<ge> 0);
          v \<leftarrow> at (outVcState u) (nat out_vc);
          check (ovc_isInState ACTIVE curTick v);
          Some (ovc_has_credit v) }"

definition vnet_vcs :: "nat \<Rightarrow> OutputUnit \<Rightarrow> nat list" where
  "vnet_vcs vnet u = [vnet * ou_vc_per_vnet u..<vnet * ou_vc_per_vnet u + ou_vc_per_vnet u]"

definition has_free_vc :: "tick \<Rightarrow> nat \<Rightarrow> OutputUnit \<Rightarrow> bool option" where
  "has_free_vc curTick vnet u = any_opt (\<lambda>vc. is_vc_idle vc curTick u) (vnet_vcs vnet u)"

definition select_free_vc :: "tick \<Rightarrow> nat \<Rightarrow> OutputUnit \<Rightarrow> (int \<times> OutputUnit) option" where
  "select_free_vc curTick vnet u =
     do { r \<leftarrow> find_opt (\<lambda>vc. is_vc_idle vc curTick u) (vnet_vcs vnet u);
          (case r of
             None \<Rightarrow> Some (-1, u)
           | Some vc \<Rightarrow> do { u' \<leftarrow> set_vc_state ACTIVE (int vc) curTick u; Some (int vc, u') }) }"

definition OutputUnit_wakeup ::
  "tick \<Rightarrow> nat \<Rightarrow> link_store \<times> rstate \<Rightarrow> (link_store \<times> rstate) option"
where
  "OutputUnit_wakeup curTick outport = (\<lambda>(lk, s).
     do { u \<leftarrow> getOutputUnit (int outport) (rs_router s);
          if fb_isReady curTick (lk (ou_credit_link u)) then
            do { (t_credit, lb) \<leftarrow> fb_getTopFlit (lk (ou_credit_link u));
                 let lk1 = lk(ou_credit_link u := lb);
                 let vc = int (m_vc t_credit);
                 u1 \<leftarrow> OutputUnit_increment_credit vc u;
                 u2 \<leftarrow> (if m_is_free_signal t_credit then set_vc_state IDLE vc curTick u1 else Some u1);
                 let s1 = s\<lparr>rs_router := set_output outport u2 (rs_router s)\<rparr>;
                 Some (lk1,
                   if fb_isReady curTick (lk1 (ou_credit_link u))
                   then s1\<lparr>rs_acts := rs_acts s1
                     @ [Sched (COutput (r_id (rs_router s1)) outport) (router_edge curTick 1 (rs_router s1))]\<rparr>
                   else s1) }
          else Some (lk, s) })"

definition OutputUnit_insert_flit :: "tick \<Rightarrow> nat \<Rightarrow> flit \<Rightarrow> rstate \<Rightarrow> rstate option" where
  "OutputUnit_insert_flit curTick outport t_flit s =
     do { u \<leftarrow> getOutputUnit (int outport) (rs_router s);
          Some (s\<lparr>rs_router := set_output outport (u\<lparr>outBuffer := fb_insert t_flit (outBuffer u)\<rparr>) (rs_router s),
                  rs_acts := rs_acts s
                    @ [Sched (CLink (m_out_link u)) (router_edge curTick 1 (rs_router s))]\<rparr>) }"

end
