(* ===== verification/Switch_Allocator.thy ===== *)
theory Switch_Allocator
  imports Router_Units
begin

text \<open>
  Switch allocation and switch traversal (\<^verbatim>\<open>garnet/SwitchAllocator.{hh,cc}\<close>, \<^verbatim>\<open>garnet/CrossbarSwitch.{hh,cc}\<close>):
  the two-stage separable allocator with round-robin arbiters, and the crossbar that moves the
  winning flits to the output units.
\<close>

definition sa_get_vnet :: "nat \<Rightarrow> Router \<Rightarrow> nat option" where
  "sa_get_vnet invc r =
     do { check (sa_vc_per_vnet (switchAllocator r) \<noteq> 0);
          let vnet = invc div sa_vc_per_vnet (switchAllocator r);
          check (vnet < r_virtual_networks r);
          Some vnet }"

definition sa_order_ok :: "tick \<Rightarrow> nat \<Rightarrow> nat \<Rightarrow> nat \<Rightarrow> int \<Rightarrow> Router \<Rightarrow> bool option" where
  "sa_order_ok curTick inport invc vnet outport r =
     do { u \<leftarrow> getInputUnit inport r;
          t_enqueue_time \<leftarrow> iu_get_enqueue_time invc u;
          let vc_base = vnet * sa_vc_per_vnet (switchAllocator r);
          older \<leftarrow> any_opt (\<lambda>vc_offset.
             do { let temp_vc = vc_base + vc_offset;
                  n \<leftarrow> iu_need_stage temp_vc stage_SA curTick u;
                  if n then
                    do { p \<leftarrow> iu_get_outport temp_vc u;
                         if p = outport then
                           do { e \<leftarrow> iu_get_enqueue_time temp_vc u; Some (e < t_enqueue_time) }
                         else Some False }
                  else Some False })
            [0..<sa_vc_per_vnet (switchAllocator r)];
          Some (\<not> older) }"

definition send_allowed :: "GarnetConfig \<Rightarrow> tick \<Rightarrow> nat \<Rightarrow> nat \<Rightarrow> int \<Rightarrow> int \<Rightarrow> Router \<Rightarrow> bool option" where
  "send_allowed cfg curTick inport invc outport outvc r =
     do { vnet \<leftarrow> sa_get_vnet invc r;
          output_unit \<leftarrow> getOutputUnit outport r;
          ok \<leftarrow> (if outvc = -1 then has_free_vc curTick vnet output_unit
                  else OutputUnit_has_credit curTick outvc output_unit);
          if \<not> ok then Some False
          else
            do { ordered \<leftarrow> isVNetOrdered cfg vnet;
                 if ordered then sa_order_ok curTick inport invc vnet outport r else Some True } }"

definition rr_next :: "nat \<Rightarrow> nat \<Rightarrow> nat" where \<comment> \<open>\<^verbatim>\<open>i++; if (i >= n) i = 0;\<close>\<close>
  "rr_next n i = (if i + 1 \<ge> n then 0 else i + 1)"

text \<open>The inner loop of \<^verbatim>\<open>arbitrate_inports\<close>: the first argument counts the iterations that are left.\<close>

fun arbitrate_inport :: "GarnetConfig \<Rightarrow> tick \<Rightarrow> nat \<Rightarrow> nat \<Rightarrow> nat \<Rightarrow> Router \<Rightarrow> Router option" where
  "arbitrate_inport cfg curTick inport 0 invc r = Some r"
| "arbitrate_inport cfg curTick inport (Suc n) invc r =
     do { u \<leftarrow> getInputUnit inport r;
          need \<leftarrow> iu_need_stage invc stage_SA curTick u;
          make_request \<leftarrow>
            (if need then
               do { outport \<leftarrow> iu_get_outport invc u;
                    outvc \<leftarrow> iu_get_outvc invc u;
                    send_allowed cfg curTick inport invc outport outvc r }
             else Some False);
          if make_request then
            do { outport \<leftarrow> iu_get_outport invc u;
                 let sa = switchAllocator r;
                 reqs \<leftarrow> put (m_port_requests sa) inport outport;
                 wins \<leftarrow> put (m_vc_winners sa) inport (int invc);
                 Some (r\<lparr>switchAllocator := sa
                   \<lparr>m_input_arbiter_activity := m_input_arbiter_activity sa + 1,
                    m_port_requests := reqs, m_vc_winners := wins\<rparr>\<rparr>) }
          else arbitrate_inport cfg curTick inport n (rr_next (sa_num_vcs (switchAllocator r)) invc) r }"

definition arbitrate_inports :: "GarnetConfig \<Rightarrow> tick \<Rightarrow> Router \<Rightarrow> Router option" where
  "arbitrate_inports cfg curTick r =
     for_range (\<lambda>inport r.
         do { invc \<leftarrow> at (m_round_robin_invc (switchAllocator r)) inport;
              arbitrate_inport cfg curTick inport (sa_num_vcs (switchAllocator r)) invc r })
       (m_num_inports (switchAllocator r)) r"

definition vc_allocate :: "tick \<Rightarrow> nat \<Rightarrow> nat \<Rightarrow> nat \<Rightarrow> Router \<Rightarrow> (int \<times> Router) option" where
  "vc_allocate curTick outport inport invc r =
     do { vnet \<leftarrow> sa_get_vnet invc r;
          o1 \<leftarrow> getOutputUnit (int outport) r;
          (outvc, o2) \<leftarrow> select_free_vc curTick vnet o1;
          check (outvc \<noteq> -1);
          let r1 = set_output outport o2 r;
          u \<leftarrow> getInputUnit inport r1;
          u1 \<leftarrow> grant_outvc invc outvc u;
          Some (outvc, set_input inport u1 r1) }"

text \<open>The body of the inner loop of \<^verbatim>\<open>arbitrate_outports\<close> for the input port that wins, in four steps: the
  output virtual channel, the flit on its way to the crossbar, the credit upstream, and the
  round-robin pointers.\<close>

definition sa_outvc :: "tick \<Rightarrow> nat \<Rightarrow> nat \<Rightarrow> Router \<Rightarrow> (nat \<times> int \<times> Router) option" where
  "sa_outvc curTick outport inport r =
     do { win \<leftarrow> at (m_vc_winners (switchAllocator r)) inport;
          check (win \<ge> 0);
          let invc = nat win;
          u \<leftarrow> getInputUnit inport r;
          outvc \<leftarrow> iu_get_outvc invc u;
          if outvc = -1 then
            do { (outvc', r1) \<leftarrow> vc_allocate curTick outport inport invc r; Some (invc, outvc', r1) }
          else Some (invc, outvc, r) }"

definition sa_move :: "tick \<Rightarrow> nat \<Rightarrow> nat \<Rightarrow> nat \<Rightarrow> int \<Rightarrow> Router \<Rightarrow> (flit \<times> Router) option" where
  "sa_move curTick outport inport invc outvc r1 =
     do { u1 \<leftarrow> getInputUnit inport r1;
          (f, u2) \<leftarrow> iu_getTopFlit invc u1;
          let r2 = set_input inport u2 r1;
          ou \<leftarrow> getOutputUnit (int outport) r2;
          ou1 \<leftarrow> OutputUnit_decrement_credit outvc ou;
          let r3 = set_output outport ou1 r2;
          let t_flit = advance_stage stage_ST curTick (f\<lparr>m_outport := Some outport, m_vc := nat outvc\<rparr>);
          r4 \<leftarrow> grant_switch inport t_flit r3;
          let sa = switchAllocator r4;
          Some (t_flit,
            r4\<lparr>switchAllocator := sa\<lparr>m_output_arbiter_activity := m_output_arbiter_activity sa + 1\<rparr>\<rparr>) }"

definition sa_credit :: "tick \<Rightarrow> nat \<Rightarrow> nat \<Rightarrow> flit \<Rightarrow> rstate \<Rightarrow> rstate option" where
  "sa_credit curTick inport invc t_flit s =
     (if is_tail t_flit then
        do { u3 \<leftarrow> getInputUnit inport (rs_router s);
             ready \<leftarrow> iu_isReady invc curTick u3;
             check (\<not> ready);
             u4 \<leftarrow> set_vc_idle invc curTick u3;
             InputUnit_increment_credit curTick inport invc True curTick
               (s\<lparr>rs_router := set_input inport u4 (rs_router s)\<rparr>) }
      else InputUnit_increment_credit curTick inport invc False curTick s)"

definition sa_rotate :: "nat \<Rightarrow> nat \<Rightarrow> nat \<Rightarrow> Router \<Rightarrow> Router option" where
  "sa_rotate outport inport invc r =
     do { let sa = switchAllocator r;
          reqs \<leftarrow> put (m_port_requests sa) inport (-1);
          rin \<leftarrow> put (m_round_robin_inport sa) outport (rr_next (m_num_inports sa) inport);
          rvc \<leftarrow> put (m_round_robin_invc sa) inport (rr_next (sa_num_vcs sa) invc);
          Some (r\<lparr>switchAllocator := sa\<lparr>m_port_requests := reqs, m_round_robin_inport := rin,
                    m_round_robin_invc := rvc\<rparr>\<rparr>) }"

definition sa_grant :: "tick \<Rightarrow> nat \<Rightarrow> nat \<Rightarrow> rstate \<Rightarrow> rstate option" where
  "sa_grant curTick outport inport s =
     do { (invc, outvc, r1) \<leftarrow> sa_outvc curTick outport inport (rs_router s);
          (t_flit, r2) \<leftarrow> sa_move curTick outport inport invc outvc r1;
          s3 \<leftarrow> sa_credit curTick inport invc t_flit (s\<lparr>rs_router := r2\<rparr>);
          r4 \<leftarrow> sa_rotate outport inport invc (rs_router s3);
          Some (s3\<lparr>rs_router := r4\<rparr>) }"

fun arbitrate_outport :: "tick \<Rightarrow> nat \<Rightarrow> nat \<Rightarrow> nat \<Rightarrow> rstate \<Rightarrow> rstate option" where
  "arbitrate_outport curTick outport 0 inport s = Some s"
| "arbitrate_outport curTick outport (Suc n) inport s =
     do { req \<leftarrow> at (m_port_requests (switchAllocator (rs_router s))) inport;
          if req = int outport then sa_grant curTick outport inport s
          else arbitrate_outport curTick outport n
                 (rr_next (m_num_inports (switchAllocator (rs_router s))) inport) s }"

definition arbitrate_outports :: "tick \<Rightarrow> rstate \<Rightarrow> rstate option" where
  "arbitrate_outports curTick s =
     for_range (\<lambda>outport s.
         do { inport \<leftarrow> at (m_round_robin_inport (switchAllocator (rs_router s))) outport;
              arbitrate_outport curTick outport (m_num_inports (switchAllocator (rs_router s))) inport s })
       (m_num_outports (switchAllocator (rs_router s))) s"

definition clear_request_vector :: "Router \<Rightarrow> Router" where
  "clear_request_vector r =
     r\<lparr>switchAllocator := (switchAllocator r)
        \<lparr>m_port_requests := replicate (length (m_port_requests (switchAllocator r))) (-1)\<rparr>\<rparr>"

definition check_for_wakeup :: "tick \<Rightarrow> rstate \<Rightarrow> rstate option" where
  "check_for_wakeup curTick s =
     (let r = rs_router s; nextCycle = router_edge curTick 1 r
      in if alreadyScheduled nextCycle (r_consumer r) then Some s
         else do {
           b \<leftarrow> any_opt (\<lambda>(i, j). do { u \<leftarrow> getInputUnit i r; iu_need_stage j stage_SA nextCycle u })
             (List.product [0..<m_num_inports (switchAllocator r)] [0..<sa_num_vcs (switchAllocator r)]);
           Some (if b then schedule_wakeup curTick 1 s else s) })"

definition SwitchAllocator_wakeup :: "GarnetConfig \<Rightarrow> tick \<Rightarrow> rstate \<Rightarrow> rstate option" where
  "SwitchAllocator_wakeup cfg curTick s =
     do { r1 \<leftarrow> arbitrate_inports cfg curTick (rs_router s);
          s2 \<leftarrow> arbitrate_outports curTick (s\<lparr>rs_router := r1\<rparr>);
          let s3 = s2\<lparr>rs_router := clear_request_vector (rs_router s2)\<rparr>;
          check_for_wakeup curTick s3 }"

definition SwitchAllocator_resetStats :: "SwitchAllocator \<Rightarrow> SwitchAllocator" where
  "SwitchAllocator_resetStats sa = sa\<lparr>m_input_arbiter_activity := 0, m_output_arbiter_activity := 0\<rparr>"

subsection \<open>CrossbarSwitch\<close>

definition crossbar_port :: "tick \<Rightarrow> nat \<Rightarrow> rstate \<Rightarrow> rstate option" where
  "crossbar_port curTick i s =
     do { b \<leftarrow> at (switchBuffers (crossbarSwitch (rs_router s))) i;
          if \<not> fb_isReady curTick b then Some s
          else
            do { f \<leftarrow> fb_peekTopFlit b;
                 if is_stage stage_ST curTick f then
                   do { outport \<leftarrow> m_outport f;
                        let e = router_edge curTick 1 (rs_router s);
                        let t_flit = (advance_stage stage_LT e f)\<lparr>m_time := e\<rparr>;
                        s1 \<leftarrow> OutputUnit_insert_flit curTick outport t_flit s;
                        (g, b') \<leftarrow> fb_getTopFlit b;
                        let x = crossbarSwitch (rs_router s1);
                        Some (s1\<lparr>rs_router := (rs_router s1)\<lparr>crossbarSwitch := x
                          \<lparr>switchBuffers := (switchBuffers x)[i := b'],
                           m_crossbar_activity := m_crossbar_activity x + 1\<rparr>\<rparr>\<rparr>) }
                 else Some s } }"

definition CrossbarSwitch_wakeup :: "tick \<Rightarrow> rstate \<Rightarrow> rstate option" where
  "CrossbarSwitch_wakeup curTick s =
     for_range (crossbar_port curTick) (length (switchBuffers (crossbarSwitch (rs_router s)))) s"

definition CrossbarSwitch_resetStats :: "CrossbarSwitch \<Rightarrow> CrossbarSwitch" where
  "CrossbarSwitch_resetStats x = x\<lparr>m_crossbar_activity := 0\<rparr>"

end
