(* ===== verification/Router_Model.thy ===== *)
theory Router_Model
  imports Switch_Allocator
begin

text \<open>
  The router as a whole (\<^verbatim>\<open>garnet/Router.{hh,cc}\<close>): one wakeup runs the input units, the output units,
  the switch allocator and the crossbar, in this order.

  Three groups of lemmas.  The static part of a router (its ports, links and latency) never changes.
  A wakeup reads and writes no link buffer but those of the router's own input links and credit
  links, which is what makes router wakeups independent of one another.  And every wakeup that the
  router wants for itself is both recorded in its consumer and registered with the network.
\<close>

definition Router_wakeup ::
  "GarnetConfig \<Rightarrow> tick \<Rightarrow> link_store \<Rightarrow> rstate \<Rightarrow> (link_store \<times> rstate) option"
where
  "Router_wakeup cfg curTick lk s =
     do { check (router_edge curTick 0 (rs_router s) = curTick);
          (lk1, s1) \<leftarrow> for_range (InputUnit_wakeup cfg curTick) (length (m_input_unit (rs_router s))) (lk, s);
          (lk2, s2) \<leftarrow> for_range (OutputUnit_wakeup curTick) (length (m_output_unit (rs_router s1))) (lk1, s1);
          s3 \<leftarrow> SwitchAllocator_wakeup cfg curTick s2;
          s4 \<leftarrow> CrossbarSwitch_wakeup curTick s3;
          Some (lk2, s4) }"

definition getOutportDirection :: "nat \<Rightarrow> Router \<Rightarrow> PortDirection option" where
  "getOutportDirection outport r = do { u \<leftarrow> at (m_output_unit r) outport; Some (ou_direction u) }"

definition getInportDirection :: "nat \<Rightarrow> Router \<Rightarrow> PortDirection option" where
  "getInportDirection inport r = do { u \<leftarrow> at (m_input_unit r) inport; Some (iu_direction u) }"

definition Router_collateStats :: "Router \<Rightarrow> Router" where
  "Router_collateStats r =
     (let cs = map InputUnit_collateStats (m_input_unit r)
      in r\<lparr>m_input_unit := map snd cs,
           m_buffer_reads := m_buffer_reads r + sum_list (map (fst \<circ> fst) cs),
           m_buffer_writes := m_buffer_writes r + sum_list (map (snd \<circ> fst) cs),
           m_sw_input_arbiter_activity := m_input_arbiter_activity (switchAllocator r),
           m_sw_output_arbiter_activity := m_output_arbiter_activity (switchAllocator r),
           r_crossbar_activity := m_crossbar_activity (crossbarSwitch r)\<rparr>)"

definition Router_resetStats :: "Router \<Rightarrow> Router" where
  "Router_resetStats r =
     r\<lparr>m_input_unit := map InputUnit_resetStats (m_input_unit r),
       crossbarSwitch := CrossbarSwitch_resetStats (crossbarSwitch r),
       switchAllocator := SwitchAllocator_resetStats (switchAllocator r)\<rparr>"

subsection \<open>The static part of a router\<close>

definition input_shape :: "InputUnit \<Rightarrow> nat \<times> PortDirection \<times> nat \<times> link_id \<times> link_id \<times> nat" where
  "input_shape u = (iu_id u, iu_direction u, iu_vc_per_vnet u, m_in_link u, iu_credit_link u,
     length (virtualChannels u))"

definition output_shape :: "OutputUnit \<Rightarrow> nat \<times> PortDirection \<times> nat \<times> link_id \<times> link_id \<times> nat" where
  "output_shape u = (ou_id u, ou_direction u, ou_vc_per_vnet u, m_out_link u, ou_credit_link u,
     length (outVcState u))"

record router_shape =
  sh_id :: nat
  sh_latency :: cycles
  sh_period :: tick
  sh_vnets :: nat
  sh_width :: nat
  sh_inputs :: "(nat \<times> PortDirection \<times> nat \<times> link_id \<times> link_id \<times> nat) list"
  sh_outputs :: "(nat \<times> PortDirection \<times> nat \<times> link_id \<times> link_id \<times> nat) list"

definition shape :: "Router \<Rightarrow> router_shape" where
  "shape r = \<lparr>sh_id = r_id r, sh_latency = m_latency r, sh_period = em_period (r_consumer r),
     sh_vnets = r_virtual_networks r, sh_width = m_bit_width r,
     sh_inputs = map input_shape (m_input_unit r), sh_outputs = map output_shape (m_output_unit r)\<rparr>"

definition router_links :: "Router \<Rightarrow> link_id set" where
  "router_links r = m_in_link ` set (m_input_unit r) \<union> ou_credit_link ` set (m_output_unit r)"

lemma router_links_shape: "shape r = shape r' \<Longrightarrow> router_links r = router_links r'"
proof -
  assume "shape r = shape r'"
  then have "map input_shape (m_input_unit r) = map input_shape (m_input_unit r')"
    "map output_shape (m_output_unit r) = map output_shape (m_output_unit r')"
    by (auto simp: shape_def)
  then have "set (map (\<lambda>x. fst (snd (snd (snd x)))) (map input_shape (m_input_unit r)))
      = set (map (\<lambda>x. fst (snd (snd (snd x)))) (map input_shape (m_input_unit r')))"
    "set (map (\<lambda>x. fst (snd (snd (snd (snd x))))) (map output_shape (m_output_unit r)))
      = set (map (\<lambda>x. fst (snd (snd (snd (snd x))))) (map output_shape (m_output_unit r')))"
    by simp_all
  then show ?thesis
    by (simp add: router_links_def input_shape_def output_shape_def image_image)
qed

text \<open>Every operation of the router is one of these steps: \<open>router_op\<close> relates the states before and after an operation that runs at time \<open>now\<close>.\<close>

definition wake_regs :: "action list \<Rightarrow> (nat \<times> tick) list" where
  "wake_regs as = concat (map (\<lambda>a. case a of Register i t \<Rightarrow> [(i, t)] | Sched c t \<Rightarrow> []) as)"

definition router_op :: "tick \<Rightarrow> rstate \<Rightarrow> rstate \<Rightarrow> bool" where
  "router_op now s t \<longleftrightarrow>
     shape (rs_router t) = shape (rs_router s)
     \<and> (\<exists>ds as. rs_acts t = rs_acts s @ as
          \<and> (\<forall>d\<in>set ds. d = 1 \<or> (1 \<le> d \<and> d = m_latency (rs_router s) - 1))
          \<and> r_consumer (rs_router t) = fold (recordEvent now) ds (r_consumer (rs_router s))
          \<and> wake_regs as = map (\<lambda>d. (r_id (rs_router s), router_edge now d (rs_router s))) ds)"

lemma wake_regs_append [simp]: "wake_regs (as @ bs) = wake_regs as @ wake_regs bs"
  by (simp add: wake_regs_def)

lemma wake_regs_simps [simp]:
  "wake_regs [] = []" "wake_regs (Sched c t # as) = wake_regs as"
  "wake_regs (Register i t # as) = (i, t) # wake_regs as"
  by (simp_all add: wake_regs_def)

lemma shape_edge: "shape r = shape r' \<Longrightarrow> router_edge now d r = router_edge now d r'"
  by (simp add: shape_def router_edge_def)

lemma router_op_refl [simp]: "router_op now s s"
  unfolding router_op_def by (rule conjI, simp, rule exI [of _ "[]"], rule exI [of _ "[]"]) simp

lemma router_op_trans [trans]:
  assumes "router_op now s t" "router_op now t u"
  shows "router_op now s u"
proof -
  from assms(1) obtain ds as where
    1: "shape (rs_router t) = shape (rs_router s)" "rs_acts t = rs_acts s @ as"
      "\<forall>d\<in>set ds. d = 1 \<or> (1 \<le> d \<and> d = m_latency (rs_router s) - 1)"
      "r_consumer (rs_router t) = fold (recordEvent now) ds (r_consumer (rs_router s))"
      "wake_regs as = map (\<lambda>d. (r_id (rs_router s), router_edge now d (rs_router s))) ds"
    unfolding router_op_def by blast
  from assms(2) obtain es bs where
    2: "shape (rs_router u) = shape (rs_router t)" "rs_acts u = rs_acts t @ bs"
      "\<forall>d\<in>set es. d = 1 \<or> (1 \<le> d \<and> d = m_latency (rs_router t) - 1)"
      "r_consumer (rs_router u) = fold (recordEvent now) es (r_consumer (rs_router t))"
      "wake_regs bs = map (\<lambda>d. (r_id (rs_router t), router_edge now d (rs_router t))) es"
    unfolding router_op_def by blast
  have "r_id (rs_router t) = r_id (rs_router s)" "m_latency (rs_router t) = m_latency (rs_router s)"
    using 1(1) by (auto simp: shape_def)
  with 1 2 shape_edge [OF 1(1)] show ?thesis
    unfolding router_op_def
    by (intro conjI exI [of _ "ds @ es"] exI [of _ "as @ bs"]) auto
qed

lemma router_op_router:
  assumes "shape r = shape (rs_router s)" "r_consumer r = r_consumer (rs_router s)"
  shows "router_op now s (s\<lparr>rs_router := r\<rparr>)"
    "router_op now s (s\<lparr>rs_router := r, rs_acts := rs_acts s @ [Sched c t]\<rparr>)"
proof -
  show "router_op now s (s\<lparr>rs_router := r\<rparr>)"
    unfolding router_op_def using assms
    by (auto intro!: exI [of _ "[]"])
  show "router_op now s (s\<lparr>rs_router := r, rs_acts := rs_acts s @ [Sched c t]\<rparr>)"
    unfolding router_op_def using assms
    by (auto intro!: exI [of _ "[]"] exI [of _ "[Sched c t]"])
qed

lemma router_op_sched: "router_op now s (s\<lparr>rs_acts := rs_acts s @ [Sched c t]\<rparr>)"
  unfolding router_op_def by (auto intro!: exI [of _ "[]"] exI [of _ "[Sched c t]"])

lemma recordEvent_period [simp]: "em_period (recordEvent now d c) = em_period c"
  by (simp add: recordEvent_def)

lemma shape_consumer [simp]:
  "em_period c = em_period (r_consumer r) \<Longrightarrow> shape (r\<lparr>r_consumer := c\<rparr>) = shape r"
  by (simp add: shape_def)

lemma router_op_schedule:
  assumes "d = 1 \<or> (1 \<le> d \<and> d = m_latency (rs_router s) - 1)"
  shows "router_op now s (schedule_wakeup now d s)"
  unfolding router_op_def schedule_wakeup_def Let_def using assms
  by (intro conjI exI [of _ "[d]"] exI [of _ "[Register (r_id (rs_router s)) (router_edge now d (rs_router s))]"])
    auto

lemma map_update_same: "i < length xs \<Longrightarrow> f u = f (xs ! i) \<Longrightarrow> map f (xs[i := u]) = map f xs"
  by (metis list_update_id map_update)

lemma shape_set_input:
  assumes "getInputUnit i r = Some u" "input_shape u' = input_shape u"
  shows "shape (set_input i u' r) = shape r" "r_consumer (set_input i u' r) = r_consumer r"
  using assms map_update_same [of i "m_input_unit r" input_shape u']
  by (auto simp: shape_def set_input_def getInputUnit_def)

lemma shape_set_output:
  assumes "getOutputUnit (int i) r = Some u" "output_shape u' = output_shape u"
  shows "shape (set_output i u' r) = shape r" "r_consumer (set_output i u' r) = r_consumer r"
  using assms map_update_same [of i "m_output_unit r" output_shape u']
  by (auto simp: shape_def set_output_def getOutputUnit_def)

lemma shape_frame [simp]:
  "shape (r\<lparr>routingUnit := a\<rparr>) = shape r" "shape (r\<lparr>switchAllocator := b\<rparr>) = shape r"
  "shape (r\<lparr>crossbarSwitch := c\<rparr>) = shape r" "shape (r\<lparr>r_rand_calls := n\<rparr>) = shape r"
  "shape (r\<lparr>routingUnit := a, r_rand_calls := n\<rparr>) = shape r"
  by (simp_all add: shape_def)

subsection \<open>The units\<close>

lemma iu_update_vc_shape:
  "iu_update_vc vc g u = Some u' \<Longrightarrow> input_shape u' = input_shape u"
  by (auto simp: iu_update_vc_def input_shape_def bind_eq_Some_conv)

lemmas input_ops = set_vc_idle_def set_vc_active_def grant_outport_def grant_outvc_def

lemma input_ops_shape:
  "set_vc_idle vc t u = Some u' \<Longrightarrow> input_shape u' = input_shape u"
  "set_vc_active vc t u = Some u' \<Longrightarrow> input_shape u' = input_shape u"
  "grant_outport vc p u = Some u' \<Longrightarrow> input_shape u' = input_shape u"
  "grant_outvc vc v u = Some u' \<Longrightarrow> input_shape u' = input_shape u"
  "iu_getTopFlit vc u = Some (f, u') \<Longrightarrow> input_shape u' = input_shape u"
  by (simp_all add: input_ops iu_update_vc_shape)
    (auto simp: iu_getTopFlit_def input_shape_def bind_eq_Some_conv)

lemma ou_update_vc_shape:
  "ou_update_vc vc g u = Some u' \<Longrightarrow> output_shape u' = output_shape u"
  by (auto simp: ou_update_vc_def output_shape_def bind_eq_Some_conv)

lemma output_ops_shape:
  "OutputUnit_decrement_credit vc u = Some u' \<Longrightarrow> output_shape u' = output_shape u"
  "OutputUnit_increment_credit vc u = Some u' \<Longrightarrow> output_shape u' = output_shape u"
  "set_vc_state st vc t u = Some u' \<Longrightarrow> output_shape u' = output_shape u"
  "select_free_vc t vnet u = Some (v, u') \<Longrightarrow> output_shape u' = output_shape u"
  by (auto simp: OutputUnit_decrement_credit_def OutputUnit_increment_credit_def set_vc_state_def
      select_free_vc_def ou_update_vc_shape bind_eq_Some_conv split: option.splits)

lemma route_compute_shape:
  "route_compute cfg route i d r = Some (p, r') \<Longrightarrow>
     shape r' = shape r \<and> r_consumer r' = r_consumer r \<and> m_input_unit r' = m_input_unit r
     \<and> m_output_unit r' = m_output_unit r"
  by (auto simp: route_compute_def bind_eq_Some_conv)

lemma accept_frame:
  assumes "getInputUnit i r = Some u" "shape r1 = shape r \<and> r_consumer r1 = r_consumer r
      \<and> m_input_unit r1 = m_input_unit r \<and> m_output_unit r1 = m_output_unit r"
    and "input_shape u1 = input_shape u" "iu_update_vc vc g u1 = Some u2"
  shows "shape (set_input i (u2\<lparr>m_local_buffer_writes := w, m_local_buffer_reads := x\<rparr>) r1) = shape r
    \<and> r_consumer (set_input i (u2\<lparr>m_local_buffer_writes := w, m_local_buffer_reads := x\<rparr>) r1) = r_consumer r"
proof -
  have "getInputUnit i r1 = Some u" using assms(1,2) by (simp add: getInputUnit_def)
  moreover have "input_shape (u2\<lparr>m_local_buffer_writes := w, m_local_buffer_reads := x\<rparr>) = input_shape u"
    using iu_update_vc_shape [OF assms(4)] assms(3) by (simp add: input_shape_def)
  ultimately show ?thesis using shape_set_input [of i r1 u] assms(2) by simp
qed

lemma InputUnit_accept_shape:
  assumes "InputUnit_accept cfg now inport t_flit stored r = Some r'"
  shows "shape r' = shape r \<and> r_consumer r' = r_consumer r"
proof (cases "is_head t_flit")
  case True
  from assms obtain u where u: "getInputUnit inport r = Some u"
    by (auto simp: InputUnit_accept_def bind_eq_Some_conv)
  from assms True u obtain ua outport ra ub u2 w x where
    "set_vc_active (m_vc t_flit) now u = Some ua"
    "route_compute cfg (m_route t_flit) (iu_id u) (iu_direction u) r = Some (outport, ra)"
    "grant_outport (m_vc t_flit) outport ua = Some ub"
    "iu_update_vc (m_vc t_flit) (vc_insertFlit stored) ub = Some u2"
    "r' = set_input inport (u2\<lparr>m_local_buffer_writes := w, m_local_buffer_reads := x\<rparr>) ra"
    by (auto simp: InputUnit_accept_def bind_eq_Some_conv Let_def)
  with u show ?thesis
    using accept_frame [OF u route_compute_shape] input_ops_shape(2,3) by metis
next
  case False
  from assms False obtain u u2 w x where
    "getInputUnit inport r = Some u" "iu_update_vc (m_vc t_flit) (vc_insertFlit stored) u = Some u2"
    "r' = set_input inport (u2\<lparr>m_local_buffer_writes := w, m_local_buffer_reads := x\<rparr>) r"
    by (auto simp: InputUnit_accept_def bind_eq_Some_conv Let_def)
  then show ?thesis using accept_frame [of inport r u r u] by blast
qed

definition wait_delays :: "Router \<Rightarrow> bool \<Rightarrow> nat list" where
  "wait_delays r again = (if m_latency r = 1 then [] else [m_latency r - 1]) @ (if again then [1] else [])"

text \<open>The two outcomes of the wakeup of an input unit.\<close>

lemma InputUnit_wakeup_cases:
  assumes "InputUnit_wakeup cfg now inport (lk, s) = Some (lk', t)"
  obtains (idle) u where "getInputUnit inport (rs_router s) = Some u" "\<not> fb_isReady now (lk (m_in_link u))"
      "lk' = lk" "t = s"
  | (flit) u f lb r1 where "getInputUnit inport (rs_router s) = Some u" "fb_isReady now (lk (m_in_link u))"
      "fb_getTopFlit (lk (m_in_link u)) = Some (f, lb)" "lk' = lk(m_in_link u := lb)"
      "m_width f = m_bit_width (rs_router s)" "1 \<le> m_latency (rs_router s)"
      "InputUnit_accept cfg now inport (increment_hops f) (stored_flit now (rs_router s) (increment_hops f)) (rs_router s) = Some r1"
      "t = fold (schedule_wakeup now) (wait_delays (rs_router s) (fb_isReady now lb)) (s\<lparr>rs_router := r1\<rparr>)"
proof -
  from assms obtain u where u: "getInputUnit inport (rs_router s) = Some u"
    by (auto simp: InputUnit_wakeup_def bind_eq_Some_conv)
  show thesis
  proof (cases "fb_isReady now (lk (m_in_link u))")
    case False
    with assms u show thesis by (intro idle) (auto simp: InputUnit_wakeup_def)
  next
    case True
    from assms u True obtain f lb where f: "fb_getTopFlit (lk (m_in_link u)) = Some (f, lb)"
      by (auto simp: InputUnit_wakeup_def bind_eq_Some_conv)
    from assms u True f obtain r1 where
      "InputUnit_accept cfg now inport (increment_hops f) (stored_flit now (rs_router s) (increment_hops f)) (rs_router s) = Some r1"
      by (auto simp: InputUnit_wakeup_def bind_eq_Some_conv Let_def)
    with assms u True f show thesis
      by (intro flit [OF u True f])
        (auto simp: InputUnit_wakeup_def bind_eq_Some_conv wait_delays_def Let_def)
  qed
qed

lemma router_op_schedules:
  "\<forall>d\<in>set ds. d = 1 \<or> (1 \<le> d \<and> d = m_latency (rs_router s) - 1) \<Longrightarrow>
     router_op now s (fold (schedule_wakeup now) ds s)"
proof (induction ds arbitrary: s)
  case Nil
  then show ?case by simp
next
  case (Cons d ds)
  have "m_latency (rs_router (schedule_wakeup now d s)) = m_latency (rs_router s)"
    by (simp add: schedule_wakeup_def Let_def)
  then have "router_op now (schedule_wakeup now d s) (fold (schedule_wakeup now) ds (schedule_wakeup now d s))"
    using Cons by simp
  moreover have "router_op now s (schedule_wakeup now d s)"
    using Cons.prems by (intro router_op_schedule) simp
  ultimately show ?case by (auto intro: router_op_trans)
qed

lemma InputUnit_wakeup_op:
  assumes "InputUnit_wakeup cfg now inport (lk, s) = Some (lk', t)"
  shows "router_op now s t"
  using assms
proof (cases rule: InputUnit_wakeup_cases)
  case idle
  then show ?thesis by simp
next
  case (flit u f lb r1)
  from InputUnit_accept_shape [OF flit(7)]
  have sh: "shape r1 = shape (rs_router s)" "r_consumer r1 = r_consumer (rs_router s)" by auto
  then have "m_latency r1 = m_latency (rs_router s)" by (simp add: shape_def)
  then have "router_op now (s\<lparr>rs_router := r1\<rparr>) t"
    unfolding flit(8) using flit(6) by (intro router_op_schedules) (auto simp: wait_delays_def)
  with router_op_router(1) [OF sh] show ?thesis by (rule router_op_trans)
qed

lemma OutputUnit_wakeup_op:
  assumes "OutputUnit_wakeup now outport (lk, s) = Some (lk', t)"
  shows "router_op now s t"
proof -
  have goal: "router_op now s (s\<lparr>rs_router := set_output outport u2 (rs_router s)\<rparr>)"
      "router_op now s (s\<lparr>rs_router := set_output outport u2 (rs_router s), rs_acts := rs_acts s @ [Sched c x]\<rparr>)"
    if "getOutputUnit (int outport) (rs_router s) = Some u" "output_shape u2 = output_shape u" for u u2 c x
    using router_op_router(1,2) [OF shape_set_output [OF that]] by auto
  from assms show ?thesis
    by (auto simp: OutputUnit_wakeup_def bind_eq_Some_conv Let_def split: if_splits
        dest!: output_ops_shape intro: goal)
qed

lemma OutputUnit_insert_flit_op:
  "OutputUnit_insert_flit now outport f s = Some t \<Longrightarrow> router_op now s t"
  by (auto simp: OutputUnit_insert_flit_def bind_eq_Some_conv
      intro!: router_op_router(2) shape_set_output) (auto simp: output_shape_def)

lemma InputUnit_increment_credit_op:
  "InputUnit_increment_credit now inport vc b t s = Some s' \<Longrightarrow> router_op now s s'"
  by (auto simp: InputUnit_increment_credit_def bind_eq_Some_conv
      intro!: router_op_router(2) shape_set_input) (auto simp: input_shape_def)

subsection \<open>The allocator and the crossbar\<close>

definition same_frame :: "Router \<Rightarrow> Router \<Rightarrow> bool" where
  "same_frame r r' \<longleftrightarrow> shape r' = shape r \<and> r_consumer r' = r_consumer r"

lemma same_frame_refl [simp]: "same_frame r r"
  by (simp add: same_frame_def)

lemma same_frame_trans: "same_frame a b \<Longrightarrow> same_frame b c \<Longrightarrow> same_frame a c"
  by (simp add: same_frame_def)

lemma same_frame_op: "same_frame (rs_router s) r \<Longrightarrow> router_op now s (s\<lparr>rs_router := r\<rparr>)"
  by (simp add: same_frame_def router_op_router)

lemma arbitrate_inport_frame:
  "arbitrate_inport cfg now inport n invc r = Some r' \<Longrightarrow> same_frame r r'"
  by (induction cfg now inport n invc r arbitrary: r' rule: arbitrate_inport.induct)
    (auto simp: bind_eq_Some_conv same_frame_def Let_def split: if_splits)

lemma arbitrate_inports_frame:
  assumes "arbitrate_inports cfg now r = Some r'"
  shows "same_frame r r'"
  using assms unfolding arbitrate_inports_def for_range_def
  by (rule for_list_invariant [where P = "same_frame r"])
    (auto simp: bind_eq_Some_conv dest: arbitrate_inport_frame intro: same_frame_trans)

lemma grant_switch_frame: "grant_switch i f r = Some r' \<Longrightarrow> same_frame r r'"
  by (auto simp: grant_switch_def bind_eq_Some_conv same_frame_def)

lemma set_input_frame:
  "getInputUnit i r = Some u \<Longrightarrow> input_shape u' = input_shape u \<Longrightarrow> same_frame r (set_input i u' r)"
  by (simp add: same_frame_def shape_set_input)

lemma set_output_frame:
  "getOutputUnit (int i) r = Some u \<Longrightarrow> output_shape u' = output_shape u
    \<Longrightarrow> same_frame r (set_output i u' r)"
  by (simp add: same_frame_def shape_set_output)

lemma vc_allocate_frame:
  assumes "vc_allocate now outport inport invc r = Some (v, r')"
  shows "same_frame r r'"
proof -
  from assms obtain o1 o2 u u1 where
    o: "getOutputUnit (int outport) r = Some o1" "output_shape o2 = output_shape o1"
    and u: "getInputUnit inport (set_output outport o2 r) = Some u" "input_shape u1 = input_shape u"
    and r': "r' = set_input inport u1 (set_output outport o2 r)"
    by (auto simp: vc_allocate_def bind_eq_Some_conv Let_def dest!: output_ops_shape(4) input_ops_shape(4))
  show ?thesis
    unfolding r' by (rule same_frame_trans [OF set_output_frame [OF o] set_input_frame [OF u]])
qed

lemma sa_outvc_frame:
  "sa_outvc now outport inport r = Some (invc, outvc, r1) \<Longrightarrow> same_frame r r1"
  by (auto simp: sa_outvc_def Let_def bind_eq_Some_conv split: if_splits dest: vc_allocate_frame)

lemma sa_move_frame:
  assumes "sa_move now outport inport invc outvc r1 = Some (f, r2)"
  shows "same_frame r1 r2"
proof -
  from assms obtain u1 g u2 ou ou1 r4 sa h where
    u1: "getInputUnit inport r1 = Some u1" and u2: "iu_getTopFlit invc u1 = Some (g, u2)"
    and ou: "getOutputUnit (int outport) (set_input inport u2 r1) = Some ou"
    and ou1: "OutputUnit_decrement_credit outvc ou = Some ou1"
    and r4: "grant_switch inport h (set_output outport ou1 (set_input inport u2 r1)) = Some r4"
    and r2: "r2 = r4\<lparr>switchAllocator := sa\<rparr>"
    by (auto simp: sa_move_def Let_def bind_eq_Some_conv)
  have "same_frame r1 (set_input inport u2 r1)"
    using set_input_frame [OF u1 input_ops_shape(5) [OF u2]] .
  from same_frame_trans [OF this set_output_frame [OF ou output_ops_shape(1) [OF ou1]]]
  have "same_frame r1 r4" using grant_switch_frame [OF r4] by (rule same_frame_trans)
  then show ?thesis unfolding r2 by (simp add: same_frame_def)
qed

lemma sa_credit_op:
  assumes "sa_credit now inport invc f s = Some t"
  shows "router_op now s t"
proof -
  have goal: "router_op now s t"
    if "getInputUnit inport (rs_router s) = Some u3" "set_vc_idle invc now u3 = Some u4"
      "InputUnit_increment_credit now inport invc True now (s\<lparr>rs_router := set_input inport u4 (rs_router s)\<rparr>) = Some t"
    for u3 u4
    using router_op_trans [OF same_frame_op [OF set_input_frame [OF that(1) input_ops_shape(1) [OF that(2)]]]
        InputUnit_increment_credit_op [OF that(3)]] .
  from assms show ?thesis
    by (auto simp: sa_credit_def bind_eq_Some_conv split: if_splits intro: goal InputUnit_increment_credit_op)
qed

lemma sa_rotate_frame: "sa_rotate outport inport invc r = Some r' \<Longrightarrow> same_frame r r'"
  by (auto simp: sa_rotate_def Let_def bind_eq_Some_conv same_frame_def)

lemma sa_grant_op:
  assumes "sa_grant now outport inport s = Some t"
  shows "router_op now s t"
proof -
  from assms obtain invc outvc r1 f r2 s3 r4 where
    1: "sa_outvc now outport inport (rs_router s) = Some (invc, outvc, r1)"
      "sa_move now outport inport invc outvc r1 = Some (f, r2)"
    and 2: "sa_credit now inport invc f (s\<lparr>rs_router := r2\<rparr>) = Some s3"
    and 3: "sa_rotate outport inport invc (rs_router s3) = Some r4" "t = s3\<lparr>rs_router := r4\<rparr>"
    by (auto simp: sa_grant_def bind_eq_Some_conv)
  have "same_frame (rs_router s) r2"
    using sa_outvc_frame [OF 1(1)] sa_move_frame [OF 1(2)] by (rule same_frame_trans)
  from router_op_trans [OF same_frame_op [OF this] sa_credit_op [OF 2]]
  show ?thesis
    unfolding 3(2) using same_frame_op [OF sa_rotate_frame [OF 3(1)]] by (rule router_op_trans)
qed

lemma arbitrate_outport_op:
  "arbitrate_outport now outport n inport s = Some t \<Longrightarrow> router_op now s t"
  by (induction now outport n inport s rule: arbitrate_outport.induct)
    (auto simp: bind_eq_Some_conv dest: sa_grant_op split: if_splits)

lemma arbitrate_outports_op:
  assumes "arbitrate_outports now s = Some t"
  shows "router_op now s t"
  using assms unfolding arbitrate_outports_def for_range_def
  by (rule for_list_invariant [where P = "router_op now s"])
    (auto simp: bind_eq_Some_conv dest: arbitrate_outport_op intro: router_op_trans)

lemma check_for_wakeup_op: "check_for_wakeup now s = Some t \<Longrightarrow> router_op now s t"
  by (auto simp: check_for_wakeup_def Let_def bind_eq_Some_conv split: if_splits
      intro!: router_op_schedule)

lemma SwitchAllocator_wakeup_op:
  assumes "SwitchAllocator_wakeup cfg now s = Some t"
  shows "router_op now s t"
proof -
  from assms obtain r1 s2 where
    "arbitrate_inports cfg now (rs_router s) = Some r1" "arbitrate_outports now (s\<lparr>rs_router := r1\<rparr>) = Some s2"
    "check_for_wakeup now (s2\<lparr>rs_router := clear_request_vector (rs_router s2)\<rparr>) = Some t"
    by (auto simp: SwitchAllocator_wakeup_def bind_eq_Some_conv Let_def)
  note 1 = same_frame_op [OF arbitrate_inports_frame [OF this(1)]] arbitrate_outports_op [OF this(2)]
    check_for_wakeup_op [OF this(3)]
  have "router_op now s2 (s2\<lparr>rs_router := clear_request_vector (rs_router s2)\<rparr>)"
    by (rule router_op_router) (simp_all add: clear_request_vector_def)
  from router_op_trans [OF router_op_trans [OF router_op_trans [OF 1(1,2)] this] 1(3)] show ?thesis .
qed

lemma crossbar_port_op:
  assumes "crossbar_port now i s = Some t"
  shows "router_op now s t"
proof -
  have goal: "router_op now s (s1\<lparr>rs_router := (rs_router s1)\<lparr>crossbarSwitch := x\<rparr>\<rparr>)"
    if "OutputUnit_insert_flit now p f s = Some s1" for p f s1 x
    by (rule router_op_trans [OF OutputUnit_insert_flit_op [OF that]], rule router_op_router) simp_all
  from assms show ?thesis
    by (auto simp: crossbar_port_def Let_def bind_eq_Some_conv split: if_splits intro: goal)
qed

lemma CrossbarSwitch_wakeup_op:
  assumes "CrossbarSwitch_wakeup now s = Some t"
  shows "router_op now s t"
  using assms unfolding CrossbarSwitch_wakeup_def for_range_def
  by (rule for_list_invariant [where P = "router_op now s"])
    (auto dest: crossbar_port_op intro: router_op_trans)

lemma Router_wakeup_op:
  assumes "Router_wakeup cfg now lk s = Some (lk', t)"
  shows "router_op now s t"
proof -
  from assms obtain lk1 s1 s2 s3 where
    1: "for_list (InputUnit_wakeup cfg now) [0..<length (m_input_unit (rs_router s))] (lk, s) = Some (lk1, s1)"
    and 2: "for_list (OutputUnit_wakeup now) [0..<length (m_output_unit (rs_router s1))] (lk1, s1) = Some (lk', s2)"
    and 3: "SwitchAllocator_wakeup cfg now s2 = Some s3" and 4: "CrossbarSwitch_wakeup now s3 = Some t"
    by (auto simp: Router_wakeup_def for_range_def bind_eq_Some_conv)
  have "router_op now s (snd (lk1, s1))"
    using 1 by (rule for_list_invariant [where P = "\<lambda>p. router_op now s (snd p)"])
      (auto intro: router_op_trans [OF _ InputUnit_wakeup_op])
  moreover have "router_op now s1 (snd (lk', s2))"
    using 2 by (rule for_list_invariant [where P = "\<lambda>p. router_op now s1 (snd p)"])
      (auto intro: router_op_trans [OF _ OutputUnit_wakeup_op])
  ultimately show ?thesis
    using SwitchAllocator_wakeup_op [OF 3] CrossbarSwitch_wakeup_op [OF 4]
    by (auto intro: router_op_trans)
qed

subsection \<open>A router touches only its own links\<close>

definition agree_on :: "link_id set \<Rightarrow> link_store \<Rightarrow> link_store \<Rightarrow> bool" where
  "agree_on L lk lk2 \<longleftrightarrow> (\<forall>l\<in>L. lk l = lk2 l)"

definition local_op :: "link_id set \<Rightarrow> (link_store \<times> rstate \<Rightarrow> (link_store \<times> rstate) option) \<Rightarrow> bool" where
  "local_op L f \<longleftrightarrow>
     (\<forall>lk lk2 s lk' t. router_links (rs_router s) \<subseteq> L \<longrightarrow> agree_on L lk lk2 \<longrightarrow> f (lk, s) = Some (lk', t) \<longrightarrow>
        (\<exists>lk2'. f (lk2, s) = Some (lk2', t) \<and> agree_on L lk' lk2')
        \<and> agree_on (- L) lk' lk \<and> router_links (rs_router t) \<subseteq> L)"

lemma agree_on_simps [simp]: "agree_on L lk lk"
  by (simp add: agree_on_def)

lemma agree_on_sym: "agree_on L a b \<Longrightarrow> agree_on L b a"
  by (simp add: agree_on_def)

lemma agree_on_trans: "agree_on L a b \<Longrightarrow> agree_on L b c \<Longrightarrow> agree_on L a c"
  by (simp add: agree_on_def)

lemma local_opD:
  assumes "local_op L f" "router_links (rs_router s) \<subseteq> L" "agree_on L lk lk2" "f (lk, s) = Some (lk', t)"
  shows "\<exists>lk2'. f (lk2, s) = Some (lk2', t) \<and> agree_on L lk' lk2'" "agree_on (- L) lk' lk"
    "router_links (rs_router t) \<subseteq> L"
  using assms unfolding local_op_def by blast+

lemma local_op_for:
  assumes "\<And>x. x \<in> set xs \<Longrightarrow> local_op L (f x)"
  shows "local_op L (for_list f xs)"
  using assms
proof (induction xs)
  case Nil
  then show ?case by (simp add: local_op_def)
next
  case (Cons x xs)
  have f: "local_op L (f x)" and fs: "local_op L (for_list f xs)" using Cons by auto
  show ?case
    unfolding local_op_def
  proof (intro allI impI)
    fix lk lk2 s lk' t
    assume sub: "router_links (rs_router s) \<subseteq> L" and ag: "agree_on L lk lk2"
      and run: "for_list f (x # xs) (lk, s) = Some (lk', t)"
    from run obtain lk1 s1 where 1: "f x (lk, s) = Some (lk1, s1)" "for_list f xs (lk1, s1) = Some (lk', t)"
      by (auto simp: bind_eq_Some_conv)
    note a = local_opD [OF f sub ag 1(1)]
    then obtain lk3 where 3: "f x (lk2, s) = Some (lk3, s1)" "agree_on L lk1 lk3" by blast
    note b = local_opD [OF fs a(3) 3(2) 1(2)]
    show "(\<exists>lk2'. for_list f (x # xs) (lk2, s) = Some (lk2', t) \<and> agree_on L lk' lk2')
        \<and> agree_on (- L) lk' lk \<and> router_links (rs_router t) \<subseteq> L"
      using a(2) b 3(1) by (auto intro: agree_on_trans)
  qed
qed

lemma in_link_mem: "getInputUnit i r = Some u \<Longrightarrow> m_in_link u \<in> router_links r"
  by (auto simp: getInputUnit_def router_links_def)

lemma credit_link_mem: "getOutputUnit (int i) r = Some u \<Longrightarrow> ou_credit_link u \<in> router_links r"
  by (auto simp: getOutputUnit_def router_links_def)

lemma agree_on_upd: "agree_on L lk lk2 \<Longrightarrow> agree_on L (lk(l := b)) (lk2(l := b))"
  by (simp add: agree_on_def)

lemma router_op_local: "router_op now s t \<Longrightarrow> router_links (rs_router t) = router_links (rs_router s)"
  unfolding router_op_def by (elim conjE) (rule router_links_shape)

lemma InputUnit_wakeup_local: "local_op L (InputUnit_wakeup cfg now inport)"
  unfolding local_op_def
proof (intro allI impI)
  fix lk lk2 s lk' t
  assume sub: "router_links (rs_router s) \<subseteq> L" and ag: "agree_on L lk lk2"
    and run: "InputUnit_wakeup cfg now inport (lk, s) = Some (lk', t)"
  have t: "router_links (rs_router t) \<subseteq> L"
    using router_op_local [OF InputUnit_wakeup_op [OF run]] sub by simp
  from run obtain u where u: "getInputUnit inport (rs_router s) = Some u"
    by (auto simp: InputUnit_wakeup_def bind_eq_Some_conv)
  let ?l = "m_in_link u"
  have l: "?l \<in> L" "lk2 ?l = lk ?l"
    using in_link_mem [OF u] sub ag by (auto simp: agree_on_def)
  have "(lk' = lk \<and> InputUnit_wakeup cfg now inport (lk2, s) = Some (lk2, t))
      \<or> (\<exists>lb. lk' = lk(?l := lb) \<and> InputUnit_wakeup cfg now inport (lk2, s) = Some (lk2(?l := lb), t))"
    using run u l(2)
    by (auto simp: InputUnit_wakeup_def bind_eq_Some_conv Let_def split: if_splits)
  then show "(\<exists>lk2'. InputUnit_wakeup cfg now inport (lk2, s) = Some (lk2', t) \<and> agree_on L lk' lk2')
      \<and> agree_on (- L) lk' lk \<and> router_links (rs_router t) \<subseteq> L"
    using ag agree_on_upd [OF ag] t l(1) by (auto simp: agree_on_def)
qed

lemma OutputUnit_wakeup_local: "local_op L (OutputUnit_wakeup now outport)"
  unfolding local_op_def
proof (intro allI impI)
  fix lk lk2 s lk' t
  assume sub: "router_links (rs_router s) \<subseteq> L" and ag: "agree_on L lk lk2"
    and run: "OutputUnit_wakeup now outport (lk, s) = Some (lk', t)"
  have t: "router_links (rs_router t) \<subseteq> L"
    using router_op_local [OF OutputUnit_wakeup_op [OF run]] sub by simp
  from run obtain u where u: "getOutputUnit (int outport) (rs_router s) = Some u"
    by (auto simp: OutputUnit_wakeup_def bind_eq_Some_conv)
  let ?l = "ou_credit_link u"
  have l: "?l \<in> L" "lk2 ?l = lk ?l"
    using credit_link_mem [OF u] sub ag by (auto simp: agree_on_def)
  have "(lk' = lk \<and> OutputUnit_wakeup now outport (lk2, s) = Some (lk2, t))
      \<or> (\<exists>lb. lk' = lk(?l := lb) \<and> OutputUnit_wakeup now outport (lk2, s) = Some (lk2(?l := lb), t))"
  proof (cases "fb_isReady now (lk ?l)")
    case False
    then show ?thesis using run u l(2) by (auto simp: OutputUnit_wakeup_def)
  next
    case True
    then obtain c lb where "fb_getTopFlit (lk ?l) = Some (c, lb)"
      using run u by (auto simp: OutputUnit_wakeup_def bind_eq_Some_conv)
    then have "lk' = lk(?l := lb) \<and> OutputUnit_wakeup now outport (lk2, s) = Some (lk2(?l := lb), t)"
      using run u l(2) True by (auto simp: OutputUnit_wakeup_def bind_eq_Some_conv Let_def)
    then show ?thesis by blast
  qed
  then show "(\<exists>lk2'. OutputUnit_wakeup now outport (lk2, s) = Some (lk2', t) \<and> agree_on L lk' lk2')
      \<and> agree_on (- L) lk' lk \<and> router_links (rs_router t) \<subseteq> L"
    using ag agree_on_upd [OF ag] t l(1) by (auto simp: agree_on_def)
qed

lemma Router_wakeup_local: "local_op L (\<lambda>(lk, s). Router_wakeup cfg now lk s)"
  unfolding local_op_def
proof (intro allI impI)
  fix lk lk2 s lk' t
  assume sub: "router_links (rs_router s) \<subseteq> L" and ag: "agree_on L lk lk2"
    and run: "(case (lk, s) of (lk, s) \<Rightarrow> Router_wakeup cfg now lk s) = Some (lk', t)"
  from run obtain lk1 s1 s2 s3 where
    e: "router_edge now 0 (rs_router s) = now"
    and 1: "for_list (InputUnit_wakeup cfg now) [0..<length (m_input_unit (rs_router s))] (lk, s) = Some (lk1, s1)"
    and 2: "for_list (OutputUnit_wakeup now) [0..<length (m_output_unit (rs_router s1))] (lk1, s1) = Some (lk', s2)"
    and 3: "SwitchAllocator_wakeup cfg now s2 = Some s3" "CrossbarSwitch_wakeup now s3 = Some t"
    by (auto simp: Router_wakeup_def for_range_def bind_eq_Some_conv)
  note a = local_opD [OF local_op_for [OF InputUnit_wakeup_local] sub ag 1]
  then obtain lk3 where l3: "for_list (InputUnit_wakeup cfg now) [0..<length (m_input_unit (rs_router s))] (lk2, s)
      = Some (lk3, s1)" "agree_on L lk1 lk3" by blast
  note b = local_opD [OF local_op_for [OF OutputUnit_wakeup_local] a(3) l3(2) 2]
  then obtain lk4 where l4: "for_list (OutputUnit_wakeup now) [0..<length (m_output_unit (rs_router s1))] (lk3, s1)
      = Some (lk4, s2)" "agree_on L lk' lk4" by blast
  have "Router_wakeup cfg now lk2 s = Some (lk4, t)"
    using e l3(1) l4(1) 3 by (simp add: Router_wakeup_def for_range_def)
  moreover have "router_links (rs_router t) \<subseteq> L"
    using router_op_local [OF Router_wakeup_op] run sub by auto
  ultimately show "(\<exists>lk2'. (case (lk2, s) of (lk, s) \<Rightarrow> Router_wakeup cfg now lk s) = Some (lk2', t) \<and> agree_on L lk' lk2')
      \<and> agree_on (- L) lk' lk \<and> router_links (rs_router t) \<subseteq> L"
    using l4(2) a(2) b(2) by (auto intro: agree_on_trans)
qed

lemma Router_wakeup_agree:
  assumes run: "Router_wakeup cfg now lk s = Some (lk', t)"
  shows "agree_on (- router_links (rs_router s)) lk' lk"
    and "agree_on (router_links (rs_router s)) lk lk2 \<Longrightarrow>
      \<exists>lk2'. Router_wakeup cfg now lk2 s = Some (lk2', t) \<and> agree_on (router_links (rs_router s)) lk' lk2'"
  using local_opD [OF Router_wakeup_local subset_refl, of s lk lk cfg now lk' t]
    local_opD(1) [OF Router_wakeup_local subset_refl, of s lk lk2 cfg now lk' t] run by auto

end
