(* ===== verification/Router_Flow.thy ===== *)
theory Router_Flow
  imports Router_Model
begin

text \<open>
  What a router does to the flits: a wakeup loses none and invents none, and the switch allocator
  serves at most one flit per input port and takes at most one credit per output port.

  A flit keeps its packet number and its number within the packet while its other members change;
  the pair identifies it.
\<close>

definition flit_key :: "flit \<Rightarrow> nat \<times> nat" where
  "flit_key f = (m_packet_id f, m_id f)"

definition keys :: "flitBuffer \<Rightarrow> (nat \<times> nat) multiset" where
  "keys b = mset (map flit_key (m_buffer b))"

definition vc_keys :: "InputUnit \<Rightarrow> (nat \<times> nat) multiset" where
  "vc_keys u = sum_list (map (\<lambda>v. keys (inputBuffer v)) (virtualChannels u))"

definition router_keys :: "Router \<Rightarrow> (nat \<times> nat) multiset" where
  "router_keys r = sum_list (map vc_keys (m_input_unit r))
     + sum_list (map keys (switchBuffers (crossbarSwitch r)))
     + sum_list (map (\<lambda>u. keys (outBuffer u)) (m_output_unit r))"

definition in_links :: "Router \<Rightarrow> link_id list" where
  "in_links r = map m_in_link (m_input_unit r)"

definition link_keys :: "link_store \<Rightarrow> link_id list \<Rightarrow> (nat \<times> nat) multiset" where
  "link_keys lk ls = sum_list (map (\<lambda>l. keys (lk l)) ls)"

lemma sum_list_upd:
  fixes f :: "'a \<Rightarrow> 'b :: cancel_comm_monoid_add"
  assumes "i < length xs"
  shows "sum_list (map f (xs[i := x])) + f (xs ! i) = sum_list (map f xs) + f x"
  using assms
proof (induction xs arbitrary: i)
  case Nil
  then show ?case by simp
next
  case (Cons y ys)
  then show ?case
  proof (cases i)
    case 0
    then show ?thesis by (simp add: ac_simps)
  next
    case (Suc j)
    then have "sum_list (map f (ys[j := x])) + f (ys ! j) = sum_list (map f ys) + f x"
      using Cons by simp
    then show ?thesis using Suc by (simp add: ac_simps)
  qed
qed

lemma keys_simps [simp]:
  "keys flitBuffer_new = {#}" "keys (fb_insert f b) = add_mset (flit_key f) (keys b)"
  by (simp_all add: keys_def flitBuffer_new_def)

lemma keys_getTopFlit: "fb_getTopFlit b = Some (f, b') \<Longrightarrow> keys b = add_mset (flit_key f) (keys b')"
  using flit_fifo.deq_Some [of b f b'] by (simp add: keys_def)

lemma flit_key_simps [simp]:
  "flit_key (increment_hops f) = flit_key f" "flit_key (advance_stage st t f) = flit_key f"
  "flit_key (stored_flit now r f) = flit_key f" "flit_key (f\<lparr>m_time := t\<rparr>) = flit_key f"
  "flit_key (f\<lparr>m_outport := p, m_vc := v\<rparr>) = flit_key f"
  by (simp_all add: flit_key_def increment_hops_def advance_stage_def stored_flit_def)

lemma vc_ops_buffer [simp]:
  "inputBuffer (vc_set_idle t v) = inputBuffer v" "inputBuffer (vc_set_active t v) = inputBuffer v"
  "inputBuffer (vc_set_outvc k v) = inputBuffer v" "inputBuffer (vc_set_outport k v) = inputBuffer v"
  "inputBuffer (vc_insertFlit f v) = fb_insert f (inputBuffer v)"
  by (simp_all add: vc_set_idle_def vc_set_active_def vc_set_outvc_def vc_set_outport_def vc_insertFlit_def)

subsection \<open>The units\<close>

lemma iu_update_vc_keys:
  assumes "iu_update_vc vc g u = Some u'"
  shows "vc_keys u' + keys (inputBuffer (virtualChannels u ! vc))
    = vc_keys u + keys (inputBuffer (g (virtualChannels u ! vc)))"
  using assms sum_list_upd [of vc "virtualChannels u" "\<lambda>v. keys (inputBuffer v)"]
  by (auto simp: iu_update_vc_def vc_keys_def bind_eq_Some_conv)

lemma input_ops_keys:
  "set_vc_idle vc t u = Some u' \<Longrightarrow> vc_keys u' = vc_keys u"
  "set_vc_active vc t u = Some u' \<Longrightarrow> vc_keys u' = vc_keys u"
  "grant_outport vc p u = Some u' \<Longrightarrow> vc_keys u' = vc_keys u"
  "grant_outvc vc k u = Some u' \<Longrightarrow> vc_keys u' = vc_keys u"
  by (auto simp: input_ops dest!: iu_update_vc_keys)

lemma iu_getTopFlit_keys:
  assumes "iu_getTopFlit vc u = Some (f, u')"
  shows "vc_keys u = add_mset (flit_key f) (vc_keys u')"
proof -
  from assms obtain v b where vc: "vc < length (virtualChannels u)" and v: "v = virtualChannels u ! vc"
    and b: "fb_getTopFlit (inputBuffer v) = Some (f, b)"
    and u': "u' = u\<lparr>virtualChannels := (virtualChannels u)[vc := v\<lparr>inputBuffer := b\<rparr>]\<rparr>"
    by (auto simp: iu_getTopFlit_def vc_getTopFlit_def bind_eq_Some_conv)
  have "vc_keys u' + keys (inputBuffer v) = vc_keys u + keys b"
    using sum_list_upd [OF vc, of "\<lambda>v. keys (inputBuffer v)" "v\<lparr>inputBuffer := b\<rparr>"] v
    by (simp add: vc_keys_def u')
  then show ?thesis by (simp add: keys_getTopFlit [OF b])
qed

lemma set_input_keys:
  assumes "getInputUnit i r = Some u"
  shows "router_keys (set_input i u' r) + vc_keys u = router_keys r + vc_keys u'"
proof -
  have i: "i < length (m_input_unit r)" "m_input_unit r ! i = u"
    using assms by (auto simp: getInputUnit_def)
  from sum_list_upd [OF i(1), of vc_keys u'] i(2) show ?thesis
    by (simp add: router_keys_def set_input_def ac_simps)
qed

lemma set_output_keys:
  assumes "getOutputUnit (int i) r = Some u"
  shows "router_keys (set_output i u' r) + keys (outBuffer u) = router_keys r + keys (outBuffer u')"
proof -
  have i: "i < length (m_output_unit r)" "m_output_unit r ! i = u"
    using assms by (auto simp: getOutputUnit_def)
  from sum_list_upd [OF i(1), of "\<lambda>u. keys (outBuffer u)" u'] i(2) show ?thesis
    by (simp add: router_keys_def set_output_def ac_simps)
qed

lemma set_unit_same_keys:
  "getInputUnit i r = Some u \<Longrightarrow> vc_keys u' = vc_keys u \<Longrightarrow> router_keys (set_input i u' r) = router_keys r"
  "getOutputUnit (int i) r = Some w \<Longrightarrow> keys (outBuffer w') = keys (outBuffer w)
     \<Longrightarrow> router_keys (set_output i w' r) = router_keys r"
  using set_input_keys [of i r u u'] set_output_keys [of i r w w'] by auto

lemma router_keys_frame [simp]:
  "router_keys (r\<lparr>routingUnit := a\<rparr>) = router_keys r" "router_keys (r\<lparr>switchAllocator := b\<rparr>) = router_keys r"
  "router_keys (r\<lparr>r_consumer := c\<rparr>) = router_keys r"
  "router_keys (r\<lparr>routingUnit := a, r_rand_calls := n\<rparr>) = router_keys r"
  "router_keys (clear_request_vector r) = router_keys r"
  by (simp_all add: router_keys_def clear_request_vector_def)

lemma output_ops_buffer:
  "ou_update_vc vc g u = Some u' \<Longrightarrow> outBuffer u' = outBuffer u"
  "OutputUnit_decrement_credit vc u = Some u' \<Longrightarrow> outBuffer u' = outBuffer u"
  "OutputUnit_increment_credit vc u = Some u' \<Longrightarrow> outBuffer u' = outBuffer u"
  "set_vc_state st vc t u = Some u' \<Longrightarrow> outBuffer u' = outBuffer u"
  "select_free_vc t vnet u = Some (v, u') \<Longrightarrow> outBuffer u' = outBuffer u"
  by (auto simp: OutputUnit_decrement_credit_def OutputUnit_increment_credit_def set_vc_state_def
      select_free_vc_def ou_update_vc_def bind_eq_Some_conv split: option.splits)

lemma vc_keys_credit [simp]: "vc_keys (u\<lparr>creditQueue := q\<rparr>) = vc_keys u"
  by (simp add: vc_keys_def)

lemma set_switch_keys:
  assumes "i < length (switchBuffers (crossbarSwitch r))"
  shows "router_keys (r\<lparr>crossbarSwitch := (crossbarSwitch r)
       \<lparr>switchBuffers := (switchBuffers (crossbarSwitch r))[i := b'], m_crossbar_activity := n\<rparr>\<rparr>)
      + keys (switchBuffers (crossbarSwitch r) ! i) = router_keys r + keys b'"
  using sum_list_upd [OF assms, of keys b'] by (simp add: router_keys_def ac_simps)

lemma schedule_keys [simp]:
  "router_keys (rs_router (schedule_wakeup now d s)) = router_keys (rs_router s)"
  "router_keys (rs_router (fold (schedule_wakeup now) ds s)) = router_keys (rs_router s)"
proof -
  show *: "router_keys (rs_router (schedule_wakeup now d s)) = router_keys (rs_router s)" for d s
    by (simp add: schedule_wakeup_def Let_def)
  show "router_keys (rs_router (fold (schedule_wakeup now) ds s)) = router_keys (rs_router s)"
    by (induction ds arbitrary: s) (simp_all add: *)
qed

lemma accept_keys:
  assumes "getInputUnit i r = Some u" "m_input_unit r1 = m_input_unit r" "router_keys r1 = router_keys r"
    and "vc_keys u1 = vc_keys u" "iu_update_vc vc (vc_insertFlit f) u1 = Some u2"
  shows "router_keys (set_input i (u2\<lparr>m_local_buffer_writes := w, m_local_buffer_reads := x\<rparr>) r1)
    = add_mset (flit_key f) (router_keys r)"
proof -
  let ?u = "u2\<lparr>m_local_buffer_writes := w, m_local_buffer_reads := x\<rparr>"
  have "getInputUnit i r1 = Some u" using assms(1,2) by (simp add: getInputUnit_def)
  moreover have "vc_keys ?u = add_mset (flit_key f) (vc_keys u)"
    using iu_update_vc_keys [OF assms(5)] assms(4) by (simp add: vc_keys_def)
  ultimately show ?thesis
    using set_input_keys [of i r1 u ?u] assms(3) by simp
qed

lemma route_compute_keys:
  "route_compute cfg route i d r = Some (p, r') \<Longrightarrow> router_keys r' = router_keys r"
  by (auto simp: route_compute_def bind_eq_Some_conv)

lemma InputUnit_accept_keys:
  assumes "InputUnit_accept cfg now inport t_flit stored r = Some r'"
  shows "router_keys r' = add_mset (flit_key stored) (router_keys r)"
proof (cases "is_head t_flit")
  case True
  from assms obtain u where u: "getInputUnit inport r = Some u"
    by (auto simp: InputUnit_accept_def bind_eq_Some_conv)
  from assms True u obtain ua outport ra ub u2 w x where
    1: "set_vc_active (m_vc t_flit) now u = Some ua"
    "route_compute cfg (m_route t_flit) (iu_id u) (iu_direction u) r = Some (outport, ra)"
    "grant_outport (m_vc t_flit) outport ua = Some ub"
    "iu_update_vc (m_vc t_flit) (vc_insertFlit stored) ub = Some u2"
    "r' = set_input inport (u2\<lparr>m_local_buffer_writes := w, m_local_buffer_reads := x\<rparr>) ra"
    by (auto simp: InputUnit_accept_def bind_eq_Some_conv Let_def)
  show ?thesis
    unfolding 1(5) using accept_keys [OF u _ route_compute_keys [OF 1(2)] _ 1(4)]
      route_compute_shape [OF 1(2)] input_ops_keys(2) [OF 1(1)] input_ops_keys(3) [OF 1(3)] by simp
next
  case False
  from assms False obtain u u2 w x where
    1: "getInputUnit inport r = Some u" "iu_update_vc (m_vc t_flit) (vc_insertFlit stored) u = Some u2"
    "r' = set_input inport (u2\<lparr>m_local_buffer_writes := w, m_local_buffer_reads := x\<rparr>) r"
    by (auto simp: InputUnit_accept_def bind_eq_Some_conv Let_def)
  show ?thesis unfolding 1(3) by (rule accept_keys [OF 1(1) refl refl refl 1(2)])
qed

lemma link_keys_simps [simp]:
  "link_keys lk [] = {#}" "link_keys lk (l # ls) = keys (lk l) + link_keys lk ls"
  by (simp_all add: link_keys_def)

lemma link_keys_other: "l \<notin> set ls \<Longrightarrow> link_keys (lk(l := b)) ls = link_keys lk ls"
  by (induction ls) auto

lemma link_keys_upd:
  "distinct ls \<Longrightarrow> l \<in> set ls \<Longrightarrow> link_keys (lk(l := b)) ls + keys (lk l) = link_keys lk ls + keys b"
proof (induction ls)
  case Nil
  then show ?case by simp
next
  case (Cons x ls)
  show ?case
  proof (cases "x = l")
    case True
    then have "link_keys (lk(l := b)) ls = link_keys lk ls" using Cons.prems(1) by (intro link_keys_other) simp
    then show ?thesis unfolding True link_keys_simps by (simp add: add.commute add.left_commute)
  next
    case False
    then have "distinct ls" "l \<in> set ls" using Cons.prems by auto
    note ih = Cons.IH [OF this]
    show ?thesis unfolding link_keys_simps using False ih by (simp add: add.assoc fun_upd_other del: fun_upd_apply)
  qed
qed

lemma router_op_in_links: "router_op now s t \<Longrightarrow> in_links (rs_router t) = in_links (rs_router s)"
proof -
  assume "router_op now s t"
  then have "map input_shape (m_input_unit (rs_router t)) = map input_shape (m_input_unit (rs_router s))"
    by (simp add: router_op_def shape_def)
  then have "map (\<lambda>x. fst (snd (snd (snd x)))) (map input_shape (m_input_unit (rs_router t)))
      = map (\<lambda>x. fst (snd (snd (snd x)))) (map input_shape (m_input_unit (rs_router s)))" by simp
  then show ?thesis by (simp add: in_links_def input_shape_def o_def)
qed

definition credit_links :: "Router \<Rightarrow> link_id set" where
  "credit_links r = ou_credit_link ` set (m_output_unit r)"

lemma router_op_credit_links: "router_op now s t \<Longrightarrow> credit_links (rs_router t) = credit_links (rs_router s)"
proof -
  assume "router_op now s t"
  then have "map output_shape (m_output_unit (rs_router t)) = map output_shape (m_output_unit (rs_router s))"
    by (simp add: router_op_def shape_def)
  then have "set (map (\<lambda>x. fst (snd (snd (snd (snd x))))) (map output_shape (m_output_unit (rs_router t))))
      = set (map (\<lambda>x. fst (snd (snd (snd (snd x))))) (map output_shape (m_output_unit (rs_router s))))" by simp
  then show ?thesis by (simp add: credit_links_def output_shape_def image_image)
qed

text \<open>All flits at a router: on its input links, in its virtual channels, in the crossbar and in its output queues.\<close>

definition all_keys :: "link_store \<Rightarrow> Router \<Rightarrow> (nat \<times> nat) multiset" where
  "all_keys lk r = link_keys lk (in_links r) + router_keys r"

lemma InputUnit_wakeup_keys:
  assumes "InputUnit_wakeup cfg now inport (lk, s) = Some (lk', t)" "distinct (in_links (rs_router s))"
  shows "all_keys lk' (rs_router t) = all_keys lk (rs_router s)"
proof -
  note links = router_op_in_links [OF InputUnit_wakeup_op [OF assms(1)]]
  from assms(1) show ?thesis
  proof (cases rule: InputUnit_wakeup_cases)
    case idle
    then show ?thesis by simp
  next
    case (flit u f lb r1)
    have "m_in_link u \<in> set (in_links (rs_router s))"
      using flit(1) by (auto simp: getInputUnit_def in_links_def)
    then have "link_keys lk (in_links (rs_router s)) = add_mset (flit_key f) (link_keys lk' (in_links (rs_router s)))"
      using link_keys_upd [OF assms(2), of "m_in_link u" lk lb] keys_getTopFlit [OF flit(3)] flit(4) by simp
    moreover have "router_keys (rs_router t) = add_mset (flit_key f) (router_keys (rs_router s))"
      using InputUnit_accept_keys [OF flit(7)] flit(8) by simp
    ultimately show ?thesis by (simp add: all_keys_def links)
  qed
qed

lemma OutputUnit_wakeup_keys:
  assumes run: "OutputUnit_wakeup now outport (lk, s) = Some (lk', t)"
    and disj: "set (in_links (rs_router s)) \<inter> credit_links (rs_router s) = {}"
  shows "all_keys lk' (rs_router t) = all_keys lk (rs_router s)"
proof -
  note links = router_op_in_links [OF OutputUnit_wakeup_op [OF run]]
  from run obtain u where u: "getOutputUnit (int outport) (rs_router s) = Some u"
    by (auto simp: OutputUnit_wakeup_def bind_eq_Some_conv)
  have "ou_credit_link u \<notin> set (in_links (rs_router s))"
    using u disj by (auto simp: getOutputUnit_def credit_links_def)
  then have "link_keys lk' (in_links (rs_router s)) = link_keys lk (in_links (rs_router s))"
    using run u by (auto simp: OutputUnit_wakeup_def bind_eq_Some_conv Let_def link_keys_other split: if_splits)
  moreover have "router_keys (rs_router t) = router_keys (rs_router s)"
    using run u set_unit_same_keys(2) [OF u]
    by (auto simp: OutputUnit_wakeup_def bind_eq_Some_conv Let_def output_ops_buffer split: if_splits)
  ultimately show ?thesis by (simp add: all_keys_def links)
qed

subsection \<open>The allocator and the crossbar\<close>

lemma arbitrate_inport_keys:
  "arbitrate_inport cfg now inport n invc r = Some r' \<Longrightarrow> router_keys r' = router_keys r"
  by (induction cfg now inport n invc r arbitrary: r' rule: arbitrate_inport.induct)
    (auto simp: bind_eq_Some_conv Let_def split: if_splits)

lemma arbitrate_inports_keys:
  assumes "arbitrate_inports cfg now r = Some r'"
  shows "router_keys r' = router_keys r"
  using assms unfolding arbitrate_inports_def for_range_def
  by (rule for_list_invariant [where P = "\<lambda>x. router_keys x = router_keys r"])
    (auto simp: bind_eq_Some_conv dest: arbitrate_inport_keys)

lemma vc_allocate_keys:
  assumes "vc_allocate now outport inport invc r = Some (v, r')"
  shows "router_keys r' = router_keys r"
proof -
  from assms obtain vnet o1 o2 u u1 where
    o: "getOutputUnit (int outport) r = Some o1" "select_free_vc now vnet o1 = Some (v, o2)"
    and u: "getInputUnit inport (set_output outport o2 r) = Some u" "grant_outvc invc v u = Some u1"
    and r': "r' = set_input inport u1 (set_output outport o2 r)"
    by (auto simp: vc_allocate_def bind_eq_Some_conv Let_def)
  show ?thesis
    unfolding r' using set_unit_same_keys(1) [OF u(1) input_ops_keys(4) [OF u(2)]]
      set_unit_same_keys(2) [OF o(1), of o2] output_ops_buffer(5) [OF o(2)] by simp
qed

lemma sa_outvc_keys:
  "sa_outvc now outport inport r = Some (invc, outvc, r1) \<Longrightarrow> router_keys r1 = router_keys r"
  by (auto simp: sa_outvc_def Let_def bind_eq_Some_conv split: if_splits dest: vc_allocate_keys)

lemma grant_switch_keys:
  assumes "grant_switch i f r = Some r'"
  shows "router_keys r' = add_mset (flit_key f) (router_keys r)"
proof -
  let ?bs = "switchBuffers (crossbarSwitch r)"
  from assms have i: "i < length ?bs"
    and r': "r' = r\<lparr>crossbarSwitch := (crossbarSwitch r)\<lparr>switchBuffers := ?bs[i := fb_insert f (?bs ! i)]\<rparr>\<rparr>"
    by (auto simp: grant_switch_def bind_eq_Some_conv)
  from sum_list_upd [OF i, of keys "fb_insert f (?bs ! i)"]
  have "sum_list (map keys (?bs[i := fb_insert f (?bs ! i)])) = add_mset (flit_key f) (sum_list (map keys ?bs))"
    by simp
  then show ?thesis by (simp add: r' router_keys_def)
qed

lemma sa_move_keys:
  assumes "sa_move now outport inport invc outvc r1 = Some (f, r2)"
  shows "router_keys r2 = router_keys r1"
proof -
  from assms obtain u1 g u2 ou ou1 r4 sa where
    u1: "getInputUnit inport r1 = Some u1" and u2: "iu_getTopFlit invc u1 = Some (g, u2)"
    and ou: "getOutputUnit (int outport) (set_input inport u2 r1) = Some ou"
    and ou1: "OutputUnit_decrement_credit outvc ou = Some ou1"
    and r4: "grant_switch inport f (set_output outport ou1 (set_input inport u2 r1)) = Some r4"
    and r2: "r2 = r4\<lparr>switchAllocator := sa\<rparr>" and f: "flit_key f = flit_key g"
    by (auto simp: sa_move_def Let_def bind_eq_Some_conv)
  have "router_keys (set_input inport u2 r1) + vc_keys u1 = router_keys r1 + vc_keys u2"
    by (rule set_input_keys [OF u1])
  then have "add_mset (flit_key g) (router_keys (set_input inport u2 r1)) = router_keys r1"
    by (simp add: iu_getTopFlit_keys [OF u2])
  moreover have "router_keys (set_output outport ou1 (set_input inport u2 r1)) = router_keys (set_input inport u2 r1)"
    using set_unit_same_keys(2) [OF ou, of ou1] output_ops_buffer(2) [OF ou1] by simp
  ultimately show ?thesis using grant_switch_keys [OF r4] f by (simp add: r2)
qed

lemma increment_credit_keys:
  "InputUnit_increment_credit now inport vc b t s = Some s' \<Longrightarrow> router_keys (rs_router s') = router_keys (rs_router s)"
  by (auto simp: InputUnit_increment_credit_def bind_eq_Some_conv intro!: set_unit_same_keys)

lemma sa_credit_keys:
  assumes "sa_credit now inport invc f s = Some t"
  shows "router_keys (rs_router t) = router_keys (rs_router s)"
proof -
  have goal: "router_keys (rs_router t) = router_keys (rs_router s)"
    if "getInputUnit inport (rs_router s) = Some u3" "set_vc_idle invc now u3 = Some u4"
      "InputUnit_increment_credit now inport invc True now (s\<lparr>rs_router := set_input inport u4 (rs_router s)\<rparr>) = Some t"
    for u3 u4
    using increment_credit_keys [OF that(3)] set_unit_same_keys(1) [OF that(1) input_ops_keys(1) [OF that(2)]] by simp
  from assms show ?thesis
    by (auto simp: sa_credit_def bind_eq_Some_conv split: if_splits dest: goal increment_credit_keys)
qed

lemma sa_grant_keys:
  assumes "sa_grant now outport inport s = Some t"
  shows "router_keys (rs_router t) = router_keys (rs_router s)"
  using assms
  by (auto simp: sa_grant_def sa_rotate_def Let_def bind_eq_Some_conv
      dest!: sa_outvc_keys sa_move_keys sa_credit_keys)

lemma arbitrate_outport_keys:
  "arbitrate_outport now outport n inport s = Some t \<Longrightarrow> router_keys (rs_router t) = router_keys (rs_router s)"
  by (induction now outport n inport s rule: arbitrate_outport.induct)
    (auto simp: bind_eq_Some_conv dest: sa_grant_keys split: if_splits)

lemma SwitchAllocator_wakeup_keys:
  assumes "SwitchAllocator_wakeup cfg now s = Some t"
  shows "router_keys (rs_router t) = router_keys (rs_router s)"
proof -
  have out: "router_keys (rs_router t) = router_keys (rs_router s)" if "arbitrate_outports now s = Some t" for s t
    using that unfolding arbitrate_outports_def for_range_def
    by (rule for_list_invariant [where P = "\<lambda>x. router_keys (rs_router x) = router_keys (rs_router s)"])
      (auto simp: bind_eq_Some_conv dest: arbitrate_outport_keys)
  from assms show ?thesis
    by (auto simp: SwitchAllocator_wakeup_def check_for_wakeup_def Let_def bind_eq_Some_conv
        split: if_splits dest!: out arbitrate_inports_keys)
qed

lemma crossbar_port_keys:
  assumes "crossbar_port now i s = Some t"
  shows "router_keys (rs_router t) = router_keys (rs_router s)"
proof (cases "t = s")
  case True
  then show ?thesis by simp
next
  case False
  let ?bs = "switchBuffers (crossbarSwitch (rs_router s))"
  from False assms obtain f p b' s1 g n where
    i: "i < length ?bs" and f: "fb_peekTopFlit (?bs ! i) = Some f"
    and s1: "OutputUnit_insert_flit now p g s = Some s1" "flit_key g = flit_key f"
    and b': "\<exists>h. fb_getTopFlit (?bs ! i) = Some (h, b')"
    and t: "t = s1\<lparr>rs_router := (rs_router s1)\<lparr>crossbarSwitch := (crossbarSwitch (rs_router s1))
       \<lparr>switchBuffers := (switchBuffers (crossbarSwitch (rs_router s1)))[i := b'], m_crossbar_activity := n\<rparr>\<rparr>\<rparr>"
    by (auto simp: crossbar_port_def Let_def bind_eq_Some_conv split: if_splits)
  from s1(1) obtain u where u: "getOutputUnit (int p) (rs_router s) = Some u"
    and r1: "rs_router s1 = set_output p (u\<lparr>outBuffer := fb_insert g (outBuffer u)\<rparr>) (rs_router s)"
    by (auto simp: OutputUnit_insert_flit_def bind_eq_Some_conv)
  have "router_keys (rs_router s1) = add_mset (flit_key f) (router_keys (rs_router s))"
    using set_output_keys [OF u, of "u\<lparr>outBuffer := fb_insert g (outBuffer u)\<rparr>"] s1(2) by (simp add: r1)
  moreover have sw: "crossbarSwitch (rs_router s1) = crossbarSwitch (rs_router s)"
    by (simp add: r1 set_output_def)
  moreover have "keys (?bs ! i) = add_mset (flit_key f) (keys b')"
    using b' f keys_getTopFlit flit_fifo.peek_eq by fastforce
  ultimately show ?thesis
    using set_switch_keys [where i = i and r = "rs_router s1" and b' = b' and n = n] i by (simp add: t)
qed

lemma CrossbarSwitch_wakeup_keys:
  assumes "CrossbarSwitch_wakeup now s = Some t"
  shows "router_keys (rs_router t) = router_keys (rs_router s)"
  using assms unfolding CrossbarSwitch_wakeup_def for_range_def
  by (rule for_list_invariant [where P = "\<lambda>x. router_keys (rs_router x) = router_keys (rs_router s)"])
    (auto dest: crossbar_port_keys)

subsection \<open>At most one grant per port\<close>

definition switch_load :: "Router \<Rightarrow> nat \<Rightarrow> nat" where
  "switch_load r i = length (m_buffer (switchBuffers (crossbarSwitch r) ! i))"

definition port_credits :: "Router \<Rightarrow> nat \<Rightarrow> int" where
  "port_credits r p = sum_list (map m_credit_count (outVcState (m_output_unit r ! p)))"

text \<open>What the grant of one output port to one input port changes.\<close>

definition granted :: "nat \<Rightarrow> nat \<Rightarrow> Router \<Rightarrow> Router \<Rightarrow> bool" where
  "granted p i r r' \<longleftrightarrow>
     switch_load r' i = switch_load r i + 1 \<and> (\<forall>j. j \<noteq> i \<longrightarrow> switch_load r' j = switch_load r j)
     \<and> port_credits r' p = port_credits r p - 1 \<and> (\<forall>q. q \<noteq> p \<longrightarrow> port_credits r' q = port_credits r q)
     \<and> m_port_requests (switchAllocator r') = (m_port_requests (switchAllocator r))[i := -1]
     \<and> i < length (m_port_requests (switchAllocator r))
     \<and> m_round_robin_inport (switchAllocator r')
         = (m_round_robin_inport (switchAllocator r))[p := rr_next (m_num_inports (switchAllocator r)) i]
     \<and> m_num_inports (switchAllocator r') = m_num_inports (switchAllocator r)
     \<and> m_num_outports (switchAllocator r') = m_num_outports (switchAllocator r)"

lemma ports_frame [simp]:
  "switch_load (set_input i u r) = switch_load r" "switch_load (set_output i w r) = switch_load r"
  "switch_load (r\<lparr>switchAllocator := sa\<rparr>) = switch_load r"
  "port_credits (set_input i u r) = port_credits r" "port_credits (r\<lparr>switchAllocator := sa\<rparr>) = port_credits r"
  "port_credits (r\<lparr>crossbarSwitch := x\<rparr>) = port_credits r"
  "switchAllocator (set_input i u r) = switchAllocator r" "switchAllocator (set_output i w r) = switchAllocator r"
  "m_output_unit (set_input i u r) = m_output_unit r" "m_input_unit (set_output i w r) = m_input_unit r"
  by (auto simp: set_input_def set_output_def switch_load_def port_credits_def)

lemma port_credits_set_output:
  "getOutputUnit (int p) r = Some w \<Longrightarrow>
     port_credits (set_output p w' r) q
       = (if q = p then sum_list (map m_credit_count (outVcState w')) else port_credits r q)"
  by (auto simp: port_credits_def set_output_def getOutputUnit_def)

lemma ou_update_credits:
  assumes "ou_update_vc vc g u = Some u'" "\<And>v v'. g v = Some v' \<Longrightarrow> m_credit_count v' = m_credit_count v + k"
  shows "sum_list (map m_credit_count (outVcState u')) = sum_list (map m_credit_count (outVcState u)) + k"
proof -
  from assms(1) obtain v' where vc: "nat vc < length (outVcState u)"
    and g: "g (outVcState u ! nat vc) = Some v'" and u': "u' = u\<lparr>outVcState := (outVcState u)[nat vc := v']\<rparr>"
    by (auto simp: ou_update_vc_def bind_eq_Some_conv)
  from sum_list_upd [OF vc, of m_credit_count v'] assms(2) [OF g] show ?thesis by (simp add: u')
qed

lemma output_ops_credits:
  "OutputUnit_decrement_credit vc u = Some u' \<Longrightarrow>
     sum_list (map m_credit_count (outVcState u')) = sum_list (map m_credit_count (outVcState u)) - 1"
  "set_vc_state st vc t u = Some u' \<Longrightarrow>
     sum_list (map m_credit_count (outVcState u')) = sum_list (map m_credit_count (outVcState u))"
  using ou_update_credits [of vc ovc_decrement_credit u u' "-1"]
    ou_update_credits [of vc "\<lambda>v. Some (ovc_setState st t v)" u u' 0]
  by (auto simp: OutputUnit_decrement_credit_def set_vc_state_def ovc_decrement_credit_def ovc_setState_def
      Let_def bind_eq_Some_conv)

lemma select_free_vc_credits:
  "select_free_vc t vnet u = Some (v, u') \<Longrightarrow>
     sum_list (map m_credit_count (outVcState u')) = sum_list (map m_credit_count (outVcState u))"
  by (auto simp: select_free_vc_def bind_eq_Some_conv split: option.splits dest: output_ops_credits(2))

lemma sa_outvc_ports:
  assumes "sa_outvc now p i r = Some (invc, outvc, r1)"
  shows "switch_load r1 = switch_load r \<and> port_credits r1 = port_credits r
    \<and> switchAllocator r1 = switchAllocator r"
proof -
  have alloc: "switch_load r' = switch_load r \<and> port_credits r' = port_credits r
      \<and> switchAllocator r' = switchAllocator r" if a: "vc_allocate now p i vc r = Some (v, r')" for vc v r'
  proof -
    from a obtain vnet o1 o2 u1 where
      o: "getOutputUnit (int p) r = Some o1" "select_free_vc now vnet o1 = Some (v, o2)"
      and r': "r' = set_input i u1 (set_output p o2 r)"
      by (auto simp: vc_allocate_def bind_eq_Some_conv Let_def)
    have "port_credits r p = sum_list (map m_credit_count (outVcState o1))"
      using o(1) by (auto simp: port_credits_def getOutputUnit_def)
    then have "port_credits (set_output p o2 r) = port_credits r"
      using port_credits_set_output [OF o(1)] select_free_vc_credits [OF o(2)] by fastforce
    then show ?thesis by (simp add: r')
  qed
  from assms show ?thesis
    by (auto simp: sa_outvc_def Let_def bind_eq_Some_conv split: if_splits dest: alloc)
qed

lemma grant_switch_load:
  assumes "grant_switch i f r = Some r'"
  shows "switch_load r' i = switch_load r i + 1" "j \<noteq> i \<Longrightarrow> switch_load r' j = switch_load r j"
    "port_credits r' = port_credits r" "switchAllocator r' = switchAllocator r"
  using assms by (auto simp: grant_switch_def bind_eq_Some_conv switch_load_def)

lemma sa_move_ports:
  assumes "sa_move now p i invc outvc r1 = Some (f, r2)"
  shows "switch_load r2 i = switch_load r1 i + 1" "j \<noteq> i \<Longrightarrow> switch_load r2 j = switch_load r1 j"
    "port_credits r2 p = port_credits r1 p - 1" "q \<noteq> p \<Longrightarrow> port_credits r2 q = port_credits r1 q"
    "\<exists>n. switchAllocator r2 = (switchAllocator r1)\<lparr>m_output_arbiter_activity := n\<rparr>"
proof -
  from assms obtain u2 ou ou1 r4 n where
    ou: "getOutputUnit (int p) (set_input i u2 r1) = Some ou"
    and ou1: "OutputUnit_decrement_credit outvc ou = Some ou1"
    and r4: "grant_switch i f (set_output p ou1 (set_input i u2 r1)) = Some r4"
    and r2: "r2 = r4\<lparr>switchAllocator := (switchAllocator r4)\<lparr>m_output_arbiter_activity := n\<rparr>\<rparr>"
    by (auto simp: sa_move_def Let_def bind_eq_Some_conv)
  note g = grant_switch_load [OF r4]
  have "port_credits r1 p = sum_list (map m_credit_count (outVcState ou))"
    using ou by (auto simp: port_credits_def getOutputUnit_def)
  then show "switch_load r2 i = switch_load r1 i + 1" "j \<noteq> i \<Longrightarrow> switch_load r2 j = switch_load r1 j"
    "port_credits r2 p = port_credits r1 p - 1" "q \<noteq> p \<Longrightarrow> port_credits r2 q = port_credits r1 q"
    "\<exists>n. switchAllocator r2 = (switchAllocator r1)\<lparr>m_output_arbiter_activity := n\<rparr>"
    using g port_credits_set_output [OF ou, of ou1] output_ops_credits(1) [OF ou1] by (auto simp: r2)
qed

lemma sa_credit_ports:
  assumes "sa_credit now i invc f s = Some t"
  shows "switch_load (rs_router t) = switch_load (rs_router s)"
    "port_credits (rs_router t) = port_credits (rs_router s)"
    "switchAllocator (rs_router t) = switchAllocator (rs_router s)"
  using assms
  by (auto simp: sa_credit_def InputUnit_increment_credit_def bind_eq_Some_conv Let_def split: if_splits)

lemma sa_grant_granted:
  assumes "sa_grant now p i s = Some t"
  shows "granted p i (rs_router s) (rs_router t)"
proof -
  from assms obtain invc outvc r1 f r2 s3 r4 where
    1: "sa_outvc now p i (rs_router s) = Some (invc, outvc, r1)"
    and 2: "sa_move now p i invc outvc r1 = Some (f, r2)"
    and 3: "sa_credit now i invc f (s\<lparr>rs_router := r2\<rparr>) = Some s3"
    and 4: "sa_rotate p i invc (rs_router s3) = Some r4" "t = s3\<lparr>rs_router := r4\<rparr>"
    by (auto simp: sa_grant_def bind_eq_Some_conv)
  from 4(1) have rot: "switch_load r4 = switch_load (rs_router s3)" "port_credits r4 = port_credits (rs_router s3)"
    "m_port_requests (switchAllocator r4) = (m_port_requests (switchAllocator (rs_router s3)))[i := -1]"
    "i < length (m_port_requests (switchAllocator (rs_router s3)))"
    "m_round_robin_inport (switchAllocator r4) = (m_round_robin_inport (switchAllocator (rs_router s3)))
       [p := rr_next (m_num_inports (switchAllocator (rs_router s3))) i]"
    "m_num_inports (switchAllocator r4) = m_num_inports (switchAllocator (rs_router s3))"
    "m_num_outports (switchAllocator r4) = m_num_outports (switchAllocator (rs_router s3))"
    by (auto simp: sa_rotate_def Let_def bind_eq_Some_conv)
  show ?thesis
    unfolding granted_def
    using sa_outvc_ports [OF 1] sa_move_ports [OF 2] sa_credit_ports [OF 3] rot by (auto simp: 4(2))
qed

lemma arbitrate_outport_granted:
  "arbitrate_outport now p n i s = Some t \<Longrightarrow>
     rs_router t = rs_router s
     \<or> (\<exists>j. m_port_requests (switchAllocator (rs_router s)) ! j = int p \<and> granted p j (rs_router s) (rs_router t))"
  by (induction now p n i s rule: arbitrate_outport.induct)
    (auto simp: bind_eq_Some_conv dest: sa_grant_granted split: if_splits)

text \<open>After the output ports below \<open>k\<close>: who was served, and by which port.\<close>

definition served :: "Router \<Rightarrow> nat \<Rightarrow> Router \<Rightarrow> bool" where
  "served r0 k r \<longleftrightarrow>
     (\<forall>i. switch_load r i = switch_load r0 i
            \<and> m_port_requests (switchAllocator r) ! i = m_port_requests (switchAllocator r0) ! i
          \<or> switch_load r i = switch_load r0 i + 1 \<and> m_port_requests (switchAllocator r) ! i = -1
            \<and> (\<exists>p<k. m_port_requests (switchAllocator r0) ! i = int p \<and> port_credits r p = port_credits r0 p - 1))
     \<and> (\<forall>p<k. port_credits r p = port_credits r0 p \<or> port_credits r p = port_credits r0 p - 1)
     \<and> (\<forall>p\<ge>k. port_credits r p = port_credits r0 p)"

lemma served_step:
  assumes "served r0 k r" "granted k j r r'" "m_port_requests (switchAllocator r) ! j = int k"
  shows "served r0 (Suc k) r'"
proof -
  let ?req = "\<lambda>r i. m_port_requests (switchAllocator r) ! i"
  have g: "switch_load r' j = switch_load r j + 1" "\<And>i. i \<noteq> j \<Longrightarrow> switch_load r' i = switch_load r i"
    "port_credits r' k = port_credits r k - 1" "\<And>q. q \<noteq> k \<Longrightarrow> port_credits r' q = port_credits r q"
    "?req r' j = -1" "\<And>i. i \<noteq> j \<Longrightarrow> ?req r' i = ?req r i"
    using assms(2) by (auto simp: granted_def)
  have j: "switch_load r j = switch_load r0 j" "?req r0 j = int k"
    using spec [OF conjunct1 [OF assms(1) [unfolded served_def]], of j] assms(3) by auto
  have k: "port_credits r' k = port_credits r0 k - 1"
    using assms(1) g(3) by (simp add: served_def)
  have "switch_load r' i = switch_load r0 i \<and> ?req r' i = ?req r0 i
      \<or> switch_load r' i = switch_load r0 i + 1 \<and> ?req r' i = -1
        \<and> (\<exists>p<Suc k. ?req r0 i = int p \<and> port_credits r' p = port_credits r0 p - 1)" for i
  proof (cases "i = j")
    case True
    then show ?thesis using g(1,5) j k by auto
  next
    case False
    from spec [OF conjunct1 [OF assms(1) [unfolded served_def]], of i] show ?thesis
    proof (elim disjE conjE exE)
      fix p
      assume "p < k" "?req r0 i = int p" "port_credits r p = port_credits r0 p - 1"
        "switch_load r i = switch_load r0 i + 1" "?req r i = -1"
      then show ?thesis
        using g(2,6) [OF False] g(4) [of p] by (intro disjI2 conjI exI [of _ p]) auto
    qed (use g(2,6) [OF False] in simp)
  qed
  moreover have "port_credits r' p = port_credits r0 p \<or> port_credits r' p = port_credits r0 p - 1"
    if "p < Suc k" for p
    using that assms(1) g(4) k by (cases "p = k") (auto simp: served_def)
  moreover have "port_credits r' p = port_credits r0 p" if "Suc k \<le> p" for p
    using that assms(1) g(4) [of p] by (simp add: served_def)
  ultimately show ?thesis unfolding served_def by blast
qed

lemma served_mono:
  assumes "served r0 k r"
  shows "served r0 (Suc k) r"
  unfolding served_def
proof (intro conjI allI impI)
  fix i
  show "switch_load r i = switch_load r0 i
        \<and> m_port_requests (switchAllocator r) ! i = m_port_requests (switchAllocator r0) ! i
      \<or> switch_load r i = switch_load r0 i + 1 \<and> m_port_requests (switchAllocator r) ! i = -1
        \<and> (\<exists>p<Suc k. m_port_requests (switchAllocator r0) ! i = int p \<and> port_credits r p = port_credits r0 p - 1)"
    using spec [OF conjunct1 [OF assms [unfolded served_def]], of i] less_SucI by auto
next
  fix p
  assume "p < Suc k"
  then show "port_credits r p = port_credits r0 p \<or> port_credits r p = port_credits r0 p - 1"
    using assms by (cases "p = k") (auto simp: served_def)
next
  fix p
  assume "Suc k \<le> p"
  then show "port_credits r p = port_credits r0 p" using assms by (simp add: served_def)
qed

lemma arbitrate_outports_served:
  assumes "arbitrate_outports now s = Some t"
  shows "served (rs_router s) (m_num_outports (switchAllocator (rs_router s))) (rs_router t)"
  using assms unfolding arbitrate_outports_def
proof (rule for_range_invariant [where P = "\<lambda>k x. served (rs_router s) k (rs_router x)"])
  show "served (rs_router s) 0 (rs_router s)" by (simp add: served_def)
next
  fix k x y
  assume x: "served (rs_router s) k (rs_router x)"
    and "Option.bind (at (m_round_robin_inport (switchAllocator (rs_router x))) k)
       (\<lambda>inport. arbitrate_outport now k (m_num_inports (switchAllocator (rs_router x))) inport x) = Some y"
  then obtain i where "arbitrate_outport now k (m_num_inports (switchAllocator (rs_router x))) i x = Some y"
    by (auto simp: bind_eq_Some_conv)
  from arbitrate_outport_granted [OF this] show "served (rs_router s) (Suc k) (rs_router y)"
    using served_mono [OF x] served_step [OF x] by auto
qed

subsection \<open>Properties\<close>

text \<open>C4. A router neither loses nor duplicates flits: when a wakeup completes, the flits on the input
  links, in the virtual channels, in the crossbar and in the output queues together are the same as
  before, by packet number and flit number.\<close>
theorem Router_wakeup_conserves_flits:
  assumes run: "Router_wakeup cfg now lk s = Some (lk', t)" and dist: "distinct (in_links (rs_router s))"
    and disj: "set (in_links (rs_router s)) \<inter> credit_links (rs_router s) = {}"
  shows "all_keys lk' (rs_router t) = all_keys lk (rs_router s)"
proof -
  from run obtain lk1 s1 s2 s3 where
    1: "for_list (InputUnit_wakeup cfg now) [0..<length (m_input_unit (rs_router s))] (lk, s) = Some (lk1, s1)"
    and 2: "for_list (OutputUnit_wakeup now) [0..<length (m_output_unit (rs_router s1))] (lk1, s1) = Some (lk', s2)"
    and 3: "SwitchAllocator_wakeup cfg now s2 = Some s3" and 4: "CrossbarSwitch_wakeup now s3 = Some t"
    by (auto simp: Router_wakeup_def for_range_def bind_eq_Some_conv)
  let ?P = "\<lambda>p. all_keys (fst p) (rs_router (snd p)) = all_keys lk (rs_router s) \<and> router_op now s (snd p)"
  have "?P (lk1, s1)"
  proof (rule for_list_invariant [OF 1])
    fix i p q
    assume p: "?P p" and step: "InputUnit_wakeup cfg now i p = Some q"
    obtain l x l' y where [simp]: "p = (l, x)" "q = (l', y)" by (metis surj_pair)
    have "distinct (in_links (rs_router x))"
      using dist router_op_in_links [of now s x] p by simp
    with p step show "?P q"
      using InputUnit_wakeup_keys [of cfg now i l x l' y] InputUnit_wakeup_op [of cfg now i l x l' y]
        router_op_trans [of now s x y] by simp
  qed simp
  then have "?P (lk', s2)"
  proof (intro for_list_invariant [OF 2, of ?P])
    fix i p q
    assume p: "?P p" and step: "OutputUnit_wakeup now i p = Some q"
    obtain l x l' y where [simp]: "p = (l, x)" "q = (l', y)" by (metis surj_pair)
    have "set (in_links (rs_router x)) \<inter> credit_links (rs_router x) = {}"
      using disj router_op_in_links [of now s x] router_op_credit_links [of now s x] p by simp
    with p step show "?P q"
      using OutputUnit_wakeup_keys [of now i l x l' y] OutputUnit_wakeup_op [of now i l x l' y]
        router_op_trans [of now s x y] by simp
  qed
  moreover have "all_keys lk' (rs_router t) = all_keys lk' (rs_router s2)"
    using SwitchAllocator_wakeup_keys [OF 3] CrossbarSwitch_wakeup_keys [OF 4]
      router_op_in_links [OF SwitchAllocator_wakeup_op [OF 3]] router_op_in_links [OF CrossbarSwitch_wakeup_op [OF 4]]
    by (simp add: all_keys_def)
  ultimately show ?thesis by simp
qed

definition ex_router :: Router where
  "ex_router = the (do {
     r1 \<leftarrow> Router_addInPort ''Local'' 16 0 1 (Router_new 0 500 1 1 1 16 (\<lambda>_. 0));
     r2 \<leftarrow> Router_addOutPort ex_config ''East'' 16 2 [ex_dest 1 0] 1 3 1 r1;
     Some (Router_init r2) })"

definition ex_flit :: flit where
  "ex_flit = flit_new 7 0 0 0 (RouteInfo_new\<lparr>rt_net_dest := ex_dest 1 0, dest_router := 1\<rparr>) 1 None 8 16 500"

definition ex_links :: link_store where
  "ex_links = (\<lambda>_. flitBuffer_new)(0 := fb_insert ex_flit flitBuffer_new)"

text \<open>The example is evaluated by unfolding: first the construction of the router, then one wakeup.\<close>

lemmas router_build = Router_addInPort_def Router_addOutPort_def Router_new_def Let_def
  InputUnit_new_def OutputUnit_new_def OutVcState_new_def Router_init_def check_def at_def put_def
  SwitchAllocator_new_def SwitchAllocator_init_def CrossbarSwitch_new_def CrossbarSwitch_init_def
  addInDirection_def addOutDirection_def addWeight_def addRoute_def RoutingUnit_new_def
  Consumer_new_def VirtualChannel_new_def flitBuffer_new_def INFINITE_def

lemmas unit_eval = for_range_def router_edge_def clock_edge_def divCeil_def getInputUnit_def getOutputUnit_def
  set_input_def set_output_def input_ops iu_update_vc_def iu_get_outport_def iu_get_outvc_def
  iu_get_enqueue_time_def iu_getTopFlit_def iu_need_stage_def iu_isReady_def
  OutputUnit_decrement_credit_def OutputUnit_increment_credit_def set_vc_state_def is_vc_idle_def
  OutputUnit_has_credit_def vnet_vcs_def has_free_vc_def select_free_vc_def ou_update_vc_def
  ovc_decrement_credit_def ovc_increment_credit_def ovc_isInState_def ovc_setState_def ovc_has_credit_def
  vc_set_idle_def vc_set_active_def vc_set_outvc_def vc_set_outport_def vc_isReady_def vc_insertFlit_def
  vc_getTopFlit_def vc_need_stage_def fb_isReady_def fb_peekTopFlit_def fb_getTopFlit_def fb_insert_def
  stored_flit_def advance_stage_def increment_hops_def is_stage_def is_head_def is_tail_def

lemmas router_eval = Router_wakeup_def InputUnit_wakeup_def OutputUnit_wakeup_def InputUnit_accept_def
  SwitchAllocator_wakeup_def arbitrate_inports_def arbitrate_outports_def check_for_wakeup_def
  clear_request_vector_def sa_grant_def sa_outvc_def sa_move_def sa_credit_def sa_rotate_def
  vc_allocate_def sa_get_vnet_def send_allowed_def sa_order_ok_def CrossbarSwitch_wakeup_def
  crossbar_port_def OutputUnit_insert_flit_def InputUnit_increment_credit_def schedule_wakeup_def
  route_compute_def outportCompute_def grant_switch_def rr_next_def alreadyScheduled_def isVNetOrdered_def

lemma ex_config_simps:
  "m_routing_algorithm ex_config = 0" "m_vnet_type ex_config = [CTRL_VNET]"
  "m_buffers_per_ctrl_vc ex_config = 1" "m_buffers_per_data_vc ex_config = 4" "m_ordered ex_config = [True]"
  by (simp_all add: ex_config_def)

lemma ex_lookup:
  "lookupRoutingTable ex_config n 0 (ex_dest 1 0) \<lparr>m_routing_table = [[ex_dest 1 0]], m_weight_table = [1],
     m_inports_dirn2idx = a, m_inports_idx2dirn = b, m_outports_idx2dirn = c, m_outports_dirn2idx = d\<rparr> = Some 0"
proof -
  have "NetDest_intersectionIsNotEmpty (ex_dest 1 0) (ex_dest 1 0) = Some True"
    by (simp add: NetDest_intersectionIsNotEmpty_def ex_dest_def check_def Set_intersectionIsEmpty_def)
  then show ?thesis
    by (simp add: lookupRoutingTable_def at_def min_weight_loop_def candidates_loop_def for_range_def
        isVNetOrdered_def ex_config_simps INFINITE_def)
qed

lemma ex_wakeup:
  "\<exists>lk' t. Router_wakeup ex_config 500 ex_links \<lparr>rs_router = ex_router, rs_acts = []\<rparr> = Some (lk', t)
     \<and> length (m_buffer (outBuffer (m_output_unit (rs_router t) ! 0))) = 1"
  by (simp add: ex_router_def router_build ex_links_def ex_flit_def flit_new_def RouteInfo_new_def ex_config_simps)
    (simp add: router_eval unit_eval router_build ex_config_simps ex_lookup)

lemma ex_router_ports:
  "in_links ex_router = [0]" "credit_links ex_router = {3}" "router_keys ex_router = {#}"
  by (simp_all add: in_links_def credit_links_def router_keys_def vc_keys_def ex_router_def router_build
      ex_config_simps keys_def)

theorem Router_wakeup_conserves_flits_witness:
  "\<exists>lk' t. Router_wakeup ex_config 500 ex_links \<lparr>rs_router = ex_router, rs_acts = []\<rparr> = Some (lk', t)
     \<and> all_keys lk' (rs_router t) = {#(7, 0)#}"
proof -
  from ex_wakeup obtain lk' t where
    run: "Router_wakeup ex_config 500 ex_links \<lparr>rs_router = ex_router, rs_acts = []\<rparr> = Some (lk', t)" by blast
  have "all_keys lk' (rs_router t) = all_keys ex_links ex_router"
    using Router_wakeup_conserves_flits [OF run] by (simp add: ex_router_ports)
  also have "\<dots> = {#(7, 0)#}"
    by (simp add: all_keys_def ex_router_ports ex_links_def keys_def flitBuffer_new_def fb_insert_def
        flit_key_def ex_flit_def flit_new_def)
  finally show ?thesis using run by blast
qed

text \<open>C7. Switch allocation serves every port at most once: in one arbitration of the output ports every
  input port sends at most one flit into the crossbar, only on a request it made, and every output
  port takes at most one credit, the one of the flit it was granted to.\<close>
theorem switch_allocation_single_grant:
  assumes "arbitrate_outports now s = Some t"
  shows "(\<forall>i. switch_load (rs_router t) i = switch_load (rs_router s) i
       \<or> switch_load (rs_router t) i = switch_load (rs_router s) i + 1
         \<and> (\<exists>p<m_num_outports (switchAllocator (rs_router s)).
              m_port_requests (switchAllocator (rs_router s)) ! i = int p
              \<and> port_credits (rs_router t) p = port_credits (rs_router s) p - 1))
    \<and> (\<forall>p. port_credits (rs_router t) p = port_credits (rs_router s) p
         \<or> port_credits (rs_router t) p = port_credits (rs_router s) p - 1)"
  using arbitrate_outports_served [OF assms] unfolding served_def by (metis linorder_not_less)

theorem switch_allocation_single_grant_witness:
  "\<exists>t. arbitrate_outports 500 \<lparr>rs_router = ex_router, rs_acts = []\<rparr> = Some t
     \<and> (\<forall>p. port_credits (rs_router t) p = port_credits ex_router p
         \<or> port_credits (rs_router t) p = port_credits ex_router p - 1)"
proof -
  have "\<exists>t. arbitrate_outports 500 \<lparr>rs_router = ex_router, rs_acts = []\<rparr> = Some t"
    by (simp add: ex_router_def router_build ex_config_simps arbitrate_outports_def for_range_def rr_next_def)
  then show ?thesis using switch_allocation_single_grant by fastforce
qed

end
