(* ===== verification/Wakeup_Ring.thy ===== *)
theory Wakeup_Ring
  imports Clocked_Object
begin

text \<open>
  The per-cycle work lists of the parallel Garnet (\<^verbatim>\<open>garnet/GarnetNetwork.{hh,cc}\<close>): a ring of 128
  slots, one per future cycle, each a 64-bit mask of the routers to run in that cycle, and a
  128-bit companion bitmap of the non-empty slots from which the next wakeup is found.  Also here:
  the choice of the number of worker threads and the static assignment of routers to threads.
\<close>

record wakeup_ring =
  m_wakeup_mask :: "mask64 list"
  m_active_lo :: mask64
  m_active_hi :: mask64

definition ring_new :: wakeup_ring where
  "ring_new = \<lparr>m_wakeup_mask = replicate 128 0, m_active_lo = 0, m_active_hi = 0\<rparr>"

definition slot_idx :: "tick \<Rightarrow> tick \<Rightarrow> nat" where
  "slot_idx clockPeriod tick = (tick div clockPeriod) mod 128"

text \<open>
  \<^verbatim>\<open>registerWakeup\<close>, as the two atomic read-modify-writes it performs.  The branch on
  \<^verbatim>\<open>s_parallel_active\<close> chooses between \<^verbatim>\<open>fetch_or\<close> and a load followed by a store of the same value;
  the effect on memory is the same and the two are one step here.
\<close>

definition slot_fetch_or :: "nat \<Rightarrow> mask64 \<Rightarrow> wakeup_ring \<Rightarrow> wakeup_ring" where
  "slot_fetch_or idx b r =
     r\<lparr>m_wakeup_mask := (m_wakeup_mask r)[idx := (m_wakeup_mask r ! idx) OR b]\<rparr>"

definition active_fetch_or :: "nat \<Rightarrow> wakeup_ring \<Rightarrow> wakeup_ring" where
  "active_fetch_or idx r =
     (let active_bit = push_bit (idx mod 64) 1
      in if idx < 64 then r\<lparr>m_active_lo := m_active_lo r OR active_bit\<rparr>
         else r\<lparr>m_active_hi := m_active_hi r OR active_bit\<rparr>)"

definition registerWakeup :: "tick \<Rightarrow> nat \<Rightarrow> tick \<Rightarrow> wakeup_ring \<Rightarrow> wakeup_ring" where
  "registerWakeup clockPeriod router_id tick r =
     (let idx = slot_idx clockPeriod tick
      in active_fetch_or idx (slot_fetch_or idx (push_bit router_id 1) r))"

text \<open>The head of \<^verbatim>\<open>globalWakeup\<close>: empty the slot of the current cycle, and clear its companion
  bit when it held any router.\<close>

definition take_slot :: "nat \<Rightarrow> wakeup_ring \<Rightarrow> mask64 \<times> wakeup_ring" where
  "take_slot current_idx r =
     (let mask = m_wakeup_mask r ! current_idx;
          r1 = r\<lparr>m_wakeup_mask := (m_wakeup_mask r)[current_idx := 0]\<rparr>
      in if mask \<noteq> 0
         then (mask,
               if current_idx < 64
               then r1\<lparr>m_active_lo := m_active_lo r1 AND NOT (push_bit current_idx 1)\<rparr>
               else r1\<lparr>m_active_hi := m_active_hi r1 AND NOT (push_bit (current_idx - 64) 1)\<rparr>)
         else (mask, r1))"

definition shift_out :: "nat \<Rightarrow> mask64 \<Rightarrow> mask64" where \<comment> \<open>\<^verbatim>\<open>(w >> sh) << sh\<close>\<close>
  "shift_out sh w = push_bit sh (drop_bit sh w)"

text \<open>The lambda \<^verbatim>\<open>first_bit_after\<close> of \<^verbatim>\<open>computeNextWakeupTick\<close>; the shifts by \<open>sh\<close> and back clear
  the low \<open>sh\<close> bits.\<close>

definition first_bit_after :: "mask64 \<Rightarrow> mask64 \<Rightarrow> int \<Rightarrow> int" where
  "first_bit_after lo hi after_idx =
     (if after_idx < 63 then
        (let sh = nat (after_idx + 1);
             lo_masked = shift_out sh lo
         in if lo_masked \<noteq> 0 then int (ctz lo_masked)
            else if hi \<noteq> 0 then 64 + int (ctz hi)
            else -1)
      else if after_idx = 63 then
        (if hi \<noteq> 0 then 64 + int (ctz hi) else -1)
      else if after_idx < 127 then
        (let sh = nat ((after_idx - 64) + 1);
             hi_masked = shift_out sh hi
         in if hi_masked \<noteq> 0 then 64 + int (ctz hi_masked) else -1)
      else -1)"

definition computeNextWakeupTick :: "int \<Rightarrow> tick \<Rightarrow> tick \<Rightarrow> wakeup_ring \<Rightarrow> tick" where
  "computeNextWakeupTick current_idx current_tick clock_period r =
     (let lo = m_active_lo r; hi = m_active_hi r;
          idx = first_bit_after lo hi current_idx
      in if idx \<ge> 0 then current_tick + nat (idx - current_idx) * clock_period
         else if lo \<noteq> 0 then
           current_tick + nat (128 - (current_idx - int (ctz lo))) * clock_period
         else if hi \<noteq> 0 then
           current_tick + nat (128 - (current_idx - (64 + int (ctz hi)))) * clock_period
         else current_tick + clock_period)"

text \<open>The reference that the bitmap replaces: scan the slots after \<open>current_idx\<close>, once around.\<close>

definition next_scan :: "nat \<Rightarrow> wakeup_ring \<Rightarrow> nat" where
  "next_scan current_idx r =
     (case filter (\<lambda>d. m_wakeup_mask r ! ((current_idx + d) mod 128) \<noteq> 0) [1..<129] of
        [] \<Rightarrow> 1
      | d # _ \<Rightarrow> d)"

subsection \<open>The companion bitmap\<close>

definition ring_active :: "wakeup_ring \<Rightarrow> nat \<Rightarrow> bool" where
  "ring_active r i = (if i < 64 then bit (m_active_lo r) i else bit (m_active_hi r) (i - 64))"

definition ring_wf :: "wakeup_ring \<Rightarrow> bool" where
  "ring_wf r \<longleftrightarrow> length (m_wakeup_mask r) = 128
     \<and> (\<forall>i < 128. ring_active r i \<longleftrightarrow> m_wakeup_mask r ! i \<noteq> 0)"

lemma slot_idx_less [simp]: "slot_idx p t < 128"
  by (simp add: slot_idx_def)

lemma ring_new_wf: "ring_wf ring_new"
  by (auto simp: ring_wf_def ring_new_def ring_active_def nth_Cons)

lemma ring_active_fetch_or:
  "idx < 128 \<Longrightarrow> i < 128 \<Longrightarrow>
     ring_active (active_fetch_or idx r) i \<longleftrightarrow> i = idx \<or> ring_active r i"
  by (auto simp: ring_active_def active_fetch_or_def Let_def bit_or_iff mod_if)

lemma ring_frame [simp]:
  "m_wakeup_mask (active_fetch_or idx r) = m_wakeup_mask r"
  "ring_active (slot_fetch_or idx b r) i = ring_active r i"
  "m_wakeup_mask (slot_fetch_or idx b r) =
     (m_wakeup_mask r)[idx := (m_wakeup_mask r ! idx) OR b]"
  by (auto simp: active_fetch_or_def slot_fetch_or_def ring_active_def Let_def)

lemma mask64_or_eq_0_iff: "(a :: mask64) OR b = 0 \<longleftrightarrow> a = 0 \<and> b = 0"
  by (auto simp: mask64_eq_0_iff bit_or_iff)

lemma push_bit_one_neq_0: "i < 64 \<Longrightarrow> push_bit i 1 \<noteq> (0 :: mask64)"
  by (metis bit_shifted_one mask64_eq_0_iff push_bit_of_1)

lemma registerWakeup_wf [garnet_inv]:
  assumes "ring_wf r" and "router_id < 64"
  shows "ring_wf (registerWakeup p router_id t r)"
  using assms push_bit_one_neq_0 [OF assms(2)]
  by (auto simp: ring_wf_def registerWakeup_def Let_def ring_active_fetch_or nth_list_update
      mask64_or_eq_0_iff)

lemma registerWakeup_slots:
  assumes "ring_wf r" and "router_id < 64" and "i < 128"
  shows "bit (m_wakeup_mask (registerWakeup p router_id t r) ! i) k \<longleftrightarrow>
    bit (m_wakeup_mask r ! i) k \<or> (i = slot_idx p t \<and> k = router_id)"
  using assms
  by (auto simp: ring_wf_def registerWakeup_def Let_def nth_list_update bit_or_iff)

lemma take_slot_facts:
  assumes "ring_wf r" and "idx < 128"
  shows "fst (take_slot idx r) = m_wakeup_mask r ! idx"
    and "m_wakeup_mask (snd (take_slot idx r)) = (m_wakeup_mask r)[idx := 0]"
    and "ring_wf (snd (take_slot idx r))"
proof -
  show "fst (take_slot idx r) = m_wakeup_mask r ! idx"
    and masks: "m_wakeup_mask (snd (take_slot idx r)) = (m_wakeup_mask r)[idx := 0]"
    by (auto simp: take_slot_def Let_def)
  have "ring_active (snd (take_slot idx r)) i \<longleftrightarrow>
      ring_active r i \<and> (i = idx \<longrightarrow> m_wakeup_mask r ! idx = 0)" if "i < 128" for i
    using assms(2) that
    by (auto simp: take_slot_def Let_def ring_active_def bit_and_iff bit_not_iff)
  then show "ring_wf (snd (take_slot idx r))"
    using assms masks by (auto simp: ring_wf_def nth_list_update)
qed

subsection \<open>Finding the next wakeup\<close>

lemma bit_mask_off_low [simp]: "bit (shift_out sh w) n \<longleftrightarrow> sh \<le> n \<and> bit w n"
  by (auto simp: shift_out_def bit_push_bit_iff bit_drop_bit_eq dest: bit_mask64_less)

text \<open>\<open>least_above P a i\<close>: \<open>i\<close> is the first position after \<open>a\<close> that satisfies \<open>P\<close>.\<close>

definition least_above :: "(nat \<Rightarrow> bool) \<Rightarrow> nat \<Rightarrow> nat \<Rightarrow> bool" where
  "least_above P a i \<longleftrightarrow> a < i \<and> i < 128 \<and> P i \<and> (\<forall>j. a < j \<and> j < i \<longrightarrow> \<not> P j)"

lemma least_above_lo:
  assumes "a < 63" and "shift_out (a + 1) (m_active_lo r) \<noteq> 0"
  shows "least_above (ring_active r) a (ctz (shift_out (a + 1) (m_active_lo r)))"
  using ctz_least [OF assms(2)] by (auto simp: least_above_def ring_active_def)

lemma least_above_hi:
  assumes "m_active_hi r \<noteq> 0" and "\<forall>j. a < j \<and> j < 64 \<longrightarrow> \<not> ring_active r j" and "a < 64"
  shows "least_above (ring_active r) a (64 + ctz (m_active_hi r))"
proof -
  have "\<not> ring_active r j" if "a < j" "j < 64 + ctz (m_active_hi r)" for j
  proof (cases "j < 64")
    case True
    then show ?thesis using assms(2) that by simp
  next
    case False
    then show ?thesis using ctz_least(2) [OF assms(1), of "j - 64"] that
      by (simp add: ring_active_def)
  qed
  then show ?thesis
    using ctz_least(1,3) [OF assms(1)] assms(3) by (simp add: least_above_def ring_active_def)
qed

lemma least_above_hi_masked:
  assumes "63 < a" and "shift_out (a - 63) (m_active_hi r) \<noteq> 0"
  shows "least_above (ring_active r) a
    (64 + ctz (shift_out (a - 63) (m_active_hi r)))"
proof -
  let ?w = "shift_out (a - 63) (m_active_hi r)"
  have c: "a - 63 \<le> ctz ?w" "bit (m_active_hi r) (ctz ?w)" "ctz ?w < 64"
    using ctz_least(1,3) [OF assms(2)] by auto
  have "\<not> ring_active r j" if "a < j" "j < 64 + ctz ?w" for j
  proof -
    have "j - 64 < ctz ?w" "a - 63 \<le> j - 64" using that assms(1) by auto
    then have "\<not> bit (m_active_hi r) (j - 64)"
      using ctz_least(2) [OF assms(2), of "j - 64"] by simp
    then show ?thesis using that assms(1) by (simp add: ring_active_def)
  qed
  then show ?thesis using c assms(1) by (auto simp: least_above_def ring_active_def)
qed

lemma first_bit_after_spec:
  assumes "a < 128"
  shows "(\<exists>i. first_bit_after (m_active_lo r) (m_active_hi r) (int a) = int i
           \<and> least_above (ring_active r) a i)
       \<or> (first_bit_after (m_active_lo r) (m_active_hi r) (int a) = -1
           \<and> (\<forall>i. a < i \<and> i < 128 \<longrightarrow> \<not> ring_active r i))"
proof -
  let ?lo = "shift_out (a + 1) (m_active_lo r)"
  let ?hi = "shift_out (a - 63) (m_active_hi r)"
  have nats: "nat (int a + 1) = a + 1" "63 < a \<Longrightarrow> nat (int a - 63) = a - 63" by auto
  have none_lo: "\<forall>j. a < j \<and> j < 64 \<longrightarrow> \<not> ring_active r j" if "?lo = 0"
    using that by (auto simp: mask64_eq_0_iff ring_active_def Suc_le_eq)
  have none_hi: "\<forall>j. 64 \<le> j \<longrightarrow> \<not> ring_active r j" if "m_active_hi r = 0"
    using that by (auto simp: ring_active_def)
  consider "a < 63" "?lo \<noteq> 0" | "a < 63" "?lo = 0" "m_active_hi r \<noteq> 0"
    | "a < 63" "?lo = 0" "m_active_hi r = 0" | "a = 63" "m_active_hi r \<noteq> 0"
    | "a = 63" "m_active_hi r = 0" | "63 < a" "a < 127" "?hi \<noteq> 0" | "63 < a" "a < 127" "?hi = 0"
    | "a = 127" using assms by linarith
  then show ?thesis
  proof cases
    case 1
    then show ?thesis using least_above_lo [of a r] by (auto simp: first_bit_after_def nats)
  next
    case 2
    then show ?thesis using least_above_hi [of r a] none_lo
      by (intro disjI1 exI [of _ "64 + ctz (m_active_hi r)"])
        (auto simp: first_bit_after_def nats)
  next
    case 3
    then show ?thesis using none_lo none_hi
      by (simp add: first_bit_after_def nats) (meson linorder_not_le)
  next
    case 4
    then have "least_above (ring_active r) a (64 + ctz (m_active_hi r))"
      by (intro least_above_hi) auto
    then show ?thesis using 4
      by (intro disjI1 exI [of _ "64 + ctz (m_active_hi r)"]) (auto simp: first_bit_after_def)
  next
    case 5
    then show ?thesis using none_hi by (auto simp: first_bit_after_def)
  next
    case 6
    then show ?thesis using least_above_hi_masked [of a r]
      by (intro disjI1 exI [of _ "64 + ctz ?hi"]) (auto simp: first_bit_after_def nats)
  next
    case 7
    then have "\<not> bit (m_active_hi r) (j - 64)" if "a < j" for j
      using that by (auto simp: mask64_eq_0_iff)
    then show ?thesis using 7 by (auto simp: first_bit_after_def nats ring_active_def)
  next
    case 8
    then show ?thesis by (auto simp: first_bit_after_def)
  qed
qed

lemma next_scan_eqI:
  assumes "0 < d" and "d \<le> 128" and "m_wakeup_mask r ! ((idx + d) mod 128) \<noteq> 0"
    and "\<And>e. 0 < e \<Longrightarrow> e < d \<Longrightarrow> m_wakeup_mask r ! ((idx + e) mod 128) = 0"
  shows "next_scan idx r = d"
proof -
  have "[1..<129] = [1..<d] @ [d..<129]"
    using assms(1,2) upt_add_eq_append [of 1 d "129 - d"] by simp
  also have "[d..<129] = d # [Suc d..<129]"
    using assms(2) by (simp add: upt_conv_Cons)
  finally have "[1..<129] = [1..<d] @ d # [Suc d..<129]" .
  then show ?thesis using assms by (simp add: next_scan_def)
qed

lemma next_scan_none:
  assumes "\<And>i. i < 128 \<Longrightarrow> m_wakeup_mask r ! i = 0"
  shows "next_scan idx r = 1"
  using assms by (simp add: next_scan_def filter_False)

text \<open>The least active slot at or below \<open>idx\<close> is the next one after wrapping around.\<close>

lemma next_scan_wrap:
  assumes wf: "ring_wf r" and "idx < 128" and i: "i \<le> idx" "ring_active r i"
    and least: "\<And>j. j < i \<Longrightarrow> \<not> ring_active r j"
    and above: "\<And>j. idx < j \<Longrightarrow> j < 128 \<Longrightarrow> \<not> ring_active r j"
  shows "next_scan idx r = 128 - (idx - i)"
proof (rule next_scan_eqI)
  have act: "m_wakeup_mask r ! k \<noteq> 0 \<longleftrightarrow> ring_active r k" if "k < 128" for k
    using wf that by (simp add: ring_wf_def)
  have "(idx + (128 - (idx - i))) mod 128 = i" using assms(2) i by (simp add: mod_if)
  then show "m_wakeup_mask r ! ((idx + (128 - (idx - i))) mod 128) \<noteq> 0"
    using act i assms(2) by simp
  show "m_wakeup_mask r ! ((idx + e) mod 128) = 0" if "0 < e" "e < 128 - (idx - i)" for e
  proof (cases "idx + e < 128")
    case True
    then show ?thesis using act [of "idx + e"] above [of "idx + e"] that by auto
  next
    case False
    then have "(idx + e) mod 128 = idx + e - 128" "idx + e - 128 < i"
      using that assms(2) by (auto simp: mod_if)
    then show ?thesis using act [of "idx + e - 128"] least [of "idx + e - 128"] i assms(2) by auto
  qed
qed (use assms(2) in auto)

lemma computeNextWakeupTick_scan:
  assumes wf: "ring_wf r" and idx: "idx < 128"
  shows "computeNextWakeupTick (int idx) t p r = t + next_scan idx r * p"
proof -
  have act: "m_wakeup_mask r ! k \<noteq> 0 \<longleftrightarrow> ring_active r k" if "k < 128" for k
    using wf that by (simp add: ring_wf_def)
  let ?lo = "m_active_lo r" and ?hi = "m_active_hi r"
  from first_bit_after_spec [OF idx, of r] show ?thesis
  proof (elim disjE exE conjE)
    fix i
    assume eq: "first_bit_after ?lo ?hi (int idx) = int i"
      and i: "least_above (ring_active r) idx i"
    have "next_scan idx r = i - idx"
    proof (rule next_scan_eqI)
      show "m_wakeup_mask r ! ((idx + (i - idx)) mod 128) \<noteq> 0"
        using i act by (simp add: least_above_def)
      show "m_wakeup_mask r ! ((idx + e) mod 128) = 0" if "0 < e" "e < i - idx" for e
        using i act [of "idx + e"] that by (auto simp: least_above_def)
    qed (use i in \<open>auto simp: least_above_def\<close>)
    then show ?thesis using eq i
      by (simp add: computeNextWakeupTick_def Let_def least_above_def nat_diff_distrib)
  next
    assume eq: "first_bit_after ?lo ?hi (int idx) = -1"
      and none: "\<forall>i. idx < i \<and> i < 128 \<longrightarrow> \<not> ring_active r i"
    consider (lo) "?lo \<noteq> 0" | (hi) "?lo = 0" "?hi \<noteq> 0" | (empty) "?lo = 0" "?hi = 0" by blast
    then show ?thesis
    proof cases
      case lo
      then have c: "ring_active r (ctz ?lo)" "ctz ?lo < 64" "\<And>j. j < ctz ?lo \<Longrightarrow> \<not> ring_active r j"
        using ctz_least [OF lo] by (auto simp: ring_active_def)
      then have le: "ctz ?lo \<le> idx" using none by (intro leI) auto
      then have "next_scan idx r = 128 - (idx - ctz ?lo)"
        using c none by (intro next_scan_wrap [OF wf idx]) auto
      moreover have "nat (128 - (int idx - int (ctz ?lo))) = 128 - (idx - ctz ?lo)"
        using le idx by linarith
      ultimately show ?thesis using eq lo by (simp add: computeNextWakeupTick_def Let_def)
    next
      case hi
      let ?i = "64 + ctz ?hi"
      have c: "ring_active r ?i" "?i < 128"
        using ctz_least(1,3) [OF hi(2)] by (auto simp: ring_active_def)
      have least: "\<not> ring_active r j" if "j < ?i" for j
        using ctz_least(2) [OF hi(2), of "j - 64"] hi(1) that by (auto simp: ring_active_def)
      have le: "?i \<le> idx" using none c by (intro leI) auto
      then have "next_scan idx r = 128 - (idx - ?i)"
        using c none least by (intro next_scan_wrap [OF wf idx]) auto
      moreover have "nat (128 - (int idx - (64 + int (ctz ?hi)))) = 128 - (idx - ?i)"
        using le idx by linarith
      ultimately show ?thesis using eq hi by (simp add: computeNextWakeupTick_def Let_def)
    next
      case empty
      then have "\<not> ring_active r k" for k by (simp add: ring_active_def)
      then have "next_scan idx r = 1" using act by (intro next_scan_none) blast
      then show ?thesis using eq empty by (simp add: computeNextWakeupTick_def Let_def)
    qed
  qed
qed

subsection \<open>Worker threads\<close>

text \<open>
  The end of the constructor of \<^verbatim>\<open>GarnetNetwork\<close>: it refuses more than 64 routers, chooses the
  size of the worker pool, and assigns router \<open>id\<close> to thread \<open>id % m_num_threads\<close>.
\<close>

definition choose_num_threads :: "int \<Rightarrow> int \<Rightarrow> nat \<Rightarrow> int" where
  "choose_num_threads requested procs num_routers =
     (let hw = (if procs \<le> 0 then 1 else procs);
          auto_threads = max 1 (int num_routers div 8)
      in if requested \<le> 0 then min hw auto_threads else min requested hw)"

definition thread_router_mask :: "nat \<Rightarrow> nat \<Rightarrow> mask64 list" where
  "thread_router_mask num_threads num_routers =
     fold (\<lambda>id ms. ms[id mod num_threads := (ms ! (id mod num_threads)) OR push_bit id 1])
       [0..<num_routers] (replicate num_threads 0)"

definition setup_workers :: "int \<Rightarrow> int \<Rightarrow> nat \<Rightarrow> (nat \<times> mask64 list) option" where
  "setup_workers requested procs num_routers =
     (if num_routers > 64 then None
      else
        (let m_num_threads = nat (choose_num_threads requested procs num_routers)
         in Some (m_num_threads, thread_router_mask m_num_threads num_routers)))"

lemma choose_num_threads_bounds:
  "1 \<le> choose_num_threads requested procs n"
  "choose_num_threads requested procs n \<le> max 1 procs"
  "0 < requested \<Longrightarrow> choose_num_threads requested procs n \<le> requested"
  by (auto simp: choose_num_threads_def Let_def)

lemma thread_router_mask_Suc:
  "thread_router_mask nt (Suc n) =
     (thread_router_mask nt n)[n mod nt := (thread_router_mask nt n ! (n mod nt)) OR push_bit n 1]"
  by (simp add: thread_router_mask_def)

lemma thread_router_mask_spec:
  assumes "0 < nt" and "n \<le> 64"
  shows "length (thread_router_mask nt n) = nt"
    and "t < nt \<Longrightarrow> bit (thread_router_mask nt n ! t) k \<longleftrightarrow> k < n \<and> k mod nt = t"
proof -
  show len: "length (thread_router_mask nt n) = nt" for n
    by (induction n) (simp_all add: thread_router_mask_def)
  show "t < nt \<Longrightarrow> bit (thread_router_mask nt n ! t) k \<longleftrightarrow> k < n \<and> k mod nt = t"
    using assms(2)
  proof (induction n)
    case 0
    then show ?case by (simp add: thread_router_mask_def)
  next
    case (Suc n)
    then show ?case
      using len [of n] by (auto simp: thread_router_mask_Suc nth_list_update bit_or_iff less_Suc_eq)
  qed
qed

subsection \<open>Visiting the routers of a mask\<close>

text \<open>The loop of \<^verbatim>\<open>runRoutersFromMask\<close>: visit the lowest set bit, clear it, go on.\<close>

function mask_loop :: "(nat \<Rightarrow> 's \<Rightarrow> 's option) \<Rightarrow> mask64 \<Rightarrow> 's \<Rightarrow> 's option" where
  "mask_loop body msk s =
     (if msk = 0 then Some s
      else Option.bind (body (ctz msk) s) (mask_loop body (msk AND (msk - 1))))"
  by pat_completeness auto
termination
  by (relation "measure (\<lambda>(body, msk, s). unat msk)") (auto simp: clear_lowest_less)

declare mask_loop.simps [simp del]

lemma mask_loop_eq: "mask_loop body msk s = for_list body (mask_bits msk) s"
proof (induction body msk s rule: mask_loop.induct)
  case (1 body msk s)
  show ?case
  proof (cases "msk = 0")
    case True
    then show ?thesis by (simp add: mask_loop.simps)
  next
    case False
    with 1 show ?thesis
      by (subst mask_loop.simps) (auto simp: mask_bits_step split: Option.bind_split)
  qed
qed

subsection \<open>Properties\<close>

text \<open>C11. The bit-scan of \<^verbatim>\<open>computeNextWakeupTick\<close> is a correct optimisation: on a ring whose companion
  bitmap is in step with the slots it returns the tick of the first non-empty slot after the
  current one, scanning once around the ring, and the next cycle when every slot is empty.\<close>
theorem computeNextWakeupTick_is_scan:
  assumes "ring_wf r" "idx < 128"
  shows "computeNextWakeupTick (int idx) t p r = t + next_scan idx r * p"
  by (rule computeNextWakeupTick_scan [OF assms])

lemma ex_ring_wf: "ring_wf (registerWakeup 500 3 2000 ring_new)"
  by (intro registerWakeup_wf ring_new_wf) simp

theorem computeNextWakeupTick_is_scan_witness:
  "computeNextWakeupTick 2 1000 500 (registerWakeup 500 3 2000 ring_new) = 2000"
proof -
  let ?r = "registerWakeup 500 3 2000 ring_new"
  have slot: "m_wakeup_mask ?r = (replicate 128 0)[4 := 8]"
    by (simp add: registerWakeup_def Let_def slot_idx_def ring_new_def)
  have "next_scan 2 ?r = 2"
  proof (rule next_scan_eqI)
    show "m_wakeup_mask ?r ! ((2 + 2) mod 128) \<noteq> 0" unfolding slot by simp
    show "m_wakeup_mask ?r ! ((2 + e) mod 128) = 0" if "0 < e" "e < 2" for e
      unfolding slot using that by (simp add: less_2_cases_iff)
  qed auto
  then show ?thesis
    using computeNextWakeupTick_is_scan [OF ex_ring_wf, of 2 1000 500] by simp
qed



text \<open>C17. The ring aliases beyond its horizon: two ticks that are 128 cycles apart share a slot, so a
  wakeup registered more than 128 cycles ahead is taken from the ring by the earlier cycle of the
  same slot, and the slot of its own cycle is then empty.\<close>
theorem registerWakeup_alias:
  assumes "ring_wf r" "0 < p" "router_id < 64"
  shows "bit (fst (take_slot (slot_idx p (c * p)) (registerWakeup p router_id ((c + 128) * p) r))) router_id
    \<and> fst (take_slot (slot_idx p ((c + 128) * p))
        (snd (take_slot (slot_idx p (c * p)) (registerWakeup p router_id ((c + 128) * p) r)))) = 0"
proof -
  let ?r = "registerWakeup p router_id ((c + 128) * p) r"
  have wf: "ring_wf ?r" using assms(1,3) by (rule registerWakeup_wf)
  have eq: "slot_idx p ((c + 128) * p) = slot_idx p (c * p)"
    using assms(2) by (simp add: slot_idx_def)
  have "length (m_wakeup_mask ?r) = 128" using wf by (simp add: ring_wf_def)
  then show ?thesis
    unfolding eq
    using take_slot_facts [OF wf slot_idx_less] take_slot_facts(1) [OF take_slot_facts(3) [OF wf slot_idx_less] slot_idx_less]
      assms(1,3) eq by (simp add: registerWakeup_slots)
qed

theorem registerWakeup_alias_witness:
  "bit (fst (take_slot 3 (registerWakeup 500 7 65500 ring_new))) 7"
  using registerWakeup_alias [of ring_new 500 7 3] ring_new_wf by (simp add: slot_idx_def)

text \<open>C15. The worker threads partition the routers: the constructor starts between one and
  \<^verbatim>\<open>omp_get_num_procs()\<close> threads (at most as many as requested), and every router belongs to the mask
  of exactly one thread; more than 64 routers are refused.\<close>
theorem setup_workers_partition:
  "case setup_workers requested procs num_routers of
     None \<Rightarrow> num_routers > 64
   | Some (n, masks) \<Rightarrow> num_routers \<le> 64 \<and> 1 \<le> n \<and> int n \<le> max 1 procs
       \<and> (if requested > 0 then int n \<le> requested else n \<le> max 1 (num_routers div 8))
       \<and> length masks = n
       \<and> (\<forall>id. (\<exists>!t. t < n \<and> bit (masks ! t) id) = (id < num_routers))
       \<and> (\<forall>id. (\<exists>t. t < n \<and> bit (masks ! t) id) = (id < num_routers))"
proof (cases "num_routers > 64")
  case True
  then show ?thesis by (simp add: setup_workers_def)
next
  case False
  define n where "n = nat (choose_num_threads requested procs num_routers)"
  have b: "1 \<le> n" "int n \<le> max 1 procs" "requested > 0 \<longrightarrow> int n \<le> requested"
      "requested \<le> 0 \<longrightarrow> n \<le> max 1 (num_routers div 8)"
    by (auto simp: n_def choose_num_threads_def Let_def)
  note spec = thread_router_mask_spec [of n num_routers]
  have "(\<exists>!t. t < n \<and> bit (thread_router_mask n num_routers ! t) k) = (k < num_routers)"
    "(\<exists>t. t < n \<and> bit (thread_router_mask n num_routers ! t) k) = (k < num_routers)" for k
    using spec(2) False b(1) mod_less_divisor [of n k] by (auto intro!: ex1I [of _ "k mod n"] exI [of _ "k mod n"])
  then show ?thesis
    using False b spec(1) by (auto simp: setup_workers_def Let_def n_def [symmetric])
qed

text \<open>C16. The scan loop of \<^verbatim>\<open>runRoutersFromMask\<close> terminates and runs its body on the set bits of the
  mask, each once, in increasing order, stopping at the first abort.\<close>
theorem mask_loop_visits_each_once:
  "mask_loop body msk s = for_list body (mask_bits msk) s
    \<and> set (mask_bits msk) = {i. bit msk i} \<and> sorted_wrt (<) (mask_bits msk)"
  using mask_loop_eq sorted_mask_bits by auto

end
