(* ===== verification/Garnet_Wakeup.thy ===== *)
theory Garnet_Wakeup
  imports Router_Flow Wakeup_Ring
begin

text \<open>
  The per-cycle wakeup of the routers in \<^verbatim>\<open>garnet/GarnetNetwork.{hh,cc}\<close>: \<^verbatim>\<open>globalWakeup\<close>,
  \<^verbatim>\<open>runRoutersFromMask\<close>, the deferred schedule requests of the worker threads and the OpenMP
  parallel region.

  The parallel region is a system of workers that take turns in any order.  A worker runs the
  wakeup of its next router, which touches nothing but that router and the buffers of that router's
  input and credit links, and then performs, one at a time, the accesses to shared memory that the
  wakeup asked for: the two atomic \<^verbatim>\<open>fetch_or\<close> of \<^verbatim>\<open>registerWakeup\<close> and the push to its own deferred queue.
  An interleaving is the list of the workers in the order in which they take their turns; the
  barrier at the end of the region waits until no worker can take one.  Outside the region a router
  wakeup performs its requests itself; it reads none of what they change, so the model performs
  them when the wakeup is over.

  The generic part is the locale \<open>worker_steps\<close>: if the turns of different workers commute, every
  interleaving ends, and all end in the same state.
\<close>

subsection \<open>Workers whose turns commute\<close>

locale worker_steps =
  fixes step :: "nat \<Rightarrow> 'p \<Rightarrow> 'p option"
    and inv :: "'p \<Rightarrow> bool"
  assumes inv_step: "inv p \<Longrightarrow> step w p = Some q \<Longrightarrow> inv q"
    and diamond: "inv p \<Longrightarrow> w \<noteq> v \<Longrightarrow> step w p = Some a \<Longrightarrow> step v p = Some b \<Longrightarrow>
      \<exists>c. step v a = Some c \<and> step w b = Some c"
begin

lemma run_inv: "inv p \<Longrightarrow> for_list step ws p = Some q \<Longrightarrow> inv q"
  by (induction ws arbitrary: p) (auto simp: bind_eq_Some_conv dest: inv_step)

definition quiescent :: "'p \<Rightarrow> bool" where
  "quiescent p \<longleftrightarrow> (\<forall>w. step w p = None)"

lemma run_after_step:
  assumes "inv p" "for_list step ws p = Some q" "quiescent q" "step w p = Some p'"
  shows "\<exists>vs. length ws = Suc (length vs) \<and> for_list step vs p' = Some q"
  using assms
proof (induction ws arbitrary: p p')
  case Nil
  then show ?case by (simp add: quiescent_def)
next
  case (Cons v vs)
  then obtain p1 where p1: "step v p = Some p1" "for_list step vs p1 = Some q"
    by (auto simp: bind_eq_Some_conv)
  show ?case
  proof (cases "v = w")
    case True
    then show ?thesis using p1 Cons.prems(4) by auto
  next
    case False
    from diamond [OF Cons.prems(1) False p1(1) Cons.prems(4)] obtain c
      where c: "step w p1 = Some c" "step v p' = Some c" by blast
    have "inv p1" using inv_step [OF Cons.prems(1) p1(1)] .
    from Cons.IH [OF this p1(2) Cons.prems(3) c(1)] obtain us
      where "length vs = Suc (length us)" "for_list step us c = Some q" by blast
    then show ?thesis using c(2) by (intro exI [of _ "v # us"]) simp
  qed
qed

lemma run_completes:
  assumes "inv p" "for_list step ws p = Some q" "quiescent q" "for_list step us p = Some r"
  shows "\<exists>vs. length us + length vs = length ws \<and> for_list step vs r = Some q"
  using assms
proof (induction us arbitrary: p ws)
  case Nil
  then show ?case by auto
next
  case (Cons u us)
  then obtain p1 where p1: "step u p = Some p1" "for_list step us p1 = Some r"
    by (auto simp: bind_eq_Some_conv)
  from run_after_step [OF Cons.prems(1,2,3) p1(1)] obtain ws'
    where "length ws = Suc (length ws')" "for_list step ws' p1 = Some q" by blast
  with Cons.IH [OF inv_step [OF Cons.prems(1) p1(1)] _ Cons.prems(3) p1(2)] show ?case by fastforce
qed

lemma all_runs_agree:
  assumes "inv p" "for_list step ws p = Some q" "quiescent q" "for_list step us p = Some r"
  shows "length us \<le> length ws" "quiescent r \<Longrightarrow> r = q"
proof -
  from run_completes [OF assms] obtain vs
    where vs: "length us + length vs = length ws" "for_list step vs r = Some q" by blast
  show "length us \<le> length ws" using vs(1) by simp
  show "r = q" if "quiescent r"
    using vs(2) that by (cases vs) (auto simp: quiescent_def)
qed

end

subsection \<open>The network, as far as the routers are concerned\<close>

record Net =
  n_config :: GarnetConfig
  n_period :: tick
  n_routers :: "Router list"
  n_links :: link_store
  n_ring :: wakeup_ring
  n_cons :: "consumer_ref \<Rightarrow> Consumer"
  n_global :: "tick option"
  m_num_threads :: nat
  m_parallel_threshold :: nat
  m_thread_router_mask :: "mask64 list"
  m_deferred_schedules :: "(consumer_ref \<times> tick) list list"

text \<open>\<^verbatim>\<open>tryConsumeTick\<close> and, if the tick was pending, \<^verbatim>\<open>wakeup\<close>, for one router.\<close>

definition run_local :: "tick \<Rightarrow> nat \<Rightarrow> Net \<Rightarrow> (Net \<times> action list) option" where
  "run_local current_tick i net =
     do { r \<leftarrow> at (n_routers net) i;
          let (pending, c) = tryConsumeTick current_tick (r_consumer r);
          if pending then
            do { (lk, s) \<leftarrow> Router_wakeup (n_config net) current_tick (n_links net)
                   \<lparr>rs_router = r\<lparr>r_consumer := c\<rparr>, rs_acts = []\<rparr>;
                 Some (net\<lparr>n_routers := (n_routers net)[i := rs_router s], n_links := lk\<rparr>, rs_acts s) }
          else Some (net, []) }"

definition cons_schedule :: "tick \<Rightarrow> consumer_ref \<times> tick \<Rightarrow> (consumer_ref \<Rightarrow> Consumer) \<Rightarrow> consumer_ref \<Rightarrow> Consumer" where
  "cons_schedule curTick e cons = cons(fst e := scheduleEventAbsolute curTick (snd e) (cons (fst e)))"

text \<open>A request performed directly, as outside the parallel region.\<close>

definition apply_act :: "tick \<Rightarrow> action \<Rightarrow> Net \<Rightarrow> Net" where
  "apply_act curTick a net =
     (case a of
        Sched c t \<Rightarrow> net\<lparr>n_cons := cons_schedule curTick (c, t) (n_cons net)\<rparr>
      | Register i t \<Rightarrow> net\<lparr>n_ring := registerWakeup (n_period net) i t (n_ring net)\<rparr>)"

definition run_router :: "tick \<Rightarrow> nat \<Rightarrow> Net \<Rightarrow> Net option" where
  "run_router current_tick i net =
     do { (net', acts) \<leftarrow> run_local current_tick i net;
          Some (fold (apply_act current_tick) acts net') }"

definition runRoutersFromMask :: "mask64 \<Rightarrow> tick \<Rightarrow> Net \<Rightarrow> Net option" where
  "runRoutersFromMask msk current_tick net = mask_loop (run_router current_tick) msk net"

definition drainDeferredSchedules :: "tick \<Rightarrow> Net \<Rightarrow> Net" where
  "drainDeferredSchedules curTick net =
     net\<lparr>n_cons := fold (cons_schedule curTick) (concat (m_deferred_schedules net)) (n_cons net),
         m_deferred_schedules := map (\<lambda>q. []) (m_deferred_schedules net)\<rparr>"

subsection \<open>The parallel region\<close>

datatype micro = MSlot nat mask64 | MActive nat | MDefer consumer_ref tick

definition micros :: "tick \<Rightarrow> action \<Rightarrow> micro list" where
  "micros period a =
     (case a of
        Register i t \<Rightarrow> [MSlot (slot_idx period t) (push_bit i 1), MActive (slot_idx period t)]
      | Sched c t \<Rightarrow> [MDefer c t])"

definition do_micro :: "nat \<Rightarrow> micro \<Rightarrow> Net \<Rightarrow> Net" where
  "do_micro tid m net =
     (case m of
        MSlot idx b \<Rightarrow> net\<lparr>n_ring := slot_fetch_or idx b (n_ring net)\<rparr>
      | MActive idx \<Rightarrow> net\<lparr>n_ring := active_fetch_or idx (n_ring net)\<rparr>
      | MDefer c t \<Rightarrow> net\<lparr>m_deferred_schedules :=
          (m_deferred_schedules net)[tid := (m_deferred_schedules net ! tid) @ [(c, t)]]\<rparr>)"

record pstate =
  p_net :: Net
  p_todo :: "nat list list"
  p_pend :: "micro list list"

definition par_step :: "tick \<Rightarrow> nat \<Rightarrow> pstate \<Rightarrow> pstate option" where
  "par_step current_tick tid p =
     (if tid < length (p_todo p) then
        (case p_pend p ! tid of
           m # ms \<Rightarrow> Some (p\<lparr>p_net := do_micro tid m (p_net p), p_pend := (p_pend p)[tid := ms]\<rparr>)
         | [] \<Rightarrow>
             (case p_todo p ! tid of
                [] \<Rightarrow> None
              | i # is \<Rightarrow>
                  do { (net', acts) \<leftarrow> run_local current_tick i (p_net p);
                       Some (p\<lparr>p_net := net', p_todo := (p_todo p)[tid := is],
                         p_pend := (p_pend p)[tid := concat (map (micros (n_period net')) acts)]\<rparr>) }))
      else None)"

text \<open>Entry into the region: worker \<open>tid\<close> takes the routers of \<^verbatim>\<open>mask & m_thread_router_mask[tid]\<close>, lowest first.\<close>

definition par_start :: "mask64 \<Rightarrow> Net \<Rightarrow> pstate" where
  "par_start msk net =
     \<lparr>p_net = net, p_todo = map (\<lambda>m. mask_bits (msk AND m)) (m_thread_router_mask net),
      p_pend = map (\<lambda>m. []) (m_thread_router_mask net)\<rparr>"

definition par_done :: "pstate \<Rightarrow> bool" where
  "par_done p \<longleftrightarrow> list_all (\<lambda>q. q = []) (p_todo p) \<and> list_all (\<lambda>q. q = []) (p_pend p)"

definition parallel_region :: "nat list \<Rightarrow> mask64 \<Rightarrow> tick \<Rightarrow> Net \<Rightarrow> Net option" where
  "parallel_region interleaving msk current_tick net =
     do { p \<leftarrow> for_list (par_step current_tick) interleaving (par_start msk net);
          check (par_done p);
          Some (p_net p) }"

definition globalWakeup :: "nat list \<Rightarrow> tick \<Rightarrow> Net \<Rightarrow> Net option" where
  "globalWakeup interleaving current_tick net =
     do { let current_idx = slot_idx (n_period net) current_tick;
          let (msk, ring1) = take_slot current_idx (n_ring net);
          let net1 = net\<lparr>n_ring := ring1\<rparr>;
          net2 \<leftarrow>
            (if msk \<noteq> 0 then
               (if m_num_threads net1 \<le> 1 \<or> popcount msk < m_parallel_threshold net1
                then runRoutersFromMask msk current_tick net1
                else do { net' \<leftarrow> parallel_region interleaving msk current_tick net1;
                          Some (drainDeferredSchedules current_tick net') })
             else Some net1);
          let next_tick = computeNextWakeupTick (int current_idx) current_tick (n_period net2) (n_ring net2);
          Some (net2\<lparr>n_global := Some next_tick\<rparr>) }"

subsection \<open>Router wakeups of different routers commute\<close>

definition links_disjoint :: "Net \<Rightarrow> bool" where
  "links_disjoint net \<longleftrightarrow>
     (\<forall>i j. i < length (n_routers net) \<and> j < length (n_routers net) \<and> i \<noteq> j \<longrightarrow>
        router_links (n_routers net ! i) \<inter> router_links (n_routers net ! j) = {})"

lemma run_local_Some:
  assumes "run_local now i net = Some (net', acts)"
  obtains (idle) "i < length (n_routers net)" "\<not> alreadyScheduled now (r_consumer (n_routers net ! i))"
      "net' = net" "acts = []"
  | (run) lk s where "i < length (n_routers net)" "alreadyScheduled now (r_consumer (n_routers net ! i))"
      "Router_wakeup (n_config net) now (n_links net)
         \<lparr>rs_router = (n_routers net ! i)\<lparr>r_consumer := descheduleTick now (r_consumer (n_routers net ! i))\<rparr>,
          rs_acts = []\<rparr> = Some (lk, s)"
      "net' = net\<lparr>n_routers := (n_routers net)[i := rs_router s], n_links := lk\<rparr>" "acts = rs_acts s"
  using assms
  by (auto simp: run_local_def tryConsumeTick_eq bind_eq_Some_conv split: if_splits)

lemma run_local_idle:
  "i < length (n_routers net) \<Longrightarrow> \<not> alreadyScheduled now (r_consumer (n_routers net ! i)) \<Longrightarrow>
     run_local now i net = Some (net, [])"
  by (simp add: run_local_def tryConsumeTick_eq at_def)

lemma run_local_run:
  "i < length (n_routers net) \<Longrightarrow> alreadyScheduled now (r_consumer (n_routers net ! i)) \<Longrightarrow>
   Router_wakeup (n_config net) now (n_links net)
     \<lparr>rs_router = (n_routers net ! i)\<lparr>r_consumer := descheduleTick now (r_consumer (n_routers net ! i))\<rparr>,
      rs_acts = []\<rparr> = Some (lk, s) \<Longrightarrow>
     run_local now i net = Some (net\<lparr>n_routers := (n_routers net)[i := rs_router s], n_links := lk\<rparr>, rs_acts s)"
  by (simp add: run_local_def tryConsumeTick_eq at_def)

lemma router_links_consumer [simp]: "router_links (r\<lparr>r_consumer := c\<rparr>) = router_links r"
  by (simp add: router_links_def)

lemma run_local_links:
  assumes "run_local now i net = Some (net', acts)"
  shows "router_links (n_routers net' ! k) = router_links (n_routers net ! k)"
    "length (n_routers net') = length (n_routers net)" "n_config net' = n_config net"
    "n_period net' = n_period net"
proof -
  have "router_links (n_routers net' ! k) = router_links (n_routers net ! k)
      \<and> length (n_routers net') = length (n_routers net) \<and> n_config net' = n_config net
      \<and> n_period net' = n_period net"
    using assms
  proof (cases rule: run_local_Some)
    case idle
    then show ?thesis by simp
  next
    case (run lk s)
    from router_op_local [OF Router_wakeup_op [OF run(3)]]
    have "router_links (rs_router s) = router_links (n_routers net ! i)" by simp
    then show ?thesis using run(1,4) by (cases "k = i") auto
  qed
  then show "router_links (n_routers net' ! k) = router_links (n_routers net ! k)"
    "length (n_routers net') = length (n_routers net)" "n_config net' = n_config net"
    "n_period net' = n_period net" by auto
qed

lemma run_local_disjoint [garnet_inv]:
  "run_local now i net = Some (net', acts) \<Longrightarrow> links_disjoint net \<Longrightarrow> links_disjoint net'"
  using run_local_links [of now i net net' acts] by (simp add: links_disjoint_def)

lemma stores_merge:
  assumes "Li \<inter> Lj = {}" "agree_on Lj lk2 lk1'" "agree_on (- Lj) lk1' lk1" "agree_on Li lk1 lk2'"
    "agree_on (- Li) lk2' lk2" "agree_on (- Li) lk1 lk" "agree_on (- Lj) lk2 lk"
  shows "lk1' = lk2'"
proof
  fix l
  have "l \<in> Lj \<Longrightarrow> l \<notin> Li" using assms(1) by blast
  then show "lk1' l = lk2' l"
    using assms(2-) unfolding agree_on_def by (metis ComplI)
qed

lemma agree_on_disjoint: "A \<inter> B = {} \<Longrightarrow> agree_on (- A) x y \<Longrightarrow> agree_on B y x"
  unfolding agree_on_def by (metis ComplI disjoint_iff)

lemma run_local_commute:
  assumes dis: "links_disjoint net" and ij: "i \<noteq> j"
    and i: "run_local now i net = Some (n1, as)" and j: "run_local now j net = Some (n2, bs)"
  shows "\<exists>n3. run_local now j n1 = Some (n3, bs) \<and> run_local now i n2 = Some (n3, as)"
  using i
proof (cases rule: run_local_Some)
  case idle
  with j ij have "run_local now i n2 = Some (n2, [])"
    by (cases rule: run_local_Some) (auto intro!: run_local_idle)
  then show ?thesis using j idle(3,4) by simp
next
  case i: (run lk1 si)
  show ?thesis
    using j
  proof (cases rule: run_local_Some)
    case idle
    with i ij have "run_local now j n1 = Some (n1, [])" by (auto intro!: run_local_idle)
    then show ?thesis
      using idle(3,4) run_local_run [OF i(1,2,3)] i(4,5) by auto
  next
    case j: (run lk2 sj)
    let ?rs = "n_routers net" and ?lk = "n_links net"
    let ?Li = "router_links (?rs ! i)" and ?Lj = "router_links (?rs ! j)"
    have disj: "?Li \<inter> ?Lj = {}" using dis i(1) j(1) ij by (auto simp: links_disjoint_def)
    note wi = Router_wakeup_agree [OF i(3), simplified] and wj = Router_wakeup_agree [OF j(3), simplified]
    have agr: "agree_on ?Lj ?lk lk1" "agree_on ?Li ?lk lk2"
      using agree_on_disjoint [OF disj wi(1)] agree_on_disjoint [OF _ wj(1)] disj by auto
    from wj(2) [OF agr(1)] obtain lk1' where 1: "Router_wakeup (n_config net) now lk1
         \<lparr>rs_router = (?rs ! j)\<lparr>r_consumer := descheduleTick now (r_consumer (?rs ! j))\<rparr>, rs_acts = []\<rparr> = Some (lk1', sj)"
        "agree_on ?Lj lk2 lk1'" by blast
    from wi(2) [OF agr(2)] obtain lk2' where 2: "Router_wakeup (n_config net) now lk2
         \<lparr>rs_router = (?rs ! i)\<lparr>r_consumer := descheduleTick now (r_consumer (?rs ! i))\<rparr>, rs_acts = []\<rparr> = Some (lk2', si)"
        "agree_on ?Li lk1 lk2'" by blast
    note frame = Router_wakeup_agree(1) [OF 1(1), simplified] Router_wakeup_agree(1) [OF 2(1), simplified]
    have eq: "lk1' = lk2'"
      using stores_merge [OF disj 1(2) frame(1) 2(2) frame(2) wi(1) wj(1)] .
    have "run_local now j n1 = Some (n1\<lparr>n_routers := (n_routers n1)[j := rs_router sj], n_links := lk1'\<rparr>, rs_acts sj)"
      using i(4) j(1,2) ij 1(1) by (intro run_local_run) auto
    moreover have "run_local now i n2 = Some (n2\<lparr>n_routers := (n_routers n2)[i := rs_router si], n_links := lk2'\<rparr>, rs_acts si)"
      using j(4) i(1,2) ij 2(1) by (intro run_local_run) auto
    moreover have "?rs[i := rs_router si, j := rs_router sj] = ?rs[j := rs_router sj, i := rs_router si]"
      using ij by (rule list_update_swap)
    ultimately show ?thesis using i(4,5) j(4,5) eq by simp
  qed
qed

subsection \<open>The turns of different workers commute\<close>

definition par_inv :: "pstate \<Rightarrow> bool" where
  "par_inv p \<longleftrightarrow> links_disjoint (p_net p) \<and> distinct (concat (p_todo p)) \<and> length (p_pend p) = length (p_todo p)"

lemma run_local_frame:
  "run_local now i (net\<lparr>n_ring := g\<rparr>) = map_option (\<lambda>(n, as). (n\<lparr>n_ring := g\<rparr>, as)) (run_local now i net)"
  "run_local now i (net\<lparr>m_deferred_schedules := q\<rparr>)
     = map_option (\<lambda>(n, as). (n\<lparr>m_deferred_schedules := q\<rparr>, as)) (run_local now i net)"
  "run_local now i (net\<lparr>n_cons := cs\<rparr>) = map_option (\<lambda>(n, as). (n\<lparr>n_cons := cs\<rparr>, as)) (run_local now i net)"
  by (auto simp: run_local_def Let_def split: Option.bind_split prod.splits)

lemma run_local_micro:
  assumes "run_local now i net = Some (net', as)"
  shows "run_local now i (do_micro w m net) = Some (do_micro w m net', as)"
proof -
  have same: "n_ring net' = n_ring net" "m_deferred_schedules net' = m_deferred_schedules net"
    using assms by (cases rule: run_local_Some; simp)+
  show ?thesis
    using assms same by (cases m) (simp_all add: do_micro_def run_local_frame)
qed

lemma do_micro_links [simp]:
  "n_routers (do_micro w m net) = n_routers net" "n_period (do_micro w m net) = n_period net"
  "links_disjoint (do_micro w m net) = links_disjoint net"
  by (auto simp: do_micro_def links_disjoint_def split: micro.split)

lemma ring_ops_commute:
  "slot_fetch_or i a (slot_fetch_or j b r) = slot_fetch_or j b (slot_fetch_or i a r)"
  "slot_fetch_or i a (active_fetch_or j r) = active_fetch_or j (slot_fetch_or i a r)"
  "active_fetch_or i (active_fetch_or j r) = active_fetch_or j (active_fetch_or i r)"
proof -
  have swap: "xs[j := xs ! j OR b, i := xs[j := xs ! j OR b] ! i OR a]
      = xs[i := xs ! i OR a, j := xs[i := xs ! i OR a] ! j OR b]" for xs :: "mask64 list"
    by (cases "i = j"; cases "j < length xs") (auto simp: list_update_swap [of i j] list_update_beyond ac_simps)
  then show "slot_fetch_or i a (slot_fetch_or j b r) = slot_fetch_or j b (slot_fetch_or i a r)"
    by (simp add: slot_fetch_or_def)
  show "slot_fetch_or i a (active_fetch_or j r) = active_fetch_or j (slot_fetch_or i a r)"
    "active_fetch_or i (active_fetch_or j r) = active_fetch_or j (active_fetch_or i r)"
    by (auto simp: slot_fetch_or_def active_fetch_or_def Let_def or.assoc or.left_commute or.commute)
qed

lemma do_micro_commute:
  assumes "w \<noteq> v"
  shows "do_micro w a (do_micro v b net) = do_micro v b (do_micro w a net)"
proof (cases a; cases b)
  fix c t d u
  assume "a = MDefer c t" "b = MDefer d u"
  then show ?thesis using assms by (simp add: do_micro_def list_update_swap [of w v])
qed (auto simp: do_micro_def ring_ops_commute)

lemma par_step_cases:
  assumes "par_step now w p = Some q"
  obtains (micro) m ms where "w < length (p_todo p)" "p_pend p ! w = m # ms"
      "q = p\<lparr>p_net := do_micro w m (p_net p), p_pend := (p_pend p)[w := ms]\<rparr>"
  | (router) i iss net acts where "w < length (p_todo p)" "p_pend p ! w = []" "p_todo p ! w = i # iss"
      "run_local now i (p_net p) = Some (net, acts)"
      "q = p\<lparr>p_net := net, p_todo := (p_todo p)[w := iss],
        p_pend := (p_pend p)[w := concat (map (micros (n_period net)) acts)]\<rparr>"
  using assms
  by (auto simp: par_step_def bind_eq_Some_conv split: if_splits list.splits)

lemma par_step_micro:
  "w < length (p_todo p) \<Longrightarrow> p_pend p ! w = m # ms \<Longrightarrow>
     par_step now w p = Some (p\<lparr>p_net := do_micro w m (p_net p), p_pend := (p_pend p)[w := ms]\<rparr>)"
  by (simp add: par_step_def)

lemma par_step_router:
  "w < length (p_todo p) \<Longrightarrow> p_pend p ! w = [] \<Longrightarrow> p_todo p ! w = i # iss \<Longrightarrow>
   run_local now i (p_net p) = Some (net, acts) \<Longrightarrow>
     par_step now w p = Some (p\<lparr>p_net := net, p_todo := (p_todo p)[w := iss],
        p_pend := (p_pend p)[w := concat (map (micros (n_period net)) acts)]\<rparr>)"
  by (simp add: par_step_def)

lemma distinct_concat_drop:
  "distinct (concat xss) \<Longrightarrow> w < length xss \<Longrightarrow> xss ! w = i # iss \<Longrightarrow>
     distinct (concat (xss[w := iss])) \<and> set (concat (xss[w := iss])) \<subseteq> set (concat xss)"
proof (induction xss arbitrary: w)
  case (Cons xs xss)
  then show ?case by (cases w) auto
qed simp

lemma distinct_concat_heads:
  assumes "distinct (concat xss)" "w < length xss" "v < length xss" "v \<noteq> w"
  shows "set (xss ! w) \<inter> set (xss ! v) = {}"
  using assms
proof (induction xss arbitrary: w v)
  case (Cons xs xss)
  have "set (xss ! n) \<subseteq> set (concat xss)" if "n < length xss" for n
    using nth_mem [OF that] by auto
  then have "set xs \<inter> set (xss ! n) = {}" if "n < length xss" for n
    using that Cons.prems(1) by (metis Int_commute concat.simps(2) disjoint_iff distinct_append subsetD)
  then show ?case using Cons by (cases w; cases v) auto
qed simp

lemma par_inv_step: "par_inv p \<Longrightarrow> par_step now w p = Some q \<Longrightarrow> par_inv q"
  using run_local_disjoint
  by (elim par_step_cases) (simp_all add: par_inv_def distinct_concat_drop)

lemma par_diamond:
  assumes inv: "par_inv p" and "w \<noteq> v"
    and w: "par_step now w p = Some a" and v: "par_step now v p = Some b"
  shows "\<exists>c. par_step now v a = Some c \<and> par_step now w b = Some c"
  using w
proof (cases rule: par_step_cases)
  case w: (micro m ms)
  show ?thesis
    using v
  proof (cases rule: par_step_cases)
    case v: (micro m' ms')
    show ?thesis
      using w v \<open>w \<noteq> v\<close>
      by (simp add: par_step_micro do_micro_commute [of v w] list_update_swap [of v w])
  next
    case v: (router i iss net acts)
    note run_local_micro [OF v(4), of w m]
    with w v \<open>w \<noteq> v\<close> show ?thesis
      by (simp add: par_step_micro par_step_router list_update_swap [of v w])
  qed
next
  case w: (router j jss net acts)
  show ?thesis
    using v
  proof (cases rule: par_step_cases)
    case v: (micro m ms)
    note run_local_micro [OF w(4), of v m]
    with w v \<open>w \<noteq> v\<close> show ?thesis
      by (simp add: par_step_micro par_step_router list_update_swap [of v w])
  next
    case v: (router i iss net' acts')
    have "j \<noteq> i"
      using distinct_concat_heads [of "p_todo p" w v] inv w(1,3) v(1,3) \<open>w \<noteq> v\<close> by (auto simp: par_inv_def)
    from run_local_commute [OF _ this w(4) v(4)] inv obtain n3
      where "run_local now i net = Some (n3, acts')" "run_local now j net' = Some (n3, acts)"
      by (auto simp: par_inv_def)
    moreover have "n_period net = n_period n3" "n_period net' = n_period n3"
      using run_local_links(4) calculation by metis+
    ultimately show ?thesis
      using w v \<open>w \<noteq> v\<close> by (simp add: par_step_router list_update_swap [of v w])
  qed
qed

interpretation workers: worker_steps "par_step now" par_inv for now
  by unfold_locales (fact par_inv_step, fact par_diamond)

subsection \<open>The sequential loop is one of the interleavings\<close>

fun scheds :: "action list \<Rightarrow> (consumer_ref \<times> tick) list" where
  "scheds [] = []"
| "scheds (Sched c t # acts) = (c, t) # scheds acts"
| "scheds (Register i t # acts) = scheds acts"

lemma micro_run:
  assumes "w < length (p_todo p)" "w < length (p_pend p)"
  shows "for_list (par_step now) (replicate (length (p_pend p ! w)) w) p
     = Some (p\<lparr>p_net := fold (do_micro w) (p_pend p ! w) (p_net p), p_pend := (p_pend p)[w := []]\<rparr>)"
  using assms
proof (induction "p_pend p ! w" arbitrary: p)
  case Nil
  then have "(p_pend p)[w := []] = p_pend p" by (metis list_update_id)
  with Nil show ?case by simp
next
  case (Cons m ms)
  let ?p = "p\<lparr>p_net := do_micro w m (p_net p), p_pend := (p_pend p)[w := ms]\<rparr>"
  have "par_step now w p = Some ?p" using Cons.prems Cons.hyps(2) by (simp add: par_step_micro)
  moreover have "length (p_pend p ! w) = Suc (length ms)" using Cons.hyps(2) [symmetric] by simp
  ultimately show ?case
    using Cons.hyps(1) [of ?p] Cons.prems Cons.hyps(2) [symmetric] by simp
qed

lemma Net_ring_first:
  "net\<lparr>n_cons := cs, m_deferred_schedules := d, n_ring := g\<rparr> = net\<lparr>n_ring := g, n_cons := cs, m_deferred_schedules := d\<rparr>"
  by simp

lemma micros_apply_acts:
  assumes "w < length d" "n_period net = P"
  shows "fold (do_micro w) (concat (map (micros P) acts)) (net\<lparr>n_cons := cs, m_deferred_schedules := d\<rparr>)
     = (fold (apply_act now) acts net)\<lparr>n_cons := cs, m_deferred_schedules := d[w := d ! w @ scheds acts]\<rparr>"
  using assms
proof (induction acts arbitrary: net d)
  case Nil
  then show ?case by simp
next
  case (Cons a acts)
  show ?case
  proof (cases a)
    case (Sched c t)
    from Cons.IH [of "d[w := d ! w @ [(c, t)]]" "net\<lparr>n_cons := cons_schedule now (c, t) (n_cons net)\<rparr>"] Cons.prems Sched
    show ?thesis by (simp add: micros_def do_micro_def apply_act_def)
  next
    case (Register i t)
    from Cons.IH [of d "net\<lparr>n_ring := registerWakeup P i t (n_ring net)\<rparr>"] Cons.prems Register
    show ?thesis by (simp add: micros_def do_micro_def apply_act_def registerWakeup_def Let_def Net_ring_first)
  qed
qed

lemma apply_acts_frame:
  "n_cons (fold (apply_act now) acts net) = fold (cons_schedule now) (scheds acts) (n_cons net)"
  "n_period (fold (apply_act now) acts net) = n_period net"
  "m_deferred_schedules (fold (apply_act now) acts net) = m_deferred_schedules net"
  "n_routers (fold (apply_act now) acts net) = n_routers net"
  "m_num_threads (fold (apply_act now) acts net) = m_num_threads net"
  by (induction acts arbitrary: net rule: scheds.induct) (auto simp: apply_act_def)

lemma run_local_frame_deferred:
  "run_local now i net = Some (n1, acts) \<Longrightarrow>
   run_local now i (net\<lparr>n_cons := cs, m_deferred_schedules := d\<rparr>)
     = Some (n1\<lparr>n_cons := cs, m_deferred_schedules := d\<rparr>, acts)"
  by (simp add: run_local_frame)

lemma run_local_keeps:
  assumes "run_local now i net = Some (n1, acts)"
  shows "n_cons n1 = n_cons net" "m_deferred_schedules n1 = m_deferred_schedules net"
    "i < length (n_routers net)" "m_num_threads n1 = m_num_threads net"
  using assms by (cases rule: run_local_Some; simp)+

text \<open>One router, in the sequential loop and as turns of the worker that owns it.\<close>

lemma one_router_turns:
  assumes run: "run_router now i net = Some net1"
    and p: "p_net p = net\<lparr>n_cons := cs, m_deferred_schedules := d\<rparr>" "length d = length (p_todo p)"
      "p_pend p = replicate (length (p_todo p)) []" "w < length (p_todo p)" "p_todo p ! w = i # iss"
  shows "\<exists>ws S. for_list (par_step now) ws p
       = Some (p\<lparr>p_net := net1\<lparr>n_cons := cs, m_deferred_schedules := d[w := d ! w @ S]\<rparr>, p_todo := (p_todo p)[w := iss]\<rparr>)
     \<and> n_cons net1 = fold (cons_schedule now) S (n_cons net) \<and> n_period net1 = n_period net
     \<and> m_deferred_schedules net1 = m_deferred_schedules net
     \<and> length (n_routers net1) = length (n_routers net) \<and> i < length (n_routers net)"
proof -
  from run obtain n1 acts where n1: "run_local now i net = Some (n1, acts)"
      and net1: "net1 = fold (apply_act now) acts n1"
    by (auto simp: run_router_def bind_eq_Some_conv)
  let ?ms = "concat (map (micros (n_period n1)) acts)"
  let ?q = "p\<lparr>p_net := n1\<lparr>n_cons := cs, m_deferred_schedules := d\<rparr>, p_todo := (p_todo p)[w := iss],
        p_pend := (p_pend p)[w := ?ms]\<rparr>"
  have "par_step now w p = Some ?q"
    using par_step_router [OF p(4) _ p(5)] run_local_frame_deferred [OF n1] p(1,3,4) by simp
  moreover have "for_list (par_step now) (replicate (length (p_pend ?q ! w)) w) ?q
      = Some (?q\<lparr>p_net := fold (do_micro w) (p_pend ?q ! w) (p_net ?q), p_pend := (p_pend ?q)[w := []]\<rparr>)"
    using p(3,4) by (intro micro_run) auto
  moreover have "(replicate (length (p_todo p)) [])[w := []] = (replicate (length (p_todo p)) [] :: micro list list)"
    by (simp add: list_update_same_conv p(4))
  ultimately have "for_list (par_step now) (w # replicate (length ?ms) w) p
       = Some (p\<lparr>p_net := net1\<lparr>n_cons := cs, m_deferred_schedules := d[w := d ! w @ scheds acts]\<rparr>, p_todo := (p_todo p)[w := iss]\<rparr>)"
    using p(2,3,4) micros_apply_acts [where w = w and d = d and net = n1 and cs = cs and acts = acts and now = now, OF _ refl] net1 by simp
  then show ?thesis
    using apply_acts_frame [of now acts n1] net1 run_local_keeps [OF n1] run_local_links(2,4) [OF n1]
    by (intro exI [of _ "w # replicate (length ?ms) w"] exI [of _ "scheds acts"]) simp
qed

lemma mset_concat_update:
  "w < length d \<Longrightarrow> mset (concat (d[w := d ! w @ S])) = mset (concat d) + mset S"
proof (induction d arbitrary: w)
  case (Cons x d)
  then show ?case by (cases w) auto
qed simp

lemma filter_tasks_update:
  assumes "\<forall>v<length todo. todo ! v = filter (\<lambda>k. owner k = v) (i # L)" "owner i < length todo"
  shows "\<forall>v<length todo. todo[owner i := filter (\<lambda>k. owner k = owner i) L] ! v = filter (\<lambda>k. owner k = v) L"
  using assms by (auto simp: nth_list_update)

lemma sequential_schedule:
  assumes "for_list (run_router now) L net = Some net'"
    and "p_net p = net\<lparr>n_cons := cs, m_deferred_schedules := d\<rparr>" "length d = length (p_todo p)"
      "p_pend p = replicate (length (p_todo p)) []"
      "\<forall>w<length (p_todo p). p_todo p ! w = filter (\<lambda>i. owner i = w) L"
      "\<forall>i\<in>set L. owner i < length (p_todo p)"
  shows "\<exists>ws q S d'. for_list (par_step now) ws p = Some q \<and> par_done q \<and> length (p_todo q) = length (p_todo p)
     \<and> p_net q = net'\<lparr>n_cons := cs, m_deferred_schedules := d'\<rparr> \<and> length d' = length d
     \<and> mset (concat d') = mset (concat d) + mset S
     \<and> n_cons net' = fold (cons_schedule now) S (n_cons net)
     \<and> m_deferred_schedules net' = m_deferred_schedules net"
  using assms
proof (induction L arbitrary: net p d)
  case Nil
  then have "par_done p"
    by (auto simp: par_done_def list_all_length)
  then show ?case
    using Nil by (intro exI [of _ "[]"] exI [of _ p] exI [of _ d]) auto
next
  case (Cons i L)
  let ?w = "owner i"
  from Cons.prems(1) obtain net1 where net1: "run_router now i net = Some net1"
    "for_list (run_router now) L net1 = Some net'" by (auto simp: bind_eq_Some_conv)
  have w: "?w < length (p_todo p)" "p_todo p ! ?w = i # filter (\<lambda>k. owner k = ?w) L"
    using Cons.prems(5,6) by auto
  from one_router_turns [OF net1(1) Cons.prems(2,3,4) w] obtain ws S where
    ws: "for_list (par_step now) ws p = Some (p\<lparr>p_net := net1\<lparr>n_cons := cs, m_deferred_schedules := d[?w := d ! ?w @ S]\<rparr>,
       p_todo := (p_todo p)[?w := filter (\<lambda>k. owner k = ?w) L]\<rparr>)"
    and S: "n_cons net1 = fold (cons_schedule now) S (n_cons net)"
      "m_deferred_schedules net1 = m_deferred_schedules net" by blast
  let ?p = "p\<lparr>p_net := net1\<lparr>n_cons := cs, m_deferred_schedules := d[?w := d ! ?w @ S]\<rparr>,
       p_todo := (p_todo p)[?w := filter (\<lambda>k. owner k = ?w) L]\<rparr>"
  have "\<exists>ws q S' d'. for_list (par_step now) ws ?p = Some q \<and> par_done q \<and> length (p_todo q) = length (p_todo ?p)
     \<and> p_net q = net'\<lparr>n_cons := cs, m_deferred_schedules := d'\<rparr> \<and> length d' = length (d[?w := d ! ?w @ S])
     \<and> mset (concat d') = mset (concat (d[?w := d ! ?w @ S])) + mset S'
     \<and> n_cons net' = fold (cons_schedule now) S' (n_cons net1)
     \<and> m_deferred_schedules net' = m_deferred_schedules net1"
    using Cons.prems(3,4,6) filter_tasks_update [OF Cons.prems(5) w(1)]
    by (intro Cons.IH [OF net1(2)]) simp_all
  then obtain vs q S' d' where
    vs: "for_list (par_step now) vs ?p = Some q" "par_done q" "length (p_todo q) = length (p_todo p)"
      "p_net q = net'\<lparr>n_cons := cs, m_deferred_schedules := d'\<rparr>" "length d' = length d"
      "mset (concat d') = mset (concat d) + mset S + mset S'"
      "n_cons net' = fold (cons_schedule now) S' (n_cons net1)"
      "m_deferred_schedules net' = m_deferred_schedules net1"
    using mset_concat_update [of ?w d S] w(1) Cons.prems(3) by auto
  show ?case
    using vs ws S
    by (intro exI [of _ "ws @ vs"] exI [of _ q] exI [of _ "S @ S'"] exI [of _ d']) (simp add: for_list_append)
qed

subsection \<open>Deferred requests may be drained in any order\<close>

lemma cons_schedule_fold:
  "fold (cons_schedule now) S cons c
     = fold (scheduleEventAbsolute now) (map snd (filter (\<lambda>e. fst e = c) S)) (cons c)"
  by (induction S arbitrary: cons) (auto simp: cons_schedule_def)

lemma cons_schedule_order:
  assumes "\<And>c. Consumer_wf (cons c)" "mset S = mset S'"
  shows "fold (cons_schedule now) S cons = fold (cons_schedule now) S' cons"
proof
  fix c
  have "set (map snd (filter (\<lambda>e. fst e = c) S)) = set (map snd (filter (\<lambda>e. fst e = c) S'))"
    using mset_eq_setD [OF assms(2)] by simp
  then show "fold (cons_schedule now) S cons c = fold (cons_schedule now) S' cons c"
    unfolding cons_schedule_fold by (rule scheduleAbsolute_order [OF assms(1)])
qed

subsection \<open>Every interleaving has the effect of the sequential loop\<close>

definition workers_ok :: "Net \<Rightarrow> bool" where
  "workers_ok net \<longleftrightarrow> 0 < m_num_threads net \<and> length (n_routers net) \<le> 64
     \<and> m_thread_router_mask net = thread_router_mask (m_num_threads net) (length (n_routers net))
     \<and> m_deferred_schedules net = replicate (m_num_threads net) []
     \<and> links_disjoint net \<and> (\<forall>c. Consumer_wf (n_cons net c))"

lemma run_routers_in_range:
  "for_list (run_router now) L net = Some net' \<Longrightarrow> i \<in> set L \<Longrightarrow> i < length (n_routers net)"
proof (induction L arbitrary: net)
  case (Cons k L)
  then obtain net1 where net1: "run_router now k net = Some net1" "for_list (run_router now) L net1 = Some net'"
    by (auto simp: bind_eq_Some_conv)
  from net1(1) obtain n1 acts where "run_local now k net = Some (n1, acts)" "net1 = fold (apply_act now) acts n1"
    by (auto simp: run_router_def bind_eq_Some_conv)
  with net1(2) have n1: "run_local now k net = Some (n1, acts)"
      "for_list (run_router now) L (fold (apply_act now) acts n1) = Some net'" by auto
  show ?case
    using Cons.IH [OF n1(2)] Cons.prems(2) run_local_keeps(3) [OF n1(1)] run_local_links(2) [OF n1(1)]
    by (auto simp: apply_acts_frame)
qed simp

lemma par_start_tasks:
  assumes "workers_ok net" "\<And>i. bit msk i \<Longrightarrow> i < length (n_routers net)" "w < m_num_threads net"
  shows "p_todo (par_start msk net) ! w = filter (\<lambda>i. i mod m_num_threads net = w) (mask_bits msk)"
proof -
  note spec = thread_router_mask_spec [of "m_num_threads net" "length (n_routers net)"]
  have "p_todo (par_start msk net) ! w = filter (bit (msk AND m_thread_router_mask net ! w)) [0..<64]"
    using assms(1,3) spec(1) by (simp add: par_start_def workers_ok_def mask_bits_def)
  also have "\<dots> = filter (\<lambda>i. bit msk i \<and> i mod m_num_threads net = w) [0..<64]"
    using assms spec(2) by (intro filter_cong) (auto simp: workers_ok_def bit_and_iff)
  finally show ?thesis by (simp add: mask_bits_def conj_commute)
qed

lemma distinct_concat_filter:
  assumes "distinct xs"
  shows "distinct (concat (map (\<lambda>w. filter (\<lambda>i. f i = w) xs) [0..<n]))"
  by (induction n) (use assms in auto)

lemma par_start_facts:
  assumes "workers_ok net" "\<And>i. bit msk i \<Longrightarrow> i < length (n_routers net)"
  shows "length (p_todo (par_start msk net)) = m_num_threads net"
    "p_pend (par_start msk net) = replicate (m_num_threads net) []"
    "p_net (par_start msk net) = net" "par_inv (par_start msk net)"
proof -
  show len: "length (p_todo (par_start msk net)) = m_num_threads net"
      "p_pend (par_start msk net) = replicate (m_num_threads net) []"
      "p_net (par_start msk net) = net"
    using assms(1) thread_router_mask_spec(1) [of "m_num_threads net" "length (n_routers net)"]
    by (auto simp: par_start_def workers_ok_def map_replicate_const)
  have "p_todo (par_start msk net)
      = map (\<lambda>w. filter (\<lambda>i. i mod m_num_threads net = w) (mask_bits msk)) [0..<m_num_threads net]"
    by (rule nth_equalityI) (use len(1) par_start_tasks [OF assms] in auto)
  then show "par_inv (par_start msk net)"
    using assms(1) len distinct_concat_filter [of "mask_bits msk" "\<lambda>i. i mod m_num_threads net"]
    by (simp add: par_inv_def workers_ok_def)
qed

lemma par_done_quiescent: "par_done p \<Longrightarrow> length (p_pend p) = length (p_todo p) \<Longrightarrow> workers.quiescent now p"
  by (auto simp: workers.quiescent_def par_step_def par_done_def list_all_length)

text \<open>A complete schedule exists, its result drains to the sequential result, and it is the only
  complete result.\<close>

lemma region_schedule:
  assumes ok: "workers_ok net" and seq: "runRoutersFromMask msk now net = Some net'"
  shows "\<exists>ws q. for_list (par_step now) ws (par_start msk net) = Some q \<and> par_done q
     \<and> workers.quiescent now q \<and> drainDeferredSchedules now (p_net q) = net'"
proof -
  let ?n = "m_num_threads net" and ?p = "par_start msk net"
  have seq': "for_list (run_router now) (mask_bits msk) net = Some net'"
    using seq by (simp add: runRoutersFromMask_def mask_loop_eq)
  have range: "bit msk i \<Longrightarrow> i < length (n_routers net)" for i
    using run_routers_in_range [OF seq'] by simp
  note start = par_start_facts [OF ok range]
  have "?n > 0" "m_deferred_schedules net = replicate ?n []" using ok by (auto simp: workers_ok_def)
  with sequential_schedule [OF seq', where p = ?p and cs = "n_cons net" and d = "replicate ?n []" and owner = "\<lambda>i. i mod ?n"]
    start(1-3) par_start_tasks [OF ok range] obtain ws q S d' where
    q: "for_list (par_step now) ws ?p = Some q" "par_done q"
      "p_net q = net'\<lparr>n_cons := n_cons net, m_deferred_schedules := d'\<rparr>" "length d' = ?n"
      "mset (concat d') = mset S" "n_cons net' = fold (cons_schedule now) S (n_cons net)"
      "m_deferred_schedules net' = replicate ?n []"
    by auto
  have "fold (cons_schedule now) (concat d') (n_cons net) = n_cons net'"
    using cons_schedule_order [OF _ q(5)] ok q(6) by (auto simp: workers_ok_def)
  moreover have "map (\<lambda>q. []) d' = m_deferred_schedules net'"
    using q(4,7) by (simp add: map_replicate_const)
  ultimately have "drainDeferredSchedules now (p_net q) = net'"
    using q(3) by (simp add: drainDeferredSchedules_def)
  moreover have "workers.quiescent now q"
    using workers.run_inv [OF start(4) q(1)] q(2) by (intro par_done_quiescent) (simp_all add: par_inv_def)
  ultimately show ?thesis using q(1,2) by blast
qed

lemma region_agrees:
  assumes ok: "workers_ok net" and seq: "runRoutersFromMask msk now net = Some net'"
  shows "\<exists>N. (\<forall>us r. for_list (par_step now) us (par_start msk net) = Some r \<longrightarrow>
        length us \<le> N \<and> (\<exists>vs. length us + length vs = N \<and>
          map_option (drainDeferredSchedules now) (parallel_region (us @ vs) msk now net) = Some net'))
      \<and> (\<forall>us net2. parallel_region us msk now net = Some net2 \<longrightarrow>
          length us = N \<and> drainDeferredSchedules now net2 = net')"
proof -
  from region_schedule [OF assms] obtain ws q where
    q: "for_list (par_step now) ws (par_start msk net) = Some q" "par_done q" "workers.quiescent now q"
      "drainDeferredSchedules now (p_net q) = net'" by blast
  have inv: "par_inv (par_start msk net)"
    using par_start_facts(4) [OF ok] run_routers_in_range seq
    by (simp add: runRoutersFromMask_def mask_loop_eq)
  note complete = workers.run_completes [OF inv q(1,3)] and agree = workers.all_runs_agree [OF inv q(1,3)]
  show ?thesis
  proof (intro exI [of _ "length ws"] conjI allI impI)
    fix us r
    assume us: "for_list (par_step now) us (par_start msk net) = Some r"
    then show "length us \<le> length ws" by (rule agree)
    from complete [OF us] obtain vs where vs: "length us + length vs = length ws"
      "for_list (par_step now) vs r = Some q" by blast
    then have "parallel_region (us @ vs) msk now net = Some (p_net q)"
      using us q(2) by (simp add: parallel_region_def for_list_append)
    then show "\<exists>vs. length us + length vs = length ws \<and>
          map_option (drainDeferredSchedules now) (parallel_region (us @ vs) msk now net) = Some net'"
      using vs(1) q(4) by auto
  next
    fix us net2
    assume "parallel_region us msk now net = Some net2"
    then obtain r where r: "for_list (par_step now) us (par_start msk net) = Some r" "par_done r" "net2 = p_net r"
      by (auto simp: parallel_region_def bind_eq_Some_conv)
    have "workers.quiescent now r"
      using workers.run_inv [OF inv r(1)] r(2) by (intro par_done_quiescent) (simp_all add: par_inv_def)
    moreover from complete [OF r(1)] obtain vs where "length us + length vs = length ws"
      "for_list (par_step now) vs r = Some q" by blast
    ultimately show "length us = length ws" "drainDeferredSchedules now net2 = net'"
      using agree(2) [OF r(1)] r(3) q(4) by (cases vs; auto simp: workers.quiescent_def)+
  qed
qed

lemma for_list_frame:
  "(\<And>x s. f x (g s) = map_option g (f x s)) \<Longrightarrow> for_list f xs (g s) = map_option g (for_list f xs s)"
  by (induction xs arbitrary: s) (auto split: Option.bind_split)

lemma run_router_threads:
  "run_router now i (net\<lparr>m_num_threads := k\<rparr>) = map_option (\<lambda>n. n\<lparr>m_num_threads := k\<rparr>) (run_router now i net)"
proof -
  have "run_local now i (net\<lparr>m_num_threads := k\<rparr>)
      = map_option (\<lambda>(n, as). (n\<lparr>m_num_threads := k\<rparr>, as)) (run_local now i net)"
    by (auto simp: run_local_def Let_def split: Option.bind_split prod.splits)
  moreover have "apply_act now a (n\<lparr>m_num_threads := k\<rparr>) = (apply_act now a n)\<lparr>m_num_threads := k\<rparr>" for a n
    by (simp add: apply_act_def split: action.split)
  then have "fold (apply_act now) as (n\<lparr>m_num_threads := k\<rparr>) = (fold (apply_act now) as n)\<lparr>m_num_threads := k\<rparr>" for as n
    by (induction as arbitrary: n) auto
  ultimately show ?thesis by (auto simp: run_router_def split: Option.bind_split)
qed

lemma runRoutersFromMask_threads:
  "runRoutersFromMask msk now (net\<lparr>m_num_threads := k\<rparr>)
     = map_option (\<lambda>n. n\<lparr>m_num_threads := k\<rparr>) (runRoutersFromMask msk now net)"
  unfolding runRoutersFromMask_def mask_loop_eq
  by (rule for_list_frame [where g = "\<lambda>n. n\<lparr>m_num_threads := k\<rparr>"]) (rule run_router_threads)

lemma runRoutersFromMask_keeps:
  assumes "runRoutersFromMask msk now net = Some n"
  shows "m_num_threads n = m_num_threads net"
  using assms unfolding runRoutersFromMask_def mask_loop_eq
  by (rule for_list_invariant [where P = "\<lambda>n. m_num_threads n = m_num_threads net"])
    (auto simp: run_router_def bind_eq_Some_conv apply_acts_frame dest: run_local_keeps(4))

lemma globalWakeup_eq:
  assumes "take_slot (slot_idx (n_period net) now) (n_ring net) = (msk, ring1)"
  shows "globalWakeup ws now net =
    map_option (\<lambda>n. n\<lparr>n_global := Some (computeNextWakeupTick (int (slot_idx (n_period net) now)) now (n_period n) (n_ring n))\<rparr>)
      (if m_num_threads net \<le> 1 \<or> popcount msk < m_parallel_threshold net \<or> msk = 0
       then runRoutersFromMask msk now (net\<lparr>n_ring := ring1\<rparr>)
       else map_option (drainDeferredSchedules now) (parallel_region ws msk now (net\<lparr>n_ring := ring1\<rparr>)))"
proof (cases "msk = 0")
  case True
  then show ?thesis using assms
    by (simp add: globalWakeup_def runRoutersFromMask_def mask_loop.simps [of _ 0])
next
  case False
  then show ?thesis using assms
    by (auto simp: globalWakeup_def split: Option.bind_split)
qed


text \<open>A network of two routers and two threads: router 0 has a flit waiting, router 1 has no ports.\<close>

definition ex_cons :: Consumer where
  "ex_cons = (Consumer_new 500)\<lparr>m_wakeup_ticks := [500]\<rparr>"

definition ex_net :: Net where
  "ex_net = \<lparr>n_config = ex_config, n_period = 500,
     n_routers = [ex_router\<lparr>r_consumer := ex_cons\<rparr>,
       (Router_init (Router_new 1 500 1 1 1 16 (\<lambda>_. 0)))\<lparr>r_consumer := ex_cons\<rparr>],
     n_links = ex_links, n_ring = registerWakeup 500 0 500 (registerWakeup 500 1 500 ring_new),
     n_cons = (\<lambda>_. Consumer_new 500), n_global = None, m_num_threads = 2, m_parallel_threshold = 0,
     m_thread_router_mask = thread_router_mask 2 2, m_deferred_schedules = [[], []]\<rparr>"

lemma ex_net_ok: "workers_ok ex_net"
proof -
  have "router_links (Router_init (Router_new 1 500 1 1 1 16 (\<lambda>_. 0))) = {}"
    by (simp add: router_links_def Router_new_def Router_init_def)
  then have "router_links (n_routers ex_net ! 1) = {}" "length (n_routers ex_net) = 2"
    by (simp_all add: ex_net_def)
  then have "links_disjoint ex_net"
    by (auto simp: links_disjoint_def less_2_cases_iff)
  moreover have "Consumer_wf (Consumer_new 500)"
    by (simp add: Consumer_wf_def Consumer_new_def pending_def)
  ultimately show ?thesis by (simp add: workers_ok_def ex_net_def numeral_2_eq_2)
qed

lemma ex_net_runs: "\<exists>net'. runRoutersFromMask 3 500 (ex_net\<lparr>n_ring := g\<rparr>) = Some net'"
proof -
  have bits: "mask_bits 3 = [0, 1]" by code_simp
  have c: "r_consumer ex_router = descheduleTick 500 ex_cons" "alreadyScheduled 500 ex_cons"
    by (simp_all add: ex_router_def router_build ex_config_simps ex_cons_def descheduleTick_def alreadyScheduled_def)
  then have r: "ex_router\<lparr>r_consumer := descheduleTick 500 ex_cons\<rparr> = ex_router" by (cases ex_router) simp
  from ex_wakeup obtain lk' t where
    "Router_wakeup ex_config 500 ex_links
       \<lparr>rs_router = ex_router\<lparr>r_consumer := descheduleTick 500 ex_cons\<rparr>, rs_acts = []\<rparr> = Some (lk', t)" unfolding r by blast
  then have 0: "run_local 500 0 ex_net = Some (ex_net\<lparr>n_routers := (n_routers ex_net)[0 := rs_router t], n_links := lk'\<rparr>, rs_acts t)"
    using c by (intro run_local_run) (simp_all add: ex_net_def)
  have 1: "\<exists>n as. run_local 500 1 net = Some (n, as)"
    if "n_routers net ! 1 = n_routers ex_net ! 1" "length (n_routers net) = 2" for net
    using that c(2)
    by (simp add: run_local_def at_def ex_net_def tryConsumeTick_eq Router_init_def Router_new_def Let_def
        SwitchAllocator_new_def CrossbarSwitch_new_def SwitchAllocator_init_def CrossbarSwitch_init_def
        Router_wakeup_def SwitchAllocator_wakeup_def arbitrate_inports_def arbitrate_outports_def for_range_def
        CrossbarSwitch_wakeup_def clear_request_vector_def check_for_wakeup_def router_edge_def clock_edge_def
        divCeil_def ex_cons_def descheduleTick_def Consumer_new_def alreadyScheduled_def)
  let ?n1 = "ex_net\<lparr>n_routers := (n_routers ex_net)[0 := rs_router t], n_links := lk', n_ring := g\<rparr>"
  have "run_local 500 0 (ex_net\<lparr>n_ring := g\<rparr>) = Some (?n1, rs_acts t)" using 0 by (simp add: run_local_frame)
  then show ?thesis
    using 1 [of "fold (apply_act 500) (rs_acts t) ?n1"]
    by (auto simp: runRoutersFromMask_def mask_loop_eq bits run_router_def apply_acts_frame ex_net_def)
qed




end
