(* ===== verification/Garnet_Network.thy ===== *)
theory Garnet_Network
  imports Ruby_Network Network_Interface Garnet_Wakeup
begin

text \<open>
  The Garnet network as a whole (\<^verbatim>\<open>garnet/GarnetNetwork.{hh,cc}\<close>): construction, the wiring of routers, network
  interfaces, links and bridges in \<^verbatim>\<open>makeExtInLink\<close>, \<^verbatim>\<open>makeExtOutLink\<close> and \<^verbatim>\<open>makeInternalLink\<close>, and initialisation.

  Links and bridges are objects that routers and interfaces refer to, so they are in a store \<open>gn_objs\<close>; the wiring sets
  the consumer and the source queue of an object.  \<open>gn_ext\<close> and \<open>gn_int\<close> give the Garnet link behind the reference in a
  \<open>BasicLink\<close>; a reference of the wrong kind is the failure of \<^verbatim>\<open>safe_cast\<close>.
\<close>

subsection \<open>Link objects\<close>

datatype link_obj = Plain NetworkLink | Bridge NetworkBridge

type_synonym link_objs = "link_id \<rightharpoonup> link_obj"

fun obj_link :: "link_obj \<Rightarrow> NetworkLink" where
  "obj_link (Plain l) = l"
| "obj_link (Bridge b) = NetworkLink.truncate b"

fun obj_setLinkConsumer :: "consumer_ref \<Rightarrow> link_obj \<Rightarrow> link_obj" where
  "obj_setLinkConsumer c (Plain l) = Plain (setLinkConsumer c l)"
| "obj_setLinkConsumer c (Bridge b) = Bridge (setLinkConsumer c b)"

fun obj_setSourceQueue :: "queue_ref \<Rightarrow> link_obj \<Rightarrow> link_obj" where
  "obj_setSourceQueue q (Plain l) = Plain (setSourceQueue q l)"
| "obj_setSourceQueue q (Bridge b) = Bridge (setSourceQueue q b)"

fun obj_setType :: "link_type \<Rightarrow> link_obj \<Rightarrow> link_obj" where
  "obj_setType ty (Plain l) = Plain (setType ty l)"
| "obj_setType ty (Bridge b) = Bridge (setType ty b)"

fun obj_resetStats :: "link_obj \<Rightarrow> link_obj" where
  "obj_resetStats (Plain l) = Plain (NetworkLink_resetStats l)"
| "obj_resetStats (Bridge b) = Bridge (NetworkLink_resetStats b)"

definition upd_obj :: "(link_obj \<Rightarrow> link_obj) \<Rightarrow> link_id \<Rightarrow> link_objs \<Rightarrow> link_objs option" where
  "upd_obj f l objs = do { x \<leftarrow> objs l; Some (objs(l \<mapsto> f x)) }"

text \<open>\<^verbatim>\<open>setVcsPerVnet\<close> is virtual: on a bridge it goes on to the link beside it.\<close>

partial_function (option) set_vcs :: "nat \<Rightarrow> link_id \<Rightarrow> link_objs \<Rightarrow> link_objs option" where
  "set_vcs n l objs =
     (case objs l of
        None \<Rightarrow> None
      | Some x \<Rightarrow>
          (case x of
             Plain k \<Rightarrow> Some (objs(l \<mapsto> Plain (setVcsPerVnet n k)))
           | Bridge b \<Rightarrow> set_vcs n (nLink b) (objs(l \<mapsto> Bridge (NetworkBridge_setVcsPerVnet n b)))))"

subsection \<open>The state\<close>

record GarnetNetwork =
  gn_config :: GarnetConfig
  gn_net :: Network
  m_routers :: "Router list"
  m_nis :: "NetworkInterface list"
  gn_in :: "MessageBuffer option list list"
  gn_out :: "MessageBuffer option list list"
  gn_objs :: link_objs
  gn_ext :: "nat \<rightharpoonup> GarnetExtLink"
  gn_int :: "nat \<rightharpoonup> GarnetIntLink"
  m_networklinks :: "link_id list"
  m_creditlinks :: "link_id list"
  m_networkbridges :: "link_id list"
  m_max_vcs_per_vnet :: nat

subsection \<open>Attaching ports\<close>

text \<open>The whole of \<^verbatim>\<open>addInPort\<close> and \<^verbatim>\<open>addOutPort\<close> of routers and interfaces: the part of the object and that of the links.\<close>

definition router_addInPort :: "nat \<Rightarrow> PortDirection \<Rightarrow> link_id \<Rightarrow> link_id \<Rightarrow> GarnetNetwork \<Rightarrow> GarnetNetwork option" where
  "router_addInPort i inport_dirn in_link credit_link g =
     do { r \<leftarrow> at (m_routers g) i;
          l \<leftarrow> gn_objs g in_link;
          r1 \<leftarrow> Router_addInPort inport_dirn (bitWidth (obj_link l)) in_link credit_link r;
          o1 \<leftarrow> upd_obj (obj_setLinkConsumer (CRouter (r_id r))) in_link (gn_objs g);
          o2 \<leftarrow> set_vcs (r_vc_per_vnet r) in_link o1;
          o3 \<leftarrow> upd_obj (obj_setSourceQueue (QInputCredit (r_id r) (length (m_input_unit r)))) credit_link o2;
          o4 \<leftarrow> set_vcs (r_vc_per_vnet r) credit_link o3;
          Some (g\<lparr>m_routers := (m_routers g)[i := r1], gn_objs := o4\<rparr>) }"

definition router_addOutPort ::
  "nat \<Rightarrow> PortDirection \<Rightarrow> link_id \<Rightarrow> NetDest list \<Rightarrow> int \<Rightarrow> link_id \<Rightarrow> nat \<Rightarrow> GarnetNetwork \<Rightarrow> GarnetNetwork option"
where
  "router_addOutPort i outport_dirn out_link routing_table_entry link_weight credit_link consumerVcs g =
     do { r \<leftarrow> at (m_routers g) i;
          l \<leftarrow> gn_objs g out_link;
          r1 \<leftarrow> Router_addOutPort (gn_config g) outport_dirn (bitWidth (obj_link l)) out_link routing_table_entry
            link_weight credit_link consumerVcs r;
          o1 \<leftarrow> upd_obj (obj_setLinkConsumer (CRouter (r_id r))) credit_link (gn_objs g);
          o2 \<leftarrow> set_vcs consumerVcs credit_link o1;
          o3 \<leftarrow> upd_obj (obj_setSourceQueue (QOutput (r_id r) (length (m_output_unit r)))) out_link o2;
          o4 \<leftarrow> set_vcs consumerVcs out_link o3;
          Some (g\<lparr>m_routers := (m_routers g)[i := r1], gn_objs := o4\<rparr>) }"

definition ni_addInPort :: "nat \<Rightarrow> link_id \<Rightarrow> link_id \<Rightarrow> GarnetNetwork \<Rightarrow> GarnetNetwork option" where
  "ni_addInPort i in_link credit_link g =
     do { ni \<leftarrow> at (m_nis g) i;
          l \<leftarrow> gn_objs g in_link;
          let ni1 = NetworkInterface_addInPort (obj_link l) credit_link ni;
          o1 \<leftarrow> upd_obj (obj_setLinkConsumer (CNetIf (ni_id ni))) in_link (gn_objs g);
          o2 \<leftarrow> upd_obj (obj_setSourceQueue (QNetIfCredit (ni_id ni) (length (inPorts ni)))) credit_link o1;
          o3 \<leftarrow> (if ni_vc_per_vnet ni \<noteq> 0
                then do { o2a \<leftarrow> set_vcs (ni_vc_per_vnet ni) in_link o2; set_vcs (ni_vc_per_vnet ni) credit_link o2a }
                else Some o2);
          Some (g\<lparr>m_nis := (m_nis g)[i := ni1], gn_objs := o3\<rparr>) }"

definition ni_addOutPort :: "nat \<Rightarrow> link_id \<Rightarrow> link_id \<Rightarrow> nat \<Rightarrow> nat \<Rightarrow> GarnetNetwork \<Rightarrow> GarnetNetwork option" where
  "ni_addOutPort i out_link credit_link router_id consumerVcs g =
     do { ni \<leftarrow> at (m_nis g) i;
          l \<leftarrow> gn_objs g out_link;
          ni1 \<leftarrow> NetworkInterface_addOutPort (gn_config g) (obj_link l) credit_link router_id consumerVcs ni;
          o1 \<leftarrow> (if niOutVcs ni = []
                then for_list (\<lambda>p objs. do { oa \<leftarrow> set_vcs (ni_vc_per_vnet ni1) (inNetLink p) objs;
                                             set_vcs (ni_vc_per_vnet ni1) credit_link oa }) (inPorts ni) (gn_objs g)
                else Some (gn_objs g));
          o2 \<leftarrow> upd_obj (obj_setSourceQueue (QNetIfOut (ni_id ni) (length (outPorts ni)))) out_link o1;
          o3 \<leftarrow> set_vcs (ni_vc_per_vnet ni1) out_link o2;
          o4 \<leftarrow> upd_obj (obj_setLinkConsumer (CNetIf (ni_id ni))) credit_link o3;
          o5 \<leftarrow> set_vcs (ni_vc_per_vnet ni1) credit_link o4;
          Some (g\<lparr>m_nis := (m_nis g)[i := ni1], gn_objs := o5\<rparr>) }"

subsection \<open>Making the links\<close>

definition safe_cast_ext :: "GarnetNetwork \<Rightarrow> BasicLink \<Rightarrow> GarnetExtLink option" where
  "safe_cast_ext g link = (case bl_ref link of ExtL k \<Rightarrow> gn_ext g k | IntL k \<Rightarrow> None)"

definition safe_cast_int :: "GarnetNetwork \<Rightarrow> BasicLink \<Rightarrow> GarnetIntLink option" where
  "safe_cast_int g link = (case bl_ref link of ExtL k \<Rightarrow> None | IntL k \<Rightarrow> gn_int g k)"

text \<open>The pair of objects at one end of a link, for flits and for credits: the bridges where they are enabled, else the
  link and the credit link themselves; and the bridge to record.\<close>

definition link_end ::
  "bool \<Rightarrow> (NetworkBridge \<times> NetworkBridge) option \<Rightarrow> link_id \<Rightarrow> link_id \<Rightarrow> (link_id \<times> link_id \<times> link_id list) option"
where
  "link_end bridge_en bridges net_link credit_link =
     (if bridge_en then do { (n_bridge, c_bridge) \<leftarrow> bridges; Some (l_id n_bridge, l_id c_bridge, [l_id n_bridge]) }
      else Some (net_link, credit_link, []))"

definition record_links :: "link_type \<Rightarrow> link_id \<Rightarrow> link_id \<Rightarrow> nat \<Rightarrow> GarnetNetwork \<Rightarrow> GarnetNetwork option" where
  "record_links ty net_link credit_link vcs g =
     do { objs \<leftarrow> upd_obj (obj_setType ty) net_link (gn_objs g);
          Some (g\<lparr>gn_objs := objs, m_networklinks := m_networklinks g @ [net_link],
                  m_creditlinks := m_creditlinks g @ [credit_link],
                  m_max_vcs_per_vnet := max (m_max_vcs_per_vnet g) vcs\<rparr>) }"

definition add_bridges :: "link_id list \<Rightarrow> GarnetNetwork \<Rightarrow> GarnetNetwork" where
  "add_bridges bs g = g\<lparr>m_networkbridges := m_networkbridges g @ bs\<rparr>"

definition makeExtInLink :: "nat \<Rightarrow> SwitchID \<Rightarrow> BasicLink \<Rightarrow> NetDest list \<Rightarrow> GarnetNetwork \<Rightarrow> GarnetNetwork option" where
  "makeExtInLink global_src dest link routing_table_entry g =
     do { local_src \<leftarrow> getLocalNodeID global_src (gn_net g);
          check (local_src < nw_nodes (gn_net g));
          gl \<leftarrow> safe_cast_ext g link;
          let net_link = fst (m_network_links gl);
          let credit_link = fst (m_credit_links gl);
          r \<leftarrow> at (m_routers g) dest;
          g1 \<leftarrow> record_links EXT_IN net_link credit_link (r_vc_per_vnet r) g;
          (en, ec, eb) \<leftarrow> link_end (extBridgeEn gl) (map_option fst (extBridges gl)) net_link credit_link;
          g2 \<leftarrow> ni_addOutPort local_src en ec dest (r_vc_per_vnet r) g1;
          (dn, dc, db) \<leftarrow> link_end (intBridgeEn gl) (map_option fst (intBridges gl)) net_link credit_link;
          g3 \<leftarrow> router_addInPort dest ''Local'' dn dc (add_bridges eb g2);
          Some (add_bridges db g3) }"

definition makeExtOutLink :: "SwitchID \<Rightarrow> nat \<Rightarrow> BasicLink \<Rightarrow> NetDest list \<Rightarrow> GarnetNetwork \<Rightarrow> GarnetNetwork option" where
  "makeExtOutLink src global_dest link routing_table_entry g =
     do { local_dest \<leftarrow> getLocalNodeID global_dest (gn_net g);
          check (local_dest < nw_nodes (gn_net g));
          check (src < length (m_routers g));
          r \<leftarrow> at (m_routers g) src;
          gl \<leftarrow> safe_cast_ext g link;
          let net_link = snd (m_network_links gl);
          let credit_link = snd (m_credit_links gl);
          g1 \<leftarrow> record_links EXT_OUT net_link credit_link (r_vc_per_vnet r) g;
          (en, ec, eb) \<leftarrow> link_end (extBridgeEn gl) (map_option snd (extBridges gl)) net_link credit_link;
          g2 \<leftarrow> ni_addInPort local_dest en ec g1;
          (dn, dc, db) \<leftarrow> link_end (intBridgeEn gl) (map_option snd (intBridges gl)) net_link credit_link;
          g3 \<leftarrow> router_addOutPort src ''Local'' dn routing_table_entry (bl_weight link) dc (r_vc_per_vnet r) (add_bridges eb g2);
          Some (add_bridges db g3) }"

definition makeInternalLink ::
  "SwitchID \<Rightarrow> SwitchID \<Rightarrow> BasicLink \<Rightarrow> NetDest list \<Rightarrow> PortDirection \<Rightarrow> PortDirection \<Rightarrow> GarnetNetwork \<Rightarrow> GarnetNetwork option"
where
  "makeInternalLink src dest link routing_table_entry src_dirn dst_dirn g =
     do { gl \<leftarrow> safe_cast_int g link;
          let net_link = m_network_link gl;
          let credit_link = il_credit_link gl;
          rd \<leftarrow> at (m_routers g) dest;
          rs \<leftarrow> at (m_routers g) src;
          g1 \<leftarrow> record_links link_type.INT net_link credit_link (max (r_vc_per_vnet rd) (r_vc_per_vnet rs)) g;
          (dn, dc, db) \<leftarrow> link_end (dstBridgeEn gl) (dstBridges gl) net_link credit_link;
          g2 \<leftarrow> router_addInPort dest dst_dirn dn dc g1;
          (sn, sc, sb) \<leftarrow> link_end (srcBridgeEn gl) (srcBridges gl) net_link credit_link;
          g3 \<leftarrow> router_addOutPort src src_dirn sn routing_table_entry (bl_weight link) sc (r_vc_per_vnet rd)
            (add_bridges db g2);
          Some (add_bridges sb g3) }"

fun make_link :: "net_call \<Rightarrow> GarnetNetwork \<Rightarrow> GarnetNetwork option" where
  "make_link (MakeExtInLink s d l e) g = makeExtInLink s d l e g"
| "make_link (MakeExtOutLink s d l e) g = makeExtOutLink s d l e g"
| "make_link (MakeInternalLink s d l e sp dp) g = makeInternalLink s d l e sp dp g"

subsection \<open>Initialisation\<close>

text \<open>The part of the fault model (\<^verbatim>\<open>fault_model/FaultModel.cc\<close>) that the initialisation calls: each router is matched
  with a record of the configurations, the last that fits.  The fault probabilities of a record, which are only read
  when they are printed, are of a type \<open>'f\<close>.  The counter of the routers is static.\<close>

record 'f system_conf =
  sc_vcs :: nat
  sc_buff_per_vc :: nat
  sc_fault_type :: "'f list"

record 'f FaultModel =
  fm_configurations :: "'f system_conf list"
  fm_routers :: "'f system_conf list"
  fm_router_index :: nat

definition declare_router :: "nat \<Rightarrow> nat \<Rightarrow> nat \<Rightarrow> nat \<Rightarrow> nat \<Rightarrow> 'f FaultModel \<Rightarrow> (nat \<times> 'f FaultModel) option" where
  "declare_router number_of_inputs number_of_outputs number_of_vcs_per_input number_of_buff_per_data_vc
      number_of_buff_per_ctrl_vc fm =
     do { check (\<not> (number_of_inputs \<le> 0 \<or> number_of_outputs \<le> 0 \<or> number_of_vcs_per_input \<le> 0
                  \<or> number_of_buff_per_data_vc \<le> 0 \<or> number_of_buff_per_ctrl_vc \<le> 0));
          let number_of_buffers_per_vc = max number_of_buff_per_data_vc number_of_buff_per_ctrl_vc;
          let total_vcs = number_of_inputs * number_of_vcs_per_input;
          check (\<not> total_vcs > 40);
          check (\<not> number_of_buffers_per_vc > 5);
          hit \<leftarrow> List.find (\<lambda>c. sc_buff_per_vc c = number_of_buffers_per_vc \<and> sc_vcs c = total_vcs) (rev (fm_configurations fm));
          Some (fm_router_index fm, fm\<lparr>fm_routers := fm_routers fm @ [hit], fm_router_index := fm_router_index fm + 1\<rparr>) }"

definition declare_all :: "GarnetConfig \<Rightarrow> Router list \<Rightarrow> 'f FaultModel \<Rightarrow> 'f FaultModel option" where
  "declare_all cfg routers fm =
     for_list (\<lambda>r fm.
       do { (router_id, fm1) \<leftarrow> declare_router (length (m_input_unit r)) (length (m_output_unit r)) (r_vc_per_vnet r)
              (m_buffers_per_data_vc cfg) (m_buffers_per_ctrl_vc cfg) fm;
            check (router_id = r_id r);
            Some fm1 }) routers fm"

definition add_node :: "nat \<Rightarrow> GarnetNetwork \<Rightarrow> GarnetNetwork option" where
  "add_node i g =
     do { ni \<leftarrow> at (m_nis g) i;
          inn \<leftarrow> at (m_toNetQueues (gn_net g)) i;
          out \<leftarrow> at (m_fromNetQueues (gn_net g)) i;
          bs \<leftarrow> attach_queues (ni_id ni) inn;
          Some (g\<lparr>gn_in := gn_in g @ [bs], gn_out := gn_out g @ [out]\<rparr>) }"

definition mesh_shape :: "int \<Rightarrow> nat \<Rightarrow> (int \<times> int) option" where
  "mesh_shape num_rows num_routers =
     (if num_rows > 0 then
        do { let num_cols = int num_routers div num_rows;
             check (num_rows * num_cols = int num_routers);
             Some (num_rows, num_cols) }
      else Some (-1, -1))"

definition GarnetNetwork_init :: "'f FaultModel \<Rightarrow> GarnetNetwork \<Rightarrow> (GarnetNetwork \<times> 'f FaultModel) option" where
  "GarnetNetwork_init fm g =
     do { g1 \<leftarrow> for_range add_node (nw_nodes (gn_net g)) g;
          calls \<leftarrow> createLinks (m_topology (gn_net g));
          g2 \<leftarrow> for_list make_link calls g1;
          (rows, cols) \<leftarrow> mesh_shape (m_num_rows (gn_config g2)) (length (m_routers g2));
          let g3 = g2\<lparr>gn_config := (gn_config g2)\<lparr>m_num_rows := rows, m_num_cols := cols\<rparr>\<rparr>;
          fm1 \<leftarrow> (if m_enable_fault_model (gn_config g3) then declare_all (gn_config g3) (m_routers g3) fm else Some fm);
          Some (g3, fm1) }"

text \<open>The constructor, for a network whose parameters name these routers, interfaces, link objects and Garnet links, and the
  state in which the simulation starts: the routers have their switches, the ring is empty, the workers have their
  routers, and the first global wakeup is in the next cycle.\<close>

definition GarnetNetwork_new ::
  "GarnetConfig \<Rightarrow> Network \<Rightarrow> Router list \<Rightarrow> NetworkInterface list \<Rightarrow> link_objs \<Rightarrow> (nat \<rightharpoonup> GarnetExtLink) \<Rightarrow> (nat \<rightharpoonup> GarnetIntLink)
     \<Rightarrow> GarnetNetwork"
where
  "GarnetNetwork_new cfg nw routers nis objs ext intl =
     \<lparr>gn_config = cfg\<lparr>m_virtual_networks := nw_virtual_networks nw, m_vnet_type := vnet_types_of (m_vnet_type_names nw),
        m_ordered := nw_ordered nw, m_control_msg_size := nw_control_msg_size nw, m_data_msg_size := nw_data_msg_size nw\<rparr>,
      gn_net = nw, m_routers = routers, m_nis = nis, gn_in = [], gn_out = [], gn_objs = objs, gn_ext = ext, gn_int = intl,
      m_networklinks = [], m_creditlinks = [], m_networkbridges = [], m_max_vcs_per_vnet = 0\<rparr>"

definition start_net :: "int \<Rightarrow> int \<Rightarrow> tick \<Rightarrow> tick \<Rightarrow> (consumer_ref \<Rightarrow> Consumer) \<Rightarrow> GarnetNetwork \<Rightarrow> Net option" where
  "start_net requested procs period curTick cons g =
     do { (threads, thread_mask) \<leftarrow> setup_workers requested procs (length (m_routers g));
          Some \<lparr>n_config = gn_config g, n_period = period, n_routers = map Router_init (m_routers g),
                n_links = (\<lambda>l. flitBuffer_new), n_ring = ring_new, n_cons = cons,
                n_global = Some (clock_edge period curTick 1), m_num_threads = threads, m_parallel_threshold = 16,
                m_thread_router_mask = thread_mask, m_deferred_schedules = replicate threads []\<rparr> }"

definition gn_get_router_id :: "nat \<Rightarrow> nat \<Rightarrow> GarnetNetwork \<Rightarrow> nat option" where
  "gn_get_router_id global_ni vnet g =
     do { local_ni \<leftarrow> getLocalNodeID global_ni (gn_net g);
          ni \<leftarrow> at (m_nis g) local_ni;
          get_router_id vnet ni }"


end
