(* ===== verification/Network_Wiring.thy ===== *)
theory Network_Wiring
  imports Garnet_Network
begin

text \<open>
  What the initialisation of \<^verbatim>\<open>garnet/GarnetNetwork.cc\<close> wires.  Each of \<^verbatim>\<open>makeExtInLink\<close>, \<^verbatim>\<open>makeExtOutLink\<close> and
  \<^verbatim>\<open>makeInternalLink\<close> attaches two readers and two feeders to link objects; \<^verbatim>\<open>createLinks\<close> calls them for different
  halves of links; so no object gets two readers or two feeders.  Hence the routers of an initialised network share no link,
  which is what their parallel execution relies on.
\<close>

subsection \<open>What the wiring does to the ends of the links\<close>

definition consumer_of :: "link_objs \<Rightarrow> link_id \<Rightarrow> consumer_ref option" where
  "consumer_of objs l = do { x \<leftarrow> objs l; link_consumer (obj_link x) }"

definition source_of :: "link_objs \<Rightarrow> link_id \<Rightarrow> queue_ref option" where
  "source_of objs l = do { x \<leftarrow> objs l; link_srcQueue (obj_link x) }"

definition obj_ids :: "link_objs \<Rightarrow> link_id \<Rightarrow> link_id option" where
  "obj_ids objs l = map_option (\<lambda>x. l_id (obj_link x)) (objs l)"

lemma truncate_ends [simp]:
  "l_id (NetworkLink.truncate b) = l_id b"
  "link_consumer (NetworkLink.truncate b) = link_consumer b" "link_srcQueue (NetworkLink.truncate b) = link_srcQueue b"
  by (simp_all add: NetworkLink.defs)

lemma obj_ends [simp]:
  "l_id (obj_link (obj_setLinkConsumer c x)) = l_id (obj_link x)"
  "l_id (obj_link (obj_setSourceQueue q x)) = l_id (obj_link x)"
  "l_id (obj_link (obj_setType ty x)) = l_id (obj_link x)"
  "link_consumer (obj_link (obj_setLinkConsumer c x)) = Some c"
  "link_srcQueue (obj_link (obj_setLinkConsumer c x)) = link_srcQueue (obj_link x)"
  "link_consumer (obj_link (obj_setSourceQueue q x)) = link_consumer (obj_link x)"
  "link_srcQueue (obj_link (obj_setSourceQueue q x)) = Some q"
  "link_consumer (obj_link (obj_setType ty x)) = link_consumer (obj_link x)"
  "link_srcQueue (obj_link (obj_setType ty x)) = link_srcQueue (obj_link x)"
  by (cases x; simp add: setLinkConsumer_def setSourceQueue_def setType_def)+

lemma set_consumer_ends:
  assumes "upd_obj (obj_setLinkConsumer c) l objs = Some objs'"
  shows "consumer_of objs' = (consumer_of objs)(l \<mapsto> c)" "source_of objs' = source_of objs" "obj_ids objs' = obj_ids objs"
  using assms by (auto simp: upd_obj_def bind_eq_Some_conv consumer_of_def source_of_def obj_ids_def intro!: ext)

lemma set_source_ends:
  assumes "upd_obj (obj_setSourceQueue q) l objs = Some objs'"
  shows "consumer_of objs' = consumer_of objs" "source_of objs' = (source_of objs)(l \<mapsto> q)" "obj_ids objs' = obj_ids objs"
  using assms by (auto simp: upd_obj_def bind_eq_Some_conv consumer_of_def source_of_def obj_ids_def intro!: ext)

lemma set_type_ends:
  assumes "upd_obj (obj_setType ty) l objs = Some objs'"
  shows "consumer_of objs' = consumer_of objs" "source_of objs' = source_of objs" "obj_ids objs' = obj_ids objs"
  using assms by (auto simp: upd_obj_def bind_eq_Some_conv consumer_of_def source_of_def obj_ids_def intro!: ext)

definition same_ends :: "link_objs \<Rightarrow> link_objs \<Rightarrow> bool" where
  "same_ends objs objs' \<longleftrightarrow> consumer_of objs' = consumer_of objs \<and> source_of objs' = source_of objs \<and> obj_ids objs' = obj_ids objs"

lemma set_vcs_ends:
  assumes "set_vcs n l objs = Some objs'"
  shows "same_ends objs objs'"
proof (rule set_vcs.raw_induct [OF _ assms, where P = "\<lambda>n l objs objs'. same_ends objs objs'"])
  fix f n l objs objs'
  assume 1: "\<And>n l objs objs'. f n l objs = Some objs' \<Longrightarrow> same_ends objs objs'"
    "(case objs l of None \<Rightarrow> None
      | Some x \<Rightarrow> (case x of Plain k \<Rightarrow> Some (objs(l \<mapsto> Plain (setVcsPerVnet n k)))
         | Bridge b \<Rightarrow> f n (nLink b) (objs(l \<mapsto> Bridge (NetworkBridge_setVcsPerVnet n b))))) = Some objs'"
  then obtain x where x: "objs l = Some x" by (auto split: option.splits)
  show "same_ends objs objs'"
  proof (cases x)
    case (Plain k)
    then show ?thesis using 1(2) x by (auto simp: same_ends_def consumer_of_def source_of_def obj_ids_def setVcsPerVnet_def intro!: ext)
  next
    case (Bridge b)
    let ?o = "objs(l \<mapsto> Bridge (NetworkBridge_setVcsPerVnet n b))"
    have "same_ends ?o objs'" using 1 x Bridge by simp
    moreover have "same_ends objs ?o"
      using x Bridge by (auto simp: same_ends_def consumer_of_def source_of_def obj_ids_def NetworkBridge_setVcsPerVnet_def
        setVcsPerVnet_def Let_def intro!: ext)
    ultimately show ?thesis by (simp add: same_ends_def)
  qed
qed

lemma for_list_set_vcs_ends:
  assumes "for_list (\<lambda>p objs. do { oa \<leftarrow> set_vcs n (f p) objs; set_vcs n c oa }) ps objs = Some objs'"
  shows "same_ends objs objs'"
  using assms
proof (rule for_list_invariant)
  show "same_ends objs objs" by (simp add: same_ends_def)
  fix p s t assume s: "same_ends objs s" and st: "(do { oa \<leftarrow> set_vcs n (f p) s; set_vcs n c oa }) = Some t"
  then show "same_ends objs t" by (auto simp: bind_eq_Some_conv same_ends_def dest!: set_vcs_ends)
qed

subsection \<open>The ends that routers and interfaces use\<close>

definition router_sinks :: "Router \<Rightarrow> (link_id \<times> consumer_ref) list" where
  "router_sinks r = map (\<lambda>u. (m_in_link u, CRouter (r_id r))) (m_input_unit r)
     @ map (\<lambda>u. (ou_credit_link u, CRouter (r_id r))) (m_output_unit r)"

definition router_sources :: "Router \<Rightarrow> (link_id \<times> queue_ref) list" where
  "router_sources r = map (\<lambda>(p, u). (m_out_link u, QOutput (r_id r) p)) (enumerate 0 (m_output_unit r))
     @ map (\<lambda>(p, u). (iu_credit_link u, QInputCredit (r_id r) p)) (enumerate 0 (m_input_unit r))"

definition ni_sinks :: "NetworkInterface \<Rightarrow> (link_id \<times> consumer_ref) list" where
  "ni_sinks ni = map (\<lambda>p. (inNetLink p, CNetIf (ni_id ni))) (inPorts ni)
     @ map (\<lambda>p. (inCreditLink p, CNetIf (ni_id ni))) (outPorts ni)"

definition ni_sources :: "NetworkInterface \<Rightarrow> (link_id \<times> queue_ref) list" where
  "ni_sources ni = map (\<lambda>(p, u). (outNetLink u, QNetIfOut (ni_id ni) p)) (enumerate 0 (outPorts ni))
     @ map (\<lambda>(p, u). (outCreditLink u, QNetIfCredit (ni_id ni) p)) (enumerate 0 (inPorts ni))"

definition sinks :: "GarnetNetwork \<Rightarrow> (link_id \<times> consumer_ref) multiset" where
  "sinks g = (\<Sum>r\<leftarrow>m_routers g. mset (router_sinks r)) + (\<Sum>ni\<leftarrow>m_nis g. mset (ni_sinks ni))"

definition sources :: "GarnetNetwork \<Rightarrow> (link_id \<times> queue_ref) multiset" where
  "sources g = (\<Sum>r\<leftarrow>m_routers g. mset (router_sources r)) + (\<Sum>ni\<leftarrow>m_nis g. mset (ni_sources ni))"

lemma sum_list_update_add:
  fixes f :: "'a \<Rightarrow> 'b multiset"
  assumes "i < length xs" "f y = f (xs ! i) + d"
  shows "(\<Sum>x\<leftarrow>xs[i := y]. f x) = (\<Sum>x\<leftarrow>xs. f x) + d"
  using assms
proof (induction xs arbitrary: i)
  case (Cons x xs)
  then show ?case by (cases i) (auto simp: ac_simps)
qed simp

text \<open>One attachment: one more end of either kind, and the link objects know it.\<close>

definition attaches :: "(link_id \<times> consumer_ref) \<Rightarrow> (link_id \<times> queue_ref) \<Rightarrow> GarnetNetwork \<Rightarrow> GarnetNetwork \<Rightarrow> bool" where
  "attaches s q g g' \<longleftrightarrow> sinks g' = add_mset s (sinks g) \<and> sources g' = add_mset q (sources g)
     \<and> consumer_of (gn_objs g') = (consumer_of (gn_objs g))(fst s \<mapsto> snd s)
     \<and> source_of (gn_objs g') = (source_of (gn_objs g))(fst q \<mapsto> snd q)
     \<and> obj_ids (gn_objs g') = obj_ids (gn_objs g) \<and> gn_ext g' = gn_ext g \<and> gn_int g' = gn_int g \<and> gn_net g' = gn_net g \<and> gn_config g' = gn_config g
     \<and> map r_id (m_routers g') = map r_id (m_routers g)"

lemma InputUnit_new_links:
  "InputUnit_new i d n v in_link credit_link = Some u \<Longrightarrow> m_in_link u = in_link \<and> iu_credit_link u = credit_link"
  by (auto simp: InputUnit_new_def Let_def bind_eq_Some_conv)

lemma OutputUnit_new_links:
  "OutputUnit_new cfg i d n v out_link credit_link = Some u \<Longrightarrow> m_out_link u = out_link \<and> ou_credit_link u = credit_link"
  by (auto simp: OutputUnit_new_def bind_eq_Some_conv)

lemma Router_addInPort_links:
  assumes "Router_addInPort dirn w in_link credit_link r = Some r1"
  shows "\<exists>u. m_in_link u = in_link \<and> iu_credit_link u = credit_link \<and> m_input_unit r1 = m_input_unit r @ [u]
    \<and> m_output_unit r1 = m_output_unit r \<and> r_id r1 = r_id r"
proof -
  from assms obtain u where u: "InputUnit_new (length (m_input_unit r)) dirn (r_num_vcs r) (r_vc_per_vnet r) in_link credit_link = Some u"
    "r1 = r\<lparr>m_input_unit := m_input_unit r @ [u], routingUnit := addInDirection dirn (length (m_input_unit r)) (routingUnit r)\<rparr>"
    by (auto simp: Router_addInPort_def Let_def bind_eq_Some_conv)
  from InputUnit_new_links [OF u(1)] u(2) show ?thesis by (intro exI [of _ u]) simp
qed

lemma Router_addOutPort_links:
  assumes "Router_addOutPort cfg dirn w out_link entry wt credit_link vcs r = Some r1"
  shows "\<exists>u. m_out_link u = out_link \<and> ou_credit_link u = credit_link \<and> m_output_unit r1 = m_output_unit r @ [u]
    \<and> m_input_unit r1 = m_input_unit r \<and> r_id r1 = r_id r"
proof -
  from assms obtain u where u: "OutputUnit_new cfg (length (m_output_unit r)) dirn (r_virtual_networks r) vcs out_link credit_link = Some u"
    "r1 = r\<lparr>m_output_unit := m_output_unit r @ [u], routingUnit := addOutDirection dirn (length (m_output_unit r))
       (addWeight wt (addRoute entry (routingUnit r)))\<rparr>"
    by (auto simp: Router_addOutPort_def Let_def bind_eq_Some_conv)
  from OutputUnit_new_links [OF u(1)] u(2) show ?thesis by (intro exI [of _ u]) simp
qed

lemma router_addInPort_attaches:
  assumes "router_addInPort i dirn in_link credit_link g = Some g'"
  shows "\<exists>c q. attaches (in_link, c) (credit_link, q) g g'"
proof -
  from assms obtain r l r1 o1 o2 o3 o4 where 1: "i < length (m_routers g)" "m_routers g ! i = r"
    "Router_addInPort dirn (bitWidth (obj_link l)) in_link credit_link r = Some r1"
    "upd_obj (obj_setLinkConsumer (CRouter (r_id r))) in_link (gn_objs g) = Some o1"
    "set_vcs (r_vc_per_vnet r) in_link o1 = Some o2"
    "upd_obj (obj_setSourceQueue (QInputCredit (r_id r) (length (m_input_unit r)))) credit_link o2 = Some o3"
    "set_vcs (r_vc_per_vnet r) credit_link o3 = Some o4"
    "g' = g\<lparr>m_routers := (m_routers g)[i := r1], gn_objs := o4\<rparr>"
    unfolding router_addInPort_def by (auto simp: bind_eq_Some_conv)
  from Router_addInPort_links [OF 1(3)] obtain u where u: "m_in_link u = in_link" "iu_credit_link u = credit_link"
      "m_input_unit r1 = m_input_unit r @ [u]" "m_output_unit r1 = m_output_unit r" "r_id r1 = r_id r" by blast
  let ?c = "CRouter (r_id r)" and ?q = "QInputCredit (r_id r) (length (m_input_unit r))"
  have s: "mset (router_sinks r1) = mset (router_sinks (m_routers g ! i)) + {#(in_link, ?c)#}"
    "mset (router_sources r1) = mset (router_sources (m_routers g ! i)) + {#(credit_link, ?q)#}"
    by (simp_all add: 1(2) router_sinks_def router_sources_def u enumerate_append_eq)
  have "sinks g' = add_mset (in_link, ?c) (sinks g)" "sources g' = add_mset (credit_link, ?q) (sources g)"
    using sum_list_update_add [OF 1(1), of "\<lambda>r. mset (router_sinks r)", OF s(1)]
      sum_list_update_add [OF 1(1), of "\<lambda>r. mset (router_sources r)", OF s(2)]
    by (simp_all add: 1(8) sinks_def sources_def)
  moreover have "consumer_of o4 = (consumer_of (gn_objs g))(in_link \<mapsto> ?c)" "source_of o4 = (source_of (gn_objs g))(credit_link \<mapsto> ?q)"
      "obj_ids o4 = obj_ids (gn_objs g)"
    using set_consumer_ends [OF 1(4)] set_vcs_ends [OF 1(5)] set_source_ends [OF 1(6)] set_vcs_ends [OF 1(7)]
    by (simp_all add: same_ends_def)
  moreover have "map r_id ((m_routers g)[i := r1]) = map r_id (m_routers g)"
    using 1(1,2) u(5) by (metis list_update_id map_update)
  ultimately show ?thesis using 1(8) by (auto simp: attaches_def)
qed


lemma router_addOutPort_attaches:
  assumes "router_addOutPort i dirn out_link entry wt credit_link vcs g = Some g'"
  shows "\<exists>c q. attaches (credit_link, c) (out_link, q) g g'"
proof -
  from assms obtain r l r1 o1 o2 o3 o4 where 1: "i < length (m_routers g)" "m_routers g ! i = r"
    "Router_addOutPort (gn_config g) dirn (bitWidth (obj_link l)) out_link entry wt credit_link vcs r = Some r1"
    "upd_obj (obj_setLinkConsumer (CRouter (r_id r))) credit_link (gn_objs g) = Some o1"
    "set_vcs vcs credit_link o1 = Some o2"
    "upd_obj (obj_setSourceQueue (QOutput (r_id r) (length (m_output_unit r)))) out_link o2 = Some o3"
    "set_vcs vcs out_link o3 = Some o4"
    "g' = g\<lparr>m_routers := (m_routers g)[i := r1], gn_objs := o4\<rparr>"
    unfolding router_addOutPort_def by (auto simp: bind_eq_Some_conv)
  from Router_addOutPort_links [OF 1(3)] obtain u where u: "m_out_link u = out_link" "ou_credit_link u = credit_link"
      "m_output_unit r1 = m_output_unit r @ [u]" "m_input_unit r1 = m_input_unit r" "r_id r1 = r_id r" by blast
  let ?c = "CRouter (r_id r)" and ?q = "QOutput (r_id r) (length (m_output_unit r))"
  have s: "mset (router_sinks r1) = mset (router_sinks (m_routers g ! i)) + {#(credit_link, ?c)#}"
    "mset (router_sources r1) = mset (router_sources (m_routers g ! i)) + {#(out_link, ?q)#}"
    by (simp_all add: 1(2) router_sinks_def router_sources_def u enumerate_append_eq)
  have "sinks g' = add_mset (credit_link, ?c) (sinks g)" "sources g' = add_mset (out_link, ?q) (sources g)"
    using sum_list_update_add [OF 1(1), of "\<lambda>r. mset (router_sinks r)", OF s(1)]
      sum_list_update_add [OF 1(1), of "\<lambda>r. mset (router_sources r)", OF s(2)]
    by (simp_all add: 1(8) sinks_def sources_def)
  moreover have "consumer_of o4 = (consumer_of (gn_objs g))(credit_link \<mapsto> ?c)" "source_of o4 = (source_of (gn_objs g))(out_link \<mapsto> ?q)"
      "obj_ids o4 = obj_ids (gn_objs g)"
    using set_consumer_ends [OF 1(4)] set_vcs_ends [OF 1(5)] set_source_ends [OF 1(6)] set_vcs_ends [OF 1(7)]
    by (simp_all add: same_ends_def)
  moreover have "map r_id ((m_routers g)[i := r1]) = map r_id (m_routers g)"
    using 1(1,2) u(5) by (metis list_update_id map_update)
  ultimately show ?thesis using 1(8) by (auto simp: attaches_def)
qed

text \<open>The link that an interface remembers is the object's own number.\<close>

definition ids_ok :: "link_objs \<Rightarrow> bool" where
  "ids_ok objs \<longleftrightarrow> (\<forall>l i. obj_ids objs l = Some i \<longrightarrow> i = l)"

lemma ni_addInPort_attaches:
  assumes "ni_addInPort i in_link credit_link g = Some g'" "ids_ok (gn_objs g)"
  shows "\<exists>c q. attaches (in_link, c) (credit_link, q) g g'"
proof -
  from assms(1) obtain ni l o1 o2 o3 where 1: "i < length (m_nis g)" "m_nis g ! i = ni" "gn_objs g in_link = Some l"
    "upd_obj (obj_setLinkConsumer (CNetIf (ni_id ni))) in_link (gn_objs g) = Some o1"
    "upd_obj (obj_setSourceQueue (QNetIfCredit (ni_id ni) (length (inPorts ni)))) credit_link o1 = Some o2"
    "(if ni_vc_per_vnet ni \<noteq> 0
      then do { o2a \<leftarrow> set_vcs (ni_vc_per_vnet ni) in_link o2; set_vcs (ni_vc_per_vnet ni) credit_link o2a }
      else Some o2) = Some o3"
    "g' = g\<lparr>m_nis := (m_nis g)[i := NetworkInterface_addInPort (obj_link l) credit_link ni], gn_objs := o3\<rparr>"
    unfolding ni_addInPort_def Let_def by (auto simp: bind_eq_Some_conv simp del: not_gr_zero split del: if_split)
  have o3: "same_ends o2 o3"
    using 1(6) by (auto simp: bind_eq_Some_conv same_ends_def dest!: set_vcs_ends split: if_splits)
  let ?n1 = "NetworkInterface_addInPort (obj_link l) credit_link ni"
  let ?c = "CNetIf (ni_id ni)" and ?q = "QNetIfCredit (ni_id ni) (length (inPorts ni))"
  have lid: "l_id (obj_link l) = in_link" using assms(2) 1(3) by (simp add: ids_ok_def obj_ids_def)
  have s: "mset (ni_sinks ?n1) = mset (ni_sinks (m_nis g ! i)) + {#(in_link, ?c)#}"
    "mset (ni_sources ?n1) = mset (ni_sources (m_nis g ! i)) + {#(credit_link, ?q)#}"
    by (simp_all add: 1(2) ni_sinks_def ni_sources_def NetworkInterface_addInPort_def InputPort_new_def lid enumerate_append_eq)
  have "sinks g' = add_mset (in_link, ?c) (sinks g)" "sources g' = add_mset (credit_link, ?q) (sources g)"
    using sum_list_update_add [OF 1(1), of "\<lambda>n. mset (ni_sinks n)", OF s(1)]
      sum_list_update_add [OF 1(1), of "\<lambda>n. mset (ni_sources n)", OF s(2)]
    by (simp_all add: 1(7) sinks_def sources_def)
  moreover have "consumer_of o3 = (consumer_of (gn_objs g))(in_link \<mapsto> ?c)" "source_of o3 = (source_of (gn_objs g))(credit_link \<mapsto> ?q)"
      "obj_ids o3 = obj_ids (gn_objs g)"
    using set_consumer_ends [OF 1(4)] set_source_ends [OF 1(5)] o3 by (simp_all add: same_ends_def)
  ultimately show ?thesis using 1(7) by (auto simp: attaches_def)
qed

lemma NetworkInterface_addOutPort_ports:
  assumes "NetworkInterface_addOutPort cfg l credit_link router_id vcs ni = Some ni1"
  shows "outPorts ni1 = outPorts ni @ [OutputPort_new l credit_link router_id]" "inPorts ni1 = inPorts ni" "ni_id ni1 = ni_id ni"
  using assms by (auto simp: NetworkInterface_addOutPort_def Let_def bind_eq_Some_conv split: if_splits)

lemma ni_addOutPort_attaches:
  assumes "ni_addOutPort i out_link credit_link router_id vcs g = Some g'" "ids_ok (gn_objs g)"
  shows "\<exists>c q. attaches (credit_link, c) (out_link, q) g g'"
proof -
  from assms(1) obtain ni l ni1 o1 o2 o3 o4 o5 where 1: "i < length (m_nis g)" "m_nis g ! i = ni" "gn_objs g out_link = Some l"
    "NetworkInterface_addOutPort (gn_config g) (obj_link l) credit_link router_id vcs ni = Some ni1"
    "(if niOutVcs ni = []
      then for_list (\<lambda>p objs. do { oa \<leftarrow> set_vcs (ni_vc_per_vnet ni1) (inNetLink p) objs;
                                   set_vcs (ni_vc_per_vnet ni1) credit_link oa }) (inPorts ni) (gn_objs g)
      else Some (gn_objs g)) = Some o1"
    "upd_obj (obj_setSourceQueue (QNetIfOut (ni_id ni) (length (outPorts ni)))) out_link o1 = Some o2"
    "set_vcs (ni_vc_per_vnet ni1) out_link o2 = Some o3"
    "upd_obj (obj_setLinkConsumer (CNetIf (ni_id ni))) credit_link o3 = Some o4"
    "set_vcs (ni_vc_per_vnet ni1) credit_link o4 = Some o5"
    "g' = g\<lparr>m_nis := (m_nis g)[i := ni1], gn_objs := o5\<rparr>"
    unfolding ni_addOutPort_def Let_def by (auto simp: bind_eq_Some_conv split del: if_split)
  have o1: "same_ends (gn_objs g) o1"
  proof (cases "niOutVcs ni = []")
    case True
    then show ?thesis using for_list_set_vcs_ends [OF 1(5) [unfolded if_P [OF True]]] by simp
  next
    case False
    then show ?thesis using 1(5) by (simp add: same_ends_def)
  qed
  let ?c = "CNetIf (ni_id ni)" and ?q = "QNetIfOut (ni_id ni) (length (outPorts ni))"
  have lid: "l_id (obj_link l) = out_link" using assms(2) 1(3) by (simp add: ids_ok_def obj_ids_def)
  note p = NetworkInterface_addOutPort_ports [OF 1(4)]
  have s: "mset (ni_sinks ni1) = mset (ni_sinks (m_nis g ! i)) + {#(credit_link, ?c)#}"
    "mset (ni_sources ni1) = mset (ni_sources (m_nis g ! i)) + {#(out_link, ?q)#}"
    by (simp_all add: 1(2) ni_sinks_def ni_sources_def p OutputPort_new_def lid enumerate_append_eq)
  have "sinks g' = add_mset (credit_link, ?c) (sinks g)" "sources g' = add_mset (out_link, ?q) (sources g)"
    using sum_list_update_add [OF 1(1), of "\<lambda>n. mset (ni_sinks n)", OF s(1)]
      sum_list_update_add [OF 1(1), of "\<lambda>n. mset (ni_sources n)", OF s(2)]
    by (simp_all add: 1(10) sinks_def sources_def)
  moreover have "consumer_of o5 = (consumer_of (gn_objs g))(credit_link \<mapsto> ?c)" "source_of o5 = (source_of (gn_objs g))(out_link \<mapsto> ?q)"
      "obj_ids o5 = obj_ids (gn_objs g)"
    using o1 set_source_ends [OF 1(6)] set_vcs_ends [OF 1(7)] set_consumer_ends [OF 1(8)] set_vcs_ends [OF 1(9)]
    by (simp_all add: same_ends_def)
  ultimately show ?thesis using 1(10) by (auto simp: attaches_def)
qed


subsection \<open>Every call attaches two ends of either kind\<close>

datatype half = InHalf nat | OutHalf nat | WholeLink nat

fun ref_no :: "link_ref \<Rightarrow> nat" where
  "ref_no (ExtL k) = k"
| "ref_no (IntL k) = k"

fun call_half :: "net_call \<Rightarrow> half" where
  "call_half (MakeExtInLink s d l e) = InHalf (ref_no (bl_ref l))"
| "call_half (MakeExtOutLink s d l e) = OutHalf (ref_no (bl_ref l))"
| "call_half (MakeInternalLink s d l e sp dp) = WholeLink (ref_no (bl_ref l))"

definition end_ids :: "bool \<Rightarrow> (NetworkBridge \<times> NetworkBridge) option \<Rightarrow> link_id \<Rightarrow> link_id \<Rightarrow> link_id \<times> link_id" where
  "end_ids bridge_en bridges n c =
     (if bridge_en then (case bridges of Some (a, b) \<Rightarrow> (l_id a, l_id b) | None \<Rightarrow> (n, c)) else (n, c))"

text \<open>The objects that are read and those that are fed at the two ends of a half of an external link or of an internal
  link.\<close>

fun half_ends :: "(nat \<rightharpoonup> GarnetExtLink) \<Rightarrow> (nat \<rightharpoonup> GarnetIntLink) \<Rightarrow> half \<Rightarrow> link_id list \<times> link_id list" where
  "half_ends ext intl (InHalf k) =
     (case ext k of None \<Rightarrow> ([], [])
      | Some gl \<Rightarrow>
          let (en, ec) = end_ids (extBridgeEn gl) (map_option fst (extBridges gl)) (fst (m_network_links gl)) (fst (m_credit_links gl));
              (dn, dc) = end_ids (intBridgeEn gl) (map_option fst (intBridges gl)) (fst (m_network_links gl)) (fst (m_credit_links gl))
          in ([ec, dn], [en, dc]))"
| "half_ends ext intl (OutHalf k) =
     (case ext k of None \<Rightarrow> ([], [])
      | Some gl \<Rightarrow>
          let (en, ec) = end_ids (extBridgeEn gl) (map_option snd (extBridges gl)) (snd (m_network_links gl)) (snd (m_credit_links gl));
              (dn, dc) = end_ids (intBridgeEn gl) (map_option snd (intBridges gl)) (snd (m_network_links gl)) (snd (m_credit_links gl))
          in ([en, dc], [ec, dn]))"
| "half_ends ext intl (WholeLink k) =
     (case intl k of None \<Rightarrow> ([], [])
      | Some gl \<Rightarrow>
          let (dn, dc) = end_ids (dstBridgeEn gl) (dstBridges gl) (m_network_link gl) (il_credit_link gl);
              (sn, sc) = end_ids (srcBridgeEn gl) (srcBridges gl) (m_network_link gl) (il_credit_link gl)
          in ([dn, sc], [dc, sn]))"

lemma link_end_ids: "link_end en br n c = Some (a, b, bs) \<Longrightarrow> end_ids en br n c = (a, b)"
  by (auto simp: link_end_def end_ids_def bind_eq_Some_conv split: if_splits prod.splits)

definition same_wires :: "GarnetNetwork \<Rightarrow> GarnetNetwork \<Rightarrow> bool" where
  "same_wires g g' \<longleftrightarrow> sinks g' = sinks g \<and> sources g' = sources g \<and> same_ends (gn_objs g) (gn_objs g')
     \<and> gn_ext g' = gn_ext g \<and> gn_int g' = gn_int g \<and> gn_net g' = gn_net g \<and> gn_config g' = gn_config g
     \<and> map r_id (m_routers g') = map r_id (m_routers g)"

lemma record_links_same: "record_links ty n c v g = Some g' \<Longrightarrow> same_wires g g'"
  by (auto simp: record_links_def bind_eq_Some_conv same_wires_def same_ends_def sinks_def sources_def dest: set_type_ends)

lemma add_bridges_same: "same_wires g (add_bridges bs g)"
  by (simp add: add_bridges_def same_wires_def same_ends_def sinks_def sources_def)

lemma attaches_same:
  "same_wires g g1 \<Longrightarrow> attaches s q g1 g2 \<Longrightarrow> attaches s q g g2"
  "attaches s q g g1 \<Longrightarrow> same_wires g1 g2 \<Longrightarrow> attaches s q g g2"
  by (auto simp: same_wires_def same_ends_def attaches_def)

lemma attaches_ids: "attaches s q g g' \<Longrightarrow> ids_ok (gn_objs g') = ids_ok (gn_objs g)"
  by (simp add: attaches_def ids_ok_def)

lemma same_wires_ids: "same_wires g g' \<Longrightarrow> ids_ok (gn_objs g') = ids_ok (gn_objs g)"
  by (simp add: same_wires_def same_ends_def ids_ok_def)

definition attaches2 :: "link_id list \<times> link_id list \<Rightarrow> GarnetNetwork \<Rightarrow> GarnetNetwork \<Rightarrow> bool" where
  "attaches2 ends g g' \<longleftrightarrow> (\<exists>s1 s2 k1 k2 c1 c2 q1 q2 gm. ends = ([s1, s2], [k1, k2])
     \<and> attaches (s1, c1) (k1, q1) g gm \<and> attaches (s2, c2) (k2, q2) gm g')"

lemma attaches2I:
  assumes "same_wires g g1" "attaches (s1, c1) (k1, q1) g1 g2" "same_wires g2 g3" "attaches (s2, c2) (k2, q2) g3 g4" "same_wires g4 g'"
  shows "attaches2 ([s1, s2], [k1, k2]) g g'"
  unfolding attaches2_def
  using attaches_same(1) [OF assms(1,2)] attaches_same(2) [OF attaches_same(1) [OF assms(3,4)] assms(5)] by blast

lemma makeExtInLink_attaches:
  assumes "makeExtInLink s d l e g = Some g'" "ids_ok (gn_objs g)"
  shows "attaches2 (half_ends (gn_ext g) (gn_int g) (InHalf (ref_no (bl_ref l)))) g g'"
proof -
  from assms(1) obtain ls gl v g1 en ec eb g2 dn dc db g3 where 1: "safe_cast_ext g l = Some gl"
    "record_links EXT_IN (fst (m_network_links gl)) (fst (m_credit_links gl)) v g = Some g1"
    "link_end (extBridgeEn gl) (map_option fst (extBridges gl)) (fst (m_network_links gl)) (fst (m_credit_links gl)) = Some (en, ec, eb)"
    "ni_addOutPort ls en ec d v g1 = Some g2"
    "link_end (intBridgeEn gl) (map_option fst (intBridges gl)) (fst (m_network_links gl)) (fst (m_credit_links gl)) = Some (dn, dc, db)"
    "router_addInPort d ''Local'' dn dc (add_bridges eb g2) = Some g3" "add_bridges db g3 = g'"
    unfolding makeExtInLink_def Let_def by (clarsimp simp: bind_eq_Some_conv)
  obtain k where k: "bl_ref l = ExtL k" "gn_ext g k = Some gl"
    using 1(1) by (auto simp: safe_cast_ext_def split: link_ref.splits)
  have "half_ends (gn_ext g) (gn_int g) (InHalf (ref_no (bl_ref l))) = ([ec, dn], [en, dc])"
    using link_end_ids [OF 1(3)] link_end_ids [OF 1(5)] by (simp add: k)
  moreover have i1: "ids_ok (gn_objs g1)" using assms(2) same_wires_ids [OF record_links_same [OF 1(2)]] by simp
  ultimately show ?thesis
    using ni_addOutPort_attaches [OF 1(4) i1] router_addInPort_attaches [OF 1(6)] record_links_same [OF 1(2)]
      add_bridges_same attaches2I unfolding 1(7) [symmetric] by metis
qed

lemma makeExtOutLink_attaches:
  assumes "makeExtOutLink s d l e g = Some g'" "ids_ok (gn_objs g)"
  shows "attaches2 (half_ends (gn_ext g) (gn_int g) (OutHalf (ref_no (bl_ref l)))) g g'"
proof -
  from assms(1) obtain ls gl v g1 en ec eb g2 dn dc db g3 where 1: "safe_cast_ext g l = Some gl"
    "record_links EXT_OUT (snd (m_network_links gl)) (snd (m_credit_links gl)) v g = Some g1"
    "link_end (extBridgeEn gl) (map_option snd (extBridges gl)) (snd (m_network_links gl)) (snd (m_credit_links gl)) = Some (en, ec, eb)"
    "ni_addInPort ls en ec g1 = Some g2"
    "link_end (intBridgeEn gl) (map_option snd (intBridges gl)) (snd (m_network_links gl)) (snd (m_credit_links gl)) = Some (dn, dc, db)"
    "router_addOutPort s ''Local'' dn e (bl_weight l) dc v (add_bridges eb g2) = Some g3" "add_bridges db g3 = g'"
    unfolding makeExtOutLink_def Let_def by (clarsimp simp: bind_eq_Some_conv)
  obtain k where k: "bl_ref l = ExtL k" "gn_ext g k = Some gl"
    using 1(1) by (auto simp: safe_cast_ext_def split: link_ref.splits)
  have "half_ends (gn_ext g) (gn_int g) (OutHalf (ref_no (bl_ref l))) = ([en, dc], [ec, dn])"
    using link_end_ids [OF 1(3)] link_end_ids [OF 1(5)] by (simp add: k)
  moreover have i1: "ids_ok (gn_objs g1)" using assms(2) same_wires_ids [OF record_links_same [OF 1(2)]] by simp
  ultimately show ?thesis
    using ni_addInPort_attaches [OF 1(4) i1] router_addOutPort_attaches [OF 1(6)] record_links_same [OF 1(2)]
      add_bridges_same attaches2I unfolding 1(7) [symmetric] by metis
qed

lemma makeInternalLink_attaches:
  assumes "makeInternalLink s d l e sp dp g = Some g'"
  shows "attaches2 (half_ends (gn_ext g) (gn_int g) (WholeLink (ref_no (bl_ref l)))) g g'"
proof -
  from assms(1) obtain gl vs vd g1 sn sc sb g2 dn dc db g3 where 1: "safe_cast_int g l = Some gl"
    "record_links link_type.INT (m_network_link gl) (il_credit_link gl) vs g = Some g1"
    "link_end (dstBridgeEn gl) (dstBridges gl) (m_network_link gl) (il_credit_link gl) = Some (dn, dc, db)"
    "router_addInPort d dp dn dc g1 = Some g2"
    "link_end (srcBridgeEn gl) (srcBridges gl) (m_network_link gl) (il_credit_link gl) = Some (sn, sc, sb)"
    "router_addOutPort s sp sn e (bl_weight l) sc vd (add_bridges db g2) = Some g3" "add_bridges sb g3 = g'"
    unfolding makeInternalLink_def Let_def by (clarsimp simp: bind_eq_Some_conv)
  obtain k where k: "bl_ref l = IntL k" "gn_int g k = Some gl"
    using 1(1) by (auto simp: safe_cast_int_def split: link_ref.splits)
  have "half_ends (gn_ext g) (gn_int g) (WholeLink (ref_no (bl_ref l))) = ([dn, sc], [dc, sn])"
    using link_end_ids [OF 1(3)] link_end_ids [OF 1(5)] by (simp add: k)
  then show ?thesis
    using router_addInPort_attaches [OF 1(4)] router_addOutPort_attaches [OF 1(6)] record_links_same [OF 1(2)]
      add_bridges_same attaches2I unfolding 1(7) [symmetric] by metis
qed

lemma make_link_attaches:
  "make_link c g = Some g' \<Longrightarrow> ids_ok (gn_objs g) \<Longrightarrow> attaches2 (half_ends (gn_ext g) (gn_int g) (call_half c)) g g'"
  by (cases c) (auto dest: makeExtInLink_attaches makeExtOutLink_attaches makeInternalLink_attaches simp del: half_ends.simps)


subsection \<open>The wiring invariant\<close>

text \<open>No object is read twice or fed twice, the consumer of an object that is read is its reader, and the source queue
  of an object that is fed is the queue of its feeder.\<close>

definition no_dup :: "'a multiset \<Rightarrow> bool" where
  "no_dup M \<longleftrightarrow> (\<forall>x. count M x \<le> 1)"

definition wired :: "GarnetNetwork \<Rightarrow> bool" where
  "wired g \<longleftrightarrow> no_dup (image_mset fst (sinks g)) \<and> no_dup (image_mset fst (sources g))
     \<and> (\<forall>(l, c)\<in>set_mset (sinks g). consumer_of (gn_objs g) l = Some c)
     \<and> (\<forall>(l, q)\<in>set_mset (sources g). source_of (gn_objs g) l = Some q)"

lemma no_dup_add: "no_dup M \<Longrightarrow> x \<notin># M \<Longrightarrow> no_dup (add_mset x M)"
  by (auto simp: no_dup_def count_eq_zero_iff [symmetric] le_Suc_eq)

lemma attach_wired:
  assumes "wired g" "attaches (l, c) (k, q) g g'" "l \<notin># image_mset fst (sinks g)" "k \<notin># image_mset fst (sources g)"
  shows "wired g'"
proof -
  have a: "sinks g' = add_mset (l, c) (sinks g)" "sources g' = add_mset (k, q) (sources g)"
    "consumer_of (gn_objs g') = (consumer_of (gn_objs g))(l \<mapsto> c)" "source_of (gn_objs g') = (source_of (gn_objs g))(k \<mapsto> q)"
    using assms(2) by (auto simp: attaches_def)
  have "consumer_of (gn_objs g') l' = Some c'" if "(l', c') \<in># sinks g" for l' c'
    using assms(1,3) that by (force simp: wired_def a(3))
  moreover have "source_of (gn_objs g') k' = Some q'" if "(k', q') \<in># sources g" for k' q'
    using assms(1,4) that by (force simp: wired_def a(4))
  ultimately show ?thesis
    using assms(1,3,4) unfolding wired_def by (auto simp: a no_dup_add)
qed

definition sink_ids :: "GarnetNetwork \<Rightarrow> link_id multiset" where
  "sink_ids g = image_mset fst (sinks g)"

definition source_ids :: "GarnetNetwork \<Rightarrow> link_id multiset" where
  "source_ids g = image_mset fst (sources g)"

lemma attaches2_wired:
  assumes "wired g" "attaches2 ends g g'" "distinct (fst ends)" "distinct (snd ends)"
    and "set (fst ends) \<inter> set_mset (sink_ids g) = {}" "set (snd ends) \<inter> set_mset (source_ids g) = {}"
  shows "wired g'" "sink_ids g' = sink_ids g + mset (fst ends)" "source_ids g' = source_ids g + mset (snd ends)"
proof -
  from assms(2) obtain s1 s2 k1 k2 c1 c2 q1 q2 gm where e: "ends = ([s1, s2], [k1, k2])"
    "attaches (s1, c1) (k1, q1) g gm" "attaches (s2, c2) (k2, q2) gm g'" unfolding attaches2_def by blast
  have m: "sinks gm = add_mset (s1, c1) (sinks g)" "sources gm = add_mset (k1, q1) (sources g)"
    "sinks g' = add_mset (s2, c2) (sinks gm)" "sources g' = add_mset (k2, q2) (sources gm)"
    using e(2,3) by (auto simp: attaches_def)
  have "wired gm" using attach_wired [OF assms(1) e(2)] assms(5,6) e(1) by (auto simp: sink_ids_def source_ids_def)
  then show "wired g'" using attach_wired [OF _ e(3)] assms(3-6) e(1) m by (auto simp: sink_ids_def source_ids_def)
  show "sink_ids g' = sink_ids g + mset (fst ends)" "source_ids g' = source_ids g + mset (snd ends)"
    using e(1) m by (auto simp: sink_ids_def source_ids_def)
qed

lemma attaches2_frame:
  assumes "attaches2 ends g g'"
  shows "gn_ext g' = gn_ext g" "gn_int g' = gn_int g" "ids_ok (gn_objs g') = ids_ok (gn_objs g)" "gn_net g' = gn_net g"
    "gn_config g' = gn_config g" "map r_id (m_routers g') = map r_id (m_routers g)"
  using assms by (auto simp: attaches2_def attaches_def ids_ok_def)

text \<open>Links that have no object in common.\<close>

definition links_apart :: "(nat \<rightharpoonup> GarnetExtLink) \<Rightarrow> (nat \<rightharpoonup> GarnetIntLink) \<Rightarrow> bool" where
  "links_apart ext intl \<longleftrightarrow>
     (\<forall>h. distinct (fst (half_ends ext intl h)) \<and> distinct (snd (half_ends ext intl h))
        \<and> (\<forall>h'. h' \<noteq> h \<longrightarrow> set (fst (half_ends ext intl h)) \<inter> set (fst (half_ends ext intl h')) = {}
             \<and> set (snd (half_ends ext intl h)) \<inter> set (snd (half_ends ext intl h')) = {}))"

lemma make_links_wired:
  assumes "for_list make_link calls g = Some g'" "wired g" "ids_ok (gn_objs g)" "links_apart (gn_ext g) (gn_int g)"
    and "distinct (map call_half calls)"
    and "\<forall>c\<in>set calls. set (fst (half_ends (gn_ext g) (gn_int g) (call_half c))) \<inter> set_mset (sink_ids g) = {}
      \<and> set (snd (half_ends (gn_ext g) (gn_int g) (call_half c))) \<inter> set_mset (source_ids g) = {}"
  shows "wired g' \<and> map r_id (m_routers g') = map r_id (m_routers g) \<and> gn_net g' = gn_net g \<and> gn_config g' = gn_config g"
  using assms
proof (induction calls arbitrary: g)
  case (Cons c calls)
  let ?h = "half_ends (gn_ext g) (gn_int g)"
  from Cons.prems(1) obtain g1 where g1: "make_link c g = Some g1" "for_list make_link calls g1 = Some g'"
    by (auto simp: bind_eq_Some_conv)
  have a: "attaches2 (?h (call_half c)) g g1" using make_link_attaches [OF g1(1) Cons.prems(3)] .
  note f = attaches2_frame [OF a]
  have d: "distinct (fst (?h (call_half c)))" "distinct (snd (?h (call_half c)))"
    using Cons.prems(4) by (auto simp: links_apart_def)
  have fr: "set (fst (?h (call_half c))) \<inter> set_mset (sink_ids g) = {}" "set (snd (?h (call_half c))) \<inter> set_mset (source_ids g) = {}"
    using Cons.prems(6) by auto
  note w = attaches2_wired [OF Cons.prems(2) a d fr]
  have "set (fst (?h (call_half x))) \<inter> set_mset (sink_ids g1) = {} \<and> set (snd (?h (call_half x))) \<inter> set_mset (source_ids g1) = {}"
    if "x \<in> set calls" for x
  proof -
    have "call_half x \<noteq> call_half c" using Cons.prems(5) that by (force simp: image_iff)
    then have "set (fst (?h (call_half x))) \<inter> set (fst (?h (call_half c))) = {}"
      "set (snd (?h (call_half x))) \<inter> set (snd (?h (call_half c))) = {}" using Cons.prems(4) by (auto simp: links_apart_def)
    moreover have "set (fst (?h (call_half x))) \<inter> set_mset (sink_ids g) = {}" "set (snd (?h (call_half x))) \<inter> set_mset (source_ids g) = {}"
      using Cons.prems(6) that by auto
    ultimately show ?thesis unfolding w(2,3) by (simp add: Int_Un_distrib)
  qed
  then have "wired g' \<and> map r_id (m_routers g') = map r_id (m_routers g1) \<and> gn_net g' = gn_net g1 \<and> gn_config g' = gn_config g1"
    using Cons.IH [OF g1(2) w(1)] Cons.prems(3-5) by (simp add: f)
  then show ?case by (simp add: f)
qed simp


subsection \<open>The topology hands out every half of a link once\<close>

definition entry_half :: "nat \<Rightarrow> SwitchID \<times> SwitchID \<Rightarrow> LinkEntry \<Rightarrow> half" where
  "entry_half n k e = (let r = ref_no (bl_ref (le_link e))
     in if fst k < n then InHalf r else if snd k < 2 * n then OutHalf r else WholeLink r)"

definition map_halves :: "nat \<Rightarrow> LinkMap \<Rightarrow> half list" where
  "map_halves n lm = concat (map (\<lambda>x. map (entry_half n (fst x)) (snd x)) lm)"

lemma mset_map_halves_add: "mset (map_halves n (link_map_add k e lm)) = add_mset (entry_half n k e) (mset (map_halves n lm))"
  by (induction lm rule: link_map_add.induct) (auto simp: map_halves_def)

lemma concat_disjoint:
  "distinct (concat (map f xs)) \<Longrightarrow> a \<in> set xs \<Longrightarrow> b \<in> set xs \<Longrightarrow> a \<noteq> b \<Longrightarrow> set (f a) \<inter> set (f b) = {}"
  by (induction xs) auto

lemma concat_distinct: "distinct (concat (map f xs)) \<Longrightarrow> a \<in> set xs \<Longrightarrow> distinct (f a)"
  by (induction xs) auto

definition halves_at :: "nat \<Rightarrow> LinkMap \<Rightarrow> SwitchID \<times> SwitchID \<Rightarrow> half list" where
  "halves_at n lm k = (case map_of lm k of None \<Rightarrow> [] | Some es \<Rightarrow> map (entry_half n k) es)"

lemma distinct_halves_at:
  assumes "distinct (map_halves n lm)" "distinct ps"
  shows "distinct (concat (map (\<lambda>p. if Q p then halves_at n lm p else []) ps))"
  using assms(2)
proof (induction ps)
  case (Cons p ps)
  have one: "distinct (halves_at n lm p)"
  proof (cases "map_of lm p")
    case (Some es)
    from concat_distinct [OF assms(1) [unfolded map_halves_def] map_of_SomeD [OF this]] show ?thesis by (simp add: halves_at_def Some)
  qed (simp add: halves_at_def)
  have "set (halves_at n lm p) \<inter> set (halves_at n lm p') = {}" if "p' \<noteq> p" for p'
  proof (cases "map_of lm p = None \<or> map_of lm p' = None")
    case True
    then show ?thesis by (auto simp: halves_at_def)
  next
    case False
    then obtain es es' where m: "map_of lm p = Some es" "map_of lm p' = Some es'" by auto
    then have "(p, es) \<in> set lm" "(p', es') \<in> set lm" by (auto dest: map_of_SomeD)
    from concat_disjoint [OF assms(1) [unfolded map_halves_def] this] that show ?thesis by (simp add: halves_at_def m)
  qed
  then have "set (halves_at n lm p) \<inter> set (concat (map (\<lambda>p. if Q p then halves_at n lm p else []) ps)) = {}"
    using Cons.prems by fastforce
  then show ?case using Cons one by auto
qed simp

lemma makeLink_halves:
  assumes "makeLink t i j entry = Some cs"
  shows "map call_half cs = halves_at (t_nodes t) (m_link_map t) (i, j)"
proof -
  let ?f = "\<lambda>e. do { route \<leftarrow> link_route (t_ruby_system t) (m_vnets t) (le_link e) entry;
                 Some (if i < t_nodes t then MakeExtInLink i (j - 2 * t_nodes t) (le_link e) route
                       else if j < 2 * t_nodes t then MakeExtOutLink (i - 2 * t_nodes t) (j - t_nodes t) (le_link e) route
                       else MakeInternalLink (i - 2 * t_nodes t) (j - 2 * t_nodes t) (le_link e) route
                              (src_outport_dirn e) (dst_inport_dirn e)) }"
  have *: "map_opt ?f es = Some cs \<Longrightarrow> map call_half cs = map (entry_half (t_nodes t) (i, j)) es" for es cs
    by (induction es arbitrary: cs) (auto simp: bind_eq_Some_conv entry_half_def)
  from assms have "map_opt ?f (case map_of (m_link_map t) (i, j) of None \<Rightarrow> [] | Some ls \<Rightarrow> ls) = Some cs"
    unfolding makeLink_def Let_def by (auto simp: bind_eq_Some_conv)
  from * [OF this] show ?thesis by (auto simp: halves_at_def split: option.splits)
qed

lemma pair_links_halves:
  assumes "map_opt (pair_links t w d) xs = Some css"
  shows "map call_half (concat css)
    = concat (map (\<lambda>p. if list_ex (\<lambda>v. real_link w v (fst p) (snd p)) [0..<m_vnets t]
        then halves_at (t_nodes t) (m_link_map t) p else []) xs)"
  using assms
proof (induction xs arbitrary: css)
  case (Cons x xs)
  obtain i j where x: "x = (i, j)" by (cases x)
  from Cons.prems obtain cs css' where cs: "css = cs # css'" "pair_links t w d (i, j) = Some cs"
    "map_opt (pair_links t w d) xs = Some css'" unfolding x by (auto simp: bind_eq_Some_conv)
  from cs(2) obtain rm where rm:
    "(if list_ex (\<lambda>v. real_link w v i j) [0..<m_vnets t] then makeLink t i j rm else Some []) = Some cs"
    by (auto simp: pair_links_def bind_eq_Some_conv)
  show ?case using Cons.IH [OF cs(3)] cs(1) rm makeLink_halves [of t i j rm cs] by (auto simp: x split: if_splits)
qed simp

lemma createLinks_halves:
  assumes "createLinks t = Some calls" "distinct (map_halves (t_nodes t) (m_link_map t))"
  shows "distinct (map call_half calls)"
proof -
  let ?n = "max_switch_id (m_link_map t) + 1"
  from assms(1) obtain w d css where c: "concat css = calls" "map_opt (pair_links t w d) (all_pairs ?n) = Some css"
    unfolding createLinks_def Let_def by (auto simp: bind_eq_Some_conv)
  have "distinct (all_pairs ?n)" by (simp add: all_pairs_def distinct_product)
  then show ?thesis unfolding c(1) [symmetric] pair_links_halves [OF c(2)] by (rule distinct_halves_at [OF assms(2)])
qed

text \<open>The map of a constructed topology.\<close>

definition refs_ok :: "BasicExtLink list \<Rightarrow> BasicIntLink list \<Rightarrow> bool" where
  "refs_ok ext_links int_links \<longleftrightarrow> distinct (map (\<lambda>l. ref_no (bl_ref l)) ext_links) \<and> distinct (map (\<lambda>l. ref_no (bl_ref l)) int_links)"

lemma addLink_halves:
  assumes "addLink a b l sd dd t = Some t'"
  shows "mset (map_halves (t_nodes t') (m_link_map t')) = add_mset (entry_half (t_nodes t) (a, b) \<lparr>le_link = l, src_outport_dirn = sd, dst_inport_dirn = dd\<rparr>)
      (mset (map_halves (t_nodes t) (m_link_map t)))" "t_nodes t' = t_nodes t" "t_ruby_system t' = t_ruby_system t"
  using assms by (auto simp: addLink_def bind_eq_Some_conv mset_map_halves_add)

lemma add_ext_link_halves:
  assumes "add_ext_link l t = Some t'" "t_nodes t = machine_base (t_ruby_system t) (length (t_ruby_system t))"
    and "valid_machine (t_ruby_system t) (mach_type (ext_node l), mach_num (ext_node l))"
  shows "mset (map_halves (t_nodes t') (m_link_map t'))
      = {#InHalf (ref_no (bl_ref l)), OutHalf (ref_no (bl_ref l))#} + mset (map_halves (t_nodes t) (m_link_map t))"
    "t_nodes t' = t_nodes t" "t_ruby_system t' = t_ruby_system t"
proof -
  let ?m = "(mach_type (ext_node l), mach_num (ext_node l))" and ?nc = "t_ruby_system t"
  let ?i = "node_id ?nc ?m" and ?r = "int_node l + 2 * t_nodes t"
  have b: "MachineType_base_number ?nc (mach_type (ext_node l)) = Some (machine_base ?nc (mach_type (ext_node l)))"
    using assms(3) by (simp add: MachineType_base_number_def machine_base_def valid_machine_def)
  have lt: "?i < t_nodes t" using node_id_bounds(2) [OF assms(3)] machine_base_mono [of "Suc (mach_type (ext_node l))" "length ?nc" ?nc]
      assms(2,3) by (simp add: valid_machine_def)
  from assms(1) b obtain t1 where t1: "addLink ?i ?r (BasicLink.truncate l) [] [] t = Some t1"
    "addLink ?r (?i + t_nodes t) (BasicLink.truncate l) [] [] t1 = Some t'"
    unfolding add_ext_link_def Let_def by (auto simp: bind_eq_Some_conv node_id_def)
  note a1 = addLink_halves [OF t1(1)] and a2 = addLink_halves [OF t1(2)]
  have "bl_ref (BasicLink.truncate l) = bl_ref l" by (simp add: BasicLink.defs)
  then show "mset (map_halves (t_nodes t') (m_link_map t'))
      = {#InHalf (ref_no (bl_ref l)), OutHalf (ref_no (bl_ref l))#} + mset (map_halves (t_nodes t) (m_link_map t))"
    using a1 a2 lt by (simp add: entry_half_def)
  show "t_nodes t' = t_nodes t" "t_ruby_system t' = t_ruby_system t" using a1 a2 by auto
qed

lemma add_int_link_halves:
  assumes "add_int_link l t = Some t'"
  shows "mset (map_halves (t_nodes t') (m_link_map t')) = add_mset (WholeLink (ref_no (bl_ref l))) (mset (map_halves (t_nodes t) (m_link_map t)))"
    "t_nodes t' = t_nodes t" "t_ruby_system t' = t_ruby_system t"
proof -
  have "bl_ref (BasicLink.truncate l) = bl_ref l" by (simp add: BasicLink.defs)
  with addLink_halves [OF assms [unfolded add_int_link_def]]
  show "mset (map_halves (t_nodes t') (m_link_map t')) = add_mset (WholeLink (ref_no (bl_ref l))) (mset (map_halves (t_nodes t) (m_link_map t)))"
    "t_nodes t' = t_nodes t" "t_ruby_system t' = t_ruby_system t" by (simp_all add: entry_half_def)
qed

lemma Topology_new_halves:
  assumes "Topology_new n v ext_links int_links nc = Some t" "refs_ok ext_links int_links" "nodes_ok nc ext_links"
  shows "distinct (map_halves (t_nodes t) (m_link_map t))"
proof -
  let ?H = "\<lambda>t. mset (map_halves (t_nodes t) (m_link_map t))"
  let ?t0 = "\<lparr>t_nodes = machine_base nc (length nc), m_number_of_switches = n, m_vnets = v, m_ext_link_vector = ext_links,
    m_int_link_vector = int_links, m_link_map = [], t_ruby_system = nc\<rparr>"
  from assms(1) obtain t1 where t1: "for_list add_ext_link ext_links ?t0 = Some t1" "for_list add_int_link int_links t1 = Some t"
    unfolding Topology_new_def by (auto simp: bind_eq_Some_conv MachineType_base_number_def machine_base_def)
  have ext: "for_list add_ext_link ls s = Some s' \<Longrightarrow> t_nodes s = machine_base nc (length nc) \<Longrightarrow> t_ruby_system s = nc \<Longrightarrow>
      \<forall>l\<in>set ls. valid_machine nc (mach_type (ext_node l), mach_num (ext_node l)) \<Longrightarrow>
      ?H s' = ?H s + mset (map InHalf (map (\<lambda>l. ref_no (bl_ref l)) ls)) + mset (map OutHalf (map (\<lambda>l. ref_no (bl_ref l)) ls))" for ls s s'
  proof (induction ls arbitrary: s)
    case (Cons l ls)
    then obtain s1 where s1: "add_ext_link l s = Some s1" "for_list add_ext_link ls s1 = Some s'" by (auto simp: bind_eq_Some_conv)
    note a = add_ext_link_halves [OF s1(1)]
    show ?case using Cons.IH [OF s1(2)] Cons.prems a by simp
  qed simp
  have intl: "for_list add_int_link ls s = Some s' \<Longrightarrow> ?H s' = ?H s + mset (map WholeLink (map (\<lambda>l. ref_no (bl_ref l)) ls))" for ls s s'
  proof (induction ls arbitrary: s)
    case (Cons l ls)
    then obtain s1 where s1: "add_int_link l s = Some s1" "for_list add_int_link ls s1 = Some s'" by (auto simp: bind_eq_Some_conv)
    show ?case using Cons.IH [OF s1(2)] add_int_link_halves [OF s1(1)] by simp
  qed simp
  let ?e = "map (\<lambda>l. ref_no (bl_ref l)) ext_links" and ?i = "map (\<lambda>l. ref_no (bl_ref l)) int_links"
  have "?H t = mset (map InHalf ?e @ map OutHalf ?e @ map WholeLink ?i)"
    using ext [OF t1(1)] intl [OF t1(2)] assms(3) by (simp add: nodes_ok_def map_halves_def)
  moreover have "distinct (map InHalf ?e @ map OutHalf ?e @ map WholeLink ?i)"
    using assms(2) by (auto simp: refs_ok_def distinct_map inj_on_def)
  ultimately show ?thesis by (metis mset_eq_imp_distinct_iff)
qed


subsection \<open>An initialised network is well wired\<close>

lemma sum_list_ge: "i < length xs \<Longrightarrow> f (xs ! i) \<subseteq># (\<Sum>x\<leftarrow>xs. f x)"
  by (induction xs arbitrary: i) (auto simp: nth_Cons' intro: subset_mset.add_increasing)

lemma sum_list_ge2:
  "i < length xs \<Longrightarrow> j < length xs \<Longrightarrow> i \<noteq> j \<Longrightarrow> f (xs ! i) + f (xs ! j) \<subseteq># (\<Sum>x\<leftarrow>xs. f x)"
proof (induction xs arbitrary: i j)
  case (Cons x xs)
  show ?case
  proof (cases i)
    case 0
    then obtain j' where "j = Suc j'" using Cons.prems(3) by (cases j) auto
    then show ?thesis using 0 Cons.prems(2) sum_list_ge [of j' xs f] by simp
  next
    case (Suc i')
    note i = this
    show ?thesis
    proof (cases j)
      case 0
      then show ?thesis using i Cons.prems(1) sum_list_ge [of i' xs f] by (simp add: add.commute)
    next
      case (Suc j')
      then show ?thesis using i Cons.IH [of i' j'] Cons.prems by (auto intro: subset_mset.add_increasing)
    qed
  qed
qed simp

lemma wired_links_disjoint:
  assumes "wired g" "i < length (m_routers g)" "j < length (m_routers g)" "i \<noteq> j"
  shows "router_links (m_routers g ! i) \<inter> router_links (m_routers g ! j) = {}"
proof -
  have rl: "router_links r = set (map fst (router_sinks r))" for r
    by (auto simp: router_links_def router_sinks_def image_Un image_image)
  let ?f = "\<lambda>r. mset (router_sinks r)"
  have "?f (m_routers g ! i) + ?f (m_routers g ! j) \<subseteq># sinks g"
    using sum_list_ge2 [OF assms(2-4), of ?f] unfolding sinks_def by (rule subset_mset.order_trans) simp
  then have sub: "mset (map fst (router_sinks (m_routers g ! i))) + mset (map fst (router_sinks (m_routers g ! j))) \<subseteq># image_mset fst (sinks g)"
    by (metis image_mset_subseteq_mono image_mset_union mset_map)
  have False if x: "x \<in> router_links (m_routers g ! i)" "x \<in> router_links (m_routers g ! j)" for x
  proof -
    have "1 \<le> count (mset (map fst (router_sinks (m_routers g ! i)))) x" "1 \<le> count (mset (map fst (router_sinks (m_routers g ! j)))) x"
      using x unfolding rl by (simp_all add: Suc_le_eq count_greater_zero_iff)
    moreover have "count (image_mset fst (sinks g)) x \<le> 1" using assms(1) by (simp add: wired_def no_dup_def)
    ultimately show False using mset_subset_eq_count [OF sub, of x] unfolding count_union by linarith
  qed
  then show ?thesis by blast
qed

definition portless :: "Router list \<Rightarrow> NetworkInterface list \<Rightarrow> bool" where
  "portless routers nis \<longleftrightarrow> (\<forall>r\<in>set routers. m_input_unit r = [] \<and> m_output_unit r = [])
     \<and> (\<forall>ni\<in>set nis. inPorts ni = [] \<and> outPorts ni = [])"

lemma sum_list_empty: "\<forall>x\<in>set xs. f x = {#} \<Longrightarrow> (\<Sum>x\<leftarrow>xs. f x) = {#}"
  by (induction xs) auto

lemma portless_ends:
  assumes "portless (m_routers g) (m_nis g)"
  shows "sinks g = {#}" "sources g = {#}"
proof -
  have "\<forall>r\<in>set (m_routers g). mset (router_sinks r) = {#} \<and> mset (router_sources r) = {#}"
    "\<forall>ni\<in>set (m_nis g). mset (ni_sinks ni) = {#} \<and> mset (ni_sources ni) = {#}"
    using assms by (simp_all add: portless_def router_sinks_def router_sources_def ni_sinks_def ni_sources_def)
  then show "sinks g = {#}" "sources g = {#}" by (simp_all add: sinks_def sources_def sum_list_empty)
qed

lemma add_node_same: "add_node i g = Some g' \<Longrightarrow> same_wires g g' \<and> m_routers g' = m_routers g \<and> m_nis g' = m_nis g"
  by (auto simp: add_node_def bind_eq_Some_conv same_wires_def same_ends_def sinks_def sources_def)

lemma same_wires_refl: "same_wires g g"
  by (simp add: same_wires_def same_ends_def)

lemma same_wires_trans: "same_wires g g1 \<Longrightarrow> same_wires g1 g2 \<Longrightarrow> same_wires g g2"
  by (simp add: same_wires_def same_ends_def)

lemma add_nodes_same: "for_range add_node n g = Some g' \<Longrightarrow> same_wires g g' \<and> m_routers g' = m_routers g \<and> m_nis g' = m_nis g"
  unfolding for_range_def by (erule for_list_invariant) (auto simp: same_wires_refl dest: add_node_same same_wires_trans)

lemma wired_config: "wired (g\<lparr>gn_config := cf\<rparr>) = wired g"
  by (simp add: wired_def sinks_def sources_def)

lemma init_wired:
  assumes "Network_new p = Some nw" "nodes_ok (np_ruby_system p) (np_ext_links p)" "refs_ok (np_ext_links p) (np_int_links p)"
    and "portless routers nis" "ids_ok objs" "links_apart ext intl"
    and "GarnetNetwork_init fm (GarnetNetwork_new cfg nw routers nis objs ext intl) = Some (g, fm')"
  shows "wired g" "length (m_routers g) = length routers"
proof -
  let ?g = "GarnetNetwork_new cfg nw routers nis objs ext intl"
  from assms(7) obtain g1 calls g2 where 1: "for_range add_node (nw_nodes nw) ?g = Some g1" "createLinks (m_topology nw) = Some calls"
    "for_list make_link calls g1 = Some g2" "\<exists>cf. g = g2\<lparr>gn_config := cf\<rparr>"
    unfolding GarnetNetwork_init_def Let_def by (auto simp: bind_eq_Some_conv GarnetNetwork_new_def)
  have f: "same_wires ?g g1" "m_routers g1 = routers" "m_nis g1 = nis" using add_nodes_same [OF 1(1)] by (auto simp: GarnetNetwork_new_def)
  have e: "gn_ext g1 = ext" "gn_int g1 = intl" "ids_ok (gn_objs g1)"
    using f(1) assms(5) same_wires_ids [OF f(1)] by (auto simp: same_wires_def GarnetNetwork_new_def)
  have z: "sinks g1 = {#}" "sources g1 = {#}" using portless_ends [of g1] assms(4) f by auto
  then have w: "wired g1" by (simp add: wired_def no_dup_def)
  have d: "distinct (map call_half calls)"
    using createLinks_halves [OF 1(2) Topology_new_halves [OF Network_new_ids(2) [OF assms(1)] assms(3,2)]] .
  have "links_apart (gn_ext g1) (gn_int g1)" using assms(6) e by simp
  from make_links_wired [OF 1(3) w e(3) this d] z have
    "wired g2" "map r_id (m_routers g2) = map r_id (m_routers g1)" by (auto simp: sink_ids_def source_ids_def)
  moreover from this(2) have "length (m_routers g2) = length (m_routers g1)" by (metis length_map)
  ultimately show "wired g" "length (m_routers g) = length routers"
    using 1(4) f(2) wired_config by auto
qed

text \<open>C3. An initialised network is well wired.  Take a network whose external links lead to different controllers, whose
  Garnet links have no link object in common, and whose routers and interfaces have no ports yet.  If \<^verbatim>\<open>init\<close> completes, then no
  link object is read by two ports or fed by two, the consumer of every object that a router or an interface reads is that
  router or interface, the source queue of every object that one feeds is the queue of the port; and the network
  satisfies, with any number of threads, what the parallel execution of the routers relies on.\<close>
theorem init_wires_network:
  assumes "Network_new p = Some nw" "nodes_ok (np_ruby_system p) (np_ext_links p)" "refs_ok (np_ext_links p) (np_int_links p)"
    and "portless routers nis" "ids_ok objs" "links_apart ext intl"
    and "GarnetNetwork_init fm (GarnetNetwork_new cfg nw routers nis objs ext intl) = Some (g, fm')"
  shows "wired g \<and> (\<forall>requested procs period now cons net.
     start_net requested procs period now cons g = Some net \<and> (\<forall>c. Consumer_wf (cons c)) \<longrightarrow> workers_ok net)"
proof (intro conjI allI impI)
  note w = init_wired [OF assms]
  show "wired g" by (rule w)
  fix requested procs period now cons net
  assume n: "start_net requested procs period now cons g = Some net \<and> (\<forall>c. Consumer_wf (cons c))"
  then obtain th where th: "setup_workers requested procs (length (m_routers g)) = Some (th, thread_router_mask th (length (m_routers g)))"
      "0 < th" "length (m_routers g) \<le> 64"
    and net: "n_routers net = map Router_init (m_routers g)" "m_num_threads net = th" "n_cons net = cons"
      "m_thread_router_mask net = thread_router_mask th (length (m_routers g))" "m_deferred_schedules net = replicate th []"
    using choose_num_threads_bounds(1) [of requested procs "length (m_routers g)"]
    by (auto simp: start_net_def setup_workers_def Let_def bind_eq_Some_conv split: if_splits)
  have rl: "router_links (Router_init r) = router_links r" for r by (simp add: router_links_def Router_init_def)
  have "links_disjoint net" unfolding links_disjoint_def net(1) using wired_links_disjoint [OF w(1)] by (simp add: rl)
  then show "workers_ok net" using n th net by (simp add: workers_ok_def)
qed


subsection \<open>A network of two controllers and one router\<close>

definition ex_objs :: link_objs where
  "ex_objs l = (if l < 8 then Some (Plain (NetworkLink_new l 1 1 [] 16)) else None)"

definition ex_ext :: "nat \<rightharpoonup> GarnetExtLink" where
  "ex_ext k = (if k < 2 then Some (GarnetExtLink_new (k, 2 + k) (4 + k, 6 + k) (False, False) (False, False) None None) else None)"

definition ex_routers :: "Router list" where
  "ex_routers = [Router_new 0 500 1 1 1 16 (\<lambda>_. 0)]"

definition ex_nis :: "NetworkInterface list" where
  "ex_nis = [NetworkInterface_new 0 1 50, NetworkInterface_new 1 1 50]"

definition ex_faults :: "unit FaultModel" where
  "ex_faults = \<lparr>fm_configurations = [], fm_routers = [], fm_router_index = 0\<rparr>"

lemma ex_wiring_ok:
  "nodes_ok (np_ruby_system ex_params) (np_ext_links ex_params)" "refs_ok (np_ext_links ex_params) (np_int_links ex_params)"
  "portless ex_routers ex_nis" "ids_ok ex_objs" "links_apart ex_ext Map.empty"
proof -
  have h: "half_ends ex_ext Map.empty h = (case h of InHalf k \<Rightarrow> if k < 2 then ([4 + k, k], [k, 4 + k]) else ([], [])
      | OutHalf k \<Rightarrow> if k < 2 then ([2 + k, 6 + k], [6 + k, 2 + k]) else ([], []) | WholeLink k \<Rightarrow> ([], []))" for h
    by (cases h) (simp_all add: ex_ext_def GarnetExtLink_new_def end_ids_def)
  show "links_apart ex_ext Map.empty"
    unfolding links_apart_def h by (auto split: half.splits if_splits)
qed (auto simp: nodes_ok_def refs_ok_def ex_params_def ex_ext_link_def valid_machine_def portless_def ex_routers_def ex_nis_def
    Router_new_def NetworkInterface_new_def ids_ok_def obj_ids_def ex_objs_def NetworkLink_new_def split: if_splits)

definition ex_link :: "nat \<Rightarrow> BasicLink" where
  "ex_link k = BasicLink.truncate (ex_ext_link k)"

definition ex_wires :: Topology where
  "ex_wires = \<lparr>t_nodes = 2, m_number_of_switches = 1, m_vnets = 1, m_ext_link_vector = np_ext_links ex_params, m_int_link_vector = [],
     m_link_map = map (\<lambda>(k, i). (k, [\<lparr>le_link = ex_link i, src_outport_dirn = [], dst_inport_dirn = []\<rparr>]))
        [((0, 4), 0), ((1, 4), 1), ((4, 2), 0), ((4, 3), 1)], t_ruby_system = [2]\<rparr>"

lemma ex_Network_new:
  "\<exists>nw. Network_new ex_params = Some nw \<and> nw_nodes nw = 2 \<and> globalToLocalMap nw = [1 \<mapsto> 0, 0 \<mapsto> 1] \<and> m_topology nw = ex_wires
     \<and> m_toNetQueues nw = [[], []] \<and> m_fromNetQueues nw = [[], []] \<and> m_vnet_type_names nw = [[]]
     \<and> nw_virtual_networks nw = 1"
  by (simp add: Network_new_def ex_params_def number_machines_def local_machines_def localNodeVersions_def ex_ext_link_def
        number_machine_def MachineType_base_number_def Topology_new_def add_ext_link_def addLink_def init_queues_def network_start_def
        ex_wires_def ex_link_def key_less_def BasicLink.defs numeral_2_eq_2)

definition ex_weights :: matrix where
  "ex_weights v i j = (if v = 0 \<and> (i, j) \<in> {(0, 4), (1, 4), (4, 2), (4, 3)} then 1 else identity_weights v i j)"

lemma ex_topology_wires: "\<exists>l. topology_weights ex_wires = Some (ex_weights, l)"
proof -
  have "upd3 (upd3 (upd3 (upd3 identity_weights 0 0 4 1) 0 (Suc 0) 4 1) 0 4 2 1) 0 4 3 1 = ex_weights"
    by (intro ext) (auto simp: upd3_apply ex_weights_def)
  then show ?thesis
    by (simp add: topology_weights_def ex_wires_def enter_group_def enter_vnet_def at_def ex_link_def ex_ext_link_def BasicLink.defs)
qed

lemma ex_real_link: "real_link ex_weights 0 i j \<longleftrightarrow> (i, j) \<in> {(0, 4), (1, 4), (4, 2), (4, 3)}"
  by (auto simp: real_link_def ex_weights_def identity_weights_def INFINITE_LATENCY_def)

lemma ex_makeLink:
  "makeLink ex_wires 0 4 e = Some [MakeExtInLink 0 0 (ex_link 0) e]" "makeLink ex_wires 1 4 e = Some [MakeExtInLink 1 0 (ex_link 1) e]"
  "makeLink ex_wires 4 2 e = Some [MakeExtOutLink 0 0 (ex_link 0) e]" "makeLink ex_wires 4 3 e = Some [MakeExtOutLink 0 1 (ex_link 1) e]"
  by (simp_all add: makeLink_def link_route_def ex_wires_def ex_link_def ex_ext_link_def BasicLink.defs)

lemma ex_createLinks:
  "\<exists>e1 e2 e3 e4. createLinks ex_wires = Some [MakeExtInLink 0 0 (ex_link 0) e1, MakeExtInLink 1 0 (ex_link 1) e2,
     MakeExtOutLink 0 0 (ex_link 0) e3, MakeExtOutLink 0 1 (ex_link 1) e4]"
proof -
  obtain l where w: "topology_weights ex_wires = Some (ex_weights, l)" using ex_topology_wires by blast
  have lp: "links_positive ex_wires" by (simp add: links_positive_def ex_wires_def ex_link_def ex_ext_link_def BasicLink.defs)
  from shortest_path_facts [OF weights_pos_ok [OF topology_weights_pos [OF w lp]], of 1 5 l "\<lambda>i j v. 0"] obtain ps where
    ps: "shortest_path 1 5 ex_weights l (\<lambda>i j v. 0) = Some ps" by auto
  obtain e0 where e0: "NetDest_new [2] = Some e0" using NetDest_new_ok [of "[2]"] by auto
  define e where "e i j = the (shortest_path_to_node [2] i j ex_weights (p_dist ps) 0)" for i j
  have e: "shortest_path_to_node [2] i j ex_weights (p_dist ps) 0 = Some (e i j)" for i j
    using shortest_path_to_node_facts [of "[2]" i j ex_weights "p_dist ps" 0] by (auto simp: e_def)
  let ?g = "\<lambda>ij. if ij = (0, 4) then [MakeExtInLink 0 0 (ex_link 0) [e 0 4]]
      else if ij = (1, 4) then [MakeExtInLink 1 0 (ex_link 1) [e 1 4]] else if ij = (4, 2) then [MakeExtOutLink 0 0 (ex_link 0) [e 4 2]]
      else if ij = (4, 3) then [MakeExtOutLink 0 1 (ex_link 1) [e 4 3]] else []"
  have d: "t_ruby_system ex_wires = [2]" "m_vnets ex_wires = 1" "max_switch_id (m_link_map ex_wires) = 4"
    by (simp_all add: ex_wires_def max_switch_id_def)
  have g: "pair_links ex_wires ex_weights (p_dist ps) (i, j) = Some (?g (i, j))" for i j
    by (cases "(i, j) \<in> {(0, 4), (1, 4), (4, 2), (4, 3)}")
      (auto simp: pair_links_def routing_map_def e0 e d ex_real_link ex_makeLink ex_makeLink(2) [unfolded One_nat_def])
  have "map_opt f xs = Some (map h xs)" if "\<And>i j. f (i, j) = Some (h (i, j))"
    for f :: "nat \<times> nat \<Rightarrow> net_call list option" and h xs by (induction xs) (auto simp: that)
  from this [of "pair_links ex_wires ex_weights (p_dist ps)" ?g, OF g]
  have "map_opt (pair_links ex_wires ex_weights (p_dist ps)) xs = Some (map ?g xs)" for xs .
  then have "createLinks ex_wires = Some (concat (map ?g (all_pairs 5)))" using ps by (simp add: createLinks_def w d)
  also have "all_pairs 5 = [(0, 0), (0, 1), (0, 2), (0, 3), (0, 4), (1, 0), (1, 1), (1, 2), (1, 3), (1, 4), (2, 0), (2, 1), (2, 2), (2, 3), (2, 4),
      (3, 0), (3, 1), (3, 2), (3, 3), (3, 4), (4, 0), (4, 1), (4, 2), (4, 3), (4, 4)]"
    by (simp add: all_pairs_def upt_conv_Cons)
  finally show ?thesis by simp
qed

lemmas ex_wiring_eval = make_link.simps makeExtInLink_def makeExtOutLink_def record_links_def add_bridges_def link_end_def ni_addOutPort_def
  ni_addInPort_def router_addInPort_def router_addOutPort_def safe_cast_ext_def getLocalNodeID_def upd_obj_def set_vcs.simps
  NetworkInterface_addInPort_def NetworkInterface_addOutPort_def NetworkInterface_new_def Router_addInPort_def Router_addOutPort_def
  Router_new_def InputUnit_new_def OutputUnit_new_def OutVcState_new_def at_def Let_def ex_ext_def GarnetExtLink_new_def ex_link_def
  ex_ext_link_def BasicLink.defs setVcsPerVnet_def setLinkConsumer_def setSourceQueue_def setType_def NetworkLink_new_def

lemma ex_init:
  assumes "Network_new ex_params = Some nw"
  shows "\<exists>g. GarnetNetwork_init ex_faults (GarnetNetwork_new (ex_config\<lparr>m_num_rows := 1\<rparr>) nw ex_routers ex_nis ex_objs ex_ext Map.empty)
    = Some (g, ex_faults)"
proof -
  let ?g = "GarnetNetwork_new (ex_config\<lparr>m_num_rows := 1\<rparr>) nw ex_routers ex_nis ex_objs ex_ext Map.empty"
  from ex_Network_new assms have nw: "nw_nodes nw = 2" "globalToLocalMap nw = [1 \<mapsto> 0, 0 \<mapsto> 1]" "m_topology nw = ex_wires"
     "m_toNetQueues nw = [[], []]" "m_fromNetQueues nw = [[], []]" "m_vnet_type_names nw = [[]]" by auto
  obtain e1 e2 e3 e4 where c: "createLinks ex_wires = Some [MakeExtInLink 0 0 (ex_link 0) e1, MakeExtInLink 1 0 (ex_link 1) e2,
     MakeExtOutLink 0 0 (ex_link 0) e3, MakeExtOutLink 0 1 (ex_link 1) e4]" using ex_createLinks by blast
  have n: "for_range add_node 2 ?g = Some (?g\<lparr>gn_in := [[], []], gn_out := [[], []]\<rparr>)"
    by (simp add: for_range_def numeral_2_eq_2 add_node_def GarnetNetwork_new_def nw at_def attach_queues_def ex_nis_def)
  have "\<exists>g. for_list make_link [MakeExtInLink 0 0 (ex_link 0) e1, MakeExtInLink 1 0 (ex_link 1) e2,
     MakeExtOutLink 0 0 (ex_link 0) e3, MakeExtOutLink 0 1 (ex_link 1) e4] (?g\<lparr>gn_in := [[], []], gn_out := [[], []]\<rparr>) = Some g
     \<and> length (m_routers g) = 1 \<and> m_num_rows (gn_config g) = 1 \<and> \<not> m_enable_fault_model (gn_config g)"
    by (simp add: ex_wiring_eval GarnetNetwork_new_def nw ex_nis_def ex_routers_def ex_objs_def ex_config_def vnet_types_of_def)
  then obtain g where g: "for_list make_link [MakeExtInLink 0 0 (ex_link 0) e1, MakeExtInLink 1 0 (ex_link 1) e2,
     MakeExtOutLink 0 0 (ex_link 0) e3, MakeExtOutLink 0 1 (ex_link 1) e4] (?g\<lparr>gn_in := [[], []], gn_out := [[], []]\<rparr>) = Some g"
     "length (m_routers g) = 1" "m_num_rows (gn_config g) = 1" "\<not> m_enable_fault_model (gn_config g)" by blast
  have "gn_net ?g = nw" by (simp add: GarnetNetwork_new_def)
  then show ?thesis using n c g by (simp add: GarnetNetwork_init_def nw mesh_shape_def del: for_list.simps)
qed

theorem init_wires_network_witness:
  "\<exists>nw g. Network_new ex_params = Some nw
     \<and> GarnetNetwork_init ex_faults (GarnetNetwork_new (ex_config\<lparr>m_num_rows := 1\<rparr>) nw ex_routers ex_nis ex_objs ex_ext Map.empty)
         = Some (g, ex_faults) \<and> wired g
     \<and> (\<exists>net. start_net 2 4 500 0 (\<lambda>_. Consumer_new 500) g = Some net \<and> workers_ok net)"
proof -
  obtain nw where nw: "Network_new ex_params = Some nw" using ex_Network_new by blast
  from ex_init [OF nw] obtain g where
    g: "GarnetNetwork_init ex_faults (GarnetNetwork_new (ex_config\<lparr>m_num_rows := 1\<rparr>) nw ex_routers ex_nis ex_objs ex_ext Map.empty)
         = Some (g, ex_faults)" by blast
  note w = init_wires_network [OF nw ex_wiring_ok g]
  have "length (m_routers g) = 1" using init_wired(2) [OF nw ex_wiring_ok g] by (simp add: ex_routers_def)
  then obtain net where net: "start_net 2 4 500 0 (\<lambda>_. Consumer_new 500) g = Some net"
    by (simp add: start_net_def setup_workers_def choose_num_threads_def Let_def)
  have "\<forall>c :: consumer_ref. Consumer_wf (Consumer_new 500)" using Consumer_new_wf [of 500] by simp
  with w net have "workers_ok net" by (elim conjE allE impE) auto
  then show ?thesis using nw g w net by (intro exI [of _ nw] exI [of _ g]) auto
qed

end
