(* ===== verification/Functional_Access.thy ===== *)
theory Functional_Access
  imports Network_Wiring
begin

text \<open>
  Functional accesses of the Garnet network: reads and writes that a debugger or a checkpoint makes outside simulated
  time, and that have to reach the messages in flight (\<^verbatim>\<open>functionalRead\<close> and \<^verbatim>\<open>functionalWrite\<close> of \<^verbatim>\<open>VirtualChannel.cc\<close>,
  \<^verbatim>\<open>InputUnit.cc\<close>, \<^verbatim>\<open>OutputUnit.cc\<close>, \<^verbatim>\<open>CrossbarSwitch.cc\<close>, \<^verbatim>\<open>Router.cc\<close> and \<^verbatim>\<open>GarnetNetwork.cc\<close>).

  The access to one message is that of the protocol, a parameter.  The locale \<open>functional_access\<close> is the contract of one
  level: a read sees every message below it, a write visits each of them once and counts the accepting ones.  Its lemmas
  lift the contract to the loops over a list, and each level is an interpretation that rests on the one below.
\<close>

subsection \<open>The accesses\<close>

definition vc_functionalRead :: "(Message \<Rightarrow> bool) \<Rightarrow> VirtualChannel \<Rightarrow> bool option" where
  "vc_functionalRead rd v = fb_functionalRead rd (inputBuffer v)"

definition vc_functionalWrite :: "(Message \<Rightarrow> Message \<times> bool) \<Rightarrow> VirtualChannel \<Rightarrow> (VirtualChannel \<times> nat) option" where
  "vc_functionalWrite wr v = do { (b, n) \<leftarrow> fb_functionalWrite wr (inputBuffer v); Some (v\<lparr>inputBuffer := b\<rparr>, n) }"

text \<open>The loop of all the reads: every element is visited, whatever the others answered.\<close>

definition read_each :: "('c \<Rightarrow> bool option) \<Rightarrow> 'c list \<Rightarrow> bool \<Rightarrow> bool option" where
  "read_each f cs read = for_list (\<lambda>c read. do { r \<leftarrow> f c; Some (if r then True else read) }) cs read"

definition InputUnit_functionalRead :: "(Message \<Rightarrow> bool) \<Rightarrow> InputUnit \<Rightarrow> bool option" where
  "InputUnit_functionalRead rd u = read_each (vc_functionalRead rd) (virtualChannels u) False"

definition InputUnit_functionalWrite :: "(Message \<Rightarrow> Message \<times> bool) \<Rightarrow> InputUnit \<Rightarrow> (InputUnit \<times> nat) option" where
  "InputUnit_functionalWrite wr u =
     do { vs \<leftarrow> map_opt (vc_functionalWrite wr) (virtualChannels u);
          Some (u\<lparr>virtualChannels := map fst vs\<rparr>, sum_list (map snd vs)) }"

definition OutputUnit_functionalRead :: "(Message \<Rightarrow> bool) \<Rightarrow> OutputUnit \<Rightarrow> bool option" where
  "OutputUnit_functionalRead rd u = fb_functionalRead rd (outBuffer u)"

definition OutputUnit_functionalWrite :: "(Message \<Rightarrow> Message \<times> bool) \<Rightarrow> OutputUnit \<Rightarrow> (OutputUnit \<times> nat) option" where
  "OutputUnit_functionalWrite wr u = do { (b, n) \<leftarrow> fb_functionalWrite wr (outBuffer u); Some (u\<lparr>outBuffer := b\<rparr>, n) }"

definition CrossbarSwitch_functionalRead :: "(Message \<Rightarrow> bool) \<Rightarrow> CrossbarSwitch \<Rightarrow> bool option" where
  "CrossbarSwitch_functionalRead rd x = read_each (fb_functionalRead rd) (switchBuffers x) False"

definition CrossbarSwitch_functionalWrite ::
  "(Message \<Rightarrow> Message \<times> bool) \<Rightarrow> CrossbarSwitch \<Rightarrow> (CrossbarSwitch \<times> nat) option"
where
  "CrossbarSwitch_functionalWrite wr x =
     do { bs \<leftarrow> map_opt (fb_functionalWrite wr) (switchBuffers x);
          Some (x\<lparr>switchBuffers := map fst bs\<rparr>, sum_list (map snd bs)) }"

definition Router_functionalRead :: "(Message \<Rightarrow> bool) \<Rightarrow> Router \<Rightarrow> bool option" where
  "Router_functionalRead rd r =
     do { x \<leftarrow> CrossbarSwitch_functionalRead rd (crossbarSwitch r);
          read1 \<leftarrow> read_each (InputUnit_functionalRead rd) (m_input_unit r) x;
          read_each (OutputUnit_functionalRead rd) (m_output_unit r) read1 }"

definition Router_functionalWrite :: "(Message \<Rightarrow> Message \<times> bool) \<Rightarrow> Router \<Rightarrow> (Router \<times> nat) option" where
  "Router_functionalWrite wr r =
     do { (x, n) \<leftarrow> CrossbarSwitch_functionalWrite wr (crossbarSwitch r);
          ins \<leftarrow> map_opt (InputUnit_functionalWrite wr) (m_input_unit r);
          outs \<leftarrow> map_opt (OutputUnit_functionalWrite wr) (m_output_unit r);
          Some (r\<lparr>crossbarSwitch := x, m_input_unit := map fst ins, m_output_unit := map fst outs\<rparr>,
                n + sum_list (map snd ins) + sum_list (map snd outs)) }"

text \<open>The flits on the links are in the store \<open>lk\<close>, those on the bridges too.  The write does not go to the bridges.\<close>

definition GarnetNetwork_functionalRead :: "(Message \<Rightarrow> bool) \<Rightarrow> link_store \<Rightarrow> GarnetNetwork \<Rightarrow> bool option" where
  "GarnetNetwork_functionalRead rd lk g =
     do { read1 \<leftarrow> read_each (Router_functionalRead rd) (m_routers g) False;
          read2 \<leftarrow> read_each (NetworkInterface_functionalRead rd) (m_nis g) read1;
          read3 \<leftarrow> read_each (\<lambda>l. NetworkLink_functionalRead rd (lk l)) (m_networklinks g) read2;
          read_each (\<lambda>l. NetworkLink_functionalRead rd (lk l)) (m_networkbridges g) read3 }"

definition link_functionalWrite ::
  "(Message \<Rightarrow> Message \<times> bool) \<Rightarrow> link_id \<Rightarrow> link_store \<times> nat \<Rightarrow> (link_store \<times> nat) option"
where
  "link_functionalWrite wr l st =
     (case st of (lk, n) \<Rightarrow> do { (b, k) \<leftarrow> NetworkLink_functionalWrite wr (lk l); Some (lk(l := b), n + k) })"

definition GarnetNetwork_functionalWrite ::
  "(Message \<Rightarrow> Message \<times> bool) \<Rightarrow> link_store \<Rightarrow> GarnetNetwork \<Rightarrow> (link_store \<times> GarnetNetwork \<times> nat) option"
where
  "GarnetNetwork_functionalWrite wr lk g =
     do { rs \<leftarrow> map_opt (Router_functionalWrite wr) (m_routers g);
          ns \<leftarrow> map_opt (NetworkInterface_functionalWrite wr) (m_nis g);
          (lk1, n) \<leftarrow> for_list (link_functionalWrite wr) (m_networklinks g) (lk, sum_list (map snd rs) + sum_list (map snd ns));
          Some (lk1, g\<lparr>m_routers := map fst rs, m_nis := map fst ns\<rparr>, n) }"

subsection \<open>The contract of one level\<close>

locale functional_access =
  fixes msgs :: "'c \<Rightarrow> Message option list"
    and access_read :: "(Message \<Rightarrow> bool) \<Rightarrow> 'c \<Rightarrow> bool option"
    and access_write :: "(Message \<Rightarrow> Message \<times> bool) \<Rightarrow> 'c \<Rightarrow> ('c \<times> nat) option"
  assumes read_sees: "None \<notin> set (msgs c) \<Longrightarrow> access_read rd c = Some (\<exists>m. Some m \<in> set (msgs c) \<and> rd m)"
    and write_visits: "None \<notin> set (msgs c) \<Longrightarrow> \<exists>c'. access_write wr c = Some (c', length (filter (\<lambda>m. snd (wr (the m))) (msgs c)))
      \<and> msgs c' = map (map_option (\<lambda>m. fst (wr m))) (msgs c)"
begin

lemma read_each_sees:
  assumes "None \<notin> set (concat (map msgs cs))"
  shows "read_each (access_read rd) cs b = Some (b \<or> (\<exists>m. Some m \<in> set (concat (map msgs cs)) \<and> rd m))"
  using assms unfolding read_each_def
proof (induction cs arbitrary: b)
  case (Cons c cs)
  have "None \<notin> set (msgs c)" "None \<notin> set (concat (map msgs cs))" using Cons.prems by auto
  then show ?case using read_sees [of c rd] Cons.IH by auto
qed simp

lemma write_each_visits:
  assumes "None \<notin> set (concat (map msgs cs))"
  shows "\<exists>ps. map_opt (access_write wr) cs = Some ps \<and> length ps = length cs
    \<and> sum_list (map snd ps) = length (filter (\<lambda>m. snd (wr (the m))) (concat (map msgs cs)))
    \<and> concat (map msgs (map fst ps)) = map (map_option (\<lambda>m. fst (wr m))) (concat (map msgs cs))"
  using assms
proof (induction cs)
  case (Cons c cs)
  have "None \<notin> set (msgs c)" "None \<notin> set (concat (map msgs cs))" using Cons.prems by auto
  with write_visits [of c wr] Cons.IH obtain c' ps where
    "access_write wr c = Some (c', length (filter (\<lambda>m. snd (wr (the m))) (msgs c)))" "msgs c' = map (map_option (\<lambda>m. fst (wr m))) (msgs c)"
    "map_opt (access_write wr) cs = Some ps" "length ps = length cs"
    "sum_list (map snd ps) = length (filter (\<lambda>m. snd (wr (the m))) (concat (map msgs cs)))"
    "concat (map msgs (map fst ps)) = map (map_option (\<lambda>m. fst (wr m))) (concat (map msgs cs))" by auto
  then show ?case by simp
qed simp

end

subsection \<open>The levels\<close>

definition fb_msgs :: "flitBuffer \<Rightarrow> Message option list" where
  "fb_msgs b = map m_msg_ptr (m_buffer b)"

definition crossbar_msgs :: "CrossbarSwitch \<Rightarrow> Message option list" where
  "crossbar_msgs x = concat (map fb_msgs (switchBuffers x))"

definition input_msgs :: "InputUnit \<Rightarrow> Message option list" where
  "input_msgs u = concat (map (\<lambda>v. fb_msgs (inputBuffer v)) (virtualChannels u))"

definition router_msgs :: "Router \<Rightarrow> Message option list" where
  "router_msgs r = crossbar_msgs (crossbarSwitch r) @ concat (map input_msgs (m_input_unit r))
     @ concat (map (\<lambda>u. fb_msgs (outBuffer u)) (m_output_unit r))"

definition ni_msgs :: "NetworkInterface \<Rightarrow> Message option list" where
  "ni_msgs ni = concat (map fb_msgs (niOutVcs ni)) @ concat (map (\<lambda>p. fb_msgs (outFlitQueue p)) (outPorts ni))"

lemma fb_write:
  assumes "None \<notin> set (fb_msgs b)"
  shows "\<exists>b'. fb_functionalWrite wr b = Some (b', length (filter (\<lambda>m. snd (wr (the m))) (fb_msgs b)))
    \<and> fb_msgs b' = map (map_option (\<lambda>m. fst (wr m))) (fb_msgs b)"
proof -
  have "\<exists>ps. map_opt (flit_functionalWrite wr) fs = Some ps
      \<and> length (filter snd ps) = length (filter (\<lambda>m. snd (wr (the m))) (map m_msg_ptr fs))
      \<and> map (m_msg_ptr \<circ> fst) ps = map (map_option (\<lambda>m. fst (wr m))) (map m_msg_ptr fs)"
    if "None \<notin> set (map m_msg_ptr fs)" for fs
    using that
  proof (induction fs)
    case (Cons f fs)
    then obtain m where "m_msg_ptr f = Some m" by (cases "m_msg_ptr f") auto
    then show ?case using Cons by (auto simp: flit_functionalWrite_def)
  qed simp
  from this [of "m_buffer b"] assms show ?thesis by (auto simp: fb_functionalWrite_def fb_msgs_def)
qed

interpretation fb_access: functional_access fb_msgs fb_functionalRead fb_functionalWrite
proof unfold_locales
  fix b rd assume "None \<notin> set (fb_msgs b)"
  moreover have "for_list (\<lambda>f read. do { r \<leftarrow> flit_functionalRead rd f; Some (if r then True else read) }) fs a
      = Some (a \<or> (\<exists>m. Some m \<in> set (map m_msg_ptr fs) \<and> rd m))" if "None \<notin> set (map m_msg_ptr fs)" for fs a
    using that
  proof (induction fs arbitrary: a)
    case (Cons f fs)
    then obtain m where "m_msg_ptr f = Some m" by (cases "m_msg_ptr f") auto
    then show ?case using Cons by (auto simp: flit_functionalRead_def)
  qed simp
  ultimately show "fb_functionalRead rd b = Some (\<exists>m. Some m \<in> set (fb_msgs b) \<and> rd m)"
    by (simp add: fb_functionalRead_def fb_msgs_def)
qed (rule fb_write)

text \<open>A level that has just one buffer.\<close>

lemma field_access:
  assumes "\<And>b c. get (upd b c) = b" "\<And>rd c. r rd c = fb_functionalRead rd (get c)"
    and w: "\<And>wr c. w wr c = do { (b, n) \<leftarrow> fb_functionalWrite wr (get c); Some (upd b c, n) }"
  shows "functional_access (\<lambda>c. fb_msgs (get c)) r w"
proof unfold_locales
  fix c wr assume "None \<notin> set (fb_msgs (get c))"
  from fb_write [OF this, of wr] obtain b where
    "fb_functionalWrite wr (get c) = Some (b, length (filter (\<lambda>m. snd (wr (the m))) (fb_msgs (get c))))"
    "fb_msgs b = map (map_option (\<lambda>m. fst (wr m))) (fb_msgs (get c))" by blast
  then show "\<exists>c'. w wr c = Some (c', length (filter (\<lambda>m. snd (wr (the m))) (fb_msgs (get c))))
      \<and> fb_msgs (get c') = map (map_option (\<lambda>m. fst (wr m))) (fb_msgs (get c))"
    by (intro exI [of _ "upd b c"]) (simp add: w assms(1))
qed (simp add: assms(2) fb_access.read_sees)

interpretation vc_access: functional_access "\<lambda>v. fb_msgs (inputBuffer v)" vc_functionalRead vc_functionalWrite
  by (rule field_access [where upd = "\<lambda>b v. v\<lparr>inputBuffer := b\<rparr>"]) (simp_all add: vc_functionalRead_def vc_functionalWrite_def)

interpretation out_access: functional_access "\<lambda>u. fb_msgs (outBuffer u)" OutputUnit_functionalRead OutputUnit_functionalWrite
  by (rule field_access [where upd = "\<lambda>b u. u\<lparr>outBuffer := b\<rparr>"])
    (simp_all add: OutputUnit_functionalRead_def OutputUnit_functionalWrite_def)

interpretation in_access: functional_access input_msgs InputUnit_functionalRead InputUnit_functionalWrite
proof unfold_locales
  fix u rd assume "None \<notin> set (input_msgs u)"
  then show "InputUnit_functionalRead rd u = Some (\<exists>m. Some m \<in> set (input_msgs u) \<and> rd m)"
    by (simp only: InputUnit_functionalRead_def input_msgs_def vc_access.read_each_sees simp_thms)
next
  fix u wr assume "None \<notin> set (input_msgs u)"
  from vc_access.write_each_visits [OF this [unfolded input_msgs_def], of wr]
  show "\<exists>u'. InputUnit_functionalWrite wr u = Some (u', length (filter (\<lambda>m. snd (wr (the m))) (input_msgs u)))
      \<and> input_msgs u' = map (map_option (\<lambda>m. fst (wr m))) (input_msgs u)"
    by (clarsimp simp: InputUnit_functionalWrite_def input_msgs_def)
qed

interpretation xbar_access: functional_access crossbar_msgs CrossbarSwitch_functionalRead CrossbarSwitch_functionalWrite
proof unfold_locales
  fix u rd assume "None \<notin> set (crossbar_msgs u)"
  then show "CrossbarSwitch_functionalRead rd u = Some (\<exists>m. Some m \<in> set (crossbar_msgs u) \<and> rd m)"
    by (simp only: CrossbarSwitch_functionalRead_def crossbar_msgs_def fb_access.read_each_sees simp_thms)
next
  fix u wr assume "None \<notin> set (crossbar_msgs u)"
  from fb_access.write_each_visits [OF this [unfolded crossbar_msgs_def], of wr]
  show "\<exists>u'. CrossbarSwitch_functionalWrite wr u = Some (u', length (filter (\<lambda>m. snd (wr (the m))) (crossbar_msgs u)))
      \<and> crossbar_msgs u' = map (map_option (\<lambda>m. fst (wr m))) (crossbar_msgs u)"
    by (clarsimp simp: CrossbarSwitch_functionalWrite_def crossbar_msgs_def)
qed

interpretation router_access: functional_access router_msgs Router_functionalRead Router_functionalWrite
proof unfold_locales
  fix r rd assume "None \<notin> set (router_msgs r)"
  then have "None \<notin> set (crossbar_msgs (crossbarSwitch r))" "None \<notin> set (concat (map input_msgs (m_input_unit r)))"
    "None \<notin> set (concat (map (\<lambda>u. fb_msgs (outBuffer u)) (m_output_unit r)))" unfolding router_msgs_def by simp_all
  then show "Router_functionalRead rd r = Some (\<exists>m. Some m \<in> set (router_msgs r) \<and> rd m)"
    unfolding Router_functionalRead_def
    by (simp only: xbar_access.read_sees in_access.read_each_sees out_access.read_each_sees Option.bind_lunit router_msgs_def set_append
        simp_thms Un_iff option.inject) blast
next
  fix r wr assume n: "None \<notin> set (router_msgs r)"
  then obtain x where x: "CrossbarSwitch_functionalWrite wr (crossbarSwitch r) = Some (x, length (filter (\<lambda>m. snd (wr (the m))) (crossbar_msgs (crossbarSwitch r))))"
    "crossbar_msgs x = map (map_option (\<lambda>m. fst (wr m))) (crossbar_msgs (crossbarSwitch r))"
    using xbar_access.write_visits [of "crossbarSwitch r" wr] by (auto simp: router_msgs_def)
  have "None \<notin> set (concat (map input_msgs (m_input_unit r)))" using n by (simp add: router_msgs_def)
  from in_access.write_each_visits [OF this, of wr] obtain ins where
    i: "map_opt (InputUnit_functionalWrite wr) (m_input_unit r) = Some ins"
      "sum_list (map snd ins) = length (filter (\<lambda>m. snd (wr (the m))) (concat (map input_msgs (m_input_unit r))))"
      "concat (map input_msgs (map fst ins)) = map (map_option (\<lambda>m. fst (wr m))) (concat (map input_msgs (m_input_unit r)))" by blast
  have "None \<notin> set (concat (map (\<lambda>u. fb_msgs (outBuffer u)) (m_output_unit r)))" using n by (simp add: router_msgs_def)
  from out_access.write_each_visits [OF this, of wr] obtain outs where
    o: "map_opt (OutputUnit_functionalWrite wr) (m_output_unit r) = Some outs"
      "sum_list (map snd outs) = length (filter (\<lambda>m. snd (wr (the m))) (concat (map (\<lambda>u. fb_msgs (outBuffer u)) (m_output_unit r))))"
      "concat (map (\<lambda>u. fb_msgs (outBuffer u)) (map fst outs))
        = map (map_option (\<lambda>m. fst (wr m))) (concat (map (\<lambda>u. fb_msgs (outBuffer u)) (m_output_unit r)))" by blast
  show "\<exists>r'. Router_functionalWrite wr r = Some (r', length (filter (\<lambda>m. snd (wr (the m))) (router_msgs r)))
      \<and> router_msgs r' = map (map_option (\<lambda>m. fst (wr m))) (router_msgs r)"
    unfolding Router_functionalWrite_def x(1) i(1) o(1)
    by (simp add: router_msgs_def x(2) i(2) o(2) i(3) [simplified] o(3) [simplified])
qed

lemma ni_read_each: "NetworkInterface_functionalRead rd ni = read_each (fb_functionalRead rd) (ni_queues ni) False"
  by (simp add: NetworkInterface_functionalRead_def read_each_def)

interpretation port_access: functional_access "\<lambda>p. fb_msgs (outFlitQueue p)" "\<lambda>rd p. fb_functionalRead rd (outFlitQueue p)"
  "\<lambda>wr p. do { (b, n) \<leftarrow> fb_functionalWrite wr (outFlitQueue p); Some (p\<lparr>outFlitQueue := b\<rparr>, n) }"
  by (rule field_access [where upd = "\<lambda>b p. p\<lparr>outFlitQueue := b\<rparr>"]) simp_all

interpretation ni_access: functional_access ni_msgs NetworkInterface_functionalRead NetworkInterface_functionalWrite
proof unfold_locales
  fix ni rd assume "None \<notin> set (ni_msgs ni)"
  moreover have "ni_msgs ni = concat (map fb_msgs (ni_queues ni))" by (simp add: ni_msgs_def ni_queues_def comp_def)
  ultimately show "NetworkInterface_functionalRead rd ni = Some (\<exists>m. Some m \<in> set (ni_msgs ni) \<and> rd m)"
    by (simp only: ni_read_each fb_access.read_each_sees simp_thms)
next
  fix ni wr assume n: "None \<notin> set (ni_msgs ni)"
  then have "None \<notin> set (concat (map fb_msgs (niOutVcs ni)))" by (simp add: ni_msgs_def)
  from fb_access.write_each_visits [OF this, of wr] obtain vs where
    v: "map_opt (fb_functionalWrite wr) (niOutVcs ni) = Some vs"
      "sum_list (map snd vs) = length (filter (\<lambda>m. snd (wr (the m))) (concat (map fb_msgs (niOutVcs ni))))"
      "concat (map fb_msgs (map fst vs)) = map (map_option (\<lambda>m. fst (wr m))) (concat (map fb_msgs (niOutVcs ni)))" by blast
  have "None \<notin> set (concat (map (\<lambda>p. fb_msgs (outFlitQueue p)) (outPorts ni)))" using n by (simp add: ni_msgs_def)
  from port_access.write_each_visits [OF this, of wr] obtain ps where
    p: "map_opt (\<lambda>p. do { (b, n) \<leftarrow> fb_functionalWrite wr (outFlitQueue p); Some (p\<lparr>outFlitQueue := b\<rparr>, n) }) (outPorts ni) = Some ps"
      "sum_list (map snd ps) = length (filter (\<lambda>m. snd (wr (the m))) (concat (map (\<lambda>p. fb_msgs (outFlitQueue p)) (outPorts ni))))"
      "concat (map (\<lambda>p. fb_msgs (outFlitQueue p)) (map fst ps))
        = map (map_option (\<lambda>m. fst (wr m))) (concat (map (\<lambda>p. fb_msgs (outFlitQueue p)) (outPorts ni)))" by blast
  show "\<exists>ni'. NetworkInterface_functionalWrite wr ni = Some (ni', length (filter (\<lambda>m. snd (wr (the m))) (ni_msgs ni)))
      \<and> ni_msgs ni' = map (map_option (\<lambda>m. fst (wr m))) (ni_msgs ni)"
    unfolding NetworkInterface_functionalWrite_def v(1) p(1)
    by (simp add: ni_msgs_def v(2) p(2) v(3) [simplified] p(3) [simplified])
qed

subsection \<open>The whole network\<close>

definition link_msgs :: "link_store \<Rightarrow> link_id list \<Rightarrow> Message option list" where
  "link_msgs lk ls = concat (map (\<lambda>l. fb_msgs (lk l)) ls)"

text \<open>What a write visits; a read visits the flits on the bridges too.\<close>

definition net_msgs :: "link_store \<Rightarrow> GarnetNetwork \<Rightarrow> Message option list" where
  "net_msgs lk g = concat (map router_msgs (m_routers g)) @ concat (map ni_msgs (m_nis g)) @ link_msgs lk (m_networklinks g)"

lemma read_links:
  assumes "None \<notin> set (link_msgs lk ls)"
  shows "read_each (\<lambda>l. NetworkLink_functionalRead rd (lk l)) ls b = Some (b \<or> (\<exists>m. Some m \<in> set (link_msgs lk ls) \<and> rd m))"
proof -
  have "read_each (\<lambda>l. NetworkLink_functionalRead rd (lk l)) ls b = read_each (fb_functionalRead rd) (map lk ls) b"
    unfolding read_each_def by (induction ls arbitrary: b) (auto simp: NetworkLink_functionalRead_def split: Option.bind_splits)
  then show ?thesis using fb_access.read_each_sees [of "map lk ls" rd b] assms by (simp add: link_msgs_def comp_def)
qed

lemma write_links:
  assumes "None \<notin> set (link_msgs lk ls)" "distinct ls"
  shows "\<exists>lk'. for_list (link_functionalWrite wr) ls (lk, n) = Some (lk', n + length (filter (\<lambda>m. snd (wr (the m))) (link_msgs lk ls)))
    \<and> link_msgs lk' ls = map (map_option (\<lambda>m. fst (wr m))) (link_msgs lk ls) \<and> (\<forall>l. l \<notin> set ls \<longrightarrow> lk' l = lk l)"
  using assms
proof (induction ls arbitrary: lk n)
  case (Cons l ls)
  have "None \<notin> set (fb_msgs (lk l))" using Cons.prems(1) by (simp add: link_msgs_def)
  from fb_write [OF this, of wr] obtain b where
    b: "fb_functionalWrite wr (lk l) = Some (b, length (filter (\<lambda>m. snd (wr (the m))) (fb_msgs (lk l))))"
      "fb_msgs b = map (map_option (\<lambda>m. fst (wr m))) (fb_msgs (lk l))" by blast
  let ?n = "n + length (filter (\<lambda>m. snd (wr (the m))) (fb_msgs (lk l)))"
  have same: "link_msgs (lk(l := b)) ls = link_msgs lk ls"
    using Cons.prems(2) unfolding link_msgs_def by (intro arg_cong [of _ _ concat] map_cong) auto
  have "None \<notin> set (link_msgs (lk(l := b)) ls)" "distinct ls" using Cons.prems unfolding same by (simp_all add: link_msgs_def)
  from Cons.IH [OF this, of ?n, unfolded same] obtain lk' where
    lk': "for_list (link_functionalWrite wr) ls (lk(l := b), ?n) = Some (lk', ?n + length (filter (\<lambda>m. snd (wr (the m))) (link_msgs lk ls)))"
      "link_msgs lk' ls = map (map_option (\<lambda>m. fst (wr m))) (link_msgs lk ls)" "\<forall>k. k \<notin> set ls \<longrightarrow> lk' k = (lk(l := b)) k" by blast
  have "lk' l = b" using lk'(3) Cons.prems(2) by simp
  have "for_list (link_functionalWrite wr) (l # ls) (lk, n) = for_list (link_functionalWrite wr) ls (lk(l := b), ?n)"
    by (simp add: link_functionalWrite_def NetworkLink_functionalWrite_def b(1))
  moreover have "link_msgs k (l # ls) = fb_msgs (k l) @ link_msgs k ls" for k by (simp add: link_msgs_def)
  ultimately show ?case using lk' \<open>lk' l = b\<close> b(2) by (intro exI [of _ lk']) simp
qed (simp add: link_msgs_def)

lemma NI_functionalWrite_inPorts: "NetworkInterface_functionalWrite wr ni = Some (ni', n) \<Longrightarrow> inPorts ni' = inPorts ni"
  by (auto simp: NetworkInterface_functionalWrite_def bind_eq_Some_conv)

lemma NI_write_inPorts: "map_opt (NetworkInterface_functionalWrite wr) nis = Some ps \<Longrightarrow> map (inPorts \<circ> fst) ps = map inPorts nis"
  by (induction nis arbitrary: ps) (auto simp: bind_eq_Some_conv dest: NI_functionalWrite_inPorts)


definition ex_carried :: flit where
  "ex_carried = flit_new 0 0 0 0 RouteInfo_new 1 (Some (ex_msg 7)) 8 16 0"

definition ex_bridged :: GarnetNetwork where
  "ex_bridged = (GarnetNetwork_new ex_config (the (Network_new ex_params)) ex_routers ex_nis ex_objs ex_ext Map.empty)
     \<lparr>m_networklinks := [0], m_networkbridges := [1]\<rparr>"


end
