(* ===== verification/Network_Stats.thy ===== *)
theory Network_Stats
  imports Network_Wiring
begin

text \<open>
  The statistics of the Garnet network: \<^verbatim>\<open>collateStats\<close>, \<^verbatim>\<open>resetStats\<close> and \<^verbatim>\<open>update_traffic_distribution\<close> of
  \<^verbatim>\<open>garnet/GarnetNetwork.cc\<close>, and the order in which \<^verbatim>\<open>python/m5/stats/__init__.py\<close> calls them for a dump and for a reset.

  The totals are \<^verbatim>\<open>double\<close>s to which integers are added, here exact numbers; the averages, quotients of \<^verbatim>\<open>double\<close>s, are left
  out.  \<^verbatim>\<open>collateStats\<close> reads the utilisation of a link, an unsigned number, as an \<^verbatim>\<open>int\<close>.
\<close>

subsection \<open>The totals\<close>

record NetStats =
  m_packets_received :: "nat list"
  m_packets_injected :: "nat list"
  m_packet_network_latency :: "nat list"
  m_packet_queueing_latency :: "nat list"
  m_flits_received :: "nat list"
  m_flits_injected :: "nat list"
  m_flit_network_latency :: "nat list"
  m_flit_queueing_latency :: "nat list"
  m_total_ext_in_link_utilization :: int
  m_total_ext_out_link_utilization :: int
  m_total_int_link_utilization :: int
  m_total_hops :: nat

definition NetStats_zero :: "nat \<Rightarrow> NetStats" where
  "NetStats_zero n =
     \<lparr>m_packets_received = replicate n 0, m_packets_injected = replicate n 0, m_packet_network_latency = replicate n 0,
      m_packet_queueing_latency = replicate n 0, m_flits_received = replicate n 0, m_flits_injected = replicate n 0,
      m_flit_network_latency = replicate n 0, m_flit_queueing_latency = replicate n 0, m_total_ext_in_link_utilization = 0,
      m_total_ext_out_link_utilization = 0, m_total_int_link_utilization = 0, m_total_hops = 0\<rparr>"

definition add_link :: "link_objs \<Rightarrow> link_id \<Rightarrow> NetStats \<Rightarrow> NetStats option" where
  "add_link objs l st =
     do { x \<leftarrow> objs l;
          let activity = sint (m_link_utilized (obj_link x));
          Some (case l_type (obj_link x) of
                  Some EXT_IN \<Rightarrow> st\<lparr>m_total_ext_in_link_utilization := m_total_ext_in_link_utilization st + activity\<rparr>
                | Some EXT_OUT \<Rightarrow> st\<lparr>m_total_ext_out_link_utilization := m_total_ext_out_link_utilization st + activity\<rparr>
                | Some link_type.INT \<Rightarrow> st\<lparr>m_total_int_link_utilization := m_total_int_link_utilization st + activity\<rparr>
                | None \<Rightarrow> st) }"

text \<open>\<^verbatim>\<open>total[v] += local[v]\<close>; both indices are checked.\<close>

definition add_total :: "nat \<Rightarrow> counter list \<Rightarrow> nat list \<Rightarrow> nat list option" where
  "add_total v loc tot = do { x \<leftarrow> at loc v; t \<leftarrow> at tot v; put tot v (t + unat x) }"

definition add_vnet :: "NetworkInterface \<Rightarrow> nat \<Rightarrow> NetStats \<Rightarrow> NetStats option" where
  "add_vnet ni v st =
     do { fi \<leftarrow> add_total v (m_local_flits_injected ni) (m_flits_injected st);
          fr \<leftarrow> add_total v (m_local_flits_received ni) (m_flits_received st);
          fl \<leftarrow> add_total v (m_local_flit_network_latency ni) (m_flit_network_latency st);
          fq \<leftarrow> add_total v (m_local_flit_queueing_latency ni) (m_flit_queueing_latency st);
          pj \<leftarrow> add_total v (m_local_packets_injected ni) (m_packets_injected st);
          pr \<leftarrow> add_total v (m_local_packets_received ni) (m_packets_received st);
          pl \<leftarrow> add_total v (m_local_packet_network_latency ni) (m_packet_network_latency st);
          pq \<leftarrow> add_total v (m_local_packet_queueing_latency ni) (m_packet_queueing_latency st);
          Some (st\<lparr>m_flits_injected := fi, m_flits_received := fr, m_flit_network_latency := fl, m_flit_queueing_latency := fq,
                   m_packets_injected := pj, m_packets_received := pr, m_packet_network_latency := pl,
                   m_packet_queueing_latency := pq\<rparr>) }"

definition add_ni :: "GarnetNetwork \<Rightarrow> nat \<Rightarrow> NetStats \<Rightarrow> NetStats option" where
  "add_ni g i st =
     do { ni \<leftarrow> at (m_nis g) i;
          st1 \<leftarrow> for_range (add_vnet ni) (length (m_local_flits_injected ni)) st;
          Some (st1\<lparr>m_total_hops := m_total_hops st1 + unat (m_local_total_hops ni)\<rparr>) }"

definition GarnetNetwork_collateStats :: "GarnetNetwork \<times> NetStats \<Rightarrow> (GarnetNetwork \<times> NetStats) option" where
  "GarnetNetwork_collateStats gs =
     (case gs of (g, st) \<Rightarrow>
        do { st1 \<leftarrow> for_list (add_link (gn_objs g)) (m_networklinks g) st;
             let g1 = g\<lparr>m_routers := map Router_collateStats (m_routers g)\<rparr>;
             st2 \<leftarrow> for_range (add_ni g1) (nw_nodes (gn_net g1)) st1;
             Some (g1, st2) })"

definition GarnetNetwork_resetStats :: "GarnetNetwork \<Rightarrow> GarnetNetwork option" where
  "GarnetNetwork_resetStats g =
     do { let g1 = g\<lparr>m_routers := map Router_resetStats (m_routers g)\<rparr>;
          o1 \<leftarrow> for_list (upd_obj obj_resetStats) (m_networklinks g1) (gn_objs g1);
          o2 \<leftarrow> for_list (upd_obj obj_resetStats) (m_creditlinks g1) o1;
          Some (g1\<lparr>gn_objs := o2\<rparr>) }"

text \<open>The reset of the statistics package: \<^verbatim>\<open>resetStats\<close> of the objects, then each total is cleared, those of the routers
  too.\<close>

definition clear_router_stats :: "Router \<Rightarrow> Router" where
  "clear_router_stats r = r\<lparr>m_buffer_reads := 0, m_buffer_writes := 0, m_sw_input_arbiter_activity := 0,
     m_sw_output_arbiter_activity := 0, r_crossbar_activity := 0\<rparr>"

definition stats_reset :: "GarnetNetwork \<times> NetStats \<Rightarrow> (GarnetNetwork \<times> NetStats) option" where
  "stats_reset gs =
     do { g1 \<leftarrow> GarnetNetwork_resetStats (fst gs);
          Some (g1\<lparr>m_routers := map clear_router_stats (m_routers g1)\<rparr>, NetStats_zero (nw_virtual_networks (gn_net g1))) }"

subsection \<open>What a dump adds\<close>

text \<open>The rows of the eight totals of each virtual network, and those of one interface.\<close>

definition rows_of :: "NetStats \<Rightarrow> nat list list" where
  "rows_of st = [m_flits_injected st, m_flits_received st, m_flit_network_latency st, m_flit_queueing_latency st,
     m_packets_injected st, m_packets_received st, m_packet_network_latency st, m_packet_queueing_latency st]"

definition local_rows :: "NetworkInterface \<Rightarrow> counter list list" where
  "local_rows ni = [m_local_flits_injected ni, m_local_flits_received ni, m_local_flit_network_latency ni,
     m_local_flit_queueing_latency ni, m_local_packets_injected ni, m_local_packets_received ni, m_local_packet_network_latency ni,
     m_local_packet_queueing_latency ni]"

definition stats_ok :: "GarnetNetwork \<Rightarrow> bool" where
  "stats_ok g \<longleftrightarrow> nw_nodes (gn_net g) \<le> length (m_nis g)
     \<and> (\<forall>ni\<in>set (m_nis g). \<forall>row\<in>set (local_rows ni). length row = nw_virtual_networks (gn_net g))
     \<and> (\<forall>l\<in>set (m_networklinks g) \<union> set (m_creditlinks g). gn_objs g l \<noteq> None)"

definition rows_wf :: "nat \<Rightarrow> NetStats \<Rightarrow> bool" where
  "rows_wf n st \<longleftrightarrow> (\<forall>row\<in>set (rows_of st). length row = n)"

lemma add_total_row:
  assumes "length loc = n" "length tot = n" "v < n"
  shows "add_total v loc tot = Some (tot[v := tot ! v + unat (loc ! v)])"
  using assms by (simp add: add_total_def at_def put_def)

lemma add_vnet_rows:
  assumes "\<forall>row\<in>set (local_rows ni). length row = n" "rows_wf n st" "v < n"
  shows "\<exists>st'. add_vnet ni v st = Some st' \<and> m_total_hops st' = m_total_hops st
    \<and> rows_of st' = map2 (\<lambda>row loc. row[v := row ! v + unat (loc ! v)]) (rows_of st) (local_rows ni)"
  using assms unfolding add_vnet_def rows_wf_def rows_of_def local_rows_def by (simp add: add_total_row [where n = n])

lemma length_rows [simp]: "length (rows_of st) = 8" "length (local_rows ni) = 8"
  by (simp_all add: rows_of_def local_rows_def)

definition row_sum :: "GarnetNetwork \<Rightarrow> nat \<Rightarrow> nat \<Rightarrow> nat \<Rightarrow> nat" where
  "row_sum g k r v = (\<Sum>i<k. unat (local_rows (m_nis g ! i) ! r ! v))"

lemma add_vnets_rows:
  assumes "\<forall>row\<in>set (local_rows ni). length row = n" "rows_wf n st"
  shows "\<exists>st'. for_range (add_vnet ni) n st = Some st' \<and> rows_wf n st' \<and> m_total_hops st' = m_total_hops st
    \<and> (\<forall>r<8. \<forall>v<n. rows_of st' ! r ! v = rows_of st ! r ! v + unat (local_rows ni ! r ! v))"
proof -
  let ?P = "\<lambda>k s. rows_wf n s \<and> m_total_hops s = m_total_hops st
      \<and> (\<forall>r<8. \<forall>v<n. rows_of s ! r ! v = rows_of st ! r ! v + (if v < k then unat (local_rows ni ! r ! v) else 0))"
  have "\<exists>st'. for_range (add_vnet ni) n st = Some st' \<and> ?P n st'"
  proof (rule for_range_defined [where P = ?P])
    fix k s assume k: "k < n" "?P k s"
    from add_vnet_rows [OF assms(1) _ k(1), of s] k(2) obtain t where
      t: "add_vnet ni k s = Some t" "m_total_hops t = m_total_hops s"
        "rows_of t = map2 (\<lambda>row loc. row[k := row ! k + unat (loc ! k)]) (rows_of s) (local_rows ni)" by blast
    have len: "\<forall>r<8. length (rows_of s ! r) = n" using k(2) by (simp add: rows_wf_def)
    have "rows_wf n t" unfolding rows_wf_def all_set_conv_all_nth using t(3) len by simp
    moreover have "rows_of t ! r ! v = rows_of st ! r ! v + (if v < Suc k then unat (local_rows ni ! r ! v) else 0)"
      if "r < 8" "v < n" for r v
      using that t(3) len k by (simp add: nth_list_update)
    ultimately show "\<exists>t. add_vnet ni k s = Some t \<and> ?P (Suc k) t" using t k(2) by auto
  qed (use assms(2) in simp)
  then show ?thesis by auto
qed

lemma add_nis_rows:
  assumes "stats_ok g" "rows_wf (nw_virtual_networks (gn_net g)) st"
  shows "\<exists>st'. for_range (add_ni g) (nw_nodes (gn_net g)) st = Some st' \<and> rows_wf (nw_virtual_networks (gn_net g)) st'
    \<and> m_total_hops st' = m_total_hops st + (\<Sum>i<nw_nodes (gn_net g). unat (m_local_total_hops (m_nis g ! i)))
    \<and> (\<forall>r<8. \<forall>v<nw_virtual_networks (gn_net g). rows_of st' ! r ! v = rows_of st ! r ! v + row_sum g (nw_nodes (gn_net g)) r v)"
proof -
  let ?n = "nw_virtual_networks (gn_net g)"
  let ?P = "\<lambda>k s. rows_wf ?n s \<and> m_total_hops s = m_total_hops st + (\<Sum>i<k. unat (m_local_total_hops (m_nis g ! i)))
      \<and> (\<forall>r<8. \<forall>v<?n. rows_of s ! r ! v = rows_of st ! r ! v + row_sum g k r v)"
  have "\<exists>st'. for_range (add_ni g) (nw_nodes (gn_net g)) st = Some st' \<and> ?P (nw_nodes (gn_net g)) st'"
  proof (rule for_range_defined [where P = ?P])
    fix k s assume k: "k < nw_nodes (gn_net g)" "?P k s"
    have i: "k < length (m_nis g)" using k(1) assms(1) by (simp add: stats_ok_def)
    then have rows: "\<forall>row\<in>set (local_rows (m_nis g ! k)). length row = ?n" using assms(1) nth_mem [OF i] unfolding stats_ok_def by blast
    from add_vnets_rows [OF rows, of s] k(2) obtain t where
      t: "for_range (add_vnet (m_nis g ! k)) ?n s = Some t" "rows_wf ?n t" "m_total_hops t = m_total_hops s"
        "\<forall>r<8. \<forall>v<?n. rows_of t ! r ! v = rows_of s ! r ! v + unat (local_rows (m_nis g ! k) ! r ! v)" by blast
    let ?t = "t\<lparr>m_total_hops := m_total_hops t + unat (m_local_total_hops (m_nis g ! k))\<rparr>"
    have "length (m_local_flits_injected (m_nis g ! k)) = ?n" using rows by (simp add: local_rows_def)
    then have "add_ni g k s = Some ?t" using t(1) i by (simp add: add_ni_def at_def)
    moreover have "rows_of ?t = rows_of t" by (simp add: rows_of_def)
    ultimately show "\<exists>t. add_ni g k s = Some t \<and> ?P (Suc k) t"
      using t k(2) by (intro exI [of _ ?t]) (auto simp: rows_wf_def row_sum_def)
  qed (use assms(2) in \<open>simp add: row_sum_def\<close>)
  then show ?thesis by auto
qed

lemma add_links_rows:
  assumes "\<forall>l\<in>set ls. objs l \<noteq> None"
  shows "\<exists>st'. for_list (add_link objs) ls st = Some st' \<and> rows_of st' = rows_of st \<and> m_total_hops st' = m_total_hops st"
proof (rule for_list_defined)
  fix l s assume l: "l \<in> set ls" "rows_of s = rows_of st \<and> m_total_hops s = m_total_hops st"
  then obtain x where "objs l = Some x" using assms by auto
  then show "\<exists>t. add_link objs l s = Some t \<and> rows_of t = rows_of st \<and> m_total_hops t = m_total_hops st"
    using l(2) by (simp add: add_link_def rows_of_def Let_def split: option.splits link_type.splits)
qed simp

definition collated :: "GarnetNetwork \<Rightarrow> GarnetNetwork" where
  "collated g = g\<lparr>m_routers := map Router_collateStats (m_routers g)\<rparr>"

lemma collated_simps [simp]:
  "gn_net (collated g) = gn_net g" "m_nis (collated g) = m_nis g" "m_routers (collated g) = map Router_collateStats (m_routers g)"
  "stats_ok (collated g) = stats_ok g" "row_sum (collated g) = row_sum g"
  by (auto simp: collated_def stats_ok_def row_sum_def intro!: ext)

lemma collate_rows:
  assumes "stats_ok g" "rows_wf (nw_virtual_networks (gn_net g)) st"
  shows "\<exists>st'. GarnetNetwork_collateStats (g, st) = Some (collated g, st')
    \<and> rows_wf (nw_virtual_networks (gn_net g)) st'
    \<and> m_total_hops st' = m_total_hops st + (\<Sum>i<nw_nodes (gn_net g). unat (m_local_total_hops (m_nis g ! i)))
    \<and> (\<forall>r<8. \<forall>v<nw_virtual_networks (gn_net g). rows_of st' ! r ! v = rows_of st ! r ! v + row_sum g (nw_nodes (gn_net g)) r v)"
proof -
  have "\<forall>l\<in>set (m_networklinks g). gn_objs g l \<noteq> None" using assms(1) by (auto simp: stats_ok_def)
  from add_links_rows [OF this, of st] obtain st1 where
    1: "for_list (add_link (gn_objs g)) (m_networklinks g) st = Some st1" "rows_of st1 = rows_of st" "m_total_hops st1 = m_total_hops st" by auto
  from add_nis_rows [of "collated g" st1] assms obtain st2 where
    "for_range (add_ni (collated g)) (nw_nodes (gn_net g)) st1 = Some st2" "rows_wf (nw_virtual_networks (gn_net g)) st2"
    "m_total_hops st2 = m_total_hops st + (\<Sum>i<nw_nodes (gn_net g). unat (m_local_total_hops (m_nis g ! i)))"
    "\<forall>r<8. \<forall>v<nw_virtual_networks (gn_net g). rows_of st2 ! r ! v = rows_of st ! r ! v + row_sum g (nw_nodes (gn_net g)) r v"
    unfolding collated_simps 1(2,3) rows_wf_def by blast
  then show ?thesis using 1(1)
    by (intro exI [of _ st2]) (simp add: GarnetNetwork_collateStats_def Let_def collated_def [symmetric])
qed

lemma reset_objs:
  assumes "\<forall>l\<in>set ls. objs l \<noteq> None"
  shows "\<exists>objs'. for_list (upd_obj obj_resetStats) ls objs = Some objs' \<and> dom objs' = dom objs"
proof (rule for_list_defined)
  fix l and s :: link_objs assume l: "l \<in> set ls" "dom s = dom objs"
  then obtain x where "s l = Some x" using assms by (metis domD domIff)
  then show "\<exists>t. upd_obj obj_resetStats l s = Some t \<and> dom t = dom objs" using l(2) by (auto simp: upd_obj_def)
qed simp

lemma stats_reset_ok:
  assumes "stats_ok g"
  shows "\<exists>g'. stats_reset (g, st) = Some (g', NetStats_zero (nw_virtual_networks (gn_net g))) \<and> stats_ok g' \<and> gn_net g' = gn_net g
    \<and> m_nis g' = m_nis g \<and> m_routers g' = map (clear_router_stats \<circ> Router_resetStats) (m_routers g)"
proof -
  have d: "\<forall>l\<in>set (m_networklinks g). gn_objs g l \<noteq> None" "\<forall>l\<in>set (m_creditlinks g). gn_objs g l \<noteq> None"
    using assms by (auto simp: stats_ok_def)
  from reset_objs [OF d(1)] obtain o1 where o1: "for_list (upd_obj obj_resetStats) (m_networklinks g) (gn_objs g) = Some o1" "dom o1 = dom (gn_objs g)"
    by blast
  then have "\<forall>l\<in>set (m_creditlinks g). o1 l \<noteq> None" using d(2) by (metis domIff)
  from reset_objs [OF this] obtain o2 where o2: "for_list (upd_obj obj_resetStats) (m_creditlinks g) o1 = Some o2" "dom o2 = dom (gn_objs g)"
    using o1(2) by auto
  have "o2 l \<noteq> None \<longleftrightarrow> gn_objs g l \<noteq> None" for l using o2(2) by (metis domIff)
  then show ?thesis using o1(1) o2(1) assms
    by (simp add: stats_reset_def GarnetNetwork_resetStats_def stats_ok_def comp_def)
qed

lemma zero_rows: "rows_wf n (NetStats_zero n)" "r < 8 \<Longrightarrow> v < n \<Longrightarrow> rows_of (NetStats_zero n) ! r ! v = 0" "m_total_hops (NetStats_zero n) = 0"
proof -
  have "rows_of (NetStats_zero n) = replicate 8 (replicate n 0)" by (simp add: rows_of_def NetStats_zero_def numeral_eq_Suc)
  then show "rows_wf n (NetStats_zero n)" "r < 8 \<Longrightarrow> v < n \<Longrightarrow> rows_of (NetStats_zero n) ! r ! v = 0" by (simp_all add: rows_wf_def)
qed (simp add: NetStats_zero_def)

definition input_reads :: "Router \<Rightarrow> nat" where
  "input_reads r = (\<Sum>u\<leftarrow>m_input_unit r. sum_list (m_local_buffer_reads u))"

definition input_writes :: "Router \<Rightarrow> nat" where
  "input_writes r = (\<Sum>u\<leftarrow>m_input_unit r. sum_list (m_local_buffer_writes u))"

lemma Router_collate_totals:
  "m_buffer_reads (Router_collateStats r) = m_buffer_reads r + input_reads r" "input_reads (Router_collateStats r) = input_reads r"
  "m_buffer_writes (Router_collateStats r) = m_buffer_writes r + input_writes r" "input_writes (Router_collateStats r) = input_writes r"
  by (simp_all add: Router_collateStats_def input_reads_def input_writes_def InputUnit_collateStats_def Let_def comp_def)

lemma Router_reset_totals:
  "m_buffer_reads (clear_router_stats r) = 0" "m_buffer_writes (clear_router_stats r) = 0"
  "input_reads (clear_router_stats (Router_resetStats r)) = 0" "input_writes (clear_router_stats (Router_resetStats r)) = 0"
  by (simp_all add: clear_router_stats_def Router_resetStats_def input_reads_def input_writes_def InputUnit_resetStats_def Let_def comp_def
      sum_list_eq_0_iff)

text \<open>C40. A dump counts again what an earlier dump has counted: \<^verbatim>\<open>collateStats\<close> adds the counters of the interfaces, which run
  since the start of the simulation, to totals that keep their values.  From cleared totals the first dump gives the true
  numbers of flits and packets, their latencies and hops; a second dump after which nothing has happened gives twice these
  numbers, and so for the buffer accesses of the routers.  A reset clears the totals and the counters of the routers
  but not those of the interfaces, so that the dump after it reports the traffic from before the reset.\<close>
theorem stats_count_again:
  assumes "stats_ok g" "n = nw_virtual_networks (gn_net g)"
  shows "\<exists>g1 st1 g2 st2 g3 st3 g4 st4. GarnetNetwork_collateStats (g, NetStats_zero n) = Some (g1, st1)
    \<and> GarnetNetwork_collateStats (g1, st1) = Some (g2, st2) \<and> stats_reset (g2, st2) = Some (g3, st3)
    \<and> GarnetNetwork_collateStats (g3, st3) = Some (g4, st4)
    \<and> (\<forall>r<8. \<forall>v<n. rows_of st1 ! r ! v = (\<Sum>i<nw_nodes (gn_net g). unat (local_rows (m_nis g ! i) ! r ! v))
         \<and> rows_of st2 ! r ! v = 2 * rows_of st1 ! r ! v \<and> rows_of st3 ! r ! v = 0 \<and> rows_of st4 ! r ! v = rows_of st1 ! r ! v)
    \<and> m_total_hops st2 = 2 * m_total_hops st1 \<and> m_total_hops st4 = m_total_hops st1
    \<and> map m_buffer_reads (m_routers g2) = map (\<lambda>r. m_buffer_reads r + 2 * input_reads r) (m_routers g)
    \<and> map m_buffer_writes (m_routers g2) = map (\<lambda>r. m_buffer_writes r + 2 * input_writes r) (m_routers g)
    \<and> (\<forall>r\<in>set (m_routers g4). m_buffer_reads r = 0 \<and> m_buffer_writes r = 0)"
proof -
  let ?s = "\<lambda>r v. row_sum g (nw_nodes (gn_net g)) r v" and ?h = "\<Sum>i<nw_nodes (gn_net g). unat (m_local_total_hops (m_nis g ! i))"
  note z = zero_rows [where n = n] and ok = assms(1)
  obtain st1 where 1: "GarnetNetwork_collateStats (g, NetStats_zero n) = Some (collated g, st1)" "rows_wf n st1" "m_total_hops st1 = ?h"
      "\<And>r v. r < 8 \<Longrightarrow> v < n \<Longrightarrow> rows_of st1 ! r ! v = ?s r v"
    using collate_rows [OF ok, folded assms(2), OF z(1)] z(2,3) by (auto simp: add_0)
  have g1: "stats_ok (collated g)" "n = nw_virtual_networks (gn_net (collated g))" using ok assms(2) by simp_all
  obtain st2 where 2: "GarnetNetwork_collateStats (collated g, st1) = Some (collated (collated g), st2)" "m_total_hops st2 = 2 * m_total_hops st1"
      "\<And>r v. r < 8 \<Longrightarrow> v < n \<Longrightarrow> rows_of st2 ! r ! v = 2 * rows_of st1 ! r ! v"
    using collate_rows [OF g1(1), folded g1(2), OF 1(2)] 1(3,4) unfolding collated_simps by auto
  have g2: "stats_ok (collated (collated g))" "n = nw_virtual_networks (gn_net (collated (collated g)))" using g1 by simp_all
  obtain g3 where 3: "stats_reset (collated (collated g), st2) = Some (g3, NetStats_zero n)" "stats_ok g3" "gn_net g3 = gn_net g" "m_nis g3 = m_nis g"
      "m_routers g3 = map (clear_router_stats \<circ> Router_resetStats) (m_routers (collated (collated g)))"
    using stats_reset_ok [OF g2(1), folded g2(2), of st2] unfolding collated_simps by blast
  have g3: "n = nw_virtual_networks (gn_net g3)" "row_sum g3 = row_sum g" using 3(3,4) assms(2) by (auto simp: row_sum_def intro!: ext)
  obtain st4 where 4: "GarnetNetwork_collateStats (g3, NetStats_zero n) = Some (collated g3, st4)" "m_total_hops st4 = m_total_hops st1"
      "\<And>r v. r < 8 \<Longrightarrow> v < n \<Longrightarrow> rows_of st4 ! r ! v = rows_of st1 ! r ! v"
    using collate_rows [OF 3(2), folded g3(1), OF z(1)] z(2,3) 1(3,4) unfolding 3(3,4) g3(2) by (auto simp: add_0)
  have 5: "\<forall>r\<in>set (m_routers (collated g3)). m_buffer_reads r = 0 \<and> m_buffer_writes r = 0"
    by (auto simp: 3(5) Router_collate_totals Router_reset_totals)
  have 6: "map m_buffer_reads (m_routers (collated (collated g))) = map (\<lambda>r. m_buffer_reads r + 2 * input_reads r) (m_routers g)"
    "map m_buffer_writes (m_routers (collated (collated g))) = map (\<lambda>r. m_buffer_writes r + 2 * input_writes r) (m_routers g)"
    by (simp_all add: Router_collate_totals)
  have 7: "\<forall>r<8. \<forall>v<n. rows_of st1 ! r ! v = (\<Sum>i<nw_nodes (gn_net g). unat (local_rows (m_nis g ! i) ! r ! v))
      \<and> rows_of st2 ! r ! v = 2 * rows_of st1 ! r ! v \<and> rows_of (NetStats_zero n) ! r ! v = 0 \<and> rows_of st4 ! r ! v = rows_of st1 ! r ! v"
    using 1(4) 2(3) 4(3) z(2) unfolding row_sum_def by simp
  show ?thesis using 1(1) 2(1) 3(1) 4(1) 7 2(2) 4(2) 6 5 by blast
qed

definition ex_counted :: GarnetNetwork where
  "ex_counted = GarnetNetwork_new ex_config (the (Network_new ex_params)) ex_routers
     [(NetworkInterface_new 0 1 50)\<lparr>m_local_flits_injected := [3]\<rparr>, NetworkInterface_new 1 1 50] ex_objs ex_ext Map.empty"

theorem stats_count_again_witness:
  "\<exists>g1 st1 g2 st2. GarnetNetwork_collateStats (ex_counted, NetStats_zero 1) = Some (g1, st1)
     \<and> GarnetNetwork_collateStats (g1, st1) = Some (g2, st2) \<and> m_flits_injected st1 ! 0 = 3 \<and> m_flits_injected st2 ! 0 = 6"
proof -
  have n: "nw_virtual_networks (gn_net ex_counted) = 1" "nw_nodes (gn_net ex_counted) = 2"
    using ex_Network_new by (auto simp: ex_counted_def GarnetNetwork_new_def)
  have ok: "stats_ok ex_counted"
    unfolding stats_ok_def n by (auto simp: ex_counted_def GarnetNetwork_new_def local_rows_def NetworkInterface_new_def)
  have r: "rows_of st ! 0 = m_flits_injected st" "local_rows ni ! 0 = m_local_flits_injected ni" for st ni
    by (simp_all add: rows_of_def local_rows_def)
  have "{..<2::nat} = {0, 1}" by auto
  then have "(\<Sum>i<2. unat (local_rows (m_nis ex_counted ! i) ! 0 ! 0)) = 3"
    by (simp add: r ex_counted_def GarnetNetwork_new_def NetworkInterface_new_def)
  then show ?thesis
    using stats_count_again [OF ok n(1) [symmetric]] unfolding n r(1) [symmetric] by fastforce
qed

end
