(* ===== verification/Simple_Routing.thy ===== *)
theory Simple_Routing
  imports Ruby_Network
begin

unbundle bit_operations_syntax

text \<open>
  The routing unit of the simple network (\<^verbatim>\<open>simple/routing/WeightBased.{hh,cc}\<close>): the links of a switch in the order of
  load, weight and number, and the distribution of the destinations of a message over them.

  Buffers are referred to by their number in a store, because the routing unit, the switch and the throttle hold pointers
  to the same buffer.  The load of a link is the cached size of its buffers, so that reading it updates the cache.  The
  numbers from the random generator are an argument.
\<close>

subsection \<open>Links\<close>

type_synonym buf_id = nat
type_synonym buf_store = "buf_id \<Rightarrow> MessageBuffer"

record LinkInfo =
  li_link_id :: nat
  m_routing_entry :: NetDest
  m_out_buffers :: "buf_id list"
  m_order :: int
  li_weight :: int

record WeightBased =
  adaptive_routing :: bool
  m_links :: "LinkInfo list"

definition link_key :: "LinkInfo \<Rightarrow> int \<times> int \<times> nat" where
  "link_key l = (m_order l, li_weight l, li_link_id l)"

definition sortLinks :: "LinkInfo list \<Rightarrow> LinkInfo list" where
  "sortLinks ls = sort_key link_key ls"

definition WeightBased_addOutPort :: "nat \<Rightarrow> buf_id list \<Rightarrow> NetDest \<Rightarrow> int \<Rightarrow> WeightBased \<Rightarrow> WeightBased option" where
  "WeightBased_addOutPort link_id out_buffer routing_table_entry link_weight u =
     do { check (link_id = length (m_links u));
          Some (u\<lparr>m_links := sortLinks (m_links u @ [\<lparr>li_link_id = link_id, m_routing_entry = routing_table_entry,
                m_out_buffers = out_buffer, m_order = 0, li_weight = link_weight\<rparr>])\<rparr>) }"

subsection \<open>Routes\<close>

definition queue_length :: "tick \<Rightarrow> buf_id list \<Rightarrow> buf_store \<Rightarrow> nat \<times> buf_store" where
  "queue_length now ids bufs =
     fold (\<lambda>i (n, bufs). let (k, b) = getSize now (bufs i) in (n + k, bufs(i := b))) ids (0, bufs)"

fun load_links :: "(nat \<Rightarrow> nat) \<Rightarrow> tick \<Rightarrow> LinkInfo list \<Rightarrow> buf_store \<Rightarrow> LinkInfo list \<times> buf_store" where
  "load_links rnd now [] bufs = ([], bufs)"
| "load_links rnd now (l # ls) bufs =
     (let (out_queue_length, bufs1) = queue_length now (m_out_buffers l) bufs;
          (ls1, bufs2) = load_links (\<lambda>i. rnd (Suc i)) now ls bufs1
      in (l\<lparr>m_order := push_bit 8 (int out_queue_length) OR int (rnd 0)\<rparr> # ls1, bufs2))"

definition find_route_step :: "LinkInfo \<Rightarrow> NetDest \<times> (NetDest \<times> nat) list \<Rightarrow> (NetDest \<times> (NetDest \<times> nat) list) option" where
  "find_route_step link st =
     (case st of (msg_dsts, out_links) \<Rightarrow>
        do { hit \<leftarrow> NetDest_intersectionIsNotEmpty msg_dsts (m_routing_entry link);
             if hit then
               do { here \<leftarrow> NetDest_AND msg_dsts (m_routing_entry link);
                    rest \<leftarrow> NetDest_removeNetDest msg_dsts (m_routing_entry link);
                    Some (rest, out_links @ [(here, li_link_id link)]) }
             else Some (msg_dsts, out_links) })"

definition findRoute :: "LinkInfo list \<Rightarrow> Message \<Rightarrow> (NetDest \<times> nat) list option" where
  "findRoute links msg =
     do { (rest, out_links) \<leftarrow> for_list find_route_step links (Destination msg, []);
          n \<leftarrow> NetDest_count rest;
          check (n = 0);
          Some out_links }"

definition WeightBased_route ::
  "(nat \<Rightarrow> nat) \<Rightarrow> tick \<Rightarrow> bool \<Rightarrow> Message \<Rightarrow> WeightBased \<times> buf_store \<Rightarrow> ((NetDest \<times> nat) list \<times> WeightBased \<times> buf_store) option"
where
  "WeightBased_route rnd now deterministic msg st =
     (case st of (u, bufs) \<Rightarrow>
        let (ls, bufs1) =
              (if adaptive_routing u then
                 (let (ls, b) = (if deterministic then (map (\<lambda>l. l\<lparr>m_order := 0\<rparr>) (m_links u), bufs)
                                 else load_links rnd now (m_links u) bufs)
                  in (sortLinks ls, b))
               else (m_links u, bufs))
        in do { outs \<leftarrow> findRoute ls msg; Some (outs, u\<lparr>m_links := ls\<rparr>, bufs1) })"

subsection \<open>Every destination is served by the first link that reaches it\<close>

lemma NetDest_AND_ok:
  assumes "dest_wf nc a" "dest_wf nc b"
  shows "\<exists>c. NetDest_AND a b = Some c \<and> dest_wf nc c \<and> dest_els c = dest_els a \<inter> dest_els b"
proof -
  have nc: "nc \<noteq> []" "\<forall>n\<in>set nc. n \<le> 64" "m_ruby_system a = Some nc"
    using assms(1) by (auto simp: dest_wf_def set_wf_def list_all2_conv_all_nth in_set_conv_nth)
  obtain nd where nd: "NetDest_new nc = Some nd" "dest_wf nc nd" using NetDest_new_ok [OF nc(1,2)] by blast
  have "\<exists>c. Set_AND x y = Some c \<and> set_wf n c \<and> set_els c = set_els x \<inter> set_els y" if "set_wf n x" "set_wf n y" for n x y
    using that by (auto simp: Set_AND_def Set_new_def Set_setSize_def Set_clear_def set_wf_def set_els_def bit_and_iff check_def)
  then obtain bs where bs: "map2_opt Set_AND (m_bits a) (m_bits b) = Some bs" "list_all2 set_wf nc bs"
      "\<forall>i<length nc. set_els (bs ! i) = set_els (m_bits a ! i) \<inter> set_els (m_bits b ! i)"
    using map2_opt_ok [of set_wf nc "m_bits a" "m_bits b" Set_AND "\<lambda>x y z. set_els z = set_els x \<inter> set_els y"] assms
    unfolding dest_wf_def by blast
  have len: "length bs = length nc" "length (m_bits a) = length nc" "length (m_bits b) = length nc" "length (m_bits nd) = length nc" "0 < length nc"
    using bs(2) dest_wf_length [OF assms(1)] dest_wf_length [OF assms(2)] dest_wf_length [OF nd(2)] by (auto dest: list_all2_lengthD)
  then have "NetDest_AND a b = Some (nd\<lparr>m_bits := bs\<rparr>)" using bs(1) nd(1) nc(3) by (simp add: NetDest_AND_def)
  moreover have "dest_wf nc (nd\<lparr>m_bits := bs\<rparr>)" using nd(2) bs(2) by (simp add: dest_wf_def)
  moreover have "dest_els (nd\<lparr>m_bits := bs\<rparr>) = dest_els a \<inter> dest_els b" using bs(3) len by (auto simp: dest_els_def)
  ultimately show ?thesis by blast
qed

lemma NetDest_count_0:
  assumes "dest_wf nc a"
  shows "\<exists>n. NetDest_count a = Some n \<and> (n = 0 \<longleftrightarrow> dest_els a = {})"
proof -
  have "Set_count s = 0 \<longleftrightarrow> set_els s = {}" for s
    unfolding Set_count_def popcount_def length_0_conv set_empty [symmetric] set_mask_bits set_els_def by simp
  moreover have "dest_els a = {} \<longleftrightarrow> (\<forall>i<length (m_bits a). set_els (m_bits a ! i) = {})" by (auto simp: dest_els_def)
  ultimately show ?thesis using dest_wf_length [OF assms]
    by (auto simp: NetDest_count_def sum_list_eq_0_iff in_set_conv_nth all_set_conv_all_nth)
qed

text \<open>The parts that the links of a list get of a set of destinations.\<close>

fun shares :: "LinkInfo list \<Rightarrow> (nat \<times> nat) set \<Rightarrow> ((nat \<times> nat) set \<times> nat) list" where
  "shares [] D = []"
| "shares (l # ls) D = (D \<inter> dest_els (m_routing_entry l), li_link_id l) # shares ls (D - dest_els (m_routing_entry l))"

definition reach :: "LinkInfo list \<Rightarrow> (nat \<times> nat) set" where
  "reach ls = (\<Union>l\<in>set ls. dest_els (m_routing_entry l))"

lemma find_route_loop:
  assumes "dest_wf nc d" "\<forall>l\<in>set ls. dest_wf nc (m_routing_entry l)"
  shows "\<exists>rest outs. for_list find_route_step ls (d, acc) = Some (rest, acc @ outs) \<and> dest_wf nc rest
    \<and> dest_els rest = dest_els d - reach ls \<and> map (\<lambda>(p, k). (dest_els p, k)) outs = filter (\<lambda>(s, k). s \<noteq> {}) (shares ls (dest_els d))"
  using assms
proof (induction ls arbitrary: d acc)
  case (Cons l ls)
  let ?e = "m_routing_entry l"
  have e: "dest_wf nc ?e" and ls: "\<forall>l\<in>set ls. dest_wf nc (m_routing_entry l)" using Cons.prems(2) by simp_all
  note hit = net_dest.meets [OF Cons.prems(1) e]
  show ?case
  proof (cases "dest_els d \<inter> dest_els ?e = {}")
    case True
    then have "find_route_step l (d, acc) = Some (d, acc)" "dest_els d - dest_els ?e = dest_els d" using hit by (auto simp: find_route_step_def)
    then show ?thesis using Cons.IH [OF Cons.prems(1) ls, of acc] True by (auto simp: reach_def)
  next
    case False
    obtain h where h: "NetDest_AND d ?e = Some h" "dest_els h = dest_els d \<inter> dest_els ?e" using NetDest_AND_ok [OF Cons.prems(1) e] by blast
    obtain r where r: "NetDest_removeNetDest d ?e = Some r" "dest_wf nc r" "dest_els r = dest_els d - dest_els ?e"
      using net_dest.removeAll [OF Cons.prems(1) e] by blast
    from Cons.IH [OF r(2) ls, of "acc @ [(h, li_link_id l)]"] obtain rest outs where
      o: "for_list find_route_step ls (r, acc @ [(h, li_link_id l)]) = Some (rest, (acc @ [(h, li_link_id l)]) @ outs)" "dest_wf nc rest"
        "dest_els rest = dest_els r - reach ls" "map (\<lambda>(p, k). (dest_els p, k)) outs = filter (\<lambda>(s, k). s \<noteq> {}) (shares ls (dest_els r))"
      by blast
    have "find_route_step l (d, acc) = Some (r, acc @ [(h, li_link_id l)])" using False hit h r by (simp add: find_route_step_def)
    then show ?thesis using o h(2) r(3) False
      by (intro exI [of _ rest] exI [of _ "(h, li_link_id l) # outs"]) (auto simp: reach_def)
  qed
qed (simp add: reach_def)

lemma findRoute_shares:
  assumes "dest_wf nc (Destination msg)" "\<forall>l\<in>set ls. dest_wf nc (m_routing_entry l)"
  shows "(findRoute ls msg = None \<longleftrightarrow> \<not> dest_els (Destination msg) \<subseteq> reach ls)
    \<and> (\<forall>outs. findRoute ls msg = Some outs \<longrightarrow>
        map (\<lambda>(p, k). (dest_els p, k)) outs = filter (\<lambda>(s, k). s \<noteq> {}) (shares ls (dest_els (Destination msg))))"
proof -
  from find_route_loop [OF assms, of "[]"] obtain rest outs where
    o: "for_list find_route_step ls (Destination msg, []) = Some (rest, outs)" "dest_wf nc rest"
      "dest_els rest = dest_els (Destination msg) - reach ls"
      "map (\<lambda>(p, k). (dest_els p, k)) outs = filter (\<lambda>(s, k). s \<noteq> {}) (shares ls (dest_els (Destination msg)))" by auto
  from NetDest_count_0 [OF o(2)] obtain n where "NetDest_count rest = Some n" "n = 0 \<longleftrightarrow> dest_els rest = {}" by blast
  then have "findRoute ls msg = (if dest_els (Destination msg) \<subseteq> reach ls then Some outs else None)" using o(1,3)
    by (auto simp: findRoute_def)
  then show ?thesis using o(4) by simp
qed

lemma shares_first:
  assumes "(S, k) \<in> set (shares ls D)" "e \<in> S"
  shows "e \<in> D \<and> (\<exists>i<length ls. li_link_id (ls ! i) = k \<and> e \<in> dest_els (m_routing_entry (ls ! i))
    \<and> (\<forall>j<i. e \<notin> dest_els (m_routing_entry (ls ! j))))"
  using assms
proof (induction ls arbitrary: D)
  case (Cons l ls)
  show ?case
  proof (cases "(S, k) = (D \<inter> dest_els (m_routing_entry l), li_link_id l)")
    case True
    then show ?thesis using Cons.prems(2) by (auto intro!: exI [of _ 0])
  next
    case False
    then have "(S, k) \<in> set (shares ls (D - dest_els (m_routing_entry l)))" using Cons.prems(1) by auto
    from Cons.IH [OF this Cons.prems(2)] obtain i where i: "e \<in> D" "e \<notin> dest_els (m_routing_entry l)" "i < length ls" "li_link_id (ls ! i) = k"
      "e \<in> dest_els (m_routing_entry (ls ! i))" "\<forall>j<i. e \<notin> dest_els (m_routing_entry (ls ! j))" by blast
    then have "\<forall>j<Suc i. e \<notin> dest_els (m_routing_entry ((l # ls) ! j))" by (auto simp: less_Suc_eq_0_disj)
    then show ?thesis using i by (intro conjI exI [of _ "Suc i"]) auto
  qed
qed simp

lemma shares_cover: "e \<in> D \<Longrightarrow> e \<in> reach ls \<Longrightarrow> \<exists>S k. (S, k) \<in> set (shares ls D) \<and> e \<in> S"
  by (induction ls arbitrary: D) (auto simp: reach_def, blast)

definition link_core :: "LinkInfo \<Rightarrow> nat \<times> NetDest \<times> buf_id list \<times> int" where
  "link_core l = (li_link_id l, m_routing_entry l, m_out_buffers l, li_weight l)"

definition routing_wf :: "num_controllers \<Rightarrow> WeightBased \<Rightarrow> bool" where
  "routing_wf nc u \<longleftrightarrow> distinct (map li_link_id (m_links u)) \<and> sorted (map link_key (m_links u))
     \<and> (\<forall>l\<in>set (m_links u). dest_wf nc (m_routing_entry l))"

lemma load_links_core: "map link_core (fst (load_links rnd now ls bufs)) = map link_core ls"
proof (induction ls arbitrary: rnd bufs)
  case (Cons l ls)
  then show ?case by (simp add: split_beta Let_def) (simp add: link_core_def)
qed simp

lemma core_ids: "map link_core ls = map link_core ls' \<Longrightarrow> map li_link_id ls = map li_link_id ls'"
  by (metis (no_types, lifting) link_core_def list.map_comp comp_def fst_conv map_eq_conv)

lemma sortLinks_facts: "set (sortLinks ls) = set ls" "sorted (map link_key (sortLinks ls))" "mset (sortLinks ls) = mset ls"
  by (simp_all add: sortLinks_def)

lemma addOutPort_wf:
  assumes "routing_wf nc u" "set (map li_link_id (m_links u)) = {..<length (m_links u)}" "dest_wf nc entry"
    and "WeightBased_addOutPort k bufs entry w u = Some u'"
  shows "routing_wf nc u' \<and> set (map li_link_id (m_links u')) = {..<length (m_links u')}"
proof -
  let ?l = "\<lparr>li_link_id = k, m_routing_entry = entry, m_out_buffers = bufs, m_order = 0, li_weight = w\<rparr>"
  have u': "k = length (m_links u)" "u' = u\<lparr>m_links := sortLinks (m_links u @ [?l])\<rparr>"
    using assms(4) by (auto simp: WeightBased_addOutPort_def bind_eq_Some_conv)
  have "mset (map li_link_id (m_links u')) = mset (map li_link_id (m_links u @ [?l]))" by (simp add: u'(2) sortLinks_facts)
  note d = mset_eq_imp_distinct_iff [OF this] and e = mset_eq_setD [OF this]
  have "distinct (map li_link_id (m_links u @ [?l]))" using assms(1,2) u'(1) by (auto simp: routing_wf_def)
  moreover have "length (m_links u') = Suc (length (m_links u))" by (simp add: u'(2) sortLinks_def)
  ultimately show ?thesis using assms(1-3) d e u' by (auto simp: routing_wf_def sortLinks_facts)
qed

text \<open>The list of links that one call goes through.\<close>

lemma route_links:
  assumes "routing_wf nc u"
  shows "\<exists>ls bufs1. WeightBased_route rnd now det msg (u, bufs) = do { outs \<leftarrow> findRoute ls msg; Some (outs, u\<lparr>m_links := ls\<rparr>, bufs1) }
    \<and> routing_wf nc (u\<lparr>m_links := ls\<rparr>) \<and> link_core ` set ls = link_core ` set (m_links u)"
proof -
  have sorted: "routing_wf nc (u\<lparr>m_links := sortLinks ls\<rparr>) \<and> link_core ` set (sortLinks ls) = link_core ` set (m_links u)"
    if c: "map link_core ls = map link_core (m_links u)" for ls
  proof -
    have set: "link_core ` set ls = link_core ` set (m_links u)" using c by (metis list.set_map)
    have "mset (map li_link_id (sortLinks ls)) = mset (map li_link_id (m_links u))"
      using arg_cong [OF core_ids [OF c], of mset] by (simp add: sortLinks_facts)
    from mset_eq_imp_distinct_iff [OF this] have "distinct (map li_link_id (sortLinks ls))" using assms by (simp add: routing_wf_def)
    moreover have "dest_wf nc (m_routing_entry l)" if "l \<in> set ls" for l
    proof -
      have "link_core l \<in> link_core ` set (m_links u)" using set that by blast
      then obtain k where "k \<in> set (m_links u)" "link_core l = link_core k" by blast
      then show ?thesis using assms by (auto simp: routing_wf_def link_core_def)
    qed
    ultimately show ?thesis using set by (simp add: routing_wf_def sortLinks_facts)
  qed
  show ?thesis
  proof (cases "adaptive_routing u")
    case False
    then show ?thesis using assms by (intro exI [of _ "m_links u"] exI [of _ bufs]) (simp add: WeightBased_route_def)
  next
    case True
    let ?ls = "if det then (map (\<lambda>l. l\<lparr>m_order := 0\<rparr>) (m_links u), bufs) else load_links rnd now (m_links u) bufs"
    have "map link_core (fst ?ls) = map link_core (m_links u)" by (simp add: load_links_core) (simp add: link_core_def)
    from sorted [OF this] True show ?thesis
      by (intro exI [of _ "sortLinks (fst ?ls)"] exI [of _ "snd ?ls"]) (simp add: WeightBased_route_def split_beta Let_def)
  qed
qed

lemma reach_core: "link_core ` set ls = link_core ` set ls' \<Longrightarrow> reach ls = reach ls'"
proof -
  have "reach ls = \<Union> ((\<lambda>c. dest_els (fst (snd c))) ` (link_core ` set ls))" for ls
    unfolding reach_def image_image by (simp add: link_core_def)
  then show "link_core ` set ls = link_core ` set ls' \<Longrightarrow> reach ls = reach ls'" by metis
qed

lemma shares_serve:
  assumes "routing_wf nc u" "map (\<lambda>(p, k). (dest_els p, k)) outs = filter (\<lambda>(s, k). s \<noteq> {}) (shares (m_links u) D)"
    and "e \<in> D" "e \<in> reach (m_links u)"
  shows "\<exists>l\<in>set (m_links u). e \<in> dest_els (m_routing_entry l) \<and> (\<exists>p. (p, li_link_id l) \<in> set outs \<and> e \<in> dest_els p)
    \<and> (\<forall>(p, k)\<in>set outs. e \<in> dest_els p \<longrightarrow> k = li_link_id l)
    \<and> (\<forall>l'\<in>set (m_links u). e \<in> dest_els (m_routing_entry l') \<longrightarrow> link_key l \<le> link_key l')"
proof -
  let ?L = "m_links u"
  obtain S k where S: "(S, k) \<in> set (shares ?L D)" "e \<in> S" using shares_cover [OF assms(3,4)] by blast
  have "(S, k) \<in> set (map (\<lambda>(p, k). (dest_els p, k)) outs)" unfolding assms(2) using S by auto
  then obtain p where p: "(p, k) \<in> set outs" "e \<in> dest_els p" using S(2) by auto
  from shares_first [OF S] obtain i where i: "i < length ?L" "li_link_id (?L ! i) = k" "e \<in> dest_els (m_routing_entry (?L ! i))"
    "\<forall>j<i. e \<notin> dest_els (m_routing_entry (?L ! j))" by blast
  have first: "i \<le> j" if "e \<in> dest_els (m_routing_entry (?L ! j))" for j using i(4) that not_le by blast
  have "k' = k" if q: "(q, k') \<in> set outs" "e \<in> dest_els q" for q k'
  proof -
    have "(dest_els q, k') \<in> set (filter (\<lambda>(s, k). s \<noteq> {}) (shares ?L D))" unfolding assms(2) [symmetric] using image_eqI [OF _ q(1), of "(dest_els q, k')" "\<lambda>(p, k). (dest_els p, k)"] by simp
    then have "(dest_els q, k') \<in> set (shares ?L D)" by simp
    from shares_first [OF this q(2)] obtain j where j: "j < length ?L" "li_link_id (?L ! j) = k'" "e \<in> dest_els (m_routing_entry (?L ! j))"
      "\<forall>n<j. e \<notin> dest_els (m_routing_entry (?L ! n))" by blast
    then have "i = j" using first [OF j(3)] i(3) by (metis le_neq_implies_less)
    then show ?thesis using i(2) j(2) by simp
  qed
  moreover have "link_key (?L ! i) \<le> link_key l'" if l': "l' \<in> set ?L" "e \<in> dest_els (m_routing_entry l')" for l'
  proof -
    obtain j where "j < length ?L" "l' = ?L ! j" using l'(1) by (metis in_set_conv_nth)
    then show ?thesis using first [of j] l'(2) assms(1) sorted_nth_mono [of "map link_key ?L" i j] by (simp add: routing_wf_def)
  qed
  moreover have "?L ! i \<in> set ?L" using i(1) by simp
  ultimately show ?thesis using i(2,3) p by (intro bexI [of _ "?L ! i"] conjI ballI) blast+
qed

text \<open>C0. The simple network distributes a message over its links without loss or duplication: routing fails exactly when some
  destination is reached by no link; otherwise every destination of the message is in exactly one of the parts, the part
  of the link that comes first by load, weight and number among those that reach it; no part is empty or
  contains anything else.  The order of the links that this relies on is kept.\<close>
theorem route_partitions:
  assumes "routing_wf nc u" "dest_wf nc (Destination msg)"
  shows "(WeightBased_route rnd now det msg (u, bufs) = None \<longleftrightarrow> \<not> dest_els (Destination msg) \<subseteq> reach (m_links u))
    \<and> (\<forall>outs u' bufs'. WeightBased_route rnd now det msg (u, bufs) = Some (outs, u', bufs') \<longrightarrow> routing_wf nc u'
      \<and> (\<forall>(p, k)\<in>set outs. dest_els p \<noteq> {} \<and> dest_els p \<subseteq> dest_els (Destination msg))
      \<and> (\<forall>e\<in>dest_els (Destination msg). \<exists>l\<in>set (m_links u'). e \<in> dest_els (m_routing_entry l)
          \<and> (\<exists>p. (p, li_link_id l) \<in> set outs \<and> e \<in> dest_els p) \<and> (\<forall>(p, k)\<in>set outs. e \<in> dest_els p \<longrightarrow> k = li_link_id l)
          \<and> (\<forall>l'\<in>set (m_links u'). e \<in> dest_els (m_routing_entry l') \<longrightarrow> link_key l \<le> link_key l')))"
proof -
  let ?D = "dest_els (Destination msg)"
  from route_links [OF assms(1), of rnd now det msg bufs] obtain ls bufs1 where
    r: "WeightBased_route rnd now det msg (u, bufs) = do { outs \<leftarrow> findRoute ls msg; Some (outs, u\<lparr>m_links := ls\<rparr>, bufs1) }"
      "routing_wf nc (u\<lparr>m_links := ls\<rparr>)" "link_core ` set ls = link_core ` set (m_links u)" by blast
  have "\<forall>l\<in>set ls. dest_wf nc (m_routing_entry l)" using r(2) by (simp add: routing_wf_def)
  note f = findRoute_shares [OF assms(2) this]
  have "dest_els p \<noteq> {} \<and> dest_els p \<subseteq> ?D" if o: "findRoute ls msg = Some outs" "(p, k) \<in> set outs" for outs p k
  proof -
    have "(dest_els p, k) \<in> set (map (\<lambda>(p, k). (dest_els p, k)) outs)" using o(2) by force
    then have "(dest_els p, k) \<in> set (shares ls ?D)" "dest_els p \<noteq> {}" using f o(1) by auto
    then show ?thesis using shares_first by blast
  qed
  moreover have "?D \<subseteq> reach ls" if "findRoute ls msg = Some outs" for outs using f that by (metis option.distinct(1))
  ultimately have ok: "(\<forall>(p, k)\<in>set outs. dest_els p \<noteq> {} \<and> dest_els p \<subseteq> ?D) \<and> (\<forall>e\<in>?D. \<exists>l\<in>set ls. e \<in> dest_els (m_routing_entry l)
          \<and> (\<exists>p. (p, li_link_id l) \<in> set outs \<and> e \<in> dest_els p) \<and> (\<forall>(p, k)\<in>set outs. e \<in> dest_els p \<longrightarrow> k = li_link_id l)
          \<and> (\<forall>l'\<in>set ls. e \<in> dest_els (m_routing_entry l') \<longrightarrow> link_key l \<le> link_key l'))"
    if "findRoute ls msg = Some outs" for outs
    using that f shares_serve [OF r(2), of outs ?D] by simp blast
  show ?thesis using f ok r(2) unfolding r(1) reach_core [OF r(3), symmetric] by (auto simp: bind_eq_Some_conv bind_eq_None_conv)
qed

definition ex_switch_links :: WeightBased where
  "ex_switch_links = \<lparr>adaptive_routing = False, m_links =
     [\<lparr>li_link_id = 1, m_routing_entry = ex_dest 1 0, m_out_buffers = [], m_order = 0, li_weight = 1\<rparr>,
      \<lparr>li_link_id = 0, m_routing_entry = ex_dest 3 5, m_out_buffers = [], m_order = 0, li_weight = 2\<rparr>]\<rparr>"

theorem route_partitions_witness:
  "\<exists>outs u' bufs'. WeightBased_route (\<lambda>_. 0) 10 True (Message_new 10 (ex_dest 3 5) Control 7)
       (ex_switch_links, \<lambda>_. MessageBuffer_new 0 0 True rand_disabled False 0) = Some (outs, u', bufs')
     \<and> (\<exists>p k. (p, k) \<in> set outs \<and> (0, 0) \<in> dest_els p)"
proof -
  let ?m = "Message_new 10 (ex_dest 3 5) Control 7" and ?b = "\<lambda>_ :: buf_id. MessageBuffer_new 0 0 True rand_disabled False 0"
  have wf: "routing_wf [2, 3] ex_switch_links"
    using ex_dest_wf [of 1 0] ex_dest_wf [of 3 5] by (simp add: routing_wf_def ex_switch_links_def link_key_def)
  have m: "dest_wf [2, 3] (Destination ?m)" using ex_dest_wf [of 3 5] by (simp add: Message_new_def)
  have "(0, 0) \<in> dest_els (Destination ?m)" by (simp add: Message_new_def dest_els_def ex_dest_def set_els_def bit_0)
  moreover have "dest_els (Destination ?m) \<subseteq> reach (m_links ex_switch_links)"
    by (auto simp: reach_def ex_switch_links_def Message_new_def)
  moreover note r = route_partitions [OF wf m, of "\<lambda>_. 0" 10 True ?b]
  ultimately obtain outs u' bufs' where o: "WeightBased_route (\<lambda>_. 0) 10 True ?m (ex_switch_links, ?b) = Some (outs, u', bufs')"
    "(0, 0) \<in> dest_els (Destination ?m)" by (cases "WeightBased_route (\<lambda>_. 0) 10 True ?m (ex_switch_links, ?b)") auto
  then have "\<exists>l\<in>set (m_links u'). \<exists>p. (p, li_link_id l) \<in> set outs \<and> (0, 0) \<in> dest_els p" using r by blast
  then show ?thesis using o(1) by blast
qed

end
