(* ===== verification/Simple_Throttle.thy ===== *)
theory Simple_Throttle
  imports Simple_Routing
begin


text \<open>
  The throttle of the simple network (\<^verbatim>\<open>simple/Throttle.{hh,cc}\<close>): it moves messages from the buffers of a switch to an
  outgoing link and limits how many bytes go over the link in a cycle.

  The bandwidth and the size of a message are in thousandths of a byte.  These are \<^verbatim>\<open>int\<close>s in the code, here without
  overflow.  The two buffers of a virtual network are different objects; the loop works on them as two values.  The loop is
  a function whose termination is proved: an iteration takes a message out of the input buffer or spends bandwidth.  The
  ratio of used bandwidth, a \<^verbatim>\<open>double\<close>, is left out of the statistics.
\<close>

subsection \<open>The state\<close>

record Throttle =
  th_in :: "buf_id list"
  th_out :: "buf_id option list"
  th_vnets :: nat
  m_units_remaining :: "int list list"
  th_switch_id :: nat
  th_node :: nat
  m_physical_vnets :: bool
  m_link_bandwidth_multiplier :: "int list"
  m_vnet_channels :: "int list"
  th_link_latency :: cycles
  th_wakeups_wo_switch :: int
  m_endpoint_bandwidth :: int
  msg_counts :: "MessageSizeType \<Rightarrow> nat list"
  total_msg_count :: nat
  total_msg_bytes :: nat
  total_data_msg_bytes :: nat
  total_msg_wait_time :: nat
  total_stall_cy :: nat
  total_bw_sat_cy :: nat

definition PRIORITY_SWITCH_LIMIT :: int where
  "PRIORITY_SWITCH_LIMIT = 128"

definition MESSAGE_SIZE_MULTIPLIER :: int where
  "MESSAGE_SIZE_MULTIPLIER = 1000"

definition Throttle_base :: "nat \<Rightarrow> nat \<Rightarrow> nat \<Rightarrow> cycles \<Rightarrow> int \<Rightarrow> Throttle" where
  "Throttle_base vnets sID node link_latency endpoint_bandwidth =
     \<lparr>th_in = [], th_out = [], th_vnets = 0, m_units_remaining = [], th_switch_id = sID, th_node = node,
      m_physical_vnets = False, m_link_bandwidth_multiplier = [], m_vnet_channels = [], th_link_latency = link_latency,
      th_wakeups_wo_switch = 0, m_endpoint_bandwidth = endpoint_bandwidth, msg_counts = (\<lambda>_. replicate vnets 0),
      total_msg_count = 0, total_msg_bytes = 0, total_data_msg_bytes = 0, total_msg_wait_time = 0, total_stall_cy = 0,
      total_bw_sat_cy = 0\<rparr>"

definition Throttle_new :: "nat \<Rightarrow> nat \<Rightarrow> nat \<Rightarrow> cycles \<Rightarrow> int \<Rightarrow> int \<Rightarrow> Throttle option" where
  "Throttle_new vnets sID node link_latency link_bandwidth_multiplier endpoint_bandwidth =
     do { check (link_bandwidth_multiplier > 0);
          Some ((Throttle_base vnets sID node link_latency endpoint_bandwidth)
            \<lparr>m_link_bandwidth_multiplier := [link_bandwidth_multiplier]\<rparr>) }"

definition Throttle_new_vnets :: "nat \<Rightarrow> nat \<Rightarrow> nat \<Rightarrow> cycles \<Rightarrow> int list \<Rightarrow> int list \<Rightarrow> int \<Rightarrow> Throttle option" where
  "Throttle_new_vnets vnets sID node link_latency vnet_channels vnet_bandwidth_multiplier endpoint_bandwidth =
     do { check (\<forall>b\<in>set vnet_bandwidth_multiplier. b > 0);
          check (\<forall>c\<in>set vnet_channels. c > 0);
          check (length vnet_bandwidth_multiplier = length vnet_channels);
          Some ((Throttle_base vnets sID node link_latency endpoint_bandwidth)
            \<lparr>m_physical_vnets := True, m_link_bandwidth_multiplier := vnet_bandwidth_multiplier,
             m_vnet_channels := vnet_channels\<rparr>) }"

definition getLinkBandwidth :: "nat \<Rightarrow> Throttle \<Rightarrow> int option" where
  "getLinkBandwidth vnet t =
     do { bw \<leftarrow> at (m_link_bandwidth_multiplier t) (if m_physical_vnets t then vnet else 0);
          check (bw > 0);
          Some (m_endpoint_bandwidth t * bw) }"

definition getChannelCnt :: "nat \<Rightarrow> Throttle \<Rightarrow> int option" where
  "getChannelCnt vnet t = (if m_physical_vnets t then at (m_vnet_channels t) vnet else Some 1)"

definition channels_bandwidth :: "Throttle \<Rightarrow> nat \<Rightarrow> int \<Rightarrow> int option" where
  "channels_bandwidth t i acc = do { b \<leftarrow> getLinkBandwidth i t; c \<leftarrow> getChannelCnt i t; Some (acc + b * c) }"

definition getTotalLinkBandwidth :: "Throttle \<Rightarrow> int option" where
  "getTotalLinkBandwidth t =
     do { first \<leftarrow> channels_bandwidth t 0 0;
          if m_physical_vnets t then for_list (channels_bandwidth t) [1..<th_vnets t] first else Some first }"

definition add_vnet_link :: "buf_id option list \<Rightarrow> (nat \<times> buf_id) \<Rightarrow> Throttle \<times> buf_store \<Rightarrow> (Throttle \<times> buf_store) option" where
  "add_vnet_link out_vec vnet_in st =
     (case (vnet_in, st) of ((vnet, in_ptr), (t, bufs)) \<Rightarrow>
        do { out_ptr \<leftarrow> at out_vec vnet;
             c \<leftarrow> getChannelCnt vnet t;
             b \<leftarrow> setConsumer (CThrottle (th_switch_id t) (th_node t)) (bufs in_ptr);
             Some (t\<lparr>m_units_remaining := m_units_remaining t @ [replicate (nat c) 0], th_in := th_in t @ [in_ptr],
                     th_out := th_out t @ [out_ptr]\<rparr>, bufs(in_ptr := b)) })"

definition addLinks :: "buf_id list \<Rightarrow> buf_id option list \<Rightarrow> Throttle \<times> buf_store \<Rightarrow> (Throttle \<times> buf_store) option" where
  "addLinks in_vec out_vec st =
     do { check (length in_vec = length out_vec);
          (t, bufs) \<leftarrow> for_list (add_vnet_link out_vec) (enumerate 0 in_vec) st;
          let t1 = t\<lparr>th_vnets := length in_vec\<rparr>;
          check (if m_physical_vnets t1 then length (m_link_bandwidth_multiplier t1) = th_vnets t1
                 else length (m_link_bandwidth_multiplier t1) = 1);
          Some (t1, bufs) }"

subsection \<open>One virtual network\<close>

record throttle_env =
  te_period :: tick
  te_control_size :: nat
  te_data_size :: nat
  te_randomization :: bool
  te_warmup :: bool
  te_rnd :: "nat \<Rightarrow> nat \<times> nat \<times> nat"

definition network_message_to_size :: "throttle_env \<Rightarrow> Message \<Rightarrow> int" where
  "network_message_to_size env m =
     int (MessageSizeType_to_int (te_control_size env) (te_data_size env) (MessageSize m)) * MESSAGE_SIZE_MULTIPLIER"

record vnet_state =
  vs_in :: MessageBuffer
  vs_out :: MessageBuffer
  vs_units :: int
  vs_bw :: int
  vs_total :: int
  vs_throttle :: Throttle
  vs_effects :: "mb_effect list"

definition hasPendingWork :: "tick \<Rightarrow> vnet_state \<Rightarrow> (bool \<times> vnet_state) option" where
  "hasPendingWork now s =
     do { (ready, es) \<leftarrow> mb_isReady now (vs_in s);
          Some (ready \<or> vs_units s > 0, s\<lparr>vs_effects := vs_effects s @ es\<rparr>) }"

definition output_free :: "tick \<Rightarrow> vnet_state \<Rightarrow> bool \<times> vnet_state" where
  "output_free now s = (let (free, b) = areNSlotsAvailable 1 now (vs_out s) in (free, s\<lparr>vs_out := b\<rparr>))"

definition count_message :: "throttle_env \<Rightarrow> tick \<Rightarrow> nat \<Rightarrow> tick \<Rightarrow> Message \<Rightarrow> Throttle \<Rightarrow> Throttle option" where
  "count_message env now vnet msg_enqueue_time m t =
     do { let total_size = MessageSizeType_to_int (te_control_size env) (te_data_size env) (MessageSize m);
          let control = MessageSizeType_to_int (te_control_size env) (te_data_size env) Control;
          n \<leftarrow> at (msg_counts t (MessageSize m)) vnet;
          Some (t\<lparr>msg_counts := (msg_counts t)(MessageSize m := (msg_counts t (MessageSize m))[vnet := n + 1]),
                  total_msg_count := total_msg_count t + 1, total_msg_bytes := total_msg_bytes t + total_size,
                  total_data_msg_bytes := total_data_msg_bytes t + nat ((int total_size - int control) mod 2 ^ 32),
                  total_msg_wait_time := total_msg_wait_time t + (now - msg_enqueue_time)\<rparr>) }"

definition move_message :: "throttle_env \<Rightarrow> tick \<Rightarrow> tick \<Rightarrow> nat \<Rightarrow> vnet_state \<Rightarrow> vnet_state option" where
  "move_message env curTick now vnet s =
     do { msg_ptr \<leftarrow> heap_front (m_prio_heap (vs_in s));
          let msg_enqueue_time = m_LastEnqueueTime msg_ptr;
          (m, i, es1) \<leftarrow> dequeue curTick now True (vs_in s);
          (o', es2) \<leftarrow> enqueue (te_rnd env) m now (cyclesToTicks (te_period env) (th_link_latency (vs_throttle s)))
             (te_randomization env) (te_warmup env) False (vs_out s);
          t \<leftarrow> count_message env now vnet msg_enqueue_time m (vs_throttle s);
          Some (s\<lparr>vs_in := i, vs_out := o', vs_units := network_message_to_size env msg_ptr, vs_throttle := t,
                  vs_effects := vs_effects s @ es1 @ es2\<rparr>) }"

definition spend :: "vnet_state \<Rightarrow> vnet_state" where
  "spend s = (let spent = min (vs_units s) (vs_bw s)
     in s\<lparr>vs_units := vs_units s - spent, vs_bw := vs_bw s - spent, vs_total := vs_total s - spent\<rparr>)"

text \<open>The condition of the loop, and one pass through its body: \<open>(True, s)\<close> is the state after the pass, \<open>(False, s)\<close> that
  in which the loop ends.\<close>

definition loop_condition :: "tick \<Rightarrow> vnet_state \<Rightarrow> (bool \<times> vnet_state) option" where
  "loop_condition now s =
     (if vs_bw s > 0 then
        do { (pending, s1) \<leftarrow> hasPendingWork now s;
             Some (if pending then output_free now s1 else (False, s1)) }
      else Some (False, s))"

definition loop_body :: "throttle_env \<Rightarrow> tick \<Rightarrow> tick \<Rightarrow> nat \<Rightarrow> vnet_state \<Rightarrow> vnet_state option" where
  "loop_body env curTick now vnet s =
     do { s1 \<leftarrow> (if vs_units s = 0
                 then do { (ready, es) \<leftarrow> mb_isReady now (vs_in s);
                           let s0 = s\<lparr>vs_effects := vs_effects s @ es\<rparr>;
                           if ready then move_message env curTick now vnet s0 else Some s0 }
                 else Some s);
          Some (spend s1) }"

definition loop_step :: "throttle_env \<Rightarrow> tick \<Rightarrow> tick \<Rightarrow> nat \<Rightarrow> vnet_state \<Rightarrow> (bool \<times> vnet_state) option" where
  "loop_step env curTick now vnet s =
     do { (go, s1) \<leftarrow> loop_condition now s;
          if go then do { s2 \<leftarrow> loop_body env curTick now vnet s1; Some (True, s2) } else Some (False, s1) }"

lemma length_sift_down [simp]: "length (sift_down key i h) = length h"
  by (induction key i h rule: sift_down.induct) (subst sift_down.simps, simp)

lemma length_heap_pop_any: "h \<noteq> [] \<Longrightarrow> length (heap_pop key h) < length h"
  by (simp add: heap_pop_def pop_heap_def)

definition work_left :: "vnet_state \<Rightarrow> nat" where
  "work_left s = length (m_prio_heap (vs_in s)) + nat (vs_bw s)"

lemma hasPendingWork_frame:
  "hasPendingWork now s = Some (p, s1) \<Longrightarrow> \<exists>ready es. mb_isReady now (vs_in s) = Some (ready, es) \<and> (p \<longleftrightarrow> ready \<or> vs_units s > 0)
    \<and> s1 = s\<lparr>vs_effects := vs_effects s @ es\<rparr>"
  by (auto simp: hasPendingWork_def bind_eq_Some_conv)

lemma output_free_frame:
  "output_free now s = (free, s1) \<Longrightarrow> \<exists>b. areNSlotsAvailable 1 now (vs_out s) = (free, b) \<and> s1 = s\<lparr>vs_out := b\<rparr>"
  by (auto simp: output_free_def split: prod.splits)

lemma loop_condition_go:
  assumes "loop_condition now s = Some (True, s1)"
  shows "0 < vs_bw s" "\<exists>ready es b. mb_isReady now (vs_in s) = Some (ready, es) \<and> (ready \<or> vs_units s > 0)
    \<and> areNSlotsAvailable 1 now (vs_out s) = (True, b) \<and> s1 = s\<lparr>vs_effects := vs_effects s @ es, vs_out := b\<rparr>"
proof -
  show bw: "0 < vs_bw s" using assms by (auto simp: loop_condition_def split: if_splits)
  then obtain p s0 where p: "hasPendingWork now s = Some (p, s0)" "(if p then output_free now s0 else (False, s0)) = (True, s1)"
    using assms by (auto simp: loop_condition_def bind_eq_Some_conv)
  then have "p" "output_free now s0 = (True, s1)" by (auto split: if_splits)
  then show "\<exists>ready es b. mb_isReady now (vs_in s) = Some (ready, es) \<and> (ready \<or> vs_units s > 0)
    \<and> areNSlotsAvailable 1 now (vs_out s) = (True, b) \<and> s1 = s\<lparr>vs_effects := vs_effects s @ es, vs_out := b\<rparr>"
    using hasPendingWork_frame [OF p(1)] output_free_frame by fastforce
qed

lemma move_message_Some:
  assumes "move_message env curTick now vnet s = Some s'"
  obtains m i o' t es where "heap_front (m_prio_heap (vs_in s)) = Some m" "m_prio_heap i = heap_pop msg_key (m_prio_heap (vs_in s))"
    "count_message env now vnet (m_LastEnqueueTime m) (m\<lparr>m_DelayedTicks := m_DelayedTicks m + (now - m_LastEnqueueTime m)\<rparr>) (vs_throttle s) = Some t"
    "s' = s\<lparr>vs_in := i, vs_out := o', vs_units := network_message_to_size env m, vs_throttle := t, vs_effects := es\<rparr>"
proof -
  from assms obtain m m1 i es1 o' es2 t where 1: "heap_front (m_prio_heap (vs_in s)) = Some m" "dequeue curTick now True (vs_in s) = Some (m1, i, es1)"
    "count_message env now vnet (m_LastEnqueueTime m) m1 (vs_throttle s) = Some t"
    "s' = s\<lparr>vs_in := i, vs_out := o', vs_units := network_message_to_size env m, vs_throttle := t, vs_effects := vs_effects s @ es1 @ es2\<rparr>"
    unfolding move_message_def Let_def by (auto simp: bind_eq_Some_conv)
  from 1(2) have "m1 = m\<lparr>m_DelayedTicks := m_DelayedTicks m + (now - m_LastEnqueueTime m)\<rparr>" "m_prio_heap i = heap_pop msg_key (m_prio_heap (vs_in s))"
    using 1(1) by (auto elim!: dequeue_Some)
  then show thesis using that [OF 1(1) _ _ 1(4)] 1(3) by blast
qed

lemma loop_step_decreases:
  assumes "loop_step env curTick now vnet s = Some (True, s')" "0 \<le> vs_units s"
  shows "work_left s' < work_left s"
proof -
  from assms(1) obtain s1 where 1: "loop_condition now s = Some (True, s1)" "loop_body env curTick now vnet s1 = Some s'"
    by (auto simp: loop_step_def bind_eq_Some_conv split: if_splits)
  from loop_condition_go [OF 1(1)] obtain ready es b where
    c: "0 < vs_bw s" "mb_isReady now (vs_in s) = Some (ready, es)" "ready \<or> vs_units s > 0" "s1 = s\<lparr>vs_effects := vs_effects s @ es, vs_out := b\<rparr>"
    by blast
  show ?thesis
  proof (cases "vs_units s = 0")
    case False
    then have "s' = spend s1" using 1(2) c(4) by (auto simp: loop_body_def)
    then show ?thesis using c(1,4) False assms(2) by (auto simp: spend_def work_left_def Let_def min_def)
  next
    case True
    then have "ready" using c(3) by simp
    then obtain s2 where s2: "move_message env curTick now vnet (s1\<lparr>vs_effects := vs_effects s1 @ es\<rparr>) = Some s2" "s' = spend s2"
      using 1(2) c(2,4) True by (auto simp: loop_body_def bind_eq_Some_conv)
    from s2(1) obtain m i o' t es' where m: "heap_front (m_prio_heap (vs_in s)) = Some m"
      "m_prio_heap i = heap_pop msg_key (m_prio_heap (vs_in s))"
      "s2 = s1\<lparr>vs_in := i, vs_out := o', vs_units := network_message_to_size env m, vs_throttle := t, vs_effects := es'\<rparr>"
      using c(4) by (elim move_message_Some) simp
    have "m_prio_heap (vs_in s) \<noteq> []" using m(1) by (auto simp: heap_front_def)
    then have "length (m_prio_heap (vs_in s2)) < length (m_prio_heap (vs_in s))" using m(2,3) length_heap_pop_any by simp
    moreover have "vs_bw (spend s2) \<le> vs_bw s" using m(3) c(1,4)
      by (auto simp: spend_def Let_def network_message_to_size_def MESSAGE_SIZE_MULTIPLIER_def min_def)
    moreover have "vs_in (spend s2) = vs_in s2" by (simp add: spend_def Let_def)
    ultimately show ?thesis unfolding s2(2) work_left_def by auto
  qed
qed

lemma loop_step_units:
  assumes "loop_step env curTick now vnet s = Some (True, s')"
  shows "0 \<le> vs_units s'"
proof -
  from assms obtain s1 where "loop_body env curTick now vnet s1 = Some s'"
    by (auto simp: loop_step_def bind_eq_Some_conv split: if_splits)
  then obtain s2 where "s' = spend s2" by (auto simp: loop_body_def bind_eq_Some_conv)
  then show ?thesis by (simp add: spend_def Let_def)
qed

function throttle_loop :: "throttle_env \<Rightarrow> tick \<Rightarrow> tick \<Rightarrow> nat \<Rightarrow> vnet_state \<Rightarrow> vnet_state option" where
  "throttle_loop env curTick now vnet s =
     (case loop_step env curTick now vnet s of
        None \<Rightarrow> None
      | Some (go, s') \<Rightarrow> if go then throttle_loop env curTick now vnet s' else Some s')"
  by pat_completeness auto
termination
proof (relation "measures [\<lambda>(env, curTick, now, vnet, s). if vs_units s < 0 then 1 else 0, \<lambda>(env, curTick, now, vnet, s). work_left s]")
  fix env curTick now vnet s x go s'
  assume step: "loop_step env curTick now vnet s = Some x" "(go, s') = x" "go"
  then have "loop_step env curTick now vnet s = Some (True, s')" by simp
  moreover from this have "0 \<le> vs_units s'" by (rule loop_step_units)
  ultimately show "((env, curTick, now, vnet, s'), (env, curTick, now, vnet, s)) \<in> measures
      [\<lambda>(env, curTick, now, vnet, s). if vs_units s < 0 then 1 else 0, \<lambda>(env, curTick, now, vnet, s). work_left s]"
    using loop_step_decreases by auto
qed simp

declare throttle_loop.simps [simp del]

record throttle_wake =
  tw_throttle :: Throttle
  tw_bufs :: buf_store
  tw_total :: int
  tw_saturated :: bool
  tw_blocked :: bool
  tw_effects :: "mb_effect list"

text \<open>The end of \<^verbatim>\<open>operateVnet\<close>: what is left to do and why.\<close>

definition report_vnet :: "tick \<Rightarrow> bool \<Rightarrow> bool \<Rightarrow> vnet_state \<Rightarrow> (bool \<times> bool \<times> vnet_state) option" where
  "report_vnet now bw_saturated output_blocked s =
     do { (pending, s1) \<leftarrow> hasPendingWork now s;
          if pending then
            do { let (free, s2) = (if vs_bw s1 = 0 then (False, s1) else output_free now s1);
                 check (\<not> free);
                 let (free', s3) = (if output_blocked then (False, s2) else output_free now s2);
                 Some (bw_saturated \<or> vs_bw s1 = 0, output_blocked \<or> \<not> free', s3) }
          else Some (bw_saturated, output_blocked, s1) }"

definition operate_buffers ::
  "throttle_env \<Rightarrow> tick \<Rightarrow> tick \<Rightarrow> nat \<Rightarrow> nat \<Rightarrow> buf_id \<Rightarrow> buf_id \<Rightarrow> throttle_wake \<Rightarrow> throttle_wake option"
where
  "operate_buffers env curTick now vnet channel i out w =
     do { let t = tw_throttle w;
          row \<leftarrow> at (m_units_remaining t) vnet;
          units_remaining \<leftarrow> at row channel;
          check (units_remaining \<ge> 0);
          bw \<leftarrow> (if m_physical_vnets t then getLinkBandwidth vnet t else Some (tw_total w));
          s \<leftarrow> throttle_loop env curTick now vnet
             \<lparr>vs_in = tw_bufs w i, vs_out = tw_bufs w out, vs_units = units_remaining, vs_bw = bw, vs_total = tw_total w,
              vs_throttle = t, vs_effects = tw_effects w\<rparr>;
          check (vs_units s \<ge> 0);
          check (vs_bw s \<ge> 0);
          check (vs_total s \<ge> 0);
          (saturated, blocked, s1) \<leftarrow> report_vnet now (tw_saturated w) (tw_blocked w) s;
          Some \<lparr>tw_throttle = (vs_throttle s1)\<lparr>m_units_remaining := (m_units_remaining t)[vnet := row[channel := vs_units s1]]\<rparr>,
                tw_bufs = (tw_bufs w)(i := vs_in s1, out := vs_out s1), tw_total = vs_total s1, tw_saturated = saturated,
                tw_blocked = blocked, tw_effects = vs_effects s1\<rparr> }"

definition Throttle_operateVnet :: "throttle_env \<Rightarrow> tick \<Rightarrow> tick \<Rightarrow> nat \<Rightarrow> nat \<Rightarrow> throttle_wake \<Rightarrow> throttle_wake option" where
  "Throttle_operateVnet env curTick now vnet channel w =
     do { i \<leftarrow> at (th_in (tw_throttle w)) vnet;
          out \<leftarrow> at (th_out (tw_throttle w)) vnet;
          case out of None \<Rightarrow> Some w | Some o' \<Rightarrow> operate_buffers env curTick now vnet channel i o' w }"

subsection \<open>The wakeup\<close>

definition operate_channels :: "throttle_env \<Rightarrow> tick \<Rightarrow> tick \<Rightarrow> nat \<Rightarrow> throttle_wake \<Rightarrow> throttle_wake option" where
  "operate_channels env curTick now vnet w =
     do { n \<leftarrow> getChannelCnt vnet (tw_throttle w);
          for_list (Throttle_operateVnet env curTick now vnet) [0..<nat n] w }"

definition turn_priorities :: "Throttle \<Rightarrow> bool \<times> Throttle" where
  "turn_priorities t =
     (let n = th_wakeups_wo_switch t + 1; iteration_direction = (n > PRIORITY_SWITCH_LIMIT)
      in (iteration_direction, t\<lparr>th_wakeups_wo_switch := (if iteration_direction then 0 else n)\<rparr>))"

definition Throttle_wakeup ::
  "throttle_env \<Rightarrow> tick \<Rightarrow> tick \<Rightarrow> Throttle \<times> buf_store \<Rightarrow> (Throttle \<times> buf_store \<times> mb_effect list) option"
where
  "Throttle_wakeup env curTick now st =
     (case st of (t, bufs) \<Rightarrow>
        do { bw_remaining \<leftarrow> getTotalLinkBandwidth t;
             check (bw_remaining > 0);
             let (iteration_direction, t1) = turn_priorities t;
             w \<leftarrow> for_list (operate_channels env curTick now)
                (if iteration_direction then [0..<th_vnets t1] else rev [0..<th_vnets t1])
                \<lparr>tw_throttle = t1, tw_bufs = bufs, tw_total = bw_remaining, tw_saturated = False, tw_blocked = False,
                 tw_effects = []\<rparr>;
             let t2 = tw_throttle w;
             let again = (tw_saturated w \<or> tw_blocked w);
             Some (t2\<lparr>total_bw_sat_cy := total_bw_sat_cy t2 + (if tw_saturated w then 1 else 0),
                      total_stall_cy := total_stall_cy t2 + (if tw_blocked w then 1 else 0)\<rparr>, tw_bufs w,
                   tw_effects w @ (if again then [WakeNext (CThrottle (th_switch_id t2) (th_node t2))] else [])) })"

end
