(* ===== verification/Throttle_Bandwidth.thy ===== *)
theory Throttle_Bandwidth
  imports Simple_Throttle
begin

text \<open>
  The bandwidth of a throttle: what one pass of its loop, one virtual network and one wakeup keep, that a wakeup of a
  throttle made by its constructors and \<^verbatim>\<open>addLinks\<close> returns, and the bound on the bytes moved in any number of wakeups.
\<close>

subsection \<open>What the loop keeps\<close>

text \<open>What the wakeups of a throttle never change, and what one pass of the loop never changes.\<close>

definition wire_config ::
  "Throttle \<Rightarrow> buf_id list \<times> buf_id option list \<times> nat \<times> (nat \<times> nat \<times> cycles) \<times> bool \<times> int list \<times> int list \<times> int \<times> (MessageSizeType \<Rightarrow> nat)"
where
  "wire_config t = (th_in t, th_out t, th_vnets t, (th_switch_id t, th_node t, th_link_latency t), m_physical_vnets t,
     m_link_bandwidth_multiplier t, m_vnet_channels t, m_endpoint_bandwidth t, \<lambda>ty. length (msg_counts t ty))"

definition link_config where
  "link_config t = (wire_config t, m_units_remaining t)"

definition paid :: "vnet_state \<Rightarrow> int" where
  "paid s = MESSAGE_SIZE_MULTIPLIER * int (total_msg_bytes (vs_throttle s)) - vs_units s + vs_total s"

definition size_limit :: "throttle_env \<Rightarrow> int" where
  "size_limit env = MESSAGE_SIZE_MULTIPLIER * int (max (te_control_size env) (te_data_size env))"

lemma network_message_to_size_bounds: "0 \<le> network_message_to_size env m" "network_message_to_size env m \<le> size_limit env"
proof -
  have "MessageSizeType_to_int (te_control_size env) (te_data_size env) (MessageSize m) \<le> max (te_control_size env) (te_data_size env)"
    by (simp add: MessageSizeType_to_int_def split: MessageSizeType.split)
  then show "0 \<le> network_message_to_size env m" "network_message_to_size env m \<le> size_limit env"
    by (simp_all add: network_message_to_size_def size_limit_def MESSAGE_SIZE_MULTIPLIER_def)
qed

definition loop_kept :: "throttle_env \<Rightarrow> vnet_state \<Rightarrow> vnet_state \<Rightarrow> bool" where
  "loop_kept env s s' \<longleftrightarrow> paid s' = paid s \<and> vs_total s' - vs_bw s' = vs_total s - vs_bw s
     \<and> link_config (vs_throttle s') = link_config (vs_throttle s)
     \<and> (0 \<le> vs_units s \<longrightarrow> 0 \<le> vs_units s' \<and> vs_units s' \<le> max (vs_units s) (size_limit env)) \<and> (0 \<le> vs_bw s \<longrightarrow> 0 \<le> vs_bw s')"

lemma loop_kept_refl: "loop_kept env s s"
  by (simp add: loop_kept_def)

lemma loop_kept_trans: "loop_kept env s s1 \<Longrightarrow> loop_kept env s1 s2 \<Longrightarrow> loop_kept env s s2"
  unfolding loop_kept_def by auto

lemma count_message_Some:
  assumes "count_message env now vnet e m t = Some t'"
  shows "link_config t' = link_config t"
    "total_msg_bytes t' = total_msg_bytes t + MessageSizeType_to_int (te_control_size env) (te_data_size env) (MessageSize m)"
  using assms by (auto simp: count_message_def link_config_def wire_config_def bind_eq_Some_conv Let_def)

lemma loop_kept_spend: "0 < vs_bw s \<Longrightarrow> loop_kept env s (spend s)"
  by (auto simp: loop_kept_def spend_def Let_def paid_def min_def)

lemma areNSlotsAvailable_frame: "areNSlotsAvailable n now b = (free, b') \<Longrightarrow> \<exists>k. b' = b\<lparr>m_not_avail_count := k\<rparr>"
  by (cases b) (auto simp: areNSlotsAvailable_def split: if_splits)

definition polled :: "vnet_state \<Rightarrow> vnet_state \<Rightarrow> bool" where
  "polled s s' \<longleftrightarrow> (\<exists>es k. s' = s\<lparr>vs_effects := es, vs_out := (vs_out s)\<lparr>m_not_avail_count := k\<rparr>\<rparr>)"

lemma polled_refl: "polled s s"
  by (cases s, cases "vs_out s") (auto simp: polled_def)

lemma polled_trans: "polled s s1 \<Longrightarrow> polled s1 s2 \<Longrightarrow> polled s s2"
proof -
  assume "polled s s1" "polled s1 s2"
  then obtain es k es' k' where "s1 = s\<lparr>vs_effects := es, vs_out := (vs_out s)\<lparr>m_not_avail_count := k\<rparr>\<rparr>"
    "s2 = s1\<lparr>vs_effects := es', vs_out := (vs_out s1)\<lparr>m_not_avail_count := k'\<rparr>\<rparr>" by (auto simp: polled_def)
  then have "s2 = s\<lparr>vs_effects := es', vs_out := (vs_out s)\<lparr>m_not_avail_count := k'\<rparr>\<rparr>" by simp
  then show "polled s s2" unfolding polled_def by blast
qed

lemma hasPendingWork_polled: "hasPendingWork now s = Some (p, s1) \<Longrightarrow> polled s s1"
  by (cases s, cases "vs_out s") (auto simp: hasPendingWork_def bind_eq_Some_conv polled_def)

lemma output_free_polled: "output_free now s = (free, s1) \<Longrightarrow> polled s s1"
  by (auto dest!: output_free_frame areNSlotsAvailable_frame simp: polled_def intro!: exI [of _ "vs_effects s"])

lemma loop_condition_polled:
  assumes "loop_condition now s = Some (go, s1)"
  shows "polled s s1"
proof (cases "0 < vs_bw s")
  case False
  then show ?thesis using assms by (simp add: loop_condition_def polled_refl)
next
  case True
  then obtain p s0 where p: "hasPendingWork now s = Some (p, s0)" "(if p then output_free now s0 else (False, s0)) = (go, s1)"
    using assms by (auto simp: loop_condition_def bind_eq_Some_conv)
  then have "s1 = s0 \<or> polled s0 s1" using output_free_polled by (auto split: if_splits)
  then show ?thesis using polled_trans hasPendingWork_polled [OF p(1)] by blast
qed

lemma report_vnet_polled:
  assumes "report_vnet now a b s = Some (a', b', s1)"
  shows "polled s s1"
proof -
  from assms obtain p s0 where p: "hasPendingWork now s = Some (p, s0)"
    "if p then \<exists>f s2 f'. (if vs_bw s0 = 0 then (False, s0) else output_free now s0) = (f, s2)
        \<and> (if b then (False, s2) else output_free now s2) = (f', s1) else s1 = s0"
    by (fastforce simp: report_vnet_def bind_eq_Some_conv split: if_splits prod.splits)
  have "polled s0 s1"
  proof (cases p)
    case True
    then obtain f s2 f' where "(if vs_bw s0 = 0 then (False, s0) else output_free now s0) = (f, s2)"
        "(if b then (False, s2) else output_free now s2) = (f', s1)" using p(2) by auto
    then have "polled s0 s2" "polled s2 s1" using output_free_polled polled_refl by (metis prod.inject)+
    then show ?thesis by (rule polled_trans)
  qed (use p(2) polled_refl in simp)
  then show ?thesis by (rule polled_trans [OF hasPendingWork_polled [OF p(1)]])
qed

lemma move_message_kept:
  assumes "move_message env curTick now vnet s = Some s'" "vs_units s = 0"
  shows "loop_kept env s s'"
proof -
  from assms(1) obtain m i o' t es where m:
    "count_message env now vnet (m_LastEnqueueTime m) (m\<lparr>m_DelayedTicks := m_DelayedTicks m + (now - m_LastEnqueueTime m)\<rparr>) (vs_throttle s) = Some t"
    "s' = s\<lparr>vs_in := i, vs_out := o', vs_units := network_message_to_size env m, vs_throttle := t, vs_effects := es\<rparr>"
    by (rule move_message_Some)
  then show ?thesis using count_message_Some [OF m(1)] assms(2) network_message_to_size_bounds [of env m]
    by (simp add: loop_kept_def paid_def network_message_to_size_def algebra_simps)
qed

lemma loop_kept_polled: "polled s s' \<Longrightarrow> loop_kept env s s'"
  by (auto simp: loop_kept_def paid_def polled_def)

lemma loop_kept_frame: "loop_kept env s (s\<lparr>vs_effects := es\<rparr>)"
  by (simp add: loop_kept_def paid_def)

lemma loop_body_kept:
  assumes "loop_body env curTick now vnet s = Some s'" "0 < vs_bw s"
  shows "loop_kept env s s'"
proof -
  from assms(1) have "\<exists>s1. loop_kept env s s1 \<and> s' = spend s1 \<and> vs_bw s1 = vs_bw s"
  proof (cases "vs_units s = 0")
    case False
    then have "s' = spend s" using assms(1) by (simp add: loop_body_def)
    then show ?thesis using loop_kept_refl by blast
  next
    case True
    then obtain ready es s1 where s1: "s' = spend s1"
      "(if ready then move_message env curTick now vnet (s\<lparr>vs_effects := vs_effects s @ es\<rparr>) else Some (s\<lparr>vs_effects := vs_effects s @ es\<rparr>)) = Some s1"
      using assms(1) unfolding loop_body_def Let_def by (auto simp: bind_eq_Some_conv)
    show ?thesis
    proof (cases ready)
      case moved: True
      then have mv: "move_message env curTick now vnet (s\<lparr>vs_effects := vs_effects s @ es\<rparr>) = Some s1" using s1(2) by simp
      then have "loop_kept env s s1"
        using loop_kept_trans [OF loop_kept_frame move_message_kept [OF mv]] True by simp
      moreover have "vs_bw s1 = vs_bw s" using mv by (elim move_message_Some) simp
      ultimately show ?thesis using s1(1) by blast
    next
      case False
      then show ?thesis using s1 loop_kept_frame by (intro exI [of _ s1]) auto
    qed
  qed
  then show ?thesis using loop_kept_trans loop_kept_spend assms(2) by metis
qed

lemma loop_step_kept:
  assumes "loop_step env curTick now vnet s = Some (go, s')"
  shows "loop_kept env s s'"
proof -
  from assms obtain g s1 where s1: "loop_condition now s = Some (g, s1)"
    "if g then loop_body env curTick now vnet s1 = Some s' else s' = s1"
    by (auto simp: loop_step_def bind_eq_Some_conv split: if_splits)
  have k: "loop_kept env s s1" by (rule loop_kept_polled [OF loop_condition_polled [OF s1(1)]])
  show ?thesis
  proof (cases g)
    case True
    then have "0 < vs_bw s" "vs_bw s1 = vs_bw s" using loop_condition_go [of now s s1] s1(1) by auto
    then show ?thesis using loop_kept_trans [OF k loop_body_kept] s1(2) True by simp
  qed (use k s1(2) in simp)
qed

lemma throttle_loop_kept:
  "throttle_loop env curTick now vnet s = Some s' \<Longrightarrow> loop_kept env s s' \<and> (\<exists>s0. loop_step env curTick now vnet s0 = Some (False, s'))"
proof (induction env curTick now vnet s rule: throttle_loop.induct)
  case (1 env curTick now vnet s)
  from "1.prems" obtain go s1 where st: "loop_step env curTick now vnet s = Some (go, s1)"
    by (subst (asm) throttle_loop.simps) (auto split: option.splits prod.splits)
  show ?case
  proof (cases go)
    case True
    then have "throttle_loop env curTick now vnet s1 = Some s'" using "1.prems" st by (subst (asm) throttle_loop.simps) simp
    then show ?thesis using "1.IH" [OF st refl True] loop_kept_trans [OF loop_step_kept [OF st]] by blast
  next
    case False
    then have "s1 = s'" using "1.prems" st by (subst (asm) throttle_loop.simps) simp
    then show ?thesis using st False loop_step_kept [OF st] by auto
  qed
qed


subsection \<open>What a wakeup keeps\<close>

lemma wire_config_fields:
  assumes "wire_config t = wire_config t'"
  shows "th_in t = th_in t'" "th_out t = th_out t'" "th_vnets t = th_vnets t'" "th_switch_id t = th_switch_id t'"
    "th_node t = th_node t'" "m_physical_vnets t = m_physical_vnets t'"
    "m_link_bandwidth_multiplier t = m_link_bandwidth_multiplier t'" "m_vnet_channels t = m_vnet_channels t'"
    "th_link_latency t = th_link_latency t'" "m_endpoint_bandwidth t = m_endpoint_bandwidth t'"
    "length (msg_counts t ty) = length (msg_counts t' ty)"
    "getLinkBandwidth v t = getLinkBandwidth v t'" "getChannelCnt v t = getChannelCnt v t'"
proof -
  show e: "th_in t = th_in t'" "th_out t = th_out t'" "th_vnets t = th_vnets t'" "th_switch_id t = th_switch_id t'"
    "th_node t = th_node t'" "m_physical_vnets t = m_physical_vnets t'"
    "m_link_bandwidth_multiplier t = m_link_bandwidth_multiplier t'" "m_vnet_channels t = m_vnet_channels t'"
    "th_link_latency t = th_link_latency t'" "m_endpoint_bandwidth t = m_endpoint_bandwidth t'"
    "length (msg_counts t ty) = length (msg_counts t' ty)"
    using assms by (simp_all add: wire_config_def fun_eq_iff)
  show "getLinkBandwidth v t = getLinkBandwidth v t'" "getChannelCnt v t = getChannelCnt v t'"
    by (simp_all add: getLinkBandwidth_def getChannelCnt_def e)
qed

lemma getTotalLinkBandwidth_config:
  assumes "wire_config t = wire_config t'"
  shows "getTotalLinkBandwidth t = getTotalLinkBandwidth t'"
proof -
  have "channels_bandwidth t = channels_bandwidth t'"
    by (intro ext) (simp add: channels_bandwidth_def wire_config_fields(12,13) [OF assms])
  then show ?thesis by (simp add: getTotalLinkBandwidth_def wire_config_fields(3,6) [OF assms] cong: if_cong)
qed

definition units_left :: "Throttle \<Rightarrow> int" where
  "units_left t = sum_list (concat (m_units_remaining t))"

definition units_in :: "int \<Rightarrow> Throttle \<Rightarrow> bool" where
  "units_in U t \<longleftrightarrow> (\<forall>u\<in>set (concat (m_units_remaining t)). 0 \<le> u \<and> u \<le> U)"

definition wake_paid :: "throttle_wake \<Rightarrow> int" where
  "wake_paid w = MESSAGE_SIZE_MULTIPLIER * int (total_msg_bytes (tw_throttle w)) - units_left (tw_throttle w) + tw_total w"

definition wake_kept :: "throttle_env \<Rightarrow> throttle_wake \<Rightarrow> throttle_wake \<Rightarrow> bool" where
  "wake_kept env w w' \<longleftrightarrow> wake_paid w' = wake_paid w \<and> wire_config (tw_throttle w') = wire_config (tw_throttle w)
     \<and> map length (m_units_remaining (tw_throttle w')) = map length (m_units_remaining (tw_throttle w))
     \<and> (\<forall>U. size_limit env \<le> U \<longrightarrow> units_in U (tw_throttle w) \<longrightarrow> units_in U (tw_throttle w'))
     \<and> (0 \<le> tw_total w \<longrightarrow> 0 \<le> tw_total w')"

lemma wake_kept_refl: "wake_kept env w w"
  by (simp add: wake_kept_def)

lemma wake_kept_trans: "wake_kept env w w1 \<Longrightarrow> wake_kept env w1 w2 \<Longrightarrow> wake_kept env w w2"
  by (simp add: wake_kept_def)

lemma sum_list_set_int:
  fixes xs :: "int list"
  shows "k < length xs \<Longrightarrow> sum_list (xs[k := x]) = sum_list xs - xs ! k + x"
  by (induction xs arbitrary: k) (auto split: nat.split)

lemma sum_concat_update:
  fixes xss :: "int list list"
  assumes "v < length xss" "c < length (xss ! v)"
  shows "sum_list (concat (xss[v := (xss ! v)[c := u]])) = sum_list (concat xss) - xss ! v ! c + u"
proof -
  have s: "sum_list (concat yss) = sum_list (map sum_list yss)" for yss :: "int list list" by (induction yss) simp_all
  show ?thesis using assms by (simp add: s map_update sum_list_set_int)
qed

lemma set_concat_update: "set (concat (xss[v := (xss ! v)[c := u]])) \<subseteq> insert u (set (concat xss))"
proof (cases "v < length xss")
  case True
  then have "set ((xss ! v)[c := u]) \<subseteq> insert u (set (concat xss))"
    using set_update_subset_insert [of "xss ! v" c u] nth_mem [OF True] by auto
  then show ?thesis using set_update_subset_insert [of xss v] by fastforce
qed (auto simp: list_update_beyond not_less)

lemma operate_buffers_kept:
  assumes "operate_buffers env curTick now vnet channel i out w = Some w'"
  shows "wake_kept env w w'"
proof -
  let ?t = "tw_throttle w"
  let ?xss = "m_units_remaining ?t"
  from assms obtain u bw s a b s1 where
    at: "vnet < length ?xss" "channel < length (?xss ! vnet)" "u = ?xss ! vnet ! channel" "0 \<le> u"
    and loop: "throttle_loop env curTick now vnet \<lparr>vs_in = tw_bufs w i, vs_out = tw_bufs w out, vs_units = u, vs_bw = bw,
        vs_total = tw_total w, vs_throttle = ?t, vs_effects = tw_effects w\<rparr> = Some s"
    and total: "0 \<le> vs_total s" and report: "report_vnet now (tw_saturated w) (tw_blocked w) s = Some (a, b, s1)"
    and w': "w' = \<lparr>tw_throttle = (vs_throttle s1)\<lparr>m_units_remaining := ?xss[vnet := (?xss ! vnet)[channel := vs_units s1]]\<rparr>,
                tw_bufs = (tw_bufs w)(i := vs_in s1, out := vs_out s1), tw_total = vs_total s1, tw_saturated = a,
                tw_blocked = b, tw_effects = vs_effects s1\<rparr>"
    unfolding operate_buffers_def Let_def by (auto simp: bind_eq_Some_conv at_eq_Some split: if_splits)
  have kept: "loop_kept env \<lparr>vs_in = tw_bufs w i, vs_out = tw_bufs w out, vs_units = u, vs_bw = bw,
        vs_total = tw_total w, vs_throttle = ?t, vs_effects = tw_effects w\<rparr> s1"
    using loop_kept_trans throttle_loop_kept [OF loop] loop_kept_polled [OF report_vnet_polled [OF report]] by blast
  then have k: "MESSAGE_SIZE_MULTIPLIER * int (total_msg_bytes (vs_throttle s1)) - vs_units s1 + vs_total s1
      = MESSAGE_SIZE_MULTIPLIER * int (total_msg_bytes ?t) - u + tw_total w"
    "link_config (vs_throttle s1) = link_config ?t" "0 \<le> vs_units s1" "vs_units s1 \<le> max u (size_limit env)"
    using at(4) by (simp_all add: loop_kept_def paid_def)
  have "vs_total s1 = vs_total s" using report_vnet_polled [OF report] by (auto simp: polled_def)
  moreover have "wake_paid w' = wake_paid w"
    using k(1) sum_concat_update [OF at(1,2), of "vs_units s1"] at(3) by (simp add: wake_paid_def units_left_def w')
  moreover have "wire_config (tw_throttle w') = wire_config ?t"
    using k(2) by (simp add: w' wire_config_def link_config_def)
  moreover have "map length (m_units_remaining (tw_throttle w')) = map length ?xss" using at(1) by (simp add: w' map_update nth_equalityI list_update_same_conv)
  moreover have "units_in U (tw_throttle w')" if U: "size_limit env \<le> U" "units_in U ?t" for U
  proof -
    have "u \<in> set (concat ?xss)" using at(1-3) by (auto intro!: bexI [of _ "?xss ! vnet"])
    then have "u \<le> U" using U(2) by (simp only: units_in_def)
    then have "vs_units s1 \<le> U" using U(1) k(4) by simp
    then show ?thesis using U(2) k(3) set_concat_update [of ?xss vnet channel "vs_units s1"] by (auto simp: units_in_def w')
  qed
  ultimately show ?thesis using total by (simp add: wake_kept_def w')
qed


lemma operateVnet_kept:
  "Throttle_operateVnet env curTick now vnet channel w = Some w' \<Longrightarrow> wake_kept env w w'"
  by (auto simp: Throttle_operateVnet_def bind_eq_Some_conv wake_kept_refl split: option.splits dest: operate_buffers_kept)

lemma for_list_kept:
  assumes "for_list f xs w = Some w'" "\<And>x w w'. f x w = Some w' \<Longrightarrow> wake_kept env w w'"
  shows "wake_kept env w w'"
  using assms(1)
proof (induction xs arbitrary: w)
  case Nil
  then show ?case by (simp add: wake_kept_refl)
next
  case (Cons x xs)
  then obtain w1 where "f x w = Some w1" "for_list f xs w1 = Some w'" by (auto simp: bind_eq_Some_conv)
  then show ?case using Cons.IH assms(2) wake_kept_trans by blast
qed

lemma operate_channels_kept: "operate_channels env curTick now vnet w = Some w' \<Longrightarrow> wake_kept env w w'"
  by (auto simp: operate_channels_def bind_eq_Some_conv intro: for_list_kept [OF _ operateVnet_kept])

text \<open>The bandwidth of a wakeup pays for what was left of earlier messages and for the messages it moves.\<close>

lemma Throttle_wakeup_kept:
  assumes "Throttle_wakeup env curTick now (t, bufs) = Some (t', bufs', es)" "getTotalLinkBandwidth t = Some B"
  shows "MESSAGE_SIZE_MULTIPLIER * (int (total_msg_bytes t') - int (total_msg_bytes t)) \<le> B + units_left t' - units_left t"
    "wire_config t' = wire_config t" "map length (m_units_remaining t') = map length (m_units_remaining t)"
    "size_limit env \<le> U \<Longrightarrow> units_in U t \<Longrightarrow> units_in U t'"
proof -
  define t1 where "t1 = snd (turn_priorities t)"
  have t1: "wire_config t1 = wire_config t" "m_units_remaining t1 = m_units_remaining t" "total_msg_bytes t1 = total_msg_bytes t"
    by (simp_all add: t1_def turn_priorities_def Let_def wire_config_def)
  let ?w = "\<lparr>tw_throttle = t1, tw_bufs = bufs, tw_total = B, tw_saturated = False, tw_blocked = False, tw_effects = []\<rparr>"
  from assms obtain vs w where B: "0 < B" and run: "for_list (operate_channels env curTick now) vs ?w = Some w"
    and t': "t' = (tw_throttle w)\<lparr>total_bw_sat_cy := total_bw_sat_cy (tw_throttle w) + (if tw_saturated w then 1 else 0),
                      total_stall_cy := total_stall_cy (tw_throttle w) + (if tw_blocked w then 1 else 0)\<rparr>"
    unfolding Throttle_wakeup_def Let_def t1_def by (auto simp: bind_eq_Some_conv split: prod.splits)
  have k: "wake_kept env ?w w" using run operate_channels_kept by (rule for_list_kept)
  then show "MESSAGE_SIZE_MULTIPLIER * (int (total_msg_bytes t') - int (total_msg_bytes t)) \<le> B + units_left t' - units_left t"
    using B by (simp add: wake_kept_def wake_paid_def units_left_def t' t1 algebra_simps)
  show "wire_config t' = wire_config t" "map length (m_units_remaining t') = map length (m_units_remaining t)"
    using k by (simp_all add: wake_kept_def wire_config_def t' t1(2)) (use t1(1) in \<open>simp add: wire_config_def\<close>)
  show "size_limit env \<le> U \<Longrightarrow> units_in U t \<Longrightarrow> units_in U t'"
    using k by (simp add: wake_kept_def units_in_def t' t1(2))
qed

text \<open>The wakeups of a throttle over time; what others do to the buffers in between is arbitrary.\<close>

definition throttle_run :: "(throttle_env \<times> tick \<times> tick \<times> buf_store) list \<Rightarrow> Throttle \<Rightarrow> Throttle option" where
  "throttle_run cs t =
     for_list (\<lambda>(env, curTick, now, bufs) t. map_option fst (Throttle_wakeup env curTick now (t, bufs))) cs t"

lemma throttle_run_kept:
  assumes "throttle_run cs t = Some t'" "getTotalLinkBandwidth t = Some B" "\<forall>c\<in>set cs. size_limit (fst c) \<le> U" "units_in U t"
  shows "MESSAGE_SIZE_MULTIPLIER * (int (total_msg_bytes t') - int (total_msg_bytes t)) \<le> int (length cs) * B + units_left t' - units_left t
    \<and> units_in U t' \<and> map length (m_units_remaining t') = map length (m_units_remaining t)"
  using assms
proof (induction cs arbitrary: t)
  case Nil
  then show ?case by (simp add: throttle_run_def)
next
  case (Cons c cs)
  obtain env curTick now bufs where c: "c = (env, curTick, now, bufs)" by (cases c) auto
  with Cons.prems(1) obtain t1 bufs1 es where w: "Throttle_wakeup env curTick now (t, bufs) = Some (t1, bufs1, es)"
    and rest: "throttle_run cs t1 = Some t'"
    by (auto simp: throttle_run_def bind_eq_Some_conv)
  note k = Throttle_wakeup_kept [OF w Cons.prems(2)]
  have "getTotalLinkBandwidth t1 = Some B" using getTotalLinkBandwidth_config [OF k(2)] Cons.prems(2) by simp
  moreover have "units_in U t1" using k(4) Cons.prems(3,4) c by simp
  ultimately have "MESSAGE_SIZE_MULTIPLIER * (int (total_msg_bytes t') - int (total_msg_bytes t1)) \<le> int (length cs) * B + units_left t' - units_left t1
    \<and> units_in U t' \<and> map length (m_units_remaining t') = map length (m_units_remaining t1)"
    using Cons.IH [OF rest] Cons.prems(3) by simp
  then show ?case using k(1,3) by (simp add: algebra_simps)
qed

lemma units_left_bound: "units_in U t \<Longrightarrow> units_left t \<le> int (length (concat (m_units_remaining t))) * U"
proof -
  have "\<forall>u\<in>set us. u \<le> U \<Longrightarrow> sum_list us \<le> int (length us) * U" for us by (induction us) (auto simp: algebra_simps)
  then show "units_in U t \<Longrightarrow> ?thesis" by (auto simp: units_in_def units_left_def simp del: set_concat length_concat)
qed

lemma units_left_nonneg: "units_in U t \<Longrightarrow> 0 \<le> units_left t"
  by (auto simp: units_in_def units_left_def intro!: sum_list_nonneg)


subsection \<open>A wakeup returns\<close>

definition in_ready :: "tick \<Rightarrow> MessageBuffer \<Rightarrow> bool" where
  "in_ready now b \<longleftrightarrow> mb_consumer b \<noteq> None \<and> m_time_last_time_pop b \<le> now"

definition out_ready :: "tick \<Rightarrow> tick \<Rightarrow> MessageBuffer \<Rightarrow> bool" where
  "out_ready now d b \<longleftrightarrow> accepts now d b \<and> mb_wf b \<and> slots_ok now b"

lemma out_ready_count [simp]: "out_ready now d (b\<lparr>m_not_avail_count := k\<rparr>) = out_ready now d b"
  by (simp add: out_ready_def accepts_def mb_wf_def slots_ok_def occupied_def stalled_def)

lemma isReady_defined: "in_ready now b \<Longrightarrow> \<exists>r es. mb_isReady now b = Some (r, es)"
  by (auto simp: mb_isReady_def in_ready_def Let_def)

lemma dequeue_ready:
  assumes "mb_isReady now b = Some (True, es)" "in_ready now b"
  shows "\<exists>m b' es'. dequeue curTick now True b = Some (m, b', es') \<and> m_LastEnqueueTime m \<le> now \<and> in_ready now b'
    \<and> heap_front (m_prio_heap b) \<noteq> None"
proof -
  obtain m where m: "heap_front (m_prio_heap b) = Some m" "m_LastEnqueueTime m \<le> now" using mb_isReady_True [OF assms(1)] by blast
  then have "\<exists>m1 b' es'. dequeue curTick now True b = Some (m1, b', es')"
    using assms(1) by (simp add: dequeue_def updateDelayedTicks_def Let_def)
  then obtain m1 b' es' where d: "dequeue curTick now True b = Some (m1, b', es')" by blast
  then have "m_LastEnqueueTime m1 \<le> now \<and> in_ready now b'" using assms(2) m
    by (elim dequeue_Some) (auto simp: in_ready_def)
  then show ?thesis using d m(1) by auto
qed

lemma enqueue_ready:
  assumes "out_ready now d b" "areNSlotsAvailable 1 now b = (True, b1)" "m_LastEnqueueTime m \<le> now"
  shows "\<exists>b' es. enqueue rnd m now d rr False False b = Some (b', es) \<and> out_ready now d b'"
proof -
  have "m_max_size b = 0 \<or> occupied b + 1 \<le> int (m_max_size b)"
    using assms(1,2) visible_size_bound [of now b] by (auto simp: areNSlotsAvailable_def out_ready_def split: if_splits)
  then obtain b' es where e: "enqueue rnd m now d rr False False b = Some (b', es)" "accepts now d b'"
    using enqueue_defined [of now d b m rnd rr] assms(1,3) by (auto simp: out_ready_def)
  then show ?thesis using enqueue_inv [OF e(1)] assms(1) by (auto simp: out_ready_def)
qed

definition loop_ok :: "throttle_env \<Rightarrow> tick \<Rightarrow> nat \<Rightarrow> vnet_state \<Rightarrow> bool" where
  "loop_ok env now vnet s \<longleftrightarrow> \<not> te_warmup env \<and> in_ready now (vs_in s)
     \<and> out_ready now (cyclesToTicks (te_period env) (th_link_latency (vs_throttle s))) (vs_out s)
     \<and> (\<forall>ty. vnet < length (msg_counts (vs_throttle s) ty))"

lemma loop_ok_polled: "polled s s' \<Longrightarrow> loop_ok env now vnet s \<Longrightarrow> loop_ok env now vnet s'"
  by (auto simp: loop_ok_def polled_def)

lemma loop_ok_spend: "loop_ok env now vnet (spend s) = loop_ok env now vnet s"
  by (simp add: loop_ok_def spend_def Let_def)

lemma hasPendingWork_defined: "in_ready now (vs_in s) \<Longrightarrow> \<exists>p s1. hasPendingWork now s = Some (p, s1)"
  using isReady_defined [of now "vs_in s"] by (auto simp: hasPendingWork_def)

lemma loop_condition_defined: "loop_ok env now vnet s \<Longrightarrow> \<exists>go s1. loop_condition now s = Some (go, s1)"
  using hasPendingWork_defined [of now s] by (auto simp: loop_condition_def loop_ok_def)

lemma move_message_defined:
  assumes "loop_ok env now vnet s" "mb_isReady now (vs_in s) = Some (True, es)" "areNSlotsAvailable 1 now (vs_out s) = (True, b)"
  shows "\<exists>s'. move_message env curTick now vnet s = Some s' \<and> loop_ok env now vnet s'"
proof -
  let ?d = "cyclesToTicks (te_period env) (th_link_latency (vs_throttle s))"
  have ok: "in_ready now (vs_in s)" "out_ready now ?d (vs_out s)" "te_warmup env = False" using assms(1) by (simp_all add: loop_ok_def)
  from dequeue_ready [OF assms(2) ok(1), of curTick] obtain m0 m i es1 where
    m: "heap_front (m_prio_heap (vs_in s)) = Some m0" "dequeue curTick now True (vs_in s) = Some (m, i, es1)"
      "m_LastEnqueueTime m \<le> now" "in_ready now i" by auto
  from enqueue_ready [OF ok(2) assms(3) m(3), of "te_rnd env" "te_randomization env"] obtain b' es2 where
    b': "enqueue (te_rnd env) m now ?d (te_randomization env) False False (vs_out s) = Some (b', es2)" "out_ready now ?d b'" by blast
  obtain t where t: "count_message env now vnet (m_LastEnqueueTime m0) m (vs_throttle s) = Some t"
    using assms(1) by (simp add: count_message_def loop_ok_def Let_def at_def)
  let ?s = "s\<lparr>vs_in := i, vs_out := b', vs_units := network_message_to_size env m0, vs_throttle := t, vs_effects := vs_effects s @ es1 @ es2\<rparr>"
  have "move_message env curTick now vnet s = Some ?s" unfolding move_message_def Let_def using m b'(1) t ok(3) by simp
  moreover have "wire_config t = wire_config (vs_throttle s)" using count_message_Some(1) [OF t] by (simp add: link_config_def)
  then have "loop_ok env now vnet ?s" using assms(1) m(4) b'(2) wire_config_fields(9,11) [of t "vs_throttle s"] by (simp add: loop_ok_def)
  ultimately show ?thesis by blast
qed

lemma loop_body_defined:
  assumes "loop_ok env now vnet s" "areNSlotsAvailable 1 now (vs_out s) = (True, b)"
  shows "\<exists>s'. loop_body env curTick now vnet s = Some s' \<and> loop_ok env now vnet s'"
proof (cases "vs_units s = 0")
  case False
  then show ?thesis using assms(1) by (simp add: loop_body_def loop_ok_spend)
next
  case True
  obtain r es where r: "mb_isReady now (vs_in s) = Some (r, es)" using isReady_defined [of now "vs_in s"] assms(1) by (auto simp: loop_ok_def)
  let ?s = "s\<lparr>vs_effects := vs_effects s @ es\<rparr>"
  have ok: "loop_ok env now vnet ?s" using assms(1) by (simp add: loop_ok_def)
  have "\<exists>s1. (if r then move_message env curTick now vnet ?s else Some ?s) = Some s1 \<and> loop_ok env now vnet s1"
    using move_message_defined [OF ok, of es b curTick] r assms(2) ok by (cases r) simp_all
  then obtain s1 where "(if r then move_message env curTick now vnet ?s else Some ?s) = Some s1" "loop_ok env now vnet s1" by blast
  then show ?thesis using True r by (simp add: loop_body_def loop_ok_spend Let_def)
qed

lemma loop_step_defined:
  assumes "loop_ok env now vnet s"
  shows "\<exists>go s'. loop_step env curTick now vnet s = Some (go, s') \<and> loop_ok env now vnet s'"
proof -
  obtain go s1 where c: "loop_condition now s = Some (go, s1)" using loop_condition_defined [OF assms] by blast
  have ok: "loop_ok env now vnet s1" by (rule loop_ok_polled [OF loop_condition_polled [OF c] assms])
  show ?thesis
  proof (cases go)
    case True
    then obtain b where b: "areNSlotsAvailable 1 now (vs_out s) = (True, b)" "vs_out s1 = b"
      using loop_condition_go(2) [of now s s1] c by auto
    then have "areNSlotsAvailable 1 now (vs_out s1) = (True, b)" by (auto simp: areNSlotsAvailable_def split: if_splits)
    then obtain s' where "loop_body env curTick now vnet s1 = Some s'" "loop_ok env now vnet s'" using loop_body_defined [OF ok] by blast
    then show ?thesis using c True by (auto simp: loop_step_def)
  next
    case False
    then show ?thesis using c ok by (auto simp: loop_step_def)
  qed
qed

lemma throttle_loop_defined:
  "loop_ok env now vnet s \<Longrightarrow> \<exists>s'. throttle_loop env curTick now vnet s = Some s' \<and> loop_ok env now vnet s'"
proof (induction env curTick now vnet s rule: throttle_loop.induct)
  case (1 env curTick now vnet s)
  obtain go s1 where st: "loop_step env curTick now vnet s = Some (go, s1)" "loop_ok env now vnet s1"
    using loop_step_defined [OF "1.prems"] by blast
  then show ?case using "1.IH" [OF st(1) refl _ st(2)] by (subst throttle_loop.simps) (cases go; simp)
qed

lemma loop_end:
  assumes "loop_step env curTick now vnet s0 = Some (False, s)" "0 \<le> vs_bw s" "hasPendingWork now s = Some (True, s1)"
  shows "vs_bw s = 0 \<or> fst (areNSlotsAvailable 1 now (vs_out s)) = False"
proof (rule disjCI)
  assume "fst (areNSlotsAvailable 1 now (vs_out s)) \<noteq> False"
  then have room: "fst (areNSlotsAvailable 1 now (vs_out s))" by simp
  have c: "loop_condition now s0 = Some (False, s)" using assms(1) by (auto simp: loop_step_def bind_eq_Some_conv split: if_splits)
  then have p: "polled s0 s" by (rule loop_condition_polled)
  show "vs_bw s = 0"
  proof (rule ccontr)
    assume "vs_bw s \<noteq> 0"
    then have "0 < vs_bw s0" using p assms(2) by (auto simp: polled_def)
    moreover have "vs_in s0 = vs_in s" "vs_units s0 = vs_units s" using p by (auto simp: polled_def)
    then obtain s2 where "hasPendingWork now s0 = Some (True, s2)" using hasPendingWork_frame [OF assms(3)]
      by (auto simp: hasPendingWork_def)
    ultimately have "output_free now s2 = (False, s)" "vs_out s2 = vs_out s0" using c
      by (auto simp: loop_condition_def hasPendingWork_def bind_eq_Some_conv)
    then obtain b where "areNSlotsAvailable 1 now (vs_out s0) = (False, b)" using output_free_frame [of now s2 False s] by auto
    then show False using room p by (auto simp: polled_def areNSlotsAvailable_def visible_size_def split: if_splits)
  qed
qed

lemma report_vnet_defined:
  assumes "loop_step env curTick now vnet s0 = Some (False, s)" "0 \<le> vs_bw s" "in_ready now (vs_in s)"
  shows "\<exists>a' b' s1. report_vnet now a b s = Some (a', b', s1)"
proof -
  obtain p s1 where p: "hasPendingWork now s = Some (p, s1)" using hasPendingWork_defined [OF assms(3)] by blast
  show ?thesis
  proof (cases p)
    case True
    then have "vs_bw s = 0 \<or> \<not> fst (areNSlotsAvailable 1 now (vs_out s))" using loop_end [OF assms(1,2)] p by simp
    moreover have "vs_bw s1 = vs_bw s" "vs_out s1 = vs_out s" using hasPendingWork_frame [OF p] by auto
    ultimately have "\<not> fst (if vs_bw s1 = 0 then (False, s1) else output_free now s1)"
      by (auto simp: output_free_def split: prod.splits)
    then show ?thesis using p True by (auto simp: report_vnet_def Let_def case_prod_unfold split: if_splits)
  qed (use p in \<open>simp add: report_vnet_def\<close>)
qed


text \<open>A throttle as its constructors and \<^verbatim>\<open>addLinks\<close> leave it.\<close>

definition vnet_channels :: "Throttle \<Rightarrow> nat \<Rightarrow> nat" where
  "vnet_channels t v = (if m_physical_vnets t then nat (m_vnet_channels t ! v) else 1)"

definition throttle_wired :: "Throttle \<Rightarrow> bool" where
  "throttle_wired t \<longleftrightarrow> length (th_in t) = th_vnets t \<and> length (th_out t) = th_vnets t
     \<and> map length (m_units_remaining t) = map (vnet_channels t) [0..<th_vnets t]
     \<and> (if m_physical_vnets t then 0 < th_vnets t \<and> length (m_link_bandwidth_multiplier t) = th_vnets t \<and> length (m_vnet_channels t) = th_vnets t
        else length (m_link_bandwidth_multiplier t) = 1)
     \<and> (\<forall>b\<in>set (m_link_bandwidth_multiplier t). 0 < b) \<and> (\<forall>c\<in>set (m_vnet_channels t). 0 < c) \<and> 0 < m_endpoint_bandwidth t
     \<and> (\<forall>ty. th_vnets t \<le> length (msg_counts t ty)) \<and> Some ` set (th_in t) \<inter> set (th_out t) = {}"

definition throttle_ready :: "throttle_env \<Rightarrow> tick \<Rightarrow> Throttle \<Rightarrow> buf_store \<Rightarrow> bool" where
  "throttle_ready env now t bufs \<longleftrightarrow> (\<forall>i\<in>set (th_in t). in_ready now (bufs i))
     \<and> (\<forall>o'. Some o' \<in> set (th_out t) \<longrightarrow> out_ready now (cyclesToTicks (te_period env) (th_link_latency t)) (bufs o'))"

definition vnet_bandwidth :: "Throttle \<Rightarrow> nat \<Rightarrow> int" where
  "vnet_bandwidth t v = (if m_physical_vnets t then m_endpoint_bandwidth t * m_link_bandwidth_multiplier t ! v else 0)"

definition wake_ok :: "throttle_env \<Rightarrow> int \<Rightarrow> tick \<Rightarrow> Throttle \<Rightarrow> int \<Rightarrow> throttle_wake \<Rightarrow> bool" where
  "wake_ok env U now t R w \<longleftrightarrow> wire_config (tw_throttle w) = wire_config t
     \<and> map length (m_units_remaining (tw_throttle w)) = map length (m_units_remaining t) \<and> units_in U (tw_throttle w)
     \<and> throttle_ready env now t (tw_bufs w) \<and> R \<le> tw_total w"

lemma throttle_wired_at:
  assumes "throttle_wired t" "v < th_vnets t"
  shows "length (m_units_remaining t) = th_vnets t" "length (m_units_remaining t ! v) = vnet_channels t v"
    "m_physical_vnets t \<Longrightarrow> getLinkBandwidth v t = Some (vnet_bandwidth t v)" "getChannelCnt v t = Some (int (vnet_channels t v))"
    "0 \<le> vnet_bandwidth t v"
proof -
  have m: "map length (m_units_remaining t) = map (vnet_channels t) [0..<th_vnets t]" using assms(1) by (simp add: throttle_wired_def)
  then show l: "length (m_units_remaining t) = th_vnets t" by (metis length_map length_upt diff_zero)
  show "length (m_units_remaining t ! v) = vnet_channels t v" using arg_cong [OF m, of "\<lambda>xs. xs ! v"] assms(2) l by simp
  show "m_physical_vnets t \<Longrightarrow> getLinkBandwidth v t = Some (vnet_bandwidth t v)"
    using assms by (simp add: throttle_wired_def getLinkBandwidth_def vnet_bandwidth_def at_def)
  show "getChannelCnt v t = Some (int (vnet_channels t v))" using assms
    by (auto simp: throttle_wired_def getChannelCnt_def vnet_channels_def at_def less_imp_le)
  show "0 \<le> vnet_bandwidth t v"
  proof (cases "m_physical_vnets t")
    case True
    then have "m_link_bandwidth_multiplier t ! v \<in> set (m_link_bandwidth_multiplier t)" using assms by (simp add: throttle_wired_def)
    then show ?thesis using assms(1) True by (auto simp: throttle_wired_def vnet_bandwidth_def)
  qed (simp add: vnet_bandwidth_def)
qed

lemma throttle_wired_buffers:
  assumes "throttle_wired t" "v < th_vnets t" "th_out t ! v = Some out"
  shows "th_in t ! v \<in> set (th_in t)" "Some out \<in> set (th_out t)" "\<forall>ty. th_vnets t \<le> length (msg_counts t ty)"
proof -
  have wt: "length (th_in t) = th_vnets t" "length (th_out t) = th_vnets t" using assms(1) by (simp_all add: throttle_wired_def)
  show "th_in t ! v \<in> set (th_in t)" "Some out \<in> set (th_out t)"
    using nth_mem [of v "th_in t"] nth_mem [of v "th_out t"] wt assms(2,3) by simp_all
  show "\<forall>ty. th_vnets t \<le> length (msg_counts t ty)" using assms(1) by (simp add: throttle_wired_def)
qed

lemma throttle_ready_update:
  assumes "throttle_wired t" "throttle_ready env now t bufs" "i \<in> set (th_in t)" "Some out \<in> set (th_out t)"
    and "in_ready now b" "out_ready now (cyclesToTicks (te_period env) (th_link_latency t)) b'"
  shows "throttle_ready env now t (bufs(i := b, out := b'))"
  unfolding throttle_ready_def
proof (intro conjI ballI allI impI)
  have disj: "Some ` set (th_in t) \<inter> set (th_out t) = {}" using assms(1) by (simp add: throttle_wired_def)
  show "in_ready now ((bufs(i := b, out := b')) j)" if "j \<in> set (th_in t)" for j
    using that assms(2,5) disj assms(4) by (cases "j = out") (auto simp: throttle_ready_def)
  show "out_ready now (cyclesToTicks (te_period env) (th_link_latency t)) ((bufs(i := b, out := b')) o')"
    if "Some o' \<in> set (th_out t)" for o'
    using that assms(2,6) disj assms(3) by (cases "o' = i") (auto simp: throttle_ready_def)
qed

lemma operate_buffers_defined:
  assumes t: "throttle_wired t" "v < th_vnets t" "c < vnet_channels t v" "th_in t ! v = i" "th_out t ! v = Some out"
    and w: "wake_ok env U now t (vnet_bandwidth t v + R) w" and R: "0 \<le> R" "\<not> m_physical_vnets t \<Longrightarrow> R = 0"
    and env: "\<not> te_warmup env" "size_limit env \<le> U"
  shows "\<exists>w'. operate_buffers env curTick now v c i out w = Some w' \<and> wake_ok env U now t R w'"
proof -
  let ?t = "tw_throttle w"
  let ?xss = "m_units_remaining ?t"
  have cfg: "wire_config ?t = wire_config t" and ml: "map length ?xss = map length (m_units_remaining t)"
    and U: "units_in U ?t" and ready: "throttle_ready env now t (tw_bufs w)" and R': "vnet_bandwidth t v + R \<le> tw_total w"
    using w by (simp_all add: wake_ok_def)
  note f = wire_config_fields [OF cfg] and wd = throttle_wired_at [OF t(1,2)]
  have len: "v < length ?xss" "c < length (?xss ! v)"
    using ml wd(1,2) t(2,3) by (metis length_map, metis length_map nth_map)
  then have u: "0 \<le> ?xss ! v ! c" using U by (auto simp: units_in_def dest!: nth_mem)
  obtain bw where bw: "(if m_physical_vnets ?t then getLinkBandwidth v ?t else Some (tw_total w)) = Some bw"
    "0 \<le> bw" "R \<le> tw_total w - bw \<or> (R = 0 \<and> tw_total w = bw)"
    using f(6,12) wd(3,5) R R' by (cases "m_physical_vnets t") (auto simp: vnet_bandwidth_def)
  let ?s = "\<lparr>vs_in = tw_bufs w i, vs_out = tw_bufs w out, vs_units = ?xss ! v ! c, vs_bw = bw, vs_total = tw_total w,
      vs_throttle = ?t, vs_effects = tw_effects w\<rparr>"
  note io = throttle_wired_buffers [OF t(1,2), unfolded t(4), OF t(5)]
  have "loop_ok env now v ?s" using io(1-3) ready env(1) t(2) f(9,11) by (auto simp: loop_ok_def throttle_ready_def intro: less_le_trans)
  then obtain s where s: "throttle_loop env curTick now v ?s = Some s" "loop_ok env now v s" using throttle_loop_defined by blast
  then have k: "loop_kept env ?s s" "\<exists>s0. loop_step env curTick now v s0 = Some (False, s)" using throttle_loop_kept by blast+
  then have bounds: "0 \<le> vs_units s" "0 \<le> vs_bw s" "R \<le> vs_total s" using u bw(2,3) by (auto simp: loop_kept_def)
  have "in_ready now (vs_in s)" using s(2) by (simp add: loop_ok_def)
  then obtain a b s1 where rep: "report_vnet now (tw_saturated w) (tw_blocked w) s = Some (a, b, s1)"
    using k(2) report_vnet_defined bounds(2) by metis
  have ok1: "loop_ok env now v s1" by (rule loop_ok_polled [OF report_vnet_polled [OF rep] s(2)])
  have tot1: "vs_total s1 = vs_total s" "vs_throttle s1 = vs_throttle s" using report_vnet_polled [OF rep] by (auto simp: polled_def)
  let ?w = "\<lparr>tw_throttle = (vs_throttle s1)\<lparr>m_units_remaining := ?xss[v := (?xss ! v)[c := vs_units s1]]\<rparr>,
                tw_bufs = (tw_bufs w)(i := vs_in s1, out := vs_out s1), tw_total = vs_total s1, tw_saturated = a,
                tw_blocked = b, tw_effects = vs_effects s1\<rparr>"
  have op: "operate_buffers env curTick now v c i out w = Some ?w"
    proof -
    have a: "at ?xss v = Some (?xss ! v)" "at (?xss ! v) c = Some (?xss ! v ! c)" "0 \<le> vs_total s" using len R(1) bounds(3) by simp_all
    show ?thesis unfolding operate_buffers_def Let_def a(1,2) bw(1) using s(1) u bounds(1,2) a(3) rep by (simp add: a(2) check_def)
  qed
  have wk: "wake_kept env w ?w" by (rule operate_buffers_kept [OF op])
  then have "wire_config (vs_throttle s1) = wire_config t" using cfg by (simp add: wake_kept_def wire_config_def)
  then have ok: "in_ready now (vs_in s1)" "out_ready now (cyclesToTicks (te_period env) (th_link_latency t)) (vs_out s1)"
    using ok1 wire_config_fields(9) [of "vs_throttle s1" t] by (simp_all add: loop_ok_def)
  then have "throttle_ready env now t (tw_bufs ?w)" using throttle_ready_update [OF t(1) ready io(1,2)] by simp
  then have "wake_ok env U now t R ?w" using wk cfg ml U env(2) bounds(3) tot1(1) by (simp add: wake_ok_def wake_kept_def)
  then show ?thesis using op by blast
qed

lemma operateVnet_defined:
  assumes t: "throttle_wired t" "v < th_vnets t" "c < vnet_channels t v"
    and w: "wake_ok env U now t (vnet_bandwidth t v + R) w" and R: "0 \<le> R" "\<not> m_physical_vnets t \<Longrightarrow> R = 0"
    and env: "\<not> te_warmup env" "size_limit env \<le> U"
  shows "\<exists>w'. Throttle_operateVnet env curTick now v c w = Some w' \<and> wake_ok env U now t R w'"
proof -
  have cfg: "wire_config (tw_throttle w) = wire_config t" using w by (simp add: wake_ok_def)
  note f = wire_config_fields [OF cfg]
  have len: "v < length (th_in t)" "v < length (th_out t)" using t(1,2) by (simp_all add: throttle_wired_def)
  show ?thesis
  proof (cases "th_out t ! v")
    case None
    then have "Throttle_operateVnet env curTick now v c w = Some w" using len by (simp add: Throttle_operateVnet_def f(1,2) at_def)
    moreover have "wake_ok env U now t R w" using w throttle_wired_at(5) [OF t(1,2)] by (simp add: wake_ok_def)
    ultimately show ?thesis by blast
  next
    case (Some out)
    then have "Throttle_operateVnet env curTick now v c w = operate_buffers env curTick now v c (th_in t ! v) out w"
      using len by (simp add: Throttle_operateVnet_def f(1,2) at_def)
    then show ?thesis using operate_buffers_defined [OF t refl Some w R env] by metis
  qed
qed

lemma channels_defined:
  assumes "throttle_wired t" "v < th_vnets t" "\<not> te_warmup env" "size_limit env \<le> U" "0 \<le> R" "\<not> m_physical_vnets t \<Longrightarrow> R = 0"
    and "\<forall>c\<in>set cs. c < vnet_channels t v" "wake_ok env U now t (int (length cs) * vnet_bandwidth t v + R) w"
  shows "\<exists>w'. for_list (Throttle_operateVnet env curTick now v) cs w = Some w' \<and> wake_ok env U now t R w'"
  using assms(7,8)
proof (induction cs arbitrary: w)
  case Nil
  then show ?case by simp
next
  case (Cons c cs)
  let ?R = "int (length cs) * vnet_bandwidth t v + R"
  have "wake_ok env U now t (vnet_bandwidth t v + ?R) w" using Cons.prems(2) by (simp add: algebra_simps)
  moreover have "0 \<le> ?R" using throttle_wired_at(5) [OF assms(1,2)] assms(5) by simp
  moreover have "\<not> m_physical_vnets t \<Longrightarrow> ?R = 0" using assms(6) by (simp add: vnet_bandwidth_def)
  ultimately obtain w1 where "Throttle_operateVnet env curTick now v c w = Some w1" "wake_ok env U now t ?R w1"
    using operateVnet_defined [of t v c env U now ?R w curTick] assms(1-4) Cons.prems(1) by auto
  then show ?case using Cons.IH [of w1] Cons.prems(1) by simp
qed

lemma vnets_defined:
  assumes "throttle_wired t" "\<not> te_warmup env" "size_limit env \<le> U" "\<forall>v\<in>set vs. v < th_vnets t"
    and "wake_ok env U now t (\<Sum>v\<leftarrow>vs. int (vnet_channels t v) * vnet_bandwidth t v) w"
  shows "\<exists>w'. for_list (operate_channels env curTick now) vs w = Some w' \<and> wake_ok env U now t 0 w'"
  using assms(4,5)
proof (induction vs arbitrary: w)
  case Nil
  then show ?case by simp
next
  case (Cons v vs)
  let ?R = "\<Sum>v\<leftarrow>vs. int (vnet_channels t v) * vnet_bandwidth t v"
  have v: "v < th_vnets t" using Cons.prems(1) by simp
  have R: "0 \<le> ?R" using Cons.prems(1) throttle_wired_at(5) [OF assms(1)] by (auto intro!: sum_list_nonneg)
  have R0: "\<not> m_physical_vnets t \<Longrightarrow> ?R = 0" by (simp add: vnet_bandwidth_def)
  have "wake_ok env U now t (int (length [0..<vnet_channels t v]) * vnet_bandwidth t v + ?R) w" using Cons.prems(2) by simp
  then obtain w1 where w1: "for_list (Throttle_operateVnet env curTick now v) [0..<vnet_channels t v] w = Some w1" "wake_ok env U now t ?R w1"
    using channels_defined [OF assms(1) v assms(2,3) R R0, of "[0..<vnet_channels t v]" now w curTick] by auto
  have "getChannelCnt v (tw_throttle w) = Some (int (vnet_channels t v))"
    using throttle_wired_at(4) [OF assms(1) v] wire_config_fields(13) [of "tw_throttle w" t] Cons.prems(2) by (simp add: wake_ok_def)
  then have "operate_channels env curTick now v w = Some w1" using w1(1) by (simp add: operate_channels_def)
  then show ?case using Cons.IH [OF _ w1(2)] Cons.prems(1) by simp
qed

lemma channels_bandwidth_sum:
  assumes "throttle_wired t" "m_physical_vnets t" "\<forall>v\<in>set vs. v < th_vnets t"
  shows "for_list (channels_bandwidth t) vs acc = Some (acc + (\<Sum>v\<leftarrow>vs. int (vnet_channels t v) * vnet_bandwidth t v))"
  using assms(3)
  by (induction vs arbitrary: acc) (simp_all add: channels_bandwidth_def throttle_wired_at [OF assms(1)] assms(2) algebra_simps)

lemma total_bandwidth:
  assumes "throttle_wired t"
  shows "\<exists>B. getTotalLinkBandwidth t = Some B \<and> 0 < B \<and> (\<Sum>v\<leftarrow>[0..<th_vnets t]. int (vnet_channels t v) * vnet_bandwidth t v) \<le> B"
proof (cases "m_physical_vnets t")
  case True
  then have n: "0 < th_vnets t" using assms by (simp add: throttle_wired_def)
  have "getTotalLinkBandwidth t = for_list (channels_bandwidth t) [0..<th_vnets t] 0"
    using n True by (simp add: getTotalLinkBandwidth_def upt_conv_Cons)
  also have "\<dots> = Some (\<Sum>v\<leftarrow>[0..<th_vnets t]. int (vnet_channels t v) * vnet_bandwidth t v)"
    using channels_bandwidth_sum [OF assms True] by simp
  finally have B: "getTotalLinkBandwidth t = Some (\<Sum>v\<leftarrow>[0..<th_vnets t]. int (vnet_channels t v) * vnet_bandwidth t v)" .
  have pos: "0 < int (vnet_channels t v) * vnet_bandwidth t v" if "v < th_vnets t" for v
    using assms True that nth_mem [of v "m_vnet_channels t"] nth_mem [of v "m_link_bandwidth_multiplier t"]
    by (simp add: throttle_wired_def vnet_channels_def vnet_bandwidth_def less_imp_le)
  have "0 < (\<Sum>v\<leftarrow>[0..<th_vnets t]. int (vnet_channels t v) * vnet_bandwidth t v)"
    unfolding sum_list_sum_nth using n pos by (intro sum_pos) auto
  then show ?thesis using B by simp
next
  case False
  then have "getLinkBandwidth 0 t = Some (m_endpoint_bandwidth t * m_link_bandwidth_multiplier t ! 0)" "0 < m_endpoint_bandwidth t * m_link_bandwidth_multiplier t ! 0"
    using assms nth_mem [of 0 "m_link_bandwidth_multiplier t"] by (simp_all add: throttle_wired_def getLinkBandwidth_def at_def)
  then show ?thesis using False by (simp add: getTotalLinkBandwidth_def channels_bandwidth_def getChannelCnt_def vnet_bandwidth_def)
qed

subsection \<open>Construction\<close>

lemma add_vnet_link_Some:
  assumes "add_vnet_link out_vec (k, i) (t, bufs) = Some (t', bufs')"
  obtains c where "k < length out_vec" "getChannelCnt k t = Some c"
    "t' = t\<lparr>m_units_remaining := m_units_remaining t @ [replicate (nat c) 0], th_in := th_in t @ [i], th_out := th_out t @ [out_vec ! k]\<rparr>"
  using assms by (auto simp: add_vnet_link_def bind_eq_Some_conv)

lemma add_vnet_links:
  assumes "for_list (add_vnet_link out_vec) (enumerate k in_vec) (t, bufs) = Some (t', bufs')"
  shows "t' = t\<lparr>m_units_remaining := m_units_remaining t @ map (\<lambda>v. replicate (nat (the (getChannelCnt v t))) 0) [k..<k + length in_vec],
       th_in := th_in t @ in_vec, th_out := th_out t @ take (length in_vec) (drop k out_vec)\<rparr>"
  using assms
proof (induction in_vec arbitrary: k t bufs)
  case Nil
  then show ?case by (cases t) simp
next
  case (Cons i in_vec)
  then obtain t1 bufs1 where s: "add_vnet_link out_vec (k, i) (t, bufs) = Some (t1, bufs1)"
    "for_list (add_vnet_link out_vec) (enumerate (Suc k) in_vec) (t1, bufs1) = Some (t', bufs')"
    by (auto simp: bind_eq_Some_conv)
  from s(1) obtain c where c: "k < length out_vec" "getChannelCnt k t = Some c"
    "t1 = t\<lparr>m_units_remaining := m_units_remaining t @ [replicate (nat c) 0], th_in := th_in t @ [i], th_out := th_out t @ [out_vec ! k]\<rparr>"
    by (rule add_vnet_link_Some)
  have g: "getChannelCnt v t1 = getChannelCnt v t" for v by (simp add: c(3) getChannelCnt_def)
  have u: "[k..<k + length (i # in_vec)] = k # [Suc k..<Suc k + length in_vec]" by (simp add: upt_rec)
  show ?case unfolding Cons.IH [OF s(2), unfolded g] u using c(1,2) by (simp add: c(3) Cons_nth_drop_Suc [symmetric])
qed

text \<open>What \<^verbatim>\<open>addLinks\<close> makes of a throttle fresh from one of its constructors.\<close>

lemma addLinks_wired:
  assumes new: "Throttle_new n sID node lat bwm ep = Some t \<or> Throttle_new_vnets n sID node lat chans bwms ep = Some t"
    and add: "addLinks in_vec out_vec (t, bufs) = Some (t', bufs')"
    and "0 < ep" "in_vec \<noteq> []" "length in_vec \<le> n" "Some ` set in_vec \<inter> set out_vec = {}"
  shows "throttle_wired t' \<and> units_in 0 t'"
proof -
  from add obtain t1 where len: "length in_vec = length out_vec"
    and run: "for_list (add_vnet_link out_vec) (enumerate 0 in_vec) (t, bufs) = Some (t1, bufs')"
    and t': "t' = t1\<lparr>th_vnets := length in_vec\<rparr>"
    and m: "if m_physical_vnets t1 then length (m_link_bandwidth_multiplier t1) = length in_vec else length (m_link_bandwidth_multiplier t1) = 1"
    by (auto simp: addLinks_def bind_eq_Some_conv Let_def cong: if_cong)
  have fresh: "m_units_remaining t = []" "th_in t = []" "th_out t = []" "m_endpoint_bandwidth t = ep" "\<forall>ty. length (msg_counts t ty) = n"
    "\<forall>b\<in>set (m_link_bandwidth_multiplier t). 0 < b" "\<forall>c\<in>set (m_vnet_channels t). 0 < c"
    "m_physical_vnets t \<Longrightarrow> length (m_vnet_channels t) = length (m_link_bandwidth_multiplier t)"
    using new by (auto simp: Throttle_new_def Throttle_new_vnets_def Throttle_base_def bind_eq_Some_conv)
  have t1: "t1 = t\<lparr>m_units_remaining := map (\<lambda>v. replicate (nat (the (getChannelCnt v t))) 0) [0..<length in_vec],
       th_in := in_vec, th_out := out_vec\<rparr>" using add_vnet_links [OF run] fresh(1-3) len by simp
  have "getChannelCnt v t = Some (int (vnet_channels t v))" if "v < length in_vec" for v
    using that m fresh(7,8) by (auto simp: t1 getChannelCnt_def vnet_channels_def at_def less_imp_le)
  then have "map length (m_units_remaining t') = map (vnet_channels t') [0..<length in_vec]"
    by (simp add: t' t1 vnet_channels_def)
  then show ?thesis using m fresh(4-8) assms(3-6) len by (auto simp: t' t1 throttle_wired_def units_in_def)
qed

text \<open>No assertion of a wakeup fails.\<close>

lemma Throttle_wakeup_defined:
  assumes "throttle_wired t" "units_in U t" "throttle_ready env now t bufs" "\<not> te_warmup env" "size_limit env \<le> U"
  shows "\<exists>t' bufs' es. Throttle_wakeup env curTick now (t, bufs) = Some (t', bufs', es) \<and> throttle_wired t' \<and> units_in U t'
    \<and> throttle_ready env now t' bufs'"
proof -
  obtain B where B: "getTotalLinkBandwidth t = Some B" "0 < B" "(\<Sum>v\<leftarrow>[0..<th_vnets t]. int (vnet_channels t v) * vnet_bandwidth t v) \<le> B"
    using total_bandwidth [OF assms(1)] by blast
  obtain dir t1 where t1: "turn_priorities t = (dir, t1)" by fastforce
  then have cfg: "wire_config t1 = wire_config t" "m_units_remaining t1 = m_units_remaining t"
    by (auto simp: turn_priorities_def Let_def wire_config_def)
  let ?w = "\<lparr>tw_throttle = t1, tw_bufs = bufs, tw_total = B, tw_saturated = False, tw_blocked = False, tw_effects = []\<rparr>"
  define vs where "vs = (if dir then [0..<th_vnets t1] else rev [0..<th_vnets t1])"
  have "(\<Sum>v\<leftarrow>vs. int (vnet_channels t v) * vnet_bandwidth t v) = (\<Sum>v\<leftarrow>[0..<th_vnets t]. int (vnet_channels t v) * vnet_bandwidth t v)"
    by (simp add: vs_def wire_config_fields(3) [OF cfg(1)] sum_list_rev flip: rev_map)
  then have "wake_ok env U now t (\<Sum>v\<leftarrow>vs. int (vnet_channels t v) * vnet_bandwidth t v) ?w"
    using assms(2,3) cfg B(3) by (simp add: wake_ok_def units_in_def)
  moreover have "\<forall>v\<in>set vs. v < th_vnets t" using wire_config_fields(3) [OF cfg(1)] by (auto simp: vs_def)
  ultimately obtain w where w: "for_list (operate_channels env curTick now) vs ?w = Some w" "wake_ok env U now t 0 w"
    using vnets_defined [OF assms(1,4,5)] by blast
  obtain t' es where r: "Throttle_wakeup env curTick now (t, bufs) = Some (t', tw_bufs w, es)"
      "t' = (tw_throttle w)\<lparr>total_bw_sat_cy := total_bw_sat_cy (tw_throttle w) + (if tw_saturated w then 1 else 0),
                      total_stall_cy := total_stall_cy (tw_throttle w) + (if tw_blocked w then 1 else 0)\<rparr>"
    using B(1,2) t1 w(1) by (simp add: Throttle_wakeup_def Let_def vs_def)
  then have c: "wire_config t' = wire_config t" "map length (m_units_remaining t') = map length (m_units_remaining t)" "units_in U t'"
    using w(2) by (simp_all add: wake_ok_def wire_config_def units_in_def)
  have "throttle_wired t'" using assms(1) c(2) wire_config_fields [OF c(1)] by (simp add: throttle_wired_def vnet_channels_def cong: map_cong)
  moreover have "throttle_ready env now t' (tw_bufs w)"
    using w(2) wire_config_fields(1,2,9) [OF c(1)] by (simp add: wake_ok_def throttle_ready_def)
  ultimately show ?thesis using r(1) c(3) by blast
qed

lemma throttle_run_defined:
  assumes "throttle_wired t" "units_in U t"
    and "\<forall>(env, curTick, now, bufs)\<in>set cs. throttle_ready env now t bufs \<and> \<not> te_warmup env \<and> size_limit env \<le> U"
  shows "\<exists>t'. throttle_run cs t = Some t' \<and> throttle_wired t'"
  using assms
proof (induction cs arbitrary: t)
  case Nil
  then show ?case by (simp add: throttle_run_def)
next
  case (Cons c cs)
  obtain env curTick now bufs where c: "c = (env, curTick, now, bufs)" by (cases c) auto
  with Cons.prems obtain t1 bufs1 es where w: "Throttle_wakeup env curTick now (t, bufs) = Some (t1, bufs1, es)" "throttle_wired t1" "units_in U t1"
    using Throttle_wakeup_defined [of t U env now bufs curTick] by auto
  obtain B where "getTotalLinkBandwidth t = Some B" using total_bandwidth [OF Cons.prems(1)] by blast
  then have "wire_config t1 = wire_config t" using Throttle_wakeup_kept(2) [OF w(1)] by blast
  then have "throttle_ready e n t1 b = throttle_ready e n t b" for e n b
    using wire_config_fields(1,2,9) [of t1 t] by (simp add: throttle_ready_def)
  then show ?case using Cons.IH [OF w(2,3)] Cons.prems(3) w(1) by (auto simp: throttle_run_def c)
qed

subsection \<open>A throttle with one virtual network\<close>

definition ex_env :: throttle_env where
  "ex_env = \<lparr>te_period = 1, te_control_size = 8, te_data_size = 72, te_randomization = False, te_warmup = False, te_rnd = (\<lambda>_. (0, 0, 0))\<rparr>"

definition ex_bufs :: buf_store where
  "ex_bufs i = (if i = 0 then ex_buf2\<lparr>mb_consumer := Some (CThrottle 0 0)\<rparr> else ex_buf)"

definition ex_throttle :: Throttle where
  "ex_throttle = the (do { t \<leftarrow> Throttle_new 1 0 0 1 16 1000; map_option fst (addLinks [0] [Some 1] (t, ex_bufs(0 := ex_buf2\<lparr>mb_consumer := None\<rparr>))) })"

lemma ex_throttle_is:
  "throttle_wired ex_throttle" "units_in 72000 ex_throttle" "getTotalLinkBandwidth ex_throttle = Some 16000" "th_in ex_throttle = [0]"
  "th_out ex_throttle = [Some 1]" "th_link_latency ex_throttle = 1" "m_units_remaining ex_throttle = [[0]]" "total_msg_bytes ex_throttle = 0"
proof -
  have e: "ex_throttle = (Throttle_base 1 0 0 1 1000)\<lparr>m_link_bandwidth_multiplier := [16], m_units_remaining := [[0]], th_in := [0],
      th_out := [Some 1], th_vnets := 1\<rparr>"
    by (simp add: ex_throttle_def Throttle_new_def addLinks_def add_vnet_link_def Throttle_base_def getChannelCnt_def setConsumer_def at_def)
  show "throttle_wired ex_throttle" "units_in 72000 ex_throttle" "getTotalLinkBandwidth ex_throttle = Some 16000" "th_in ex_throttle = [0]"
    "th_out ex_throttle = [Some 1]" "th_link_latency ex_throttle = 1" "m_units_remaining ex_throttle = [[0]]" "total_msg_bytes ex_throttle = 0"
    by (simp_all add: e Throttle_base_def throttle_wired_def units_in_def vnet_channels_def getTotalLinkBandwidth_def
        channels_bandwidth_def getLinkBandwidth_def getChannelCnt_def at_def)
qed

lemma ex_env_is: "te_warmup ex_env = False" "size_limit ex_env = 72000"
  by (simp_all add: ex_env_def size_limit_def MESSAGE_SIZE_MULTIPLIER_def)

lemma ex_bufs_ready: "throttle_ready ex_env 15 ex_throttle ex_bufs"
proof -
  have "mb_wf ex_buf \<and> slots_ok 15 ex_buf" by (rule mb_reach_inv [OF mb_reach.time [OF ex_buf_reach]]) simp
  moreover have "accepts 15 1 ex_buf" by (simp add: accepts_def ex_buf_def MessageBuffer_new_def)
  ultimately show ?thesis
    by (simp add: throttle_ready_def ex_throttle_is in_ready_def out_ready_def ex_bufs_def ex_buf2_is ex_env_def cyclesToTicks_def)
qed

text \<open>C0. The throttle keeps the bandwidth of its link.  A throttle that was constructed and wired returns from any \<open>n\<close>
  wakeups without a failing assertion, whatever the other components do to its buffers between them, and moves at most
  \<open>n\<close> times the total bandwidth of the link, and for each channel one message whose transfer was started and is still
  to be paid for.  \<open>U\<close> is the size of the largest message; sizes and bandwidth are in thousandths of a byte.\<close>
theorem throttle_bandwidth:
  assumes "throttle_wired t" "units_in U t" "getTotalLinkBandwidth t = Some B"
    and "\<forall>(env, curTick, now, bufs)\<in>set cs. throttle_ready env now t bufs \<and> \<not> te_warmup env \<and> size_limit env \<le> U"
  shows "\<exists>t'. throttle_run cs t = Some t' \<and> throttle_wired t'
    \<and> MESSAGE_SIZE_MULTIPLIER * (int (total_msg_bytes t') - int (total_msg_bytes t))
        \<le> int (length cs) * B + int (length (concat (m_units_remaining t))) * U"
proof -
  obtain t' where t': "throttle_run cs t = Some t'" "throttle_wired t'" using throttle_run_defined [OF assms(1,2,4)] by blast
  have "\<forall>c\<in>set cs. size_limit (fst c) \<le> U" using assms(4) by auto
  note k = throttle_run_kept [OF t'(1) assms(3) this assms(2)]
  have "length (concat (m_units_remaining t')) = length (concat (m_units_remaining t))" using k by (simp add: length_concat)
  then show ?thesis using t' k units_left_bound [of U t'] units_left_nonneg [OF assms(2)] by auto
qed

theorem throttle_bandwidth_witness:
  "\<exists>t'. throttle_run [(ex_env, 15, 15, ex_bufs), (ex_env, 15, 15, ex_bufs)] ex_throttle = Some t' \<and> throttle_wired t'
    \<and> 1000 * int (total_msg_bytes t') \<le> 2 * 16000 + 72000"
  using throttle_bandwidth [OF ex_throttle_is(1-3), of "[(ex_env, 15, 15, ex_bufs), (ex_env, 15, 15, ex_bufs)]"]
  by (simp add: ex_bufs_ready ex_env_is ex_throttle_is(7,8) MESSAGE_SIZE_MULTIPLIER_def)

end
