(* ===== verification/Simple_Switch.thy ===== *)
theory Simple_Switch
  imports Throttle_Bandwidth
begin

text \<open>
  The switches of the simple network (\<^verbatim>\<open>simple/PerfectSwitch.{hh,cc}\<close>): a switch takes the messages out of its input
  buffers, in the order of their priorities, splits the destinations of each over its links and puts a copy into the buffer
  of each link.

  The input buffer that is worked on is a value of its own during the loop, because the buffers behind the links are others:
  their consumer is the throttle.  \<^verbatim>\<open>std::sort\<close> leaves the order of equal priorities open; here they keep the order of their
  ports.  The numbers from the random generator are an argument, one stream for every call of the routing unit.
\<close>

subsection \<open>The state\<close>

record OutputPort =
  op_latency :: tick
  op_buffers :: "buf_id list"

record PerfectSwitch =
  ps_switch_id :: nat
  ps_in :: "buf_id option list list"
  ps_out :: "OutputPort list"
  m_in_prio :: "buf_id list list"
  m_in_prio_groups :: "buf_id list list list"
  ps_virtual_networks :: nat
  ps_wakeups_wo_switch :: int
  m_pending_message_count :: "int list"

definition PerfectSwitch_new :: "nat \<Rightarrow> nat \<Rightarrow> PerfectSwitch" where
  "PerfectSwitch_new sid virt_nets =
     \<lparr>ps_switch_id = sid, ps_in = [], ps_out = [], m_in_prio = [], m_in_prio_groups = [], ps_virtual_networks = virt_nets,
      ps_wakeups_wo_switch = 0, m_pending_message_count = []\<rparr>"

definition PerfectSwitch_init :: "PerfectSwitch \<Rightarrow> PerfectSwitch" where
  "PerfectSwitch_init p =
     p\<lparr>m_pending_message_count := m_pending_message_count p @ replicate (ps_virtual_networks p) 0\<rparr>"

definition PerfectSwitch_storeEventInfo :: "nat \<Rightarrow> PerfectSwitch \<Rightarrow> PerfectSwitch option" where
  "PerfectSwitch_storeEventInfo info p =
     do { n \<leftarrow> at (m_pending_message_count p) info;
          Some (p\<lparr>m_pending_message_count := (m_pending_message_count p)[info := n + 1]\<rparr>) }"

subsection \<open>Ports\<close>

definition setIncomingLink :: "nat \<Rightarrow> MessageBuffer \<Rightarrow> MessageBuffer" where
  "setIncomingLink link_id b = b\<lparr>m_input_link_id := link_id\<rparr>"

definition setVnet :: "nat \<Rightarrow> MessageBuffer \<Rightarrow> MessageBuffer" where
  "setVnet net b = b\<lparr>m_vnet_id := net\<rparr>"

text \<open>The groups of the sorted buffers, as the loop over them makes them; \<open>cur_prio\<close> is that of the first.\<close>

definition group_buffer :: "(buf_id \<Rightarrow> int) \<Rightarrow> int \<Rightarrow> buf_id \<Rightarrow> buf_id list list \<Rightarrow> buf_id list list" where
  "group_buffer prio cur_prio b groups =
     (let gs = (if prio b \<noteq> cur_prio then groups @ [[]] else groups)
      in gs[length gs - 1 := gs ! (length gs - 1) @ [b]])"

definition priority_groups :: "(buf_id \<Rightarrow> int) \<Rightarrow> buf_id list \<Rightarrow> buf_id list list" where
  "priority_groups prio bs = fold (group_buffer prio (prio (hd bs))) bs [[]]"

definition grow :: "nat \<Rightarrow> 'a list list \<Rightarrow> 'a list list" where
  "grow n xss = xss @ replicate (n - length xss) []"

definition updatePriorityGroups :: "nat \<Rightarrow> buf_id \<Rightarrow> buf_store \<Rightarrow> PerfectSwitch \<Rightarrow> PerfectSwitch" where
  "updatePriorityGroups vnet in_buf bufs p =
     (let prio = (\<lambda>b. m_routing_priority (bufs b));
          in_prio = grow (Suc vnet) (m_in_prio p);
          groups = grow (Suc vnet) (m_in_prio_groups p);
          sorted_bufs = sort_key prio (in_prio ! vnet @ [in_buf])
      in p\<lparr>m_in_prio := in_prio[vnet := sorted_bufs], m_in_prio_groups := groups[vnet := priority_groups prio sorted_bufs]\<rparr>)"

definition add_in_buffer :: "nat \<Rightarrow> (nat \<times> buf_id option) \<Rightarrow> PerfectSwitch \<times> buf_store \<Rightarrow> (PerfectSwitch \<times> buf_store) option" where
  "add_in_buffer port i_in st =
     (case (i_in, st) of ((i, None), (p, bufs)) \<Rightarrow> Some (p, bufs)
      | ((i, Some b), (p, bufs)) \<Rightarrow>
          do { buf \<leftarrow> setConsumer (CPerfectSwitch (ps_switch_id p)) (bufs b);
               let bufs1 = bufs(b := setVnet i (setIncomingLink port buf));
               Some (updatePriorityGroups i b bufs1 p, bufs1) })"

definition PerfectSwitch_addInPort ::
  "buf_id option list \<Rightarrow> PerfectSwitch \<times> buf_store \<Rightarrow> (PerfectSwitch \<times> buf_store) option"
where
  "PerfectSwitch_addInPort ins st =
     (case st of (p, bufs) \<Rightarrow>
        for_list (add_in_buffer (length (ps_in p))) (enumerate 0 ins) (p\<lparr>ps_in := ps_in p @ [ins]\<rparr>, bufs))"

definition PerfectSwitch_addOutPort ::
  "buf_id list \<Rightarrow> NetDest \<Rightarrow> tick \<Rightarrow> int \<Rightarrow> PerfectSwitch \<times> WeightBased \<Rightarrow> (PerfectSwitch \<times> WeightBased) option"
where
  "PerfectSwitch_addOutPort out routing_table_entry routing_latency link_weight st =
     (case st of (p, u) \<Rightarrow>
        do { u1 \<leftarrow> WeightBased_addOutPort (length (ps_out p)) out routing_table_entry link_weight u;
             Some (p\<lparr>ps_out := ps_out p @ [\<lparr>op_latency = routing_latency, op_buffers = out\<rparr>]\<rparr>, u1) })"

definition PerfectSwitch_inBuffer :: "nat \<Rightarrow> nat \<Rightarrow> PerfectSwitch \<Rightarrow> buf_id option option" where
  "PerfectSwitch_inBuffer in_port vnet p =
     do { port \<leftarrow> at (ps_in p) in_port;
          if length port \<le> vnet then Some None else Some (port ! vnet) }"

subsection \<open>Forwarding\<close>

record switch_env =
  se_ordered :: "bool list"
  se_randomization :: bool
  se_warmup :: bool
  se_rnd :: "nat \<Rightarrow> nat \<times> nat \<times> nat"
  se_route_rnd :: "nat \<Rightarrow> nat \<Rightarrow> nat"

record switch_state =
  ss_switch :: PerfectSwitch
  ss_routing :: WeightBased
  ss_bufs :: buf_store
  ss_routes :: nat
  ss_effects :: "mb_effect list"

definition out_buffer :: "nat \<Rightarrow> PerfectSwitch \<Rightarrow> nat \<Rightarrow> (tick \<times> buf_id) option" where
  "out_buffer vnet p outgoing =
     do { out_port \<leftarrow> at (ps_out p) outgoing;
          b \<leftarrow> at (op_buffers out_port) vnet;
          Some (op_latency out_port, b) }"

definition check_link :: "tick \<Rightarrow> nat \<Rightarrow> PerfectSwitch \<Rightarrow> NetDest \<times> nat \<Rightarrow> bool \<times> buf_store \<Rightarrow> (bool \<times> buf_store) option" where
  "check_link now vnet p link st =
     (case st of (enough, bufs) \<Rightarrow>
        do { (_, b) \<leftarrow> out_buffer vnet p (snd link);
             let (free, buf) = areNSlotsAvailable 1 now (bufs b);
             Some (enough \<and> free, bufs(b := buf)) })"

definition send_copy ::
  "switch_env \<Rightarrow> tick \<Rightarrow> nat \<Rightarrow> PerfectSwitch \<Rightarrow> Message \<times> NetDest \<times> nat \<Rightarrow> buf_store \<times> mb_effect list
     \<Rightarrow> (buf_store \<times> mb_effect list) option"
where
  "send_copy env now vnet p copy_link st =
     (case (copy_link, st) of ((m, dests, outgoing), (bufs, es)) \<Rightarrow>
        do { (latency, b) \<leftarrow> out_buffer vnet p outgoing;
             (buf, es') \<leftarrow> enqueue (se_rnd env) (m\<lparr>Destination := dests\<rparr>) now latency (se_randomization env) (se_warmup env)
                False (bufs b);
             Some (bufs(b := buf), es @ es') })"

text \<open>The messages that are sent: the dequeued message itself on the first link, on the others copies of
  the message as it was before it was dequeued.\<close>

definition message_copies :: "Message \<Rightarrow> Message \<Rightarrow> (NetDest \<times> nat) list \<Rightarrow> (Message \<times> NetDest \<times> nat) list" where
  "message_copies msg unmodified_msg links = zip (msg # replicate (length links - 1) unmodified_msg) links"

text \<open>One pass through the loop of \<^verbatim>\<open>operateMessageBuffer\<close>; \<open>True\<close> when a message was forwarded.\<close>

definition forward_step ::
  "switch_env \<Rightarrow> tick \<Rightarrow> tick \<Rightarrow> nat \<Rightarrow> MessageBuffer \<times> switch_state \<Rightarrow> (bool \<times> MessageBuffer \<times> switch_state) option"
where
  "forward_step env curTick now vnet st =
     (case st of (buffer, s) \<Rightarrow>
        do { (ready, es) \<leftarrow> mb_isReady now buffer;
             let s0 = s\<lparr>ss_effects := ss_effects s @ es\<rparr>;
             if \<not> ready then Some (False, buffer, s0)
             else
               do { msg \<leftarrow> heap_front (m_prio_heap buffer);
                    ordered \<leftarrow> at (se_ordered env) vnet;
                    (links, u, bufs) \<leftarrow> WeightBased_route (se_route_rnd env (ss_routes s)) now ordered msg (ss_routing s, ss_bufs s);
                    (enough, bufs1) \<leftarrow> for_list (check_link now vnet (ss_switch s)) links (True, bufs);
                    let s1 = s0\<lparr>ss_routing := u, ss_bufs := bufs1, ss_routes := Suc (ss_routes s)\<rparr>;
                    if \<not> enough
                    then Some (False, buffer, s1\<lparr>ss_effects := ss_effects s1 @ [WakeNext (CPerfectSwitch (ps_switch_id (ss_switch s)))]\<rparr>)
                    else
                      do { (m, buffer', es1) \<leftarrow> dequeue curTick now True buffer;
                           n \<leftarrow> at (m_pending_message_count (ss_switch s)) vnet;
                           (bufs2, es2) \<leftarrow> for_list (send_copy env now vnet (ss_switch s)) (message_copies m msg links) (bufs1, []);
                           Some (True, buffer',
                             s1\<lparr>ss_switch := (ss_switch s)\<lparr>m_pending_message_count := (m_pending_message_count (ss_switch s))[vnet := n - 1]\<rparr>,
                                ss_bufs := bufs2, ss_effects := ss_effects s1 @ es1 @ es2\<rparr>) } } })"

lemma forward_step_decreases:
  assumes "forward_step env curTick now vnet (b, s) = Some (True, b', s')"
  shows "length (m_prio_heap b') < length (m_prio_heap b)"
proof -
  from assms obtain m es where "dequeue curTick now True b = Some (m, b', es)"
    unfolding forward_step_def Let_def by (auto simp: bind_eq_Some_conv split: if_splits)
  then obtain m0 where m0: "heap_front (m_prio_heap b) = Some m0" "m_prio_heap b' = heap_pop msg_key (m_prio_heap b)" by (rule dequeue_Some)
  then have "m_prio_heap b \<noteq> []" by (auto simp: heap_front_def)
  then show ?thesis using length_heap_pop_any m0(2) by simp
qed

function forward_loop ::
  "switch_env \<Rightarrow> tick \<Rightarrow> tick \<Rightarrow> nat \<Rightarrow> MessageBuffer \<Rightarrow> switch_state \<Rightarrow> (MessageBuffer \<times> switch_state) option"
where
  "forward_loop env curTick now vnet b s =
     (case forward_step env curTick now vnet (b, s) of
        None \<Rightarrow> None
      | Some (go, b', s') \<Rightarrow> if go then forward_loop env curTick now vnet b' s' else Some (b', s'))"
  by pat_completeness auto
termination
  by (relation "measure (\<lambda>(env, curTick, now, vnet, b, s). length (m_prio_heap b))") (auto dest: forward_step_decreases)

declare forward_loop.simps [simp del]

definition operateMessageBuffer :: "switch_env \<Rightarrow> tick \<Rightarrow> tick \<Rightarrow> nat \<Rightarrow> buf_id \<Rightarrow> switch_state \<Rightarrow> switch_state option" where
  "operateMessageBuffer env curTick now vnet b s =
     do { (buf, s1) \<leftarrow> forward_loop env curTick now vnet (ss_bufs s b) s;
          Some (s1\<lparr>ss_bufs := (ss_bufs s1)(b := buf)\<rparr>) }"

subsection \<open>The wakeup\<close>

definition MaxTick :: tick where
  "MaxTick = 0xffffffffffffffff"

definition oldest_port :: "buf_store \<Rightarrow> buf_id list \<Rightarrow> nat" where
  "oldest_port bufs ins =
     fst (fold (\<lambda>(i, b) (start_in_port, lowest_tick).
            let ready_time = mb_readyTime MaxTick (bufs b)
            in if ready_time < lowest_tick then (i, ready_time) else (start_in_port, lowest_tick))
          (enumerate 0 ins) (0, MaxTick))"

definition operate_group :: "switch_env \<Rightarrow> tick \<Rightarrow> tick \<Rightarrow> nat \<Rightarrow> buf_id list \<Rightarrow> switch_state \<Rightarrow> switch_state option" where
  "operate_group env curTick now vnet ins s =
     (let start_in_port = oldest_port (ss_bufs s) ins
      in for_list (\<lambda>i s. operateMessageBuffer env curTick now vnet (ins ! ((i + start_in_port) mod length ins)) s) [0..<length ins] s)"

definition PerfectSwitch_operateVnet :: "switch_env \<Rightarrow> tick \<Rightarrow> tick \<Rightarrow> nat \<Rightarrow> switch_state \<Rightarrow> switch_state option" where
  "PerfectSwitch_operateVnet env curTick now vnet s =
     do { n \<leftarrow> at (m_pending_message_count (ss_switch s)) vnet;
          if n = 0 then Some s
          else do { groups \<leftarrow> at (m_in_prio_groups (ss_switch s)) vnet;
                    for_list (operate_group env curTick now vnet) groups s } }"

definition PerfectSwitch_wakeup :: "switch_env \<Rightarrow> tick \<Rightarrow> tick \<Rightarrow> switch_state \<Rightarrow> switch_state option" where
  "PerfectSwitch_wakeup env curTick now s =
     (let n = ps_wakeups_wo_switch (ss_switch s) + 1;
          invert = (n > PRIORITY_SWITCH_LIMIT);
          p = (ss_switch s)\<lparr>ps_wakeups_wo_switch := (if invert then 0 else n)\<rparr>;
          vnets = [0..<ps_virtual_networks p]
      in for_list (PerfectSwitch_operateVnet env curTick now) (if invert then vnets else rev vnets) (s\<lparr>ss_switch := p\<rparr>))"

end
