(* ===== verification/Switch_Deliveries.thy ===== *)
theory Switch_Deliveries
  imports Simple_Switch
begin

text \<open>
  The deliveries of a switch of the simple network: a wakeup returns, and the pairs of a message and one of its destinations
  that the buffers of the switch hold are the same before and after it.
\<close>

subsection \<open>What a switch carries\<close>

text \<open>The deliveries that a message stands for: its payload with each of its destinations.\<close>

definition parts :: "nat \<Rightarrow> NetDest \<Rightarrow> (nat \<times> nat \<times> nat) multiset" where
  "parts pl d = image_mset (Pair pl) (mset_set (dest_els d))"

definition carried :: "MessageBuffer \<Rightarrow> (nat \<times> nat \<times> nat) multiset" where
  "carried b = (\<Sum>m\<in>#mset (m_prio_heap b). parts (msg_payload m) (Destination m))"

text \<open>Buffers that differ in cached sizes and in the count of refusals only.\<close>

definition buf_same :: "MessageBuffer \<Rightarrow> MessageBuffer \<Rightarrow> bool" where
  "buf_same b b' \<longleftrightarrow> (\<exists>t k n. b' = b\<lparr>m_time_last_time_size_checked := t, m_size_last_time_size_checked := k, m_not_avail_count := n\<rparr>)"

lemma buf_same_refl: "buf_same b b"
  by (cases b) (auto simp: buf_same_def)

lemma buf_same_trans:
  assumes "buf_same b b1" "buf_same b1 b2"
  shows "buf_same b b2"
proof -
  from assms obtain t k n t' k' n' where
    "b1 = b\<lparr>m_time_last_time_size_checked := t, m_size_last_time_size_checked := k, m_not_avail_count := n\<rparr>"
    "b2 = b1\<lparr>m_time_last_time_size_checked := t', m_size_last_time_size_checked := k', m_not_avail_count := n'\<rparr>"
    by (auto simp: buf_same_def)
  then have "b2 = b\<lparr>m_time_last_time_size_checked := t', m_size_last_time_size_checked := k', m_not_avail_count := n'\<rparr>" by simp
  then show ?thesis unfolding buf_same_def by blast
qed

lemma buf_same_facts:
  assumes "buf_same b b'"
  shows "m_prio_heap b' = m_prio_heap b" "carried b' = carried b" "in_ready now b' = in_ready now b" "out_ready now d b' = out_ready now d b"
    "mb_wf b' = mb_wf b" "fst (areNSlotsAvailable n now b') = fst (areNSlotsAvailable n now b)"
proof -
  from assms obtain t k c where b': "b' = b\<lparr>m_time_last_time_size_checked := t, m_size_last_time_size_checked := k, m_not_avail_count := c\<rparr>"
    by (auto simp: buf_same_def)
  show "m_prio_heap b' = m_prio_heap b" "carried b' = carried b" "in_ready now b' = in_ready now b" "mb_wf b' = mb_wf b"
    by (simp_all add: b' carried_def in_ready_def mb_wf_def stalled_def)
  show "out_ready now d b' = out_ready now d b"
    by (simp add: b' out_ready_def accepts_def mb_wf_def stalled_def slots_ok_def occupied_def)
  show "fst (areNSlotsAvailable n now b') = fst (areNSlotsAvailable n now b)"
    by (simp add: b' areNSlotsAvailable_def visible_size_def)
qed

lemma getSize_same: "getSize now b = (n, b') \<Longrightarrow> buf_same b b'"
  by (cases b) (auto simp: getSize_def Let_def buf_same_def)

lemma areNSlots_same: "areNSlotsAvailable n now b = (free, b') \<Longrightarrow> buf_same b b'"
  by (cases b) (auto simp: areNSlotsAvailable_def buf_same_def split: if_splits)

lemma queue_length_same: "queue_length now ids bufs = (n, bufs') \<Longrightarrow> buf_same (bufs i) (bufs' i)"
proof -
  have "fold (\<lambda>i (n, bufs). let (k, b) = getSize now (bufs i) in (n + k, bufs(i := b))) ids (n0, bufs) = (n, bufs')
      \<Longrightarrow> buf_same (bufs i) (bufs' i)" for n0
  proof (induction ids arbitrary: n0 bufs)
    case (Cons j ids)
    obtain k b where g: "getSize now (bufs j) = (k, b)" by fastforce
    then have "buf_same ((bufs(j := b)) i) (bufs' i)" using Cons.IH [of "n0 + k" "bufs(j := b)"] Cons.prems by simp
    then show ?case using buf_same_trans getSize_same [OF g] by (cases "i = j") auto
  qed (simp add: buf_same_refl)
  then show "queue_length now ids bufs = (n, bufs') \<Longrightarrow> ?thesis" by (simp add: queue_length_def)
qed

lemma load_links_same: "load_links rnd now ls bufs = (ls', bufs') \<Longrightarrow> buf_same (bufs i) (bufs' i)"
proof (induction ls arbitrary: rnd bufs ls')
  case (Cons l ls)
  obtain n bufs1 where q: "queue_length now (m_out_buffers l) bufs = (n, bufs1)" by fastforce
  obtain ls1 bufs2 where r: "load_links (\<lambda>i. rnd (Suc i)) now ls bufs1 = (ls1, bufs2)" by fastforce
  then have "bufs' = bufs2" using Cons.prems q by simp
  then have "buf_same (bufs1 i) (bufs' i)" using Cons.IH [of "\<lambda>i. rnd (Suc i)" bufs1 ls1] r by simp
  then show ?case using buf_same_trans queue_length_same [OF q] by blast
qed (simp add: buf_same_refl)

lemma route_same: "WeightBased_route rnd now det msg (u, bufs) = Some (outs, u', bufs') \<Longrightarrow> buf_same (bufs i) (bufs' i)"
  using load_links_same [of rnd now "m_links u" bufs]
  by (auto simp: WeightBased_route_def bind_eq_Some_conv buf_same_refl split: if_splits prod.splits)

lemma finite_dest_els: "finite (dest_els d)"
proof -
  have "dest_els d \<subseteq> (\<Union>i<length (m_bits d). Pair i ` set_els (m_bits d ! i))" by (auto simp: dest_els_def)
  moreover have "finite (set_els s)" for s unfolding set_els_def by (rule finite_subset [of _ "{..<64}"]) (auto dest: bit_imp_le_length)
  ultimately show ?thesis by (meson finite_UN_I finite_imageI finite_lessThan finite_subset)
qed

lemma shares_sum: "finite D \<Longrightarrow> (\<Sum>(s, k)\<leftarrow>shares ls D. mset_set s) = mset_set (D \<inter> reach ls)"
proof (induction ls arbitrary: D)
  case (Cons l ls)
  let ?E = "dest_els (m_routing_entry l)"
  have "mset_set (D \<inter> ?E) + mset_set ((D - ?E) \<inter> reach ls) = mset_set ((D \<inter> ?E) \<union> ((D - ?E) \<inter> reach ls))"
    using Cons.prems by (subst mset_set_Union) auto
  moreover have "(D \<inter> ?E) \<union> ((D - ?E) \<inter> reach ls) = D \<inter> reach (l # ls)" by (auto simp: reach_def)
  ultimately show ?case using Cons by simp
qed (simp add: reach_def)

lemma map_snd_shares: "map snd (shares ls D) = map li_link_id ls"
  by (induction ls arbitrary: D) simp_all

lemma sum_filter_empty: "(\<Sum>(s, k)\<leftarrow>filter (\<lambda>(s, k). s \<noteq> {}) xs. mset_set s) = (\<Sum>(s, k)\<leftarrow>xs. mset_set s)"
  by (induction xs) auto

lemma route_facts:
  assumes "routing_wf nc u" "dest_wf nc (Destination msg)" "dest_els (Destination msg) \<subseteq> reach (m_links u)"
  shows "\<exists>outs u' bufs'. WeightBased_route rnd now det msg (u, bufs) = Some (outs, u', bufs') \<and> routing_wf nc u'
    \<and> reach (m_links u') = reach (m_links u) \<and> li_link_id ` set (m_links u') = li_link_id ` set (m_links u)
    \<and> distinct (map snd outs) \<and> set (map snd outs) \<subseteq> li_link_id ` set (m_links u)
    \<and> (\<Sum>(p, k)\<leftarrow>outs. parts pl p) = parts pl (Destination msg)"
proof -
  let ?D = "dest_els (Destination msg)"
  from route_links [OF assms(1), of rnd now det msg bufs] obtain ls bufs1 where
    r: "WeightBased_route rnd now det msg (u, bufs) = do { outs \<leftarrow> findRoute ls msg; Some (outs, u\<lparr>m_links := ls\<rparr>, bufs1) }"
      "routing_wf nc (u\<lparr>m_links := ls\<rparr>)" "link_core ` set ls = link_core ` set (m_links u)" by blast
  have wf: "\<forall>l\<in>set ls. dest_wf nc (m_routing_entry l)" and dist: "distinct (map li_link_id ls)" using r(2) by (simp_all add: routing_wf_def)
  have reach: "reach ls = reach (m_links u)" by (rule reach_core [OF r(3)])
  obtain outs where o: "findRoute ls msg = Some outs" using findRoute_shares [OF assms(2) wf] assms(3) reach by (metis not_None_eq)
  then have sh: "map (\<lambda>(p, k). (dest_els p, k)) outs = filter (\<lambda>(s, k). s \<noteq> {}) (shares ls ?D)"
    using findRoute_shares [OF assms(2) wf] by blast
  have ids: "map snd outs = map snd (filter (\<lambda>(s, k). s \<noteq> {}) (shares ls ?D))"
    unfolding sh [symmetric] by (simp add: case_prod_unfold)
  have "distinct (map snd outs)" unfolding ids using dist map_snd_shares [of ls ?D] distinct_map_filter by metis
  moreover have li: "li_link_id ` set ls = li_link_id ` set (m_links u)"
    using arg_cong [OF r(3), of "image fst"] by (simp add: image_image link_core_def)
  moreover have "set (map snd outs) \<subseteq> li_link_id ` set (m_links u)"
    unfolding ids li [symmetric] using arg_cong [OF map_snd_shares [of ls ?D], of set] by auto
  moreover have "(\<Sum>(p, k)\<leftarrow>outs. parts pl p) = image_mset (Pair pl) (\<Sum>(s, k)\<leftarrow>map (\<lambda>(p, k). (dest_els p, k)) outs. mset_set s)"
    by (induction outs) (auto simp: parts_def)
  then have "(\<Sum>(p, k)\<leftarrow>outs. parts pl p) = parts pl (Destination msg)"
    unfolding sh sum_filter_empty shares_sum [OF finite_dest_els] using assms(3) reach by (simp add: parts_def Int_absorb2)
  ultimately show ?thesis using r(1,2) o reach by (intro exI [of _ outs] exI [of _ "u\<lparr>m_links := ls\<rparr>"] exI [of _ bufs1]) simp
qed

subsection \<open>A switch that can forward\<close>

definition out_ids :: "PerfectSwitch \<Rightarrow> buf_id list" where
  "out_ids p = concat (map op_buffers (ps_out p))"

definition in_ids :: "PerfectSwitch \<Rightarrow> buf_id set" where
  "in_ids p = set (concat (concat (m_in_prio_groups p)))"

definition port_of :: "nat \<Rightarrow> PerfectSwitch \<Rightarrow> nat \<Rightarrow> bool" where
  "port_of vnet p k \<longleftrightarrow> k < length (ps_out p) \<and> vnet < length (op_buffers (ps_out p ! k))"

definition port_buf :: "nat \<Rightarrow> PerfectSwitch \<Rightarrow> nat \<Rightarrow> buf_id" where
  "port_buf vnet p k = op_buffers (ps_out p ! k) ! vnet"

definition outs_ready :: "tick \<Rightarrow> PerfectSwitch \<Rightarrow> buf_store \<Rightarrow> bool" where
  "outs_ready now p bufs \<longleftrightarrow> (\<forall>o'\<in>set (ps_out p). \<forall>b\<in>set (op_buffers o'). out_ready now (op_latency o') (bufs b))"

lemma out_buffer_port: "port_of vnet p k \<Longrightarrow> out_buffer vnet p k = Some (op_latency (ps_out p ! k), port_buf vnet p k)"
  by (simp add: out_buffer_def port_of_def port_buf_def at_def)

lemma port_buf_ids: "port_of vnet p k \<Longrightarrow> port_buf vnet p k \<in> set (out_ids p)"
  by (auto simp: port_of_def port_buf_def out_ids_def intro!: bexI [of _ "ps_out p ! k"])

lemma distinct_concat_nth:
  assumes "distinct (concat xss)" "i < length xss" "j < length xss" "x \<in> set (xss ! i)" "x \<in> set (xss ! j)"
  shows "i = j"
  using assms
proof (induction xss arbitrary: i j)
  case (Cons xs xss)
  then show ?case by (cases i; cases j) (auto simp: disjoint_iff)
qed simp

lemma port_buf_inj:
  assumes "distinct (out_ids p)" "k < length (ps_out p)" "b \<in> set (op_buffers (ps_out p ! k))" "port_of vnet p j" "port_buf vnet p j = b"
  shows "k = j"
  using distinct_concat_nth [of "map op_buffers (ps_out p)" k j b] assms by (auto simp: out_ids_def port_of_def port_buf_def)

lemma outs_ready_update:
  assumes "outs_ready now p bufs" "distinct (out_ids p)" "port_of vnet p k" "out_ready now (op_latency (ps_out p ! k)) buf"
  shows "outs_ready now p (bufs(port_buf vnet p k := buf))"
  unfolding outs_ready_def
proof (intro ballI)
  fix o' b assume o: "o' \<in> set (ps_out p)" "b \<in> set (op_buffers o')"
  then obtain j where j: "j < length (ps_out p)" "o' = ps_out p ! j" by (metis in_set_conv_nth)
  show "out_ready now (op_latency o') ((bufs(port_buf vnet p k := buf)) b)"
  proof (cases "b = port_buf vnet p k")
    case True
    then have "j = k" using port_buf_inj [OF assms(2) j(1) _ assms(3)] o(2) j(2) by simp
    then show ?thesis using True assms(4) j(2) by simp
  next
    case False
    then show ?thesis using assms(1) o by (simp add: outs_ready_def)
  qed
qed

lemma outs_ready_same: "(\<And>i. buf_same (bufs i) (bufs' i)) \<Longrightarrow> outs_ready now p bufs' = outs_ready now p bufs"
proof -
  assume "\<And>i. buf_same (bufs i) (bufs' i)"
  then have "out_ready now d (bufs' i) = out_ready now d (bufs i)" for d i by (intro buf_same_facts(4))
  then show ?thesis by (simp add: outs_ready_def)
qed

lemma check_links_defined:
  assumes "\<forall>(d, k)\<in>set links. port_of vnet p k"
  shows "\<exists>e' bufs'. for_list (check_link now vnet p) links (e, bufs) = Some (e', bufs') \<and> (\<forall>i. buf_same (bufs i) (bufs' i))
    \<and> e' = (e \<and> (\<forall>(d, k)\<in>set links. fst (areNSlotsAvailable 1 now (bufs (port_buf vnet p k)))))"
  using assms
proof (induction links arbitrary: e bufs)
  case Nil
  then show ?case by (simp add: buf_same_refl)
next
  case (Cons l links)
  obtain d k where l: "l = (d, k)" by fastforce
  let ?b = "port_buf vnet p k"
  obtain free buf where f: "areNSlotsAvailable 1 now (bufs ?b) = (free, buf)" by fastforce
  have c: "check_link now vnet p l (e, bufs) = Some (e \<and> free, bufs(?b := buf))"
    using Cons.prems f by (simp add: check_link_def l out_buffer_port)
  have same: "buf_same (bufs i) ((bufs(?b := buf)) i)" for i using areNSlots_same [OF f] by (simp add: buf_same_refl)
  have "\<forall>(d, k)\<in>set links. port_of vnet p k" using Cons.prems by simp
  from Cons.IH [OF this, of "e \<and> free" "bufs(?b := buf)"] obtain e' bufs' where
    r: "for_list (check_link now vnet p) links (e \<and> free, bufs(?b := buf)) = Some (e', bufs')" "\<forall>i. buf_same ((bufs(?b := buf)) i) (bufs' i)"
      "e' = ((e \<and> free) \<and> (\<forall>(d, k)\<in>set links. fst (areNSlotsAvailable 1 now ((bufs(?b := buf)) (port_buf vnet p k)))))" by blast
  have "\<forall>i. buf_same (bufs i) (bufs' i)" using buf_same_trans same r(2) by blast
  moreover have "e' = (e \<and> (\<forall>(d, k)\<in>set (l # links). fst (areNSlotsAvailable 1 now (bufs (port_buf vnet p k)))))"
    unfolding r(3) buf_same_facts(6) [OF same] using f l by auto
  ultimately show ?case using c r(1) by simp
qed

lemma enqueue_message:
  assumes "enqueue rnd m now d rr warm byp b = Some (b', es)"
  shows "\<exists>m'. m_prio_heap b' = heap_ins msg_key m' (m_prio_heap b) \<and> Destination m' = Destination m \<and> msg_payload m' = msg_payload m"
proof -
  obtain arr b3 where a: "arrival rnd now d rr (count_enqueue now b) = (arr, b3)" by fastforce
  note fr = arrival_frame [OF a, simplified]
  from assms a obtain m1 where m1: "updateDelayedTicks now m = Some m1"
    "b' = (heap_push (setMsgCounter (mb_msg_counter b3) (setLastEnqueueTime arr m1)) (note_arrival warm byp arr b3))\<lparr>m_buf_msgs := m_buf_msgs b3 + 1\<rparr>"
    by (simp add: enqueue_def Let_def bind_eq_Some_conv) blast
  then have "Destination m1 = Destination m" "msg_payload m1 = msg_payload m" by (auto simp: updateDelayedTicks_def bind_eq_Some_conv)
  then show ?thesis by (intro exI [of _ "setMsgCounter (mb_msg_counter b3) (setLastEnqueueTime arr m1)"])
    (simp add: m1(2) heap_push_def fr setMsgCounter_def setLastEnqueueTime_def)
qed

lemma enqueue_carried: "enqueue rnd m now d rr warm byp b = Some (b', es) \<Longrightarrow> carried b' = parts (msg_payload m) (Destination m) + carried b"
  by (auto dest!: enqueue_message simp: carried_def)

lemma sum_fun_upd_mset:
  fixes f :: "'b \<Rightarrow> 'c multiset"
  assumes "finite B" "i \<in> B" "f b = x + f (g i)"
  shows "(\<Sum>j\<in>B. f ((g(i := b)) j)) = x + (\<Sum>j\<in>B. f (g j))"
proof -
  have "(\<Sum>j\<in>B. f ((g(i := b)) j)) = f b + (\<Sum>j\<in>B - {i}. f ((g(i := b)) j))" using assms(1,2) by (subst sum.remove) auto
  also have "(\<Sum>j\<in>B - {i}. f ((g(i := b)) j)) = (\<Sum>j\<in>B - {i}. f (g j))" by (rule sum.cong) auto
  finally show ?thesis using assms by (subst (2) sum.remove [of B i]) (auto simp: ac_simps)
qed

lemma send_copies_defined:
  assumes "\<forall>(m, d, k)\<in>set cs. port_of vnet p k \<and> m_LastEnqueueTime m \<le> now \<and> fst (areNSlotsAvailable 1 now (bufs (port_buf vnet p k)))"
    and "distinct (map (snd \<circ> snd) cs)" "outs_ready now p bufs" "distinct (out_ids p)" "\<not> se_warmup env" "finite B" "set (out_ids p) \<subseteq> B"
  shows "\<exists>bufs' es'. for_list (send_copy env now vnet p) cs (bufs, es) = Some (bufs', es') \<and> outs_ready now p bufs'
    \<and> (\<forall>i. i \<notin> set (out_ids p) \<longrightarrow> bufs' i = bufs i)
    \<and> (\<Sum>b\<in>B. carried (bufs' b)) = (\<Sum>(m, d, k)\<leftarrow>cs. parts (msg_payload m) d) + (\<Sum>b\<in>B. carried (bufs b))"
  using assms(1-3)
proof (induction cs arbitrary: bufs es)
  case Nil
  then show ?case by simp
next
  case (Cons c cs)
  obtain m d k where c: "c = (m, d, k)" by (cases c) auto
  let ?b = "port_buf vnet p k" and ?lat = "op_latency (ps_out p ! k)"
  have k: "port_of vnet p k" "m_LastEnqueueTime m \<le> now" "fst (areNSlotsAvailable 1 now (bufs ?b))" using Cons.prems(1) c by simp_all
  then obtain f where f: "areNSlotsAvailable 1 now (bufs ?b) = (True, f)" by (metis prod.collapse)
  have "out_ready now ?lat (bufs ?b)" using Cons.prems(3) k(1) by (simp add: outs_ready_def port_of_def port_buf_def)
  from enqueue_ready [OF this f, of "m\<lparr>Destination := d\<rparr>" "se_rnd env" "se_randomization env"] k(2) obtain buf es1 where
    e: "enqueue (se_rnd env) (m\<lparr>Destination := d\<rparr>) now ?lat (se_randomization env) False False (bufs ?b) = Some (buf, es1)" "out_ready now ?lat buf"
    by auto
  have s: "send_copy env now vnet p c (bufs, es) = Some (bufs(?b := buf), es @ es1)"
    using e(1) assms(5) by (simp add: send_copy_def c out_buffer_port [OF k(1)])
  have "\<forall>(m', d', k')\<in>set cs. port_of vnet p k' \<and> m_LastEnqueueTime m' \<le> now \<and> fst (areNSlotsAvailable 1 now ((bufs(?b := buf)) (port_buf vnet p k')))"
  proof (clarify)
    fix m' d' k' assume c': "(m', d', k') \<in> set cs"
    then have "k' \<noteq> k" "port_of vnet p k'" using Cons.prems(1,2) c by force+
    then have "port_buf vnet p k' \<noteq> ?b" using port_buf_inj [OF assms(4), of k "?b" vnet k'] k(1) by (auto simp: port_of_def port_buf_def)
    then show "port_of vnet p k' \<and> m_LastEnqueueTime m' \<le> now \<and> fst (areNSlotsAvailable 1 now ((bufs(?b := buf)) (port_buf vnet p k')))"
      using Cons.prems(1) c' by auto
  qed
  note ready = this
  have "distinct (map (snd \<circ> snd) cs)" using Cons.prems(2) by (simp add: comp_def)
  from Cons.IH [OF ready this outs_ready_update [OF Cons.prems(3) assms(4) k(1) e(2)], of "es @ es1"] obtain bufs' es' where
    r: "for_list (send_copy env now vnet p) cs (bufs(?b := buf), es @ es1) = Some (bufs', es')" "outs_ready now p bufs'"
      "\<forall>i. i \<notin> set (out_ids p) \<longrightarrow> bufs' i = (bufs(?b := buf)) i"
      "(\<Sum>b\<in>B. carried (bufs' b)) = (\<Sum>(m, d, k)\<leftarrow>cs. parts (msg_payload m) d) + (\<Sum>b\<in>B. carried ((bufs(?b := buf)) b))" by blast
  have b: "?b \<in> B" "?b \<in> set (out_ids p)" using port_buf_ids [OF k(1)] assms(7) by auto
  have "(\<Sum>b\<in>B. carried ((bufs(?b := buf)) b)) = parts (msg_payload m) d + (\<Sum>b\<in>B. carried (bufs b))"
    using enqueue_carried [OF e(1)] by (intro sum_fun_upd_mset [OF assms(6) b(1)]) simp
  moreover have "\<forall>i. i \<notin> set (out_ids p) \<longrightarrow> bufs' i = bufs i" using r(3) b(2) by auto
  ultimately show ?case using s r(1,2,4) by (simp add: c ac_simps)
qed

definition in_ok :: "num_controllers \<Rightarrow> tick \<Rightarrow> (nat \<times> nat) set \<Rightarrow> MessageBuffer \<Rightarrow> bool" where
  "in_ok nc now R b \<longleftrightarrow> in_ready now b \<and> mb_wf b \<and> (\<forall>m\<in>set (m_prio_heap b). dest_wf nc (Destination m) \<and> dest_els (Destination m) \<subseteq> R)"

definition ports_ok :: "PerfectSwitch \<Rightarrow> bool" where
  "ports_ok p \<longleftrightarrow> distinct (out_ids p) \<and> in_ids p \<inter> set (out_ids p) = {} \<and> ps_virtual_networks p \<le> length (m_pending_message_count p)
     \<and> (\<forall>v<ps_virtual_networks p. v < length (m_in_prio_groups p) \<or> m_pending_message_count p ! v = 0)"

definition switch_ok :: "switch_env \<Rightarrow> num_controllers \<Rightarrow> tick \<Rightarrow> switch_state \<Rightarrow> bool" where
  "switch_ok env nc now s \<longleftrightarrow> \<not> se_warmup env \<and> ps_virtual_networks (ss_switch s) \<le> length (se_ordered env) \<and> ports_ok (ss_switch s)
     \<and> routing_wf nc (ss_routing s)
     \<and> (\<forall>k\<in>li_link_id ` set (m_links (ss_routing s)). \<forall>v<ps_virtual_networks (ss_switch s). port_of v (ss_switch s) k)
     \<and> outs_ready now (ss_switch s) (ss_bufs s) \<and> (\<forall>b\<in>in_ids (ss_switch s). in_ok nc now (reach (m_links (ss_routing s))) (ss_bufs s b))"

definition deliveries :: "switch_state \<Rightarrow> (nat \<times> nat \<times> nat) multiset" where
  "deliveries s = (\<Sum>b\<in>in_ids (ss_switch s) \<union> set (out_ids (ss_switch s)). carried (ss_bufs s b))"

definition same_ports :: "switch_state \<Rightarrow> switch_state \<Rightarrow> bool" where
  "same_ports s s' \<longleftrightarrow> ps_out (ss_switch s') = ps_out (ss_switch s) \<and> m_in_prio_groups (ss_switch s') = m_in_prio_groups (ss_switch s)
     \<and> ps_virtual_networks (ss_switch s') = ps_virtual_networks (ss_switch s)"

definition forwarded :: "switch_env \<Rightarrow> num_controllers \<Rightarrow> tick \<Rightarrow> switch_state \<Rightarrow> switch_state \<Rightarrow> bool" where
  "forwarded env nc now s s' \<longleftrightarrow> switch_ok env nc now s' \<and> deliveries s' = deliveries s \<and> same_ports s s'"

lemma forwarded_refl: "switch_ok env nc now s \<Longrightarrow> forwarded env nc now s s"
  by (simp add: forwarded_def same_ports_def)

lemma forwarded_trans: "forwarded env nc now s s1 \<Longrightarrow> forwarded env nc now s1 s2 \<Longrightarrow> forwarded env nc now s s2"
  by (simp add: forwarded_def same_ports_def)

text \<open>A state with the input buffer that is worked on put back.\<close>

definition put_back :: "buf_id \<Rightarrow> MessageBuffer \<Rightarrow> switch_state \<Rightarrow> switch_state" where
  "put_back b buf s = s\<lparr>ss_bufs := (ss_bufs s)(b := buf)\<rparr>"

lemma put_back_fields [simp]: "ss_switch (put_back b buf s) = ss_switch s" "ss_routing (put_back b buf s) = ss_routing s"
  "ss_bufs (put_back b buf s) = (ss_bufs s)(b := buf)"
  by (simp_all add: put_back_def)

lemma deliveries_put:
  assumes "b \<in> in_ids (ss_switch s)"
  shows "deliveries (put_back b buf s) = carried buf + (\<Sum>i\<in>in_ids (ss_switch s) \<union> set (out_ids (ss_switch s)) - {b}. carried (ss_bufs s i))"
proof -
  let ?B = "in_ids (ss_switch s) \<union> set (out_ids (ss_switch s))"
  have "finite ?B" "b \<in> ?B" using assms by (simp_all add: in_ids_def)
  then have "deliveries (put_back b buf s) = carried buf + (\<Sum>i\<in>?B - {b}. carried (((ss_bufs s)(b := buf)) i))"
    by (simp add: deliveries_def sum.remove)
  also have "(\<Sum>i\<in>?B - {b}. carried (((ss_bufs s)(b := buf)) i)) = (\<Sum>i\<in>?B - {b}. carried (ss_bufs s i))" by (rule sum.cong) auto
  finally show ?thesis .
qed

lemma outs_ready_other: "b \<notin> set (out_ids p) \<Longrightarrow> outs_ready now p (bufs(b := x)) = outs_ready now p bufs"
  unfolding outs_ready_def by (intro ball_cong refl) (auto simp: out_ids_def)

lemma same_ids: "same_ports s s' \<Longrightarrow> in_ids (ss_switch s') = in_ids (ss_switch s) \<and> out_ids (ss_switch s') = out_ids (ss_switch s)"
  by (simp add: same_ports_def in_ids_def out_ids_def)

text \<open>What is left to show for a state in which the buffers differ in cached sizes only.\<close>

lemma forwarded_same:
  assumes "switch_ok env nc now (put_back b buf s)" "b \<in> in_ids (ss_switch s)" "ss_switch s' = ss_switch s"
    and "\<And>i. buf_same (ss_bufs s i) (ss_bufs s' i)" "routing_wf nc (ss_routing s')"
    and "reach (m_links (ss_routing s')) = reach (m_links (ss_routing s))"
    and "li_link_id ` set (m_links (ss_routing s')) = li_link_id ` set (m_links (ss_routing s))"
  shows "forwarded env nc now (put_back b buf s) (put_back b buf s')"
proof -
  have same: "buf_same (((ss_bufs s)(b := buf)) i) (((ss_bufs s')(b := buf)) i)" for i using assms(4) by (simp add: buf_same_refl)
  note f = buf_same_facts [OF same]
  have "\<forall>i\<in>in_ids (ss_switch s). in_ok nc now (reach (m_links (ss_routing s))) (((ss_bufs s')(b := buf)) i)"
    using assms(1) unfolding switch_ok_def in_ok_def put_back_fields f(1,3,5) by blast
  moreover have "outs_ready now (ss_switch s) ((ss_bufs s')(b := buf)) = outs_ready now (ss_switch s) ((ss_bufs s)(b := buf))"
    by (rule outs_ready_same) (rule same)
  ultimately have "switch_ok env nc now (put_back b buf s')" using assms(1,3,5-7) unfolding switch_ok_def put_back_fields by simp
  moreover have "deliveries (put_back b buf s') = deliveries (put_back b buf s)"
    using assms(3) unfolding deliveries_def put_back_fields f(2) by simp
  ultimately show ?thesis using assms(3) by (simp add: forwarded_def same_ports_def)
qed

lemma copies_sum:
  assumes "msg_payload m = msg_payload msg"
  shows "(\<Sum>(m, d, k)\<leftarrow>message_copies m msg links. parts (msg_payload m) d) = (\<Sum>(d, k)\<leftarrow>links. parts (msg_payload msg) d)"
proof -
  have r: "(\<Sum>(m, d, k)\<leftarrow>zip (replicate (length ls) msg) ls. parts (msg_payload m) d) = (\<Sum>(d, k)\<leftarrow>ls. parts (msg_payload msg) d)" for ls :: "(NetDest \<times> nat) list"
    by (induction ls) auto
  show ?thesis by (cases links) (auto simp: message_copies_def r assms)
qed

lemma copies_links: "map snd (message_copies m msg links) = links"
  by (cases links) (simp_all add: message_copies_def map_snd_zip)

lemma copies_messages: "(x, l) \<in> set (message_copies m msg links) \<Longrightarrow> (x = m \<or> x = msg) \<and> l \<in> set links"
  by (auto simp: message_copies_def dest: set_zip_leftD set_zip_rightD split: if_splits)

lemma dequeue_carried:
  assumes "dequeue ct now True b = Some (m, b', es)" "mb_wf b"
  shows "\<exists>msg. heap_front (m_prio_heap b) = Some msg \<and> carried b = parts (msg_payload msg) (Destination msg) + carried b' \<and> msg_payload m = msg_payload msg
    \<and> mb_wf b' \<and> set (m_prio_heap b') \<subseteq> set (m_prio_heap b) \<and> m_LastEnqueueTime m \<le> now \<and> m_LastEnqueueTime msg \<le> now"
  using assms(1)
proof (rule dequeue_Some)
  fix msg assume d: "heap_front (m_prio_heap b) = Some msg" "m_LastEnqueueTime msg \<le> now"
    "m = msg\<lparr>m_DelayedTicks := m_DelayedTicks msg + (now - m_LastEnqueueTime msg)\<rparr>"
    "m_prio_heap b' = heap_pop msg_key (m_prio_heap b)" "m_stall_msg_map b' = m_stall_msg_map b" "m_stall_map_size b' = m_stall_map_size b"
  have h: "is_heap msg_key (m_prio_heap b)" using assms(2) by (simp add: mb_wf_def)
  have x: "msg \<in># mset (m_prio_heap b)" using heap_front_min [OF h d(1)] by (rule conjunct1)
  have ms: "mset (m_prio_heap b) = add_mset msg (mset (m_prio_heap b'))" unfolding d(4) heap_pop_front(2) [OF h d(1)] using x by simp
  then have "carried b = parts (msg_payload msg) (Destination msg) + carried b'" by (simp add: carried_def)
  moreover have "set (m_prio_heap b') \<subseteq> set (m_prio_heap b)" using arg_cong [OF ms, of set_mset] by auto
  moreover have "mb_wf b'" using assms(2) d heap_pop_front(1) [OF h d(1)] by (simp add: mb_wf_def stalled_def)
  ultimately show ?thesis using d by auto
qed

lemma sent_copies:
  assumes ok: "switch_ok env nc now (put_back b buf s)" and b: "b \<in> in_ids (ss_switch s)" and v: "v < ps_virtual_networks (ss_switch s)"
    and deq: "dequeue ct now True buf = Some (m, buf', es1)" and front: "heap_front (m_prio_heap buf) = Some msg"
    and links: "distinct (map snd links)" "\<forall>(d, k)\<in>set links. port_of v (ss_switch s) k"
      "\<forall>(d, k)\<in>set links. fst (areNSlotsAvailable 1 now (bufs1 (port_buf v (ss_switch s) k)))"
      "(\<Sum>(d, k)\<leftarrow>links. parts (msg_payload msg) d) = parts (msg_payload msg) (Destination msg)"
    and same: "\<And>i. buf_same (ss_bufs s i) (bufs1 i)"
  shows "\<exists>bufs2 es2. for_list (send_copy env now v (ss_switch s)) (message_copies m msg links) (bufs1, []) = Some (bufs2, es2)
    \<and> outs_ready now (ss_switch s) (bufs2(b := buf')) \<and> (\<forall>i. i \<notin> set (out_ids (ss_switch s)) \<longrightarrow> bufs2 i = bufs1 i) \<and> in_ok nc now (reach (m_links (ss_routing s))) buf'
    \<and> carried buf' + (\<Sum>i\<in>in_ids (ss_switch s) \<union> set (out_ids (ss_switch s)) - {b}. carried (bufs2 i)) = deliveries (put_back b buf s)"
proof -
  let ?p = "ss_switch s"
  let ?B = "in_ids ?p \<union> set (out_ids ?p)"
  have p: "distinct (out_ids ?p)" "in_ids ?p \<inter> set (out_ids ?p) = {}" "\<not> se_warmup env" and outs: "outs_ready now ?p ((ss_bufs s)(b := buf))"
    and inb: "in_ok nc now (reach (m_links (ss_routing s))) buf"
    using ok bspec [of "in_ids ?p" _ b] b unfolding switch_ok_def ports_ok_def put_back_fields by (simp_all, fastforce)
  have nb: "b \<notin> set (out_ids ?p)" using b p(2) by blast
  have o1: "outs_ready now ?p bufs1" using outs unfolding outs_ready_other [OF nb] outs_ready_same [of "ss_bufs s" bufs1, OF same] .
  have "mb_wf buf" using inb by (simp add: in_ok_def)
  from dequeue_carried [OF deq this] front have d: "carried buf = parts (msg_payload msg) (Destination msg) + carried buf'" "msg_payload m = msg_payload msg"
    "mb_wf buf'" "set (m_prio_heap buf') \<subseteq> set (m_prio_heap buf)" "m_LastEnqueueTime m \<le> now" "m_LastEnqueueTime msg \<le> now" by auto
  have dist: "distinct (map (snd \<circ> snd) (message_copies m msg links))"
    unfolding map_map [symmetric] copies_links by (rule links(1))
  have room: "\<forall>(m', d, k)\<in>set (message_copies m msg links). port_of v ?p k \<and> m_LastEnqueueTime m' \<le> now
      \<and> fst (areNSlotsAvailable 1 now (bufs1 (port_buf v ?p k)))"
  proof (clarify)
    fix m' d' k assume "(m', d', k) \<in> set (message_copies m msg links)"
    from copies_messages [OF this] show "port_of v ?p k \<and> m_LastEnqueueTime m' \<le> now \<and> fst (areNSlotsAvailable 1 now (bufs1 (port_buf v ?p k)))"
      using links(2,3) d(5,6) by auto
  qed
  have B: "finite (?B - {b})" "set (out_ids ?p) \<subseteq> ?B - {b}" using nb by (auto simp: in_ids_def)
  from send_copies_defined [OF room dist o1 p(1,3) B, of "[]", unfolded copies_sum [OF d(2)] links(4)] obtain bufs2 es2 where
    s: "for_list (send_copy env now v ?p) (message_copies m msg links) (bufs1, []) = Some (bufs2, es2)"
    "outs_ready now ?p bufs2" "\<forall>i. i \<notin> set (out_ids ?p) \<longrightarrow> bufs2 i = bufs1 i"
    "(\<Sum>i\<in>?B - {b}. carried (bufs2 i)) = parts (msg_payload msg) (Destination msg) + (\<Sum>i\<in>?B - {b}. carried (bufs1 i))" by blast
  have "(\<Sum>i\<in>?B - {b}. carried (bufs1 i)) = (\<Sum>i\<in>?B - {b}. carried (ss_bufs s i))" by (simp add: buf_same_facts(2) [OF same])
  then have "carried buf' + (\<Sum>i\<in>?B - {b}. carried (bufs2 i)) = deliveries (put_back b buf s)"
    using s(4) d(1) deliveries_put [OF b, of buf] by (simp add: ac_simps)
  moreover have "in_ready now buf'" using deq inb by (elim dequeue_Some) (auto simp: in_ok_def in_ready_def)
  then have "in_ok nc now (reach (m_links (ss_routing s))) buf'" using inb d(3,4) by (auto simp: in_ok_def)
  ultimately show ?thesis using s(1-3) outs_ready_other [OF nb] by blast
qed

lemma forwarded_sent:
  assumes ok: "switch_ok env nc now (put_back b buf s)" and b: "b \<in> in_ids (ss_switch s)" and v: "v < length (m_in_prio_groups (ss_switch s))"
    and u: "routing_wf nc u" "reach (m_links u) = reach (m_links (ss_routing s))" "li_link_id ` set (m_links u) = li_link_id ` set (m_links (ss_routing s))"
    and same: "\<And>i. buf_same (ss_bufs s i) (bufs1 i)"
    and sent: "outs_ready now (ss_switch s) (bufs2(b := buf'))" "\<forall>i. i \<notin> set (out_ids (ss_switch s)) \<longrightarrow> bufs2 i = bufs1 i"
      "in_ok nc now (reach (m_links (ss_routing s))) buf'"
      "carried buf' + (\<Sum>i\<in>in_ids (ss_switch s) \<union> set (out_ids (ss_switch s)) - {b}. carried (bufs2 i)) = deliveries (put_back b buf s)"
  shows "forwarded env nc now (put_back b buf s) (put_back b buf' (s\<lparr>ss_effects := es0, ss_routing := u, ss_bufs := bufs1, ss_routes := n,
    ss_switch := (ss_switch s)\<lparr>m_pending_message_count := (m_pending_message_count (ss_switch s))[v := x]\<rparr>, ss_bufs := bufs2, ss_effects := es\<rparr>))"
    (is "forwarded env nc now _ (put_back b buf' ?s)")
proof -
  let ?p = "ss_switch s" and ?R = "reach (m_links (ss_routing s))"
  have p: "ports_ok ?p" "\<forall>i\<in>in_ids ?p. in_ok nc now ?R (((ss_bufs s)(b := buf)) i)" using ok unfolding switch_ok_def put_back_fields by blast+
  have "in_ok nc now ?R ((bufs2(b := buf')) i)" if i: "i \<in> in_ids ?p" for i
  proof (cases "i = b")
    case False
    have "i \<notin> set (out_ids ?p)" using i p(1) by (auto simp: ports_ok_def)
    then have e: "(bufs2(b := buf')) i = bufs1 i" using sent(2) False by simp
    have "in_ok nc now ?R (ss_bufs s i)" using p(2) i False by fastforce
    then show ?thesis unfolding e in_ok_def buf_same_facts(1,3,5) [OF same] .
  qed (use sent(3) in simp)
  moreover have sp: "same_ports s ?s" by (simp add: same_ports_def)
  note ids = same_ids [OF sp]
  have "ports_ok (ss_switch ?s)" using p(1) v ids by (simp add: ports_ok_def) (metis nth_list_update_neq)
  ultimately have "switch_ok env nc now (put_back b buf' ?s)"
    using ok u sent(1) ids unfolding switch_ok_def put_back_fields by (simp add: port_of_def outs_ready_def)
  moreover have "deliveries (put_back b buf' ?s) = deliveries (put_back b buf s)"
    using deliveries_put [of b ?s buf'] b sent(4) ids by simp
  ultimately show ?thesis by (simp add: forwarded_def same_ports_def)
qed

lemma switch_ok_in:
  assumes "switch_ok env nc now (put_back b buf s)" "b \<in> in_ids (ss_switch s)"
  shows "in_ready now buf" "mb_wf buf" "m \<in> set (m_prio_heap buf) \<Longrightarrow> dest_wf nc (Destination m) \<and> dest_els (Destination m) \<subseteq> reach (m_links (ss_routing s))"
proof -
  have "\<forall>i\<in>in_ids (ss_switch s). in_ok nc now (reach (m_links (ss_routing s))) (ss_bufs (put_back b buf s) i)"
    using assms(1) unfolding switch_ok_def put_back_fields(1,2) by blast
  from bspec [OF this assms(2)] have "in_ok nc now (reach (m_links (ss_routing s))) buf" by simp
  then show "in_ready now buf" "mb_wf buf" "m \<in> set (m_prio_heap buf) \<Longrightarrow> dest_wf nc (Destination m) \<and> dest_els (Destination m) \<subseteq> reach (m_links (ss_routing s))"
    by (simp_all add: in_ok_def)
qed

lemma forward_step_ok:
  assumes ok: "switch_ok env nc now (put_back b buf s)" and b: "b \<in> in_ids (ss_switch s)" and v: "v < ps_virtual_networks (ss_switch s)"
      "v < length (m_in_prio_groups (ss_switch s))"
  shows "\<exists>go buf' s'. forward_step env ct now v (buf, s) = Some (go, buf', s') \<and> forwarded env nc now (put_back b buf s) (put_back b buf' s')"
proof -
  let ?p = "ss_switch s"
  have p: "ports_ok ?p" "routing_wf nc (ss_routing s)" "v < length (se_ordered env)" "\<And>k. k \<in> li_link_id ` set (m_links (ss_routing s)) \<Longrightarrow> port_of v ?p k"
    using ok v(1) unfolding switch_ok_def put_back_fields by auto
  obtain r es where r: "mb_isReady now buf = Some (r, es)" using isReady_defined switch_ok_in(1) [OF ok b] by blast
  let ?s0 = "s\<lparr>ss_effects := ss_effects s @ es\<rparr>"
  show ?thesis
  proof (cases r)
    case False
    then have "forward_step env ct now v (buf, s) = Some (False, buf, ?s0)" using r by (simp add: forward_step_def)
    moreover have "forwarded env nc now (put_back b buf s) (put_back b buf ?s0)" using p(2) by (intro forwarded_same [OF ok b]) (simp_all add: buf_same_refl)
    ultimately show ?thesis by blast
  next
    case True
    with r have rt: "mb_isReady now buf = Some (True, es)" by simp
    from dequeue_ready [OF rt switch_ok_in(1) [OF ok b], of ct] obtain msg m buf' es1 where
      deq: "dequeue ct now True buf = Some (m, buf', es1)" and front: "heap_front (m_prio_heap buf) = Some msg" by auto
    have "msg \<in> set (m_prio_heap buf)" using front by (auto simp: heap_front_def split: list.splits if_splits)
    from switch_ok_in(3) [OF ok b this] have dst: "dest_wf nc (Destination msg)" "dest_els (Destination msg) \<subseteq> reach (m_links (ss_routing s))" by simp_all
    from route_facts [OF p(2) dst, of "se_route_rnd env (ss_routes s)" now "se_ordered env ! v" "ss_bufs s" "msg_payload msg"]
    obtain links u bufs where route: "WeightBased_route (se_route_rnd env (ss_routes s)) now (se_ordered env ! v) msg (ss_routing s, ss_bufs s) = Some (links, u, bufs)"
      and u: "routing_wf nc u" "reach (m_links u) = reach (m_links (ss_routing s))" "li_link_id ` set (m_links u) = li_link_id ` set (m_links (ss_routing s))"
      and l: "distinct (map snd links)" "set (map snd links) \<subseteq> li_link_id ` set (m_links (ss_routing s))"
        "(\<Sum>(d, k)\<leftarrow>links. parts (msg_payload msg) d) = parts (msg_payload msg) (Destination msg)" by blast
    have ports: "\<forall>(d, k)\<in>set links. port_of v ?p k" using l(2) p(4) by auto
    from check_links_defined [OF ports, of now True bufs] obtain e bufs1 where
      chk: "for_list (check_link now v ?p) links (True, bufs) = Some (e, bufs1)" "\<forall>i. buf_same (bufs i) (bufs1 i)"
        "e = (True \<and> (\<forall>(d, k)\<in>set links. fst (areNSlotsAvailable 1 now (bufs (port_buf v ?p k)))))" by blast
    have same: "buf_same (ss_bufs s i) (bufs1 i)" for i using buf_same_trans route_same [OF route] chk(2) by blast
    let ?s1 = "?s0\<lparr>ss_routing := u, ss_bufs := bufs1, ss_routes := Suc (ss_routes s)\<rparr>"
    show ?thesis
    proof (cases e)
      case False
      let ?s2 = "?s1\<lparr>ss_effects := ss_effects ?s1 @ [WakeNext (CPerfectSwitch (ps_switch_id ?p))]\<rparr>"
      have "forward_step env ct now v (buf, s) = Some (False, buf, ?s2)"
        using rt front p(3) route chk(1) False by (simp add: forward_step_def at_def)
      moreover have "forwarded env nc now (put_back b buf s) (put_back b buf ?s2)"
        using u same by (intro forwarded_same [OF ok b]) simp_all
      ultimately show ?thesis by blast
    next
      case True
      have "\<forall>(d, k)\<in>set links. fst (areNSlotsAvailable 1 now (bufs1 (port_buf v ?p k)))"
        using chk(2,3) True buf_same_facts(6) by (metis (mono_tags, lifting) case_prodD case_prodI2)
      from sent_copies [OF ok b v(1) deq front l(1) ports this l(3) same] obtain bufs2 es2 where
        sent: "for_list (send_copy env now v ?p) (message_copies m msg links) (bufs1, []) = Some (bufs2, es2)"
          "outs_ready now ?p (bufs2(b := buf'))" "\<forall>i. i \<notin> set (out_ids ?p) \<longrightarrow> bufs2 i = bufs1 i" "in_ok nc now (reach (m_links (ss_routing s))) buf'"
          "carried buf' + (\<Sum>i\<in>in_ids ?p \<union> set (out_ids ?p) - {b}. carried (bufs2 i)) = deliveries (put_back b buf s)" by blast
      have len: "v < length (m_pending_message_count ?p)" using p(1) v(1) by (simp add: ports_ok_def)
      let ?p' = "?p\<lparr>m_pending_message_count := (m_pending_message_count ?p)[v := m_pending_message_count ?p ! v - 1]\<rparr>"
      let ?s2 = "?s1\<lparr>ss_switch := ?p', ss_bufs := bufs2, ss_effects := ss_effects ?s1 @ es1 @ es2\<rparr>"
      have "forward_step env ct now v (buf, s) = Some (True, buf', ?s2)"
        using rt front p(3) route chk(1) True deq len sent(1) by (simp add: forward_step_def at_def)
      moreover have "forwarded env nc now (put_back b buf s) (put_back b buf' ?s2)"
        by (rule forwarded_sent [OF ok b v(2) u same sent(2-5)])
      ultimately show ?thesis by blast
    qed
  qed
qed

lemma forward_loop_ok:
  assumes "switch_ok env nc now (put_back b buf s)" "b \<in> in_ids (ss_switch s)" "v < ps_virtual_networks (ss_switch s)"
    "v < length (m_in_prio_groups (ss_switch s))"
  shows "\<exists>buf' s'. forward_loop env ct now v buf s = Some (buf', s') \<and> forwarded env nc now (put_back b buf s) (put_back b buf' s')"
  using assms
proof (induction env ct now v buf s rule: forward_loop.induct)
  case (1 env ct now v buf s)
  from forward_step_ok [OF "1.prems", of ct] obtain go buf1 s1 where
    st: "forward_step env ct now v (buf, s) = Some (go, buf1, s1)" "forwarded env nc now (put_back b buf s) (put_back b buf1 s1)" by blast
  show ?case
  proof (cases go)
    case True
    have sp: "same_ports s s1" "switch_ok env nc now (put_back b buf1 s1)" using st(2) by (simp_all add: forwarded_def same_ports_def)
    have "b \<in> in_ids (ss_switch s1)" "v < ps_virtual_networks (ss_switch s1)" "v < length (m_in_prio_groups (ss_switch s1))"
      using sp(1) same_ids [OF sp(1)] "1.prems"(2-4) by (simp_all add: same_ports_def)
    from "1.IH" [OF st(1) refl refl True sp(2) this] obtain buf' s' where
      l: "forward_loop env ct now v buf1 s1 = Some (buf', s')" "forwarded env nc now (put_back b buf1 s1) (put_back b buf' s')" by blast
    then have "forward_loop env ct now v buf s = Some (buf', s')" using st(1) True by (subst forward_loop.simps) simp
    then show ?thesis using forwarded_trans [OF st(2) l(2)] by blast
  next
    case False
    then have "forward_loop env ct now v buf s = Some (buf1, s1)" using st(1) by (subst forward_loop.simps) simp
    then show ?thesis using st(2) by blast
  qed
qed

lemma put_back_self: "put_back b (ss_bufs s b) s = s"
  by (cases s) (simp add: put_back_def)

lemma operateMessageBuffer_ok:
  assumes "switch_ok env nc now s" "b \<in> in_ids (ss_switch s)" "v < ps_virtual_networks (ss_switch s)" "v < length (m_in_prio_groups (ss_switch s))"
  shows "\<exists>s'. operateMessageBuffer env ct now v b s = Some s' \<and> forwarded env nc now s s'"
proof -
  have "switch_ok env nc now (put_back b (ss_bufs s b) s)" using assms(1) by (simp only: put_back_self)
  from forward_loop_ok [OF this assms(2-4), of ct] obtain buf' s' where
    "forward_loop env ct now v (ss_bufs s b) s = Some (buf', s')" "forwarded env nc now s (put_back b buf' s')" by (auto simp: put_back_self)
  then show ?thesis by (simp add: operateMessageBuffer_def put_back_def)
qed

text \<open>A sequence of operations each of which forwards.\<close>

lemma for_list_forwarded:
  assumes "switch_ok env nc now s"
    and "\<And>x s'. x \<in> set xs \<Longrightarrow> switch_ok env nc now s' \<Longrightarrow> same_ports s s' \<Longrightarrow> \<exists>s''. f x s' = Some s'' \<and> forwarded env nc now s' s''"
  shows "\<exists>s'. for_list f xs s = Some s' \<and> forwarded env nc now s s'"
  using assms
proof (induction xs arbitrary: s)
  case Nil
  then show ?case by (simp add: forwarded_refl)
next
  case (Cons x xs)
  obtain s1 where s1: "f x s = Some s1" "forwarded env nc now s s1" using Cons.prems(2) [of x s] Cons.prems(1) by (auto simp: same_ports_def)
  have "\<exists>s''. f y s' = Some s'' \<and> forwarded env nc now s' s''" if "y \<in> set xs" "switch_ok env nc now s'" "same_ports s1 s'" for y s'
    using Cons.prems(2) [of y s'] that s1(2) by (simp add: forwarded_def same_ports_def)
  with Cons.IH [of s1] s1(2) obtain s' where "for_list f xs s1 = Some s'" "forwarded env nc now s1 s'" by (auto simp: forwarded_def)
  then show ?case using s1 forwarded_trans by auto
qed

lemma operateVnet_ok:
  assumes "switch_ok env nc now s" "v < ps_virtual_networks (ss_switch s)"
  shows "\<exists>s'. PerfectSwitch_operateVnet env ct now v s = Some s' \<and> forwarded env nc now s s'"
proof -
  let ?p = "ss_switch s"
  have p: "ports_ok ?p" using assms(1) by (simp add: switch_ok_def)
  then have n: "v < length (m_pending_message_count ?p)" using assms(2) by (simp add: ports_ok_def)
  show ?thesis
  proof (cases "m_pending_message_count ?p ! v = 0")
    case True
    then show ?thesis using n forwarded_refl [OF assms(1)] by (simp add: PerfectSwitch_operateVnet_def at_def)
  next
    case False
    then have v: "v < length (m_in_prio_groups ?p)" using p assms(2) by (auto simp: ports_ok_def)
    have group: "\<exists>s''. operate_group env ct now v g s' = Some s'' \<and> forwarded env nc now s' s''"
      if g: "g \<in> set (m_in_prio_groups ?p ! v)" and s': "switch_ok env nc now s'" "same_ports s s'" for g s'
      unfolding operate_group_def Let_def
    proof (rule for_list_forwarded [OF s'(1)])
      fix i s'' assume i: "i \<in> set [0..<length g]" and s'': "switch_ok env nc now s''" "same_ports s' s''"
      let ?b = "g ! ((i + oldest_port (ss_bufs s') g) mod length g)"
      have "?b \<in> set g" using i by (auto intro!: nth_mem mod_less_divisor)
      then have "?b \<in> in_ids ?p" using g v by (auto simp: in_ids_def intro!: bexI [of _ "m_in_prio_groups ?p ! v"] bexI [of _ g])
      moreover have sp: "same_ports s s''" using s'(2) s''(2) by (simp add: same_ports_def)
      ultimately show "\<exists>t. operateMessageBuffer env ct now v ?b s'' = Some t \<and> forwarded env nc now s'' t"
        using assms(2) v same_ids [OF sp] by (intro operateMessageBuffer_ok [OF s''(1)]) (simp_all add: same_ports_def)
    qed
    have "\<exists>s'. for_list (operate_group env ct now v) (m_in_prio_groups ?p ! v) s = Some s' \<and> forwarded env nc now s s'"
      by (rule for_list_forwarded [OF assms(1)]) (rule group)
    then show ?thesis using n v False by (simp add: PerfectSwitch_operateVnet_def at_def)
  qed
qed

subsection \<open>Priorities\<close>

lemma group_equal: "\<forall>b\<in>set bs. prio b = c \<Longrightarrow> fold (group_buffer prio c) bs [g] = [g @ bs]"
  by (induction bs arbitrary: g) (simp_all add: group_buffer_def)

lemma group_others: "\<forall>b\<in>set bs. prio b \<noteq> c \<Longrightarrow> fold (group_buffer prio c) bs gs = gs @ map (\<lambda>b. [b]) bs"
  by (induction bs arbitrary: gs) (simp_all add: group_buffer_def)

text \<open>The groups hold every buffer once, in the order of the priorities.  But only those of the lowest priority
  are together: \<^verbatim>\<open>cur_prio\<close> is not updated when a group begins, so that each of the others is in a group of its own, also
  those of equal priority, and among these the one with the oldest message is not served first.\<close>

lemma priority_groups_split:
  assumes "sorted (map prio bs)"
  shows "concat (priority_groups prio bs) = bs"
    "priority_groups prio bs = filter (\<lambda>b. prio b = prio (hd bs)) bs # map (\<lambda>b. [b]) (filter (\<lambda>b. prio b \<noteq> prio (hd bs)) bs)"
proof -
  let ?c = "prio (hd bs)"
  have "\<exists>xs ys. bs = xs @ ys \<and> (\<forall>b\<in>set xs. prio b = ?c) \<and> (\<forall>b\<in>set ys. prio b \<noteq> ?c)"
  proof (intro exI conjI)
    show "bs = takeWhile (\<lambda>b. prio b = ?c) bs @ dropWhile (\<lambda>b. prio b = ?c) bs" by simp
    show "\<forall>b\<in>set (takeWhile (\<lambda>b. prio b = ?c) bs). prio b = ?c" by (auto dest: set_takeWhileD)
    show "\<forall>b\<in>set (dropWhile (\<lambda>b. prio b = ?c) bs). prio b \<noteq> ?c"
    proof (cases "dropWhile (\<lambda>b. prio b = ?c) bs")
      case (Cons y ys)
      have y: "prio y \<noteq> ?c" "y \<in> set bs" using Cons hd_dropWhile [of "\<lambda>b. prio b = ?c" bs] set_dropWhileD [of y "\<lambda>b. prio b = ?c" bs] by auto
      have "?c \<le> prio y" using assms y(2) by (cases bs) auto
      moreover have "sorted (map prio (y # ys))" using assms Cons
        by (metis dropWhile_eq_drop drop_map sorted_wrt_drop)
      ultimately show ?thesis using Cons y(1) by auto
    next
      case Nil
      show ?thesis unfolding Nil by simp
    qed
  qed
  then obtain xs ys where b: "bs = xs @ ys" "\<forall>b\<in>set xs. prio b = ?c" "\<forall>b\<in>set ys. prio b \<noteq> ?c" by blast
  have "priority_groups prio bs = xs # map (\<lambda>b. [b]) ys"
    unfolding priority_groups_def by (subst (2) b(1)) (simp add: group_equal [OF b(2)] group_others [OF b(3)])
  moreover have "filter (\<lambda>b. prio b = ?c) bs = xs" "filter (\<lambda>b. prio b \<noteq> ?c) bs = ys"
    using b(2,3) by (subst (2) b(1), simp add: filter_id_conv filter_empty_conv)+
  ultimately show "concat (priority_groups prio bs) = bs"
    "priority_groups prio bs = filter (\<lambda>b. prio b = ?c) bs # map (\<lambda>b. [b]) (filter (\<lambda>b. prio b \<noteq> ?c) bs)"
    using b(1) by (simp_all add: concat_map_singleton)
qed

subsection \<open>A switch with two links\<close>

definition ex_switch :: "PerfectSwitch \<times> WeightBased \<times> buf_store" where
  "ex_switch = the (do {
     let bufs = (\<lambda>i :: nat. MessageBuffer_new 0 0 True rand_disabled False 0);
     let p0 = PerfectSwitch_init (PerfectSwitch_new 0 1);
     (p1, bufs1) \<leftarrow> PerfectSwitch_addInPort [Some 0] (p0, bufs);
     (p2, u2) \<leftarrow> PerfectSwitch_addOutPort [1] (ex_dest 1 0) 1 1 (p1, \<lparr>adaptive_routing = True, m_links = []\<rparr>);
     (p3, u3) \<leftarrow> PerfectSwitch_addOutPort [2] (ex_dest 3 5) 1 1 (p2, u2);
     p4 \<leftarrow> PerfectSwitch_storeEventInfo 0 p3;
     Some (p4, u3, bufs1) })"

definition ex_switch_msg :: Message where
  "ex_switch_msg = Message_new 10 (ex_dest 3 5) Control 7"

definition ex_switch_state :: switch_state where
  "ex_switch_state = (case ex_switch of (p, u, bufs) \<Rightarrow>
     \<lparr>ss_switch = p, ss_routing = u,
      ss_bufs = (\<lambda>i. if i = 0 then (bufs 0)\<lparr>m_prio_heap := [ex_switch_msg]\<rparr> else (bufs i)\<lparr>mb_consumer := Some (CThrottle 0 (i - 1))\<rparr>),
      ss_routes = 0, ss_effects = []\<rparr>)"

definition ex_switch_env :: switch_env where
  "ex_switch_env = \<lparr>se_ordered = [False], se_randomization = False, se_warmup = False, se_rnd = (\<lambda>_. (0, 0, 0)), se_route_rnd = (\<lambda>_ _. 0)\<rparr>"

lemma ex_switch_is:
  "ex_switch = (\<lparr>ps_switch_id = 0, ps_in = [[Some 0]], ps_out = [\<lparr>op_latency = 1, op_buffers = [1]\<rparr>, \<lparr>op_latency = 1, op_buffers = [2]\<rparr>],
      m_in_prio = [[0]], m_in_prio_groups = [[[0]]], ps_virtual_networks = 1, ps_wakeups_wo_switch = 0, m_pending_message_count = [1]\<rparr>,
    \<lparr>adaptive_routing = True, m_links = [\<lparr>li_link_id = 0, m_routing_entry = ex_dest 1 0, m_out_buffers = [1], m_order = 0, li_weight = 1\<rparr>,
      \<lparr>li_link_id = 1, m_routing_entry = ex_dest 3 5, m_out_buffers = [2], m_order = 0, li_weight = 1\<rparr>]\<rparr>,
    (\<lambda>i. MessageBuffer_new 0 0 True rand_disabled False 0)(0 := (MessageBuffer_new 0 0 True rand_disabled False 0)\<lparr>mb_consumer := Some (CPerfectSwitch 0)\<rparr>))"
  by (simp add: ex_switch_def PerfectSwitch_init_def PerfectSwitch_new_def PerfectSwitch_addInPort_def add_in_buffer_def setConsumer_def
      MessageBuffer_new_def setVnet_def setIncomingLink_def updatePriorityGroups_def grow_def priority_groups_def group_buffer_def Let_def
      PerfectSwitch_addOutPort_def WeightBased_addOutPort_def sortLinks_def link_key_def PerfectSwitch_storeEventInfo_def at_def)

text \<open>C0. The switches of the simple network neither lose nor duplicate a delivery.  A wakeup of a switch returns, when every
  destination of the messages in its input buffers is reached by one of its links, and afterwards its buffers hold
  exactly the same pairs of a message and one of its destinations as before: every message that was taken out of an input
  buffer is, with its destinations divided, in the buffers of its links, and a message for which one of these had no room is
  still where it was.\<close>
theorem switch_conserves_deliveries:
  assumes "switch_ok env nc now s"
  shows "\<exists>s'. PerfectSwitch_wakeup env curTick now s = Some s' \<and> deliveries s' = deliveries s \<and> switch_ok env nc now s'"
proof -
  let ?p = "\<lambda>n. (ss_switch s)\<lparr>ps_wakeups_wo_switch := n\<rparr>"
  let ?s = "\<lambda>n. s\<lparr>ss_switch := ?p n\<rparr>"
  have sp: "same_ports s (?s n)" for n by (simp add: same_ports_def)
  have ok: "switch_ok env nc now (?s n)" for n
    using assms same_ids [OF sp, of n] by (simp add: switch_ok_def ports_ok_def port_of_def outs_ready_def)
  have d: "deliveries (?s n) = deliveries s" for n using same_ids [OF sp, of n] by (simp add: deliveries_def)
  have run: "\<exists>s'. for_list (PerfectSwitch_operateVnet env curTick now) vs (?s n) = Some s' \<and> deliveries s' = deliveries s \<and> switch_ok env nc now s'"
    if "\<forall>v\<in>set vs. v < ps_virtual_networks (ss_switch s)" for vs n
  proof -
    have "\<exists>s'. for_list (PerfectSwitch_operateVnet env curTick now) vs (?s n) = Some s' \<and> forwarded env nc now (?s n) s'"
      by (rule for_list_forwarded [OF ok]) (use that in \<open>simp add: operateVnet_ok same_ports_def\<close>)
    then show ?thesis using d by (auto simp: forwarded_def)
  qed
  show ?thesis using run [of "[0..<ps_virtual_networks (ss_switch s)]" 0]
      run [of "rev [0..<ps_virtual_networks (ss_switch s)]" "ps_wakeups_wo_switch (ss_switch s) + 1"]
    by (simp add: PerfectSwitch_wakeup_def Let_def)
qed

theorem switch_conserves_deliveries_witness:
  "\<exists>s'. PerfectSwitch_wakeup ex_switch_env 10 10 ex_switch_state = Some s' \<and> deliveries s' = deliveries ex_switch_state
    \<and> (7, 0, 0) \<in># deliveries ex_switch_state"
proof -
  have bufs: "accepts 10 1 (ss_bufs ex_switch_state i) \<and> slots_ok 10 (ss_bufs ex_switch_state i) \<and> mb_wf (ss_bufs ex_switch_state i)" if "i \<noteq> 0" for i
    using that by (simp add: ex_switch_state_def ex_switch_is accepts_def MessageBuffer_new_def slots_ok_def occupied_def mb_wf_def is_heap_def stalled_def)
  have d: "dest_wf [2, 3] (ex_dest 1 0)" "dest_wf [2, 3] (ex_dest 3 5)" using ex_dest_wf [of 1 0] ex_dest_wf [of 3 5] by simp_all
  have b0: "in_ok [2, 3] 10 (reach (m_links (ss_routing ex_switch_state))) (ss_bufs ex_switch_state 0)"
    using d by (auto simp: ex_switch_state_def ex_switch_is in_ok_def in_ready_def mb_wf_def is_heap_def stalled_def MessageBuffer_new_def
        ex_switch_msg_def Message_new_def reach_def)
  have ids: "in_ids (ss_switch ex_switch_state) = {0}" "out_ids (ss_switch ex_switch_state) = [1, 2]"
    by (simp_all add: ex_switch_state_def ex_switch_is in_ids_def out_ids_def)
  have "outs_ready 10 (ss_switch ex_switch_state) (ss_bufs ex_switch_state)" using bufs [of 1] bufs [of 2]
    by (simp add: outs_ready_def out_ready_def) (simp add: ex_switch_state_def ex_switch_is)
  moreover have "ports_ok (ss_switch ex_switch_state)" using ids by (simp add: ports_ok_def) (simp add: ex_switch_state_def ex_switch_is)
  moreover have "routing_wf [2, 3] (ss_routing ex_switch_state)" using d by (simp add: routing_wf_def ex_switch_state_def ex_switch_is link_key_def)
  moreover have "port_of 0 (ss_switch ex_switch_state) k" if "k < 2" for k using that
    by (auto simp: port_of_def ex_switch_state_def ex_switch_is less_2_cases_iff)
  ultimately have "switch_ok ex_switch_env [2, 3] 10 ex_switch_state" using b0 ids(1)
    by (simp add: switch_ok_def ex_switch_env_def) (simp add: ex_switch_state_def ex_switch_is)
  moreover have "(0, 0) \<in> dest_els (ex_dest 3 5)" by (simp add: dest_els_def ex_dest_def set_els_def bit_0)
  then have "(7, 0, 0) \<in># carried (ss_bufs ex_switch_state 0)"
    by (simp add: carried_def ex_switch_state_def ex_switch_is ex_switch_msg_def Message_new_def parts_def finite_dest_els)
  then have "(7, 0, 0) \<in># deliveries ex_switch_state" by (simp add: deliveries_def ids)
  ultimately show ?thesis using switch_conserves_deliveries [of ex_switch_env "[2, 3]" 10 ex_switch_state 10] by blast
qed

end
