(* ===== verification/Spec2Isabelle.thy ===== *)
theory Spec2Isabelle
  imports Functional_Access Network_Stats Switch_Deliveries
begin

text \<open>
  A verification library for the parallel Garnet network of \<^verbatim>\<open>src/FinalProject/gem5\<close>.
\<close>

end
